(* ===== verification/Prelude.thy ===== *)
theory Prelude
  imports Complex_Main "HOL-Library.AList" "HOL-Library.Char_ord" "HOL-Library.List_Lexorder"
    "HOL-Library.Product_Lexorder" "HOL-Library.Sublist"
begin

text \<open>
  Shared vocabulary of the development.

  \<^item> Python exceptions are values: \<open>exn\<close> names the exception classes the modelled code raises, each
    with its message text (most interpolated values are left out of it), and a fallible
    function returns \<open>exn + 'a\<close>.
  \<^item> A \<open>datetime\<close> is either timezone-aware (the instant in microseconds since the epoch and the UTC
    offset in seconds) or naive (local microseconds). Python compares aware values by instant.
  \<^item> A finite \<open>float\<close> is the decimal number its \<open>repr\<close> writes, a \<open>Decimal\<close> the number it denotes; both
    are rationals, so \<open>str\<close>, \<open>Decimal\<close> and \<open>float\<close> convert without loss.
  \<^item> A Python dict is an association list in insertion order: \<open>AList.update\<close> overwrites in place or
    appends, \<open>AList.delete\<close> is \<open>pop\<close>, \<open>map_of\<close> is \<open>get\<close>.
  \<^item> \<open>sorted_set\<close> is \<open>tuple(sorted(set(...)))\<close>; \<open>consecutive\<close> says a list of sequence numbers
    steps by one.
\<close>

named_theorems dict_simps and row_simps and result_simps

section \<open>Exceptions as values\<close>

datatype exn =
    ValueError string
  | KeyError string
  | TypeError string
  | RuntimeError string
  | FileExistsError string
  | FileNotFoundError string
  | TapeIntegrityError string
  | DatasetUnavailableError string
  | DatasetAlreadyActiveError string
  | LiveStreamProtocolError string
  | DhanProtocolError string
  | DhanFatalStreamError string
  | DhanAPIError string
  | HeartbeatTimeout string
  | LiveStreamUnavailableError string
  | IndexError string
  | ConnectionError string
  | PermissionError string
  | AssertionError string
  | InvalidOperation string
  | OverflowError string

type_synonym 'a result = "exn + 'a"

definition bind_result :: "'a result \<Rightarrow> ('a \<Rightarrow> 'b result) \<Rightarrow> 'b result" where
  "bind_result m f = (case m of Inl e \<Rightarrow> Inl e | Inr x \<Rightarrow> f x)"

lemma bind_result_simps [simp]:
  "bind_result (Inl e) f = Inl e"
  "bind_result (Inr x) f = f x"
  by (simp_all add: bind_result_def)

lemma bind_result_Inr [result_simps]:
  "bind_result m f = Inr y \<longleftrightarrow> (\<exists>x. m = Inr x \<and> f x = Inr y)"
  by (cases m) simp_all

text \<open>\<open>returns m P\<close>: whatever \<open>m\<close> returns satisfies \<open>P\<close>; it distributes over the sequencing.\<close>

definition returns :: "'a result \<Rightarrow> ('a \<Rightarrow> bool) \<Rightarrow> bool" where
  "returns m P = (case m of Inl e \<Rightarrow> True | Inr x \<Rightarrow> P x)"

lemma returns_Inl [simp]: "returns (Inl e) P"
  by (simp add: returns_def)

lemma returns_Inr [simp]: "returns (Inr x) P \<longleftrightarrow> P x"
  by (simp add: returns_def)

lemma returns_bind: "(\<And>x. m = Inr x \<Longrightarrow> returns (f x) P) \<Longrightarrow> returns (bind_result m f) P"
  by (cases m) simp_all

lemma returnsD: "returns m P \<Longrightarrow> m = Inr x \<Longrightarrow> P x"
  by simp

text \<open>\<open>first_error\<close> is a sequence of guarded raises: the first condition that holds decides.\<close>

fun first_error :: "(bool \<times> exn) list \<Rightarrow> exn option" where
  "first_error [] = None"
| "first_error ((bad, e) # rest) = (if bad then Some e else first_error rest)"

lemma first_error_None: "first_error cs = None \<longleftrightarrow> (\<forall>(bad, e) \<in> set cs. \<not> bad)"
  by (induction cs rule: first_error.induct) auto

text \<open>A list comprehension whose element expression may raise.\<close>

fun map_result :: "('a \<Rightarrow> 'b result) \<Rightarrow> 'a list \<Rightarrow> 'b list result" where
  "map_result f [] = Inr []"
| "map_result f (x # xs) =
     bind_result (f x) (\<lambda>y. bind_result (map_result f xs) (\<lambda>ys. Inr (y # ys)))"

lemma map_result_Inr:
  "map_result f xs = Inr ys \<longleftrightarrow> list_all2 (\<lambda>x y. f x = Inr y) xs ys"
  by (induction xs arbitrary: ys) (auto simp: bind_result_Inr list_all2_Cons1)

lemma map_result_map: "(\<And>x. x \<in> set xs \<Longrightarrow> f (g x) = Inr (h x)) \<Longrightarrow>
    map_result f (map g xs) = Inr (map h xs)"
  by (induction xs) simp_all

text \<open>A \<open>for\<close> loop over a state whose body may raise.\<close>

fun fold_result :: "('s \<Rightarrow> 'e \<Rightarrow> 's result) \<Rightarrow> 's \<Rightarrow> 'e list \<Rightarrow> 's result" where
  "fold_result f s [] = Inr s"
| "fold_result f s (e # es) = bind_result (f s e) (\<lambda>s'. fold_result f s' es)"

lemma fold_result_append:
  "fold_result f s (xs @ ys) = bind_result (fold_result f s xs) (\<lambda>s'. fold_result f s' ys)"
proof (induction xs arbitrary: s)
  case (Cons x xs)
  then show ?case by (cases "f s x") simp_all
qed simp

lemma fold_result_invariant:
  assumes run: "fold_result f s es = Inr s'" and start: "P s"
    and step: "\<And>s e s'. P s \<Longrightarrow> f s e = Inr s' \<Longrightarrow> P s'"
  shows "P s'"
  using run start
proof (induction es arbitrary: s)
  case (Cons e es)
  from Cons.prems(1) obtain s1 where s1: "f s e = Inr s1" "fold_result f s1 es = Inr s'"
    unfolding fold_result.simps bind_result_Inr by blast
  show ?case by (rule Cons.IH [OF s1(2) step [OF Cons.prems(2) s1(1)]])
qed simp

section \<open>Floats\<close>

text \<open>A float that may be infinite (negative or not) or not a number.\<close>

datatype fval = Finite rat | Infinite bool | NaN

section \<open>Files\<close>

text \<open>A directory maps the names of its files to their contents.\<close>

type_synonym directory = "(string \<times> string) list"

text \<open>\<open>Path.suffix\<close> of a file name: from its last dot, unless the name starts or ends there.\<close>

definition path_suffix :: "string \<Rightarrow> string" where
  "path_suffix name =
     (let after = rev (takeWhile (\<lambda>c. c \<noteq> CHR ''.'') (rev name)); i = length name - length after - 1 in
      if CHR ''.'' \<in> set name \<and> 0 < i \<and> after \<noteq> [] then CHR ''.'' # after else [])"

section \<open>Strings\<close>

definition py_isspace :: "char \<Rightarrow> bool" where
  "py_isspace c =
     (let n = (of_char c :: nat)
      in 9 \<le> n \<and> n \<le> 13 \<or> 28 \<le> n \<and> n \<le> 32 \<or> n = 133 \<or> n = 160)"

definition py_strip :: "string \<Rightarrow> string" where
  "py_strip s = rev (dropWhile py_isspace (rev (dropWhile py_isspace s)))"

lemma dropWhile_hd_id: "xs = [] \<or> \<not> P (hd xs) \<Longrightarrow> dropWhile P xs = xs"
  by (cases xs) auto

lemma py_strip_idem [simp]: "py_strip (py_strip s) = py_strip s"
proof -
  define t where "t = dropWhile py_isspace s"
  define v where "v = dropWhile py_isspace (rev t)"
  have hd: "dropWhile P xs = [] \<or> \<not> P (hd (dropWhile P xs))" for P and xs :: string
    using hd_dropWhile by blast
  have "rev v = [] \<or> \<not> py_isspace (hd (rev v))"
  proof (cases "v = []")
    case False
    have "suffix v (rev t)" by (simp add: v_def suffix_dropWhile)
    then have "last v = last (rev t)" "rev t \<noteq> []" using False by (auto simp: suffix_def)
    then have "hd (rev v) = hd t" using False by (simp add: hd_rev last_rev)
    with hd [of py_isspace s] \<open>rev t \<noteq> []\<close> show ?thesis
      unfolding t_def by (metis rev.simps(1))
  qed simp
  then have "dropWhile py_isspace (rev v) = rev v" by (rule dropWhile_hd_id)
  moreover have "dropWhile py_isspace v = v"
    using hd [of py_isspace "rev t"] by (intro dropWhile_hd_id) (simp add: v_def)
  ultimately show ?thesis by (simp add: py_strip_def v_def t_def)
qed

definition py_upper_char :: "char \<Rightarrow> char" where
  "py_upper_char c =
     (let n = (of_char c :: nat) in if 97 \<le> n \<and> n \<le> 122 then char_of (n - 32) else c)"

definition py_upper :: "string \<Rightarrow> string" where
  "py_upper s = map py_upper_char s"

definition is_lower_hex :: "string \<Rightarrow> bool" where
  "is_lower_hex s = list_all (\<lambda>c. c \<in> set ''0123456789abcdef'') s"

definition is_sha256 :: "string \<Rightarrow> bool" where
  "is_sha256 s \<longleftrightarrow> length s = 64 \<and> is_lower_hex s"

text \<open>\<open>text.split(c)\<close>.\<close>

fun split_on :: "char \<Rightarrow> string \<Rightarrow> string list" where
  "split_on c [] = [[]]"
| "split_on c (x # xs) =
     (if x = c then [] # split_on c xs
      else (case split_on c xs of [] \<Rightarrow> [[x]] | p # ps \<Rightarrow> (x # p) # ps))"

lemma split_on_nonempty [simp]: "split_on c s \<noteq> []"
  by (cases s) (auto split: list.split)

text \<open>Splitting may stop anywhere and resume with the unfinished piece.\<close>

lemma split_on_append:
  "split_on c (xs @ ys) = butlast (split_on c xs) @ split_on c (last (split_on c xs) @ ys)"
proof (induction xs)
  case (Cons x xs)
  obtain p ps where xs: "split_on c xs = p # ps" by (cases "split_on c xs") simp_all
  then show ?case using Cons by (cases "x = c"; cases ps) simp_all
qed simp

lemma split_on_unit: "split_on c s = [[]] \<Longrightarrow> s = []"
proof (cases s)
  case (Cons x xs)
  assume unit: "split_on c s = [[]]"
  obtain p ps where "split_on c xs = p # ps" by (cases "split_on c xs") simp_all
  with unit Cons show ?thesis by (cases "x = c") simp_all
qed

text \<open>Decimal numerals, and \<open>:0Nd\<close> padding.\<close>

fun dec_digits :: "nat \<Rightarrow> string" where
  "dec_digits n = (if n < 10 then [char_of (48 + n)] else dec_digits (n div 10) @ [char_of (48 + n mod 10)])"

declare dec_digits.simps [simp del]

definition zero_pad :: "nat \<Rightarrow> nat \<Rightarrow> string" where
  "zero_pad w n = replicate (w - length (dec_digits n)) CHR ''0'' @ dec_digits n"

text \<open>\<open>sep.join(parts)\<close>.\<close>

fun join_with :: "string \<Rightarrow> string list \<Rightarrow> string" where
  "join_with sep [] = []"
| "join_with sep [p] = p"
| "join_with sep (p # q # ps) = p @ sep @ join_with sep (q # ps)"

section \<open>Joining and splitting\<close>

lemma split_on_append_sep:
  "c \<notin> set p \<Longrightarrow> split_on c (p @ c # s) = p # split_on c s"
  by (induction p) (auto split: list.split)

lemma split_on_free: "c \<notin> set p \<Longrightarrow> split_on c p = [p]"
  by (induction p) auto

lemma split_on_join:
  "ps \<noteq> [] \<Longrightarrow> (\<And>p. p \<in> set ps \<Longrightarrow> c \<notin> set p) \<Longrightarrow> split_on c (join_with [c] ps) = ps"
proof (induction ps)
  case (Cons p ps)
  have p: "c \<notin> set p" by (rule Cons.prems(2)) simp
  show ?case
  proof (cases ps)
    case more: (Cons q qs)
    have "split_on c (join_with [c] ps) = ps"
      by (rule Cons.IH) (use more Cons.prems(2) in auto)
    with split_on_append_sep [OF p] show ?thesis unfolding more by simp
  qed (use split_on_free [OF p] in simp)
qed simp

lemma join_with_eq_iff:
  assumes "ps \<noteq> []" and "qs \<noteq> []"
    and "\<And>p. p \<in> set ps \<Longrightarrow> c \<notin> set p" and "\<And>q. q \<in> set qs \<Longrightarrow> c \<notin> set q"
  shows "join_with [c] ps = join_with [c] qs \<longleftrightarrow> ps = qs"
proof
  assume eq: "join_with [c] ps = join_with [c] qs"
  have "ps = split_on c (join_with [c] ps)" by (rule split_on_join [OF assms(1,3), symmetric])
  also have "\<dots> = split_on c (join_with [c] qs)" by (rule arg_cong [OF eq])
  also have "\<dots> = qs" by (rule split_on_join [OF assms(2,4)])
  finally show "ps = qs" .
qed (rule arg_cong)

section \<open>Decimal digits\<close>

text \<open>\<open>str(n)\<close>.\<close>

definition dec_int :: "int \<Rightarrow> string" where
  "dec_int n = (if n < 0 then ''-'' else []) @ dec_digits (nat \<bar>n\<bar>)"

definition digit_value :: "char \<Rightarrow> nat" where
  "digit_value c = of_char c - 48"

definition digits_value :: "string \<Rightarrow> nat" where
  "digits_value s = foldl (\<lambda>n c. 10 * n + digit_value c) 0 s"

lemma digits_value_snoc [simp]: "digits_value (s @ [c]) = 10 * digits_value s + digit_value c"
  by (simp add: digits_value_def)

lemma digits_value_Nil [simp]: "digits_value [] = 0"
  by (simp add: digits_value_def)

lemma digit_value_digit [simp]: "n < 10 \<Longrightarrow> digit_value (char_of (48 + n)) = n"
  by (simp add: digit_value_def)

lemma digits_value_dec_digits [simp]: "digits_value (dec_digits n) = n"
proof (induction n rule: dec_digits.induct)
  case (1 n)
  show ?case
  proof (cases "n < 10")
    case True
    then show ?thesis
      using digits_value_snoc [of "[]" "char_of (48 + n)"] by (simp add: dec_digits.simps [of n])
  next
    case False
    with 1 have "digits_value (dec_digits (n div 10)) = n div 10" by simp
    with False show ?thesis by (simp add: dec_digits.simps [of n])
  qed
qed

lemma digits_value_zeros: "digits_value (replicate k CHR ''0'' @ s) = digits_value s"
proof -
  have "foldl (\<lambda>n c. 10 * n + digit_value c) 0 (replicate k CHR ''0'') = 0"
    by (induction k) (simp_all add: digit_value_def)
  then show ?thesis by (simp add: digits_value_def)
qed

lemma digits_value_shift: "digits_value (s @ replicate k CHR ''0'') = digits_value s * 10 ^ k"
proof (induction k)
  case (Suc k)
  have "s @ replicate (Suc k) CHR ''0'' = (s @ replicate k CHR ''0'') @ [CHR ''0'']"
    by (simp add: replicate_append_same)
  then show ?case by (simp add: Suc digit_value_def del: append_assoc)
qed simp

lemma digits_value_zero_pad [simp]: "digits_value (zero_pad w n) = n"
  by (simp add: zero_pad_def digits_value_zeros)

definition is_digit :: "char \<Rightarrow> bool" where
  "is_digit c \<longleftrightarrow> (let n = (of_char c :: nat) in 48 \<le> n \<and> n \<le> 57)"

lemma is_digit_digit [simp]: "(n::nat) < 10 \<Longrightarrow> is_digit (char_of (48 + n))"
  by (simp add: is_digit_def Let_def)

lemma dec_digits_digits: "list_all is_digit (dec_digits n)"
proof (induction n rule: dec_digits.induct)
  case (1 n)
  then show ?case by (cases "n < 10") (simp_all add: dec_digits.simps [of n])
qed

lemma zero_pad_digits: "list_all is_digit (zero_pad w n)"
proof -
  have "list_all is_digit (replicate k CHR ''0'')" for k
    by (induction k) (simp_all add: is_digit_def)
  with dec_digits_digits show ?thesis by (simp add: zero_pad_def)
qed

lemma digits_free: "list_all is_digit s \<Longrightarrow> \<not> is_digit c \<Longrightarrow> c \<notin> set s"
  by (auto simp: list_all_iff)

section \<open>Generators\<close>

text \<open>A generator whose element expression may raise: the elements yielded, and the error that ended
  it. \<open>collected\<close> is \<open>tuple(generator)\<close>.\<close>

fun gen_map :: "('a \<Rightarrow> 'b result) \<Rightarrow> 'a list \<Rightarrow> 'b list \<times> exn option" where
  "gen_map f [] = ([], None)"
| "gen_map f (x # xs) =
     (case f x of Inl e \<Rightarrow> ([], Some e)
      | Inr y \<Rightarrow> (case gen_map f xs of (ys, e) \<Rightarrow> (y # ys, e)))"

definition collected :: "'a list \<times> exn option \<Rightarrow> 'a list result" where
  "collected g = (case snd g of None \<Rightarrow> Inr (fst g) | Some e \<Rightarrow> Inl e)"

lemma gen_map_all: "(\<And>x. x \<in> set xs \<Longrightarrow> f x = Inr (g x)) \<Longrightarrow> gen_map f xs = (map g xs, None)"
  by (induction xs) simp_all

section \<open>Datetimes\<close>

datatype datetime = Aware int int | Naive int

fun is_aware :: "datetime \<Rightarrow> bool" where
  "is_aware (Aware _ _) = True"
| "is_aware (Naive _) = False"

text \<open>The key by which two aware values are compared: the instant, in microseconds.\<close>

fun instant :: "datetime \<Rightarrow> int" where
  "instant (Aware us _) = us"
| "instant (Naive us) = us"

text \<open>\<open>value.astimezone(UTC)\<close> on an aware value.\<close>

fun to_utc :: "datetime \<Rightarrow> datetime" where
  "to_utc (Aware us _) = Aware us 0"
| "to_utc (Naive us) = Naive us"

lemma instant_to_utc [simp]: "instant (to_utc t) = instant t"
  by (cases t) simp_all

lemma is_aware_to_utc [simp]: "is_aware (to_utc t) = is_aware t"
  by (cases t) simp_all

lemma to_utc_idem [simp]: "to_utc (to_utc t) = to_utc t"
  by (cases t) simp_all

definition opt_ok :: "('a \<Rightarrow> bool) \<Rightarrow> 'a option \<Rightarrow> bool" where
  "opt_ok P x = (case x of None \<Rightarrow> True | Some v \<Rightarrow> P v)"

lemma opt_ok_simps [simp]: "opt_ok P None" "opt_ok P (Some v) = P v"
  by (simp_all add: opt_ok_def)

text \<open>\<open>min(...)\<close> and \<open>max(...)\<close> of datetimes keep the first of the extreme values.\<close>

definition dt_min2 :: "datetime \<Rightarrow> datetime \<Rightarrow> datetime" where
  "dt_min2 a b = (if instant b < instant a then b else a)"

definition dt_max2 :: "datetime \<Rightarrow> datetime \<Rightarrow> datetime" where
  "dt_max2 a b = (if instant b > instant a then b else a)"

fun dt_min :: "datetime \<Rightarrow> datetime list \<Rightarrow> datetime" where
  "dt_min a [] = a"
| "dt_min a (b # bs) = dt_min (dt_min2 a b) bs"

fun dt_max :: "datetime \<Rightarrow> datetime list \<Rightarrow> datetime" where
  "dt_max a [] = a"
| "dt_max a (b # bs) = dt_max (dt_max2 a b) bs"

lemma dt_min_le:
  "instant (dt_min a bs) \<le> instant a \<and> (\<forall>b \<in> set bs. instant (dt_min a bs) \<le> instant b)"
proof (induction bs arbitrary: a)
  case (Cons b bs)
  have "instant (dt_min2 a b) \<le> instant a" and "instant (dt_min2 a b) \<le> instant b"
    by (simp_all add: dt_min2_def)
  with Cons [of "dt_min2 a b"] show ?case by force
qed simp

lemma dt_max_ge:
  "instant a \<le> instant (dt_max a bs) \<and> (\<forall>b \<in> set bs. instant b \<le> instant (dt_max a bs))"
proof (induction bs arbitrary: a)
  case (Cons b bs)
  have "instant a \<le> instant (dt_max2 a b)" and "instant b \<le> instant (dt_max2 a b)"
    by (simp_all add: dt_max2_def)
  with Cons [of "dt_max2 a b"] show ?case by force
qed simp

lemma dt_min_in: "dt_min a bs \<in> set (a # bs)"
  by (induction bs arbitrary: a) (auto simp: dt_min2_def split: if_splits)

lemma dt_max_in: "dt_max a bs \<in> set (a # bs)"
  by (induction bs arbitrary: a) (auto simp: dt_max2_def split: if_splits)

text \<open>A \<open>date\<close> is its proleptic ordinal.\<close>

type_synonym date = int

section \<open>Extreme elements by key\<close>

text \<open>\<open>max(xs, key=...)\<close> keeps the first of the greatest elements.\<close>

fun first_max_from :: "('a \<Rightarrow> 'k::linorder) \<Rightarrow> 'a \<Rightarrow> 'a list \<Rightarrow> 'a" where
  "first_max_from key a [] = a"
| "first_max_from key a (b # bs) = first_max_from key (if key a < key b then b else a) bs"

definition first_max :: "('a \<Rightarrow> 'k::linorder) \<Rightarrow> 'a list \<Rightarrow> 'a option" where
  "first_max key xs = (case xs of [] \<Rightarrow> None | a # as \<Rightarrow> Some (first_max_from key a as))"

lemma first_max_from_greatest:
  "first_max_from key a as \<in> set (a # as) \<and>
     (\<forall>x \<in> set (a # as). key x \<le> key (first_max_from key a as))"
proof (induction as arbitrary: a)
  case (Cons b bs)
  let ?m = "if key a < key b then b else a"
  from Cons [of ?m] have "key ?m \<le> key (first_max_from key ?m bs)" by auto
  moreover have "key a \<le> key ?m" "key b \<le> key ?m" by auto
  ultimately have "key a \<le> key (first_max_from key ?m bs)" "key b \<le> key (first_max_from key ?m bs)"
    by (blast intro: order_trans)+
  with Cons [of ?m] show ?case by (auto split: if_splits)
qed simp

lemma first_max_in: "first_max key xs = Some x \<Longrightarrow> x \<in> set xs"
  unfolding first_max_def using first_max_from_greatest [of key]
  by (cases xs) (simp_all del: list.set(2), blast)

lemma first_max_greatest: "first_max key xs = Some x \<Longrightarrow> y \<in> set xs \<Longrightarrow> key y \<le> key x"
  unfolding first_max_def using first_max_from_greatest [of key]
  by (cases xs) (simp_all del: list.set(2), blast)

text \<open>When the key tells the elements apart, the choice depends only on their set.\<close>

lemma first_max_set:
  assumes "set xs = set ys" and "inj_on key (set xs)"
  shows "first_max key xs = first_max key ys"
proof (cases xs)
  case (Cons a as)
  with assms(1) obtain b bs where ys: "ys = b # bs" by (cases ys) auto
  have "key (first_max_from key a as) = key (first_max_from key b bs)"
    using first_max_from_greatest [of key a as] first_max_from_greatest [of key b bs] assms(1)
    unfolding Cons ys by (metis order_antisym)
  then show ?thesis
    using assms first_max_from_greatest [of key a as] first_max_from_greatest [of key b bs]
    unfolding Cons ys first_max_def by (simp only: list.case) (metis inj_onD)
qed (use assms in \<open>simp add: first_max_def\<close>)

text \<open>\<open>xs.sort(key=..., reverse=True)\<close>: descending, equal elements in their original order.\<close>

definition sort_descending :: "('a \<Rightarrow> 'k::linorder) \<Rightarrow> 'a list \<Rightarrow> 'a list" where
  "sort_descending key xs = rev (sort_key key (rev xs))"

lemma set_sort_descending [simp]: "set (sort_descending key xs) = set xs"
  by (simp add: sort_descending_def)

lemma sort_descending_Nil [simp]: "sort_descending key xs = [] \<longleftrightarrow> xs = []"
  by (metis set_empty set_sort_descending)

lemma sort_descending_hd:
  assumes "xs \<noteq> []"
  shows "hd (sort_descending key xs) \<in> set xs"
    and "y \<in> set xs \<Longrightarrow> key y \<le> key (hd (sort_descending key xs))"
proof -
  show "hd (sort_descending key xs) \<in> set xs"
    using assms hd_in_set [of "sort_descending key xs"] by simp
  assume y: "y \<in> set xs"
  let ?s = "sort_key key (rev xs)"
  have "?s \<noteq> []" using assms by (metis set_empty set_rev set_sort)
  have "key y \<le> key (last ?s)"
  proof -
    have "y \<in> set ?s" using y by simp
    then obtain i where i: "i < length ?s" "?s ! i = y" 
      unfolding in_set_conv_nth by blast
    have "map key ?s ! i \<le> map key ?s ! (length ?s - 1)"
      by (rule sorted_nth_mono) (use i in simp_all)
    then show ?thesis using i \<open>?s \<noteq> []\<close> by (simp add: last_conv_nth)
  qed
  then show "key y \<le> key (hd (sort_descending key xs))"
    using \<open>?s \<noteq> []\<close> by (simp add: sort_descending_def hd_rev)
qed

section \<open>Sorted duplicate-free tuples\<close>

definition sorted_set :: "'a::linorder list \<Rightarrow> 'a list" where
  "sorted_set xs = sort (remdups xs)"

lemma sorted_set_set [simp]: "set (sorted_set xs) = set xs"
  by (simp add: sorted_set_def)

lemma sorted_set_sorted [simp]: "sorted (sorted_set xs)"
  by (simp add: sorted_set_def)

lemma sorted_set_distinct [simp]: "distinct (sorted_set xs)"
  by (simp add: sorted_set_def)

lemma sorted_set_id: "sorted xs \<Longrightarrow> distinct xs \<Longrightarrow> sorted_set xs = xs"
  by (simp add: sorted_set_def distinct_remdups_id sorted_sort_id)

lemma sorted_set_idem [simp]: "sorted_set (sorted_set xs) = sorted_set xs"
  by (rule sorted_set_id) simp_all

lemma sorted_set_cong: "set xs = set ys \<Longrightarrow> sorted_set xs = sorted_set ys"
  by (rule sorted_distinct_set_unique) simp_all

lemma sorted_set_eq_iff: "sorted_set xs = sorted_set ys \<longleftrightarrow> set xs = set ys"
  by (metis sorted_set_cong sorted_set_set)

lemma sorted_set_eq_Nil [simp]: "sorted_set xs = [] \<longleftrightarrow> xs = []"
  by (simp flip: set_empty)

section \<open>Runs of consecutive sequence numbers\<close>

definition consecutive :: "int list \<Rightarrow> bool" where
  "consecutive = successively (\<lambda>a b. b = a + 1)"

lemma consecutive_simps [simp]:
  "consecutive []"
  "consecutive [a]"
  "consecutive (a # b # xs) \<longleftrightarrow> b = a + 1 \<and> consecutive (b # xs)"
  by (simp_all add: consecutive_def)

lemma consecutive_append:
  "consecutive (xs @ ys) \<longleftrightarrow>
     consecutive xs \<and> consecutive ys \<and> (xs = [] \<or> ys = [] \<or> hd ys = last xs + 1)"
  by (simp add: consecutive_def successively_append_iff)

lemma consecutive_snoc:
  "consecutive (xs @ [a]) \<longleftrightarrow> consecutive xs \<and> (xs = [] \<or> a = last xs + 1)"
  by (simp add: consecutive_append)

lemma consecutive_Cons:
  "consecutive (a # xs) \<longleftrightarrow> (xs = [] \<or> hd xs = a + 1) \<and> consecutive xs"
  by (cases xs) auto

lemma consecutive_nth:
  "consecutive xs \<Longrightarrow> i < length xs \<Longrightarrow> xs ! i = hd xs + int i"
proof (induction xs arbitrary: i)
  case (Cons a xs)
  show ?case
  proof (cases i)
    case (Suc j)
    with Cons.prems have "j < length xs" and "consecutive xs" and "hd xs = a + 1"
      by (auto simp: consecutive_Cons)
    with Cons.IH [of j] show ?thesis by (simp add: Suc)
  qed simp
qed simp

lemma consecutive_last:
  "consecutive xs \<Longrightarrow> xs \<noteq> [] \<Longrightarrow> last xs = hd xs + int (length xs) - 1"
  by (cases "length xs") (auto simp: last_conv_nth consecutive_nth)

lemma consecutive_distinct: "consecutive xs \<Longrightarrow> distinct xs"
  by (auto simp: distinct_conv_nth consecutive_nth)

section \<open>Dictionaries in insertion order\<close>

lemma map_of_update [dict_simps]: "map_of (AList.update k v d) = (map_of d)(k \<mapsto> v)"
  by (simp add: update_conv')

lemma map_of_delete [dict_simps]: "map_of (AList.delete k d) = (map_of d)(k := None)"
  by (simp add: delete_conv')

lemma keys_update [dict_simps]: "fst ` set (AList.update k v d) = insert k (fst ` set d)"
  by (simp add: dom_update)

lemma length_update_new:
  "k \<notin> fst ` set d \<Longrightarrow> length (AList.update k v d) = Suc (length d)"
  by (induction d) auto

lemma length_update_old:
  "k \<in> fst ` set d \<Longrightarrow> length (AList.update k v d) = length d"
  by (induction d) auto

lemma set_update_values:
  "(k', v') \<in> set (AList.update k v d) \<Longrightarrow> (k', v') = (k, v) \<or> (k', v') \<in> set d"
  by (induction d) (auto split: if_splits)

lemma update_append: "k \<notin> fst ` set d \<Longrightarrow> AList.update k v d = d @ [(k, v)]"
  by (induction d) auto

lemma delete_update_new: "k \<notin> fst ` set d \<Longrightarrow> AList.delete k (AList.update k v d) = d"
  by (simp add: delete_update_same)

end
