(* ===== verification/Json_Values.thy ===== *)
theory Json_Values
  imports Prelude
begin

text \<open>
  The JSON values that cross the program's dict boundaries (\<open>to_dict\<close>, \<open>from_dict\<close>, digest
  payloads). \<open>JIso\<close> is an ISO-8601 timestamp string, represented by the datetime it denotes:
  \<open>datetime.isoformat\<close> and \<open>datetime.fromisoformat\<close> are inverse to each other on it. A conversion
  refuses a JSON type the program's own writers never put in that place, where Python's \<open>str\<close> would
  stringify it and \<open>int\<close> and \<open>float\<close> would parse a numeric string.
\<close>

datatype jval =
    JNull
  | JBool bool
  | JInt int
  | JFloat rat
  | JStr string
  | JIso datetime
  | JList "jval list"
  | JObj "(string \<times> jval) list"

type_synonym jobj = "(string \<times> jval) list"

definition req_field :: "jobj \<Rightarrow> string \<Rightarrow> jval result" where
  "req_field d k = (case map_of d k of None \<Rightarrow> Inl (KeyError k) | Some v \<Rightarrow> Inr v)"

definition get_field :: "jobj \<Rightarrow> string \<Rightarrow> jval" where
  "get_field d k = (case map_of d k of None \<Rightarrow> JNull | Some v \<Rightarrow> v)"

fun as_int :: "jval \<Rightarrow> int result" where
  "as_int (JInt n) = Inr n"
| "as_int (JFloat x) = Inr (if 0 \<le> x then \<lfloor>x\<rfloor> else \<lceil>x\<rceil>)"
| "as_int (JBool b) = Inr (if b then 1 else 0)"
| "as_int _ = Inl (TypeError ''int() argument'')"

fun as_float :: "jval \<Rightarrow> rat result" where
  "as_float (JFloat x) = Inr x"
| "as_float (JInt n) = Inr (of_int n)"
| "as_float (JBool b) = Inr (if b then 1 else 0)"
| "as_float _ = Inl (TypeError ''float() argument'')"

fun as_str :: "jval \<Rightarrow> string result" where
  "as_str (JStr s) = Inr s"
| "as_str _ = Inl (TypeError ''str expected'')"

fun as_bool :: "jval \<Rightarrow> bool result" where
  "as_bool (JBool b) = Inr b"
| "as_bool _ = Inl (TypeError ''bool expected'')"

fun as_datetime :: "jval \<Rightarrow> datetime result" where
  "as_datetime (JIso t) = Inr t"
| "as_datetime _ = Inl (ValueError ''Invalid isoformat string'')"

fun as_list :: "jval \<Rightarrow> jval list result" where
  "as_list (JList vs) = Inr vs"
| "as_list _ = Inl (TypeError ''list expected'')"

fun as_obj :: "jval \<Rightarrow> jobj result" where
  "as_obj (JObj d) = Inr d"
| "as_obj _ = Inl (TypeError ''object expected'')"

text \<open>\<open>conv(x) if x is not None else None\<close>.\<close>

definition opt_conv :: "(jval \<Rightarrow> 'a result) \<Rightarrow> jval \<Rightarrow> 'a option result" where
  "opt_conv f v = (if v = JNull then Inr None else bind_result (f v) (\<lambda>x. Inr (Some x)))"

text \<open>\<open>datetime.fromisoformat(str(x)) if x else None\<close>: an empty string counts as absent.\<close>

definition opt_datetime :: "jval \<Rightarrow> datetime option result" where
  "opt_datetime v =
     (if v = JNull \<or> v = JStr [] then Inr None
      else bind_result (as_datetime v) (\<lambda>x. Inr (Some x)))"

fun j_opt :: "('a \<Rightarrow> jval) \<Rightarrow> 'a option \<Rightarrow> jval" where
  "j_opt f None = JNull"
| "j_opt f (Some x) = f x"

lemma opt_conv_j_opt [simp]:
  "(\<And>x. f (g x) = Inr x) \<Longrightarrow> (\<And>x. g x \<noteq> JNull) \<Longrightarrow> opt_conv f (j_opt g v) = Inr v"
  by (cases v) (simp_all add: opt_conv_def)

lemma opt_datetime_j_opt [simp]: "opt_datetime (j_opt JIso v) = Inr v"
  by (cases v) (simp_all add: opt_datetime_def)

end
