(* ===== verification/Tape_Contract.thy ===== *)
theory Tape_Contract
  imports Json_Values
begin

text \<open>
  \<open>data/src/shaurya/contracts/tape.py\<close>: the market-data tape row. \<open>tape_row_post_init\<close> is
  \<open>TapeRow.__post_init__\<close>, which every construction runs (\<open>dataclasses.replace\<close> included): it
  raises at the first violated rule and otherwise replaces the quality flags by their sorted
  duplicate-free tuple. \<open>tape_row_ok\<close> says a row is one that a construction can return.
\<close>

section \<open>Enumerations\<close>

datatype quality_flag =
    SOURCE_SEQUENCE_UNAVAILABLE
  | SEQUENCE_GAP
  | DUPLICATE_SEQUENCE
  | SEQUENCE_REGRESSION
  | CONNECTION_GAP
  | RECONNECTED
  | HEARTBEAT_TIMEOUT
  | EXCHANGE_TIMESTAMP_MISSING
  | EXCHANGE_TIME_REGRESSION
  | PARTIAL_BOOK
  | CROSSED_BOOK
  | STALE_QUOTE
  | INVALID_DEPTH
  | TRADE_CLASSIFICATION_DEGRADED
  | COALESCED_PRINT

fun flag_str :: "quality_flag \<Rightarrow> string" where
  "flag_str SOURCE_SEQUENCE_UNAVAILABLE = ''source_sequence_unavailable''"
| "flag_str SEQUENCE_GAP = ''sequence_gap''"
| "flag_str DUPLICATE_SEQUENCE = ''duplicate_sequence''"
| "flag_str SEQUENCE_REGRESSION = ''sequence_regression''"
| "flag_str CONNECTION_GAP = ''connection_gap''"
| "flag_str RECONNECTED = ''reconnected''"
| "flag_str HEARTBEAT_TIMEOUT = ''heartbeat_timeout''"
| "flag_str EXCHANGE_TIMESTAMP_MISSING = ''exchange_timestamp_missing''"
| "flag_str EXCHANGE_TIME_REGRESSION = ''exchange_time_regression''"
| "flag_str PARTIAL_BOOK = ''partial_book''"
| "flag_str CROSSED_BOOK = ''crossed_book''"
| "flag_str STALE_QUOTE = ''stale_quote''"
| "flag_str INVALID_DEPTH = ''invalid_depth''"
| "flag_str TRADE_CLASSIFICATION_DEGRADED = ''trade_classification_degraded''"
| "flag_str COALESCED_PRINT = ''coalesced_print''"

definition all_flags :: "quality_flag list" where
  "all_flags =
     [SOURCE_SEQUENCE_UNAVAILABLE, SEQUENCE_GAP, DUPLICATE_SEQUENCE, SEQUENCE_REGRESSION,
      CONNECTION_GAP, RECONNECTED, HEARTBEAT_TIMEOUT, EXCHANGE_TIMESTAMP_MISSING,
      EXCHANGE_TIME_REGRESSION, PARTIAL_BOOK, CROSSED_BOOK, STALE_QUOTE, INVALID_DEPTH,
      TRADE_CLASSIFICATION_DEGRADED, COALESCED_PRINT]"

lemma all_flags_complete: "f \<in> set all_flags"
  by (cases f) (simp_all add: all_flags_def)

lemma flag_str_inj: "flag_str a = flag_str b \<Longrightarrow> a = b"
  by (cases a; cases b; simp)

text \<open>\<open>key=str\<close> orders flags by their string values.\<close>

instantiation quality_flag :: linorder
begin

definition less_eq_quality_flag :: "quality_flag \<Rightarrow> quality_flag \<Rightarrow> bool" where
  "less_eq_quality_flag a b \<longleftrightarrow> flag_str a \<le> flag_str b"

definition less_quality_flag :: "quality_flag \<Rightarrow> quality_flag \<Rightarrow> bool" where
  "less_quality_flag a b \<longleftrightarrow> flag_str a < flag_str b"

instance
  by standard (auto simp: less_eq_quality_flag_def less_quality_flag_def intro: flag_str_inj)

end

text \<open>\<open>QualityFlag(item)\<close>: the member with that value, or ValueError.\<close>

definition flag_of :: "jval \<Rightarrow> quality_flag result" where
  "flag_of v =
     (case find (\<lambda>f. v = JStr (flag_str f)) all_flags of
        None \<Rightarrow> Inl (ValueError ''not a valid QualityFlag'') | Some f \<Rightarrow> Inr f)"

datatype trade_side = BUY | SELL | UNCLASSIFIED

fun side_str :: "trade_side \<Rightarrow> string" where
  "side_str BUY = ''buy''"
| "side_str SELL = ''sell''"
| "side_str UNCLASSIFIED = ''unclassified''"

definition side_of :: "jval \<Rightarrow> trade_side result" where
  "side_of v =
     (case find (\<lambda>s. v = JStr (side_str s)) [BUY, SELL, UNCLASSIFIED] of
        None \<Rightarrow> Inl (ValueError ''not a valid TradeSide'') | Some s \<Rightarrow> Inr s)"

lemma flag_of_str [simp]: "flag_of (JStr (flag_str f)) = Inr f"
  by (cases f) (simp_all add: flag_of_def all_flags_def)

lemma side_of_str [simp]: "side_of (JStr (side_str s)) = Inr s"
  by (cases s) (simp_all add: side_of_def)

section \<open>Depth levels\<close>

record depth_level =
  dl_price :: rat
  dl_quantity :: int
  dl_orders :: int

definition depth_level_post_init :: "depth_level \<Rightarrow> depth_level result" where
  "depth_level_post_init l =
     (if dl_price l \<le> 0 then Inl (ValueError ''depth price must be positive'')
      else if dl_quantity l < 0 \<or> dl_orders l < 0
      then Inl (ValueError ''depth quantity and order count must be non-negative'')
      else Inr l)"

definition depth_level_ok :: "depth_level \<Rightarrow> bool" where
  "depth_level_ok l \<longleftrightarrow> depth_level_post_init l = Inr l"

lemma depth_level_ok_iff:
  "depth_level_ok l \<longleftrightarrow> 0 < dl_price l \<and> 0 \<le> dl_quantity l \<and> 0 \<le> dl_orders l"
  by (auto simp: depth_level_ok_def depth_level_post_init_def)

definition depth_level_to_dict :: "depth_level \<Rightarrow> jval" where
  "depth_level_to_dict l =
     JObj [(''price'', JFloat (dl_price l)), (''quantity'', JInt (dl_quantity l)),
           (''orders'', JInt (dl_orders l))]"

definition depth_level_from_dict :: "jval \<Rightarrow> depth_level result" where
  "depth_level_from_dict v =
     bind_result (as_obj v) (\<lambda>d.
     bind_result (bind_result (req_field d ''price'') as_float) (\<lambda>p.
     bind_result (bind_result (req_field d ''quantity'') as_int) (\<lambda>q.
     bind_result (bind_result (req_field d ''orders'') as_int) (\<lambda>n.
     depth_level_post_init \<lparr>dl_price = p, dl_quantity = q, dl_orders = n\<rparr>))))"

lemma depth_level_roundtrip [simp]:
  "depth_level_ok l \<Longrightarrow> depth_level_from_dict (depth_level_to_dict l) = Inr l"
  by (cases l)
    (simp add: depth_level_from_dict_def depth_level_to_dict_def req_field_def depth_level_ok_def)

section \<open>Tape rows\<close>

record tape_row =
  tr_run_id :: string
  tr_receive_sequence :: int
  tr_connection_epoch :: int
  tr_source :: string
  tr_event_type :: string
  tr_instrument_id :: string
  tr_broker_security_id :: string
  tr_exchange_segment :: string
  tr_receive_ts :: datetime
  tr_raw_message_size_bytes :: int
  tr_connection_id :: string
  tr_exchange_ts :: "datetime option"
  tr_source_sequence :: "int option"
  tr_update_side :: "string option"
  tr_last_price :: "rat option"
  tr_last_quantity :: "int option"
  tr_cumulative_volume :: "int option"
  tr_cumulative_volume_increment :: "int option"
  tr_open_interest :: "int option"
  tr_trade_quote_bid :: "rat option"
  tr_trade_quote_ask :: "rat option"
  tr_trade_quote_channel :: "string option"
  tr_trade_quote_bid_receive_ts :: "datetime option"
  tr_trade_quote_ask_receive_ts :: "datetime option"
  tr_trade_quote_receive_ts :: "datetime option"
  tr_trade_quote_age_ms :: "rat option"
  tr_trade_quote_freshness_bound_ms :: "rat option"
  tr_trade_side :: "trade_side option"
  tr_trade_classifier_version :: "string option"
  tr_trade_alignment_version :: "string option"
  tr_trade_classification_degraded :: "bool option"
  tr_trade_classification_reason :: "string option"
  tr_trade_coalesced :: "bool option"
  tr_bids :: "depth_level list"
  tr_asks :: "depth_level list"
  tr_quality_flags :: "quality_flag list"

text \<open>The nullness of the seven quote fields, for the all-or-none rule.\<close>

definition quote_presence :: "tape_row \<Rightarrow> bool list" where
  "quote_presence r =
     [tr_trade_quote_bid r \<noteq> None, tr_trade_quote_ask r \<noteq> None,
      tr_trade_quote_bid_receive_ts r \<noteq> None, tr_trade_quote_ask_receive_ts r \<noteq> None,
      tr_trade_quote_receive_ts r \<noteq> None, tr_trade_quote_age_ms r \<noteq> None,
      tr_trade_quote_channel r \<noteq> None]"

definition classification_presence :: "tape_row \<Rightarrow> bool list" where
  "classification_presence r =
     [tr_cumulative_volume_increment r \<noteq> None, tr_trade_quote_freshness_bound_ms r \<noteq> None,
      tr_trade_classifier_version r \<noteq> None, tr_trade_alignment_version r \<noteq> None,
      tr_trade_classification_degraded r \<noteq> None, tr_trade_classification_reason r \<noteq> None,
      tr_trade_coalesced r \<noteq> None]"

definition tape_row_checks :: "tape_row \<Rightarrow> (bool \<times> exn) list" where
  "tape_row_checks r =
    [(tr_run_id r = [], ValueError ''run_id is required''),
     (tr_receive_sequence r < 1 \<or> tr_connection_epoch r < 1,
      ValueError ''receive_sequence and connection_epoch must be positive''),
     (tr_instrument_id r = [] \<or> tr_broker_security_id r = [],
      ValueError ''instrument identities are required''),
     (tr_raw_message_size_bytes r < 0, ValueError ''raw_message_size_bytes must be non-negative''),
     (py_strip (tr_connection_id r) = [], ValueError ''connection_id is required''),
     (\<not> opt_ok (\<lambda>n. 0 \<le> n) (tr_source_sequence r),
      ValueError ''source_sequence must be non-negative''),
     (tr_update_side r \<notin> {None, Some ''bid'', Some ''ask'', Some ''both''},
      ValueError ''update_side must be bid, ask, both, or None''),
     (\<not> is_aware (tr_receive_ts r), ValueError ''receive_ts must be timezone-aware''),
     (\<not> opt_ok is_aware (tr_exchange_ts r), ValueError ''exchange_ts must be timezone-aware''),
     (\<not> opt_ok is_aware (tr_trade_quote_bid_receive_ts r),
      ValueError ''trade_quote_bid_receive_ts must be timezone-aware''),
     (\<not> opt_ok is_aware (tr_trade_quote_ask_receive_ts r),
      ValueError ''trade_quote_ask_receive_ts must be timezone-aware''),
     (\<not> opt_ok is_aware (tr_trade_quote_receive_ts r),
      ValueError ''trade_quote_receive_ts must be timezone-aware''),
     (\<not> opt_ok (\<lambda>n. 0 < n) (tr_cumulative_volume_increment r),
      ValueError ''cumulative_volume_increment must be positive when present''),
     (\<not> opt_ok (\<lambda>a. 0 \<le> a) (tr_trade_quote_age_ms r),
      ValueError ''trade_quote_age_ms must be non-negative''),
     (\<not> opt_ok (\<lambda>b. 0 < b) (tr_trade_quote_freshness_bound_ms r),
      ValueError ''trade_quote_freshness_bound_ms must be positive''),
     (tr_trade_quote_channel r \<notin> {None, Some ''depth20'', Some ''depth200''},
      ValueError ''trade_quote_channel must be depth20, depth200, or None''),
     (tr_trade_side r \<noteq> None \<and> \<not> list_all id (classification_presence r),
      ValueError ''classified trade rows require all classification metadata''),
     (tr_trade_side r \<noteq> None \<and> tr_event_type r \<notin> {''quote'', ''full''},
      ValueError ''trade classification is only valid on quote/full print rows''),
     (list_ex id (quote_presence r) \<and> \<not> list_all id (quote_presence r),
      ValueError ''classification quote fields must be all present or all absent''),
     (\<not> opt_ok (\<lambda>t. instant t \<le> instant (tr_receive_ts r)) (tr_trade_quote_receive_ts r),
      ValueError ''classification quote cannot be received after the print'')]"

definition tape_row_post_init :: "tape_row \<Rightarrow> tape_row result" where
  "tape_row_post_init r =
     (case first_error (tape_row_checks r) of
        Some e \<Rightarrow> Inl e
      | None \<Rightarrow> Inr (r\<lparr>tr_quality_flags := sorted_set (tr_quality_flags r)\<rparr>))"

definition tape_row_ok :: "tape_row \<Rightarrow> bool" where
  "tape_row_ok r \<longleftrightarrow>
     tape_row_post_init r = Inr r \<and>
     list_all depth_level_ok (tr_bids r) \<and> list_all depth_level_ok (tr_asks r)"

fun best_price :: "depth_level list \<Rightarrow> rat option" where
  "best_price [] = None"
| "best_price (l # _) = Some (dl_price l)"

definition tr_best_bid :: "tape_row \<Rightarrow> rat option" where
  "tr_best_bid r = best_price (tr_bids r)"

definition tr_best_ask :: "tape_row \<Rightarrow> rat option" where
  "tr_best_ask r = best_price (tr_asks r)"

section \<open>Dictionaries\<close>

definition SCHEMA_VERSION :: string where
  "SCHEMA_VERSION = ''1.1.0''"

definition LEGACY_SCHEMA_VERSIONS :: "string list" where
  "LEGACY_SCHEMA_VERSIONS = [''1.0.0'']"

definition tape_row_to_dict :: "tape_row \<Rightarrow> jobj" where
  "tape_row_to_dict r =
    [(''schema_version'', JStr SCHEMA_VERSION),
     (''run_id'', JStr (tr_run_id r)),
     (''receive_sequence'', JInt (tr_receive_sequence r)),
     (''source_sequence'', j_opt JInt (tr_source_sequence r)),
     (''connection_epoch'', JInt (tr_connection_epoch r)),
     (''source'', JStr (tr_source r)),
     (''event_type'', JStr (tr_event_type r)),
     (''instrument_id'', JStr (tr_instrument_id r)),
     (''broker_security_id'', JStr (tr_broker_security_id r)),
     (''exchange_segment'', JStr (tr_exchange_segment r)),
     (''exchange_ts'', j_opt JIso (tr_exchange_ts r)),
     (''receive_ts'', JIso (tr_receive_ts r)),
     (''raw_message_size_bytes'', JInt (tr_raw_message_size_bytes r)),
     (''connection_id'', JStr (tr_connection_id r)),
     (''update_side'', j_opt JStr (tr_update_side r)),
     (''last_price'', j_opt JFloat (tr_last_price r)),
     (''last_quantity'', j_opt JInt (tr_last_quantity r)),
     (''cumulative_volume'', j_opt JInt (tr_cumulative_volume r)),
     (''cumulative_volume_increment'', j_opt JInt (tr_cumulative_volume_increment r)),
     (''open_interest'', j_opt JInt (tr_open_interest r)),
     (''trade_quote_bid'', j_opt JFloat (tr_trade_quote_bid r)),
     (''trade_quote_ask'', j_opt JFloat (tr_trade_quote_ask r)),
     (''trade_quote_channel'', j_opt JStr (tr_trade_quote_channel r)),
     (''trade_quote_bid_receive_ts'', j_opt JIso (tr_trade_quote_bid_receive_ts r)),
     (''trade_quote_ask_receive_ts'', j_opt JIso (tr_trade_quote_ask_receive_ts r)),
     (''trade_quote_receive_ts'', j_opt JIso (tr_trade_quote_receive_ts r)),
     (''trade_quote_age_ms'', j_opt JFloat (tr_trade_quote_age_ms r)),
     (''trade_quote_freshness_bound_ms'', j_opt JFloat (tr_trade_quote_freshness_bound_ms r)),
     (''trade_side'', j_opt (\<lambda>s. JStr (side_str s)) (tr_trade_side r)),
     (''trade_classifier_version'', j_opt JStr (tr_trade_classifier_version r)),
     (''trade_alignment_version'', j_opt JStr (tr_trade_alignment_version r)),
     (''trade_classification_degraded'', j_opt JBool (tr_trade_classification_degraded r)),
     (''trade_classification_reason'', j_opt JStr (tr_trade_classification_reason r)),
     (''trade_coalesced'', j_opt JBool (tr_trade_coalesced r)),
     (''best_bid'', j_opt JFloat (tr_best_bid r)),
     (''best_ask'', j_opt JFloat (tr_best_ask r)),
     (''bids'', JList (map depth_level_to_dict (tr_bids r))),
     (''asks'', JList (map depth_level_to_dict (tr_asks r))),
     (''quality_flags'', JList (map (\<lambda>f. JStr (flag_str f)) (tr_quality_flags r)))]"

text \<open>\<open>[conv(item) for item in value.get(key, [])]\<close>.\<close>

definition list_field :: "(jval \<Rightarrow> 'a result) \<Rightarrow> jobj \<Rightarrow> string \<Rightarrow> 'a list result" where
  "list_field f d k =
     (case map_of d k of
        None \<Rightarrow> Inr []
      | Some v \<Rightarrow> bind_result (as_list v) (map_result f))"

definition tape_row_from_dict :: "jobj \<Rightarrow> tape_row result" where
  "tape_row_from_dict d =
    (let version = get_field d ''schema_version'' in
     if version \<noteq> JStr SCHEMA_VERSION \<and> version \<notin> set (map JStr LEGACY_SCHEMA_VERSIONS)
     then Inl (ValueError ''unsupported tape schema version'')
     else
     bind_result (bind_result (req_field d ''run_id'') as_str) (\<lambda>run_id.
     bind_result (bind_result (req_field d ''receive_sequence'') as_int) (\<lambda>receive_sequence.
     bind_result (opt_conv as_int (get_field d ''source_sequence'')) (\<lambda>source_sequence.
     bind_result (bind_result (req_field d ''connection_epoch'') as_int) (\<lambda>connection_epoch.
     bind_result (bind_result (req_field d ''source'') as_str) (\<lambda>source.
     bind_result (bind_result (req_field d ''event_type'') as_str) (\<lambda>event_type.
     bind_result (bind_result (req_field d ''instrument_id'') as_str) (\<lambda>instrument_id.
     bind_result (bind_result (req_field d ''broker_security_id'') as_str) (\<lambda>broker_security_id.
     bind_result (bind_result (req_field d ''exchange_segment'') as_str) (\<lambda>exchange_segment.
     bind_result (opt_datetime (get_field d ''exchange_ts'')) (\<lambda>exchange_ts.
     bind_result (bind_result (req_field d ''receive_ts'') as_datetime) (\<lambda>receive_ts.
     bind_result (bind_result (req_field d ''raw_message_size_bytes'') as_int) (\<lambda>raw_message_size_bytes.
     bind_result (case map_of d ''connection_id'' of None \<Rightarrow> Inr ''primary'' | Some v \<Rightarrow> as_str v) (\<lambda>connection_id.
     bind_result (opt_conv as_str (get_field d ''update_side'')) (\<lambda>update_side.
     bind_result (opt_conv as_float (get_field d ''last_price'')) (\<lambda>last_price.
     bind_result (opt_conv as_int (get_field d ''last_quantity'')) (\<lambda>last_quantity.
     bind_result (opt_conv as_int (get_field d ''cumulative_volume'')) (\<lambda>cumulative_volume.
     bind_result (opt_conv as_int (get_field d ''cumulative_volume_increment'')) (\<lambda>cumulative_volume_increment.
     bind_result (opt_conv as_int (get_field d ''open_interest'')) (\<lambda>open_interest.
     bind_result (opt_conv as_float (get_field d ''trade_quote_bid'')) (\<lambda>trade_quote_bid.
     bind_result (opt_conv as_float (get_field d ''trade_quote_ask'')) (\<lambda>trade_quote_ask.
     bind_result (opt_conv as_str (get_field d ''trade_quote_channel'')) (\<lambda>trade_quote_channel.
     bind_result (opt_datetime (get_field d ''trade_quote_bid_receive_ts'')) (\<lambda>trade_quote_bid_receive_ts.
     bind_result (opt_datetime (get_field d ''trade_quote_ask_receive_ts'')) (\<lambda>trade_quote_ask_receive_ts.
     bind_result (opt_datetime (get_field d ''trade_quote_receive_ts'')) (\<lambda>trade_quote_receive_ts.
     bind_result (opt_conv as_float (get_field d ''trade_quote_age_ms'')) (\<lambda>trade_quote_age_ms.
     bind_result (opt_conv as_float (get_field d ''trade_quote_freshness_bound_ms'')) (\<lambda>trade_quote_freshness_bound_ms.
     bind_result (opt_conv side_of (get_field d ''trade_side'')) (\<lambda>trade_side.
     bind_result (opt_conv as_str (get_field d ''trade_classifier_version'')) (\<lambda>trade_classifier_version.
     bind_result (opt_conv as_str (get_field d ''trade_alignment_version'')) (\<lambda>trade_alignment_version.
     bind_result (opt_conv as_bool (get_field d ''trade_classification_degraded'')) (\<lambda>trade_classification_degraded.
     bind_result (opt_conv as_str (get_field d ''trade_classification_reason'')) (\<lambda>trade_classification_reason.
     bind_result (opt_conv as_bool (get_field d ''trade_coalesced'')) (\<lambda>trade_coalesced.
     bind_result (list_field depth_level_from_dict d ''bids'') (\<lambda>bids.
     bind_result (list_field depth_level_from_dict d ''asks'') (\<lambda>asks.
     bind_result (list_field flag_of d ''quality_flags'') (\<lambda>quality_flags.
     tape_row_post_init
       \<lparr>tr_run_id = run_id,
        tr_receive_sequence = receive_sequence,
        tr_connection_epoch = connection_epoch,
        tr_source = source,
        tr_event_type = event_type,
        tr_instrument_id = instrument_id,
        tr_broker_security_id = broker_security_id,
        tr_exchange_segment = exchange_segment,
        tr_receive_ts = receive_ts,
        tr_raw_message_size_bytes = raw_message_size_bytes,
        tr_connection_id = connection_id,
        tr_exchange_ts = exchange_ts,
        tr_source_sequence = source_sequence,
        tr_update_side = update_side,
        tr_last_price = last_price,
        tr_last_quantity = last_quantity,
        tr_cumulative_volume = cumulative_volume,
        tr_cumulative_volume_increment = cumulative_volume_increment,
        tr_open_interest = open_interest,
        tr_trade_quote_bid = trade_quote_bid,
        tr_trade_quote_ask = trade_quote_ask,
        tr_trade_quote_channel = trade_quote_channel,
        tr_trade_quote_bid_receive_ts = trade_quote_bid_receive_ts,
        tr_trade_quote_ask_receive_ts = trade_quote_ask_receive_ts,
        tr_trade_quote_receive_ts = trade_quote_receive_ts,
        tr_trade_quote_age_ms = trade_quote_age_ms,
        tr_trade_quote_freshness_bound_ms = trade_quote_freshness_bound_ms,
        tr_trade_side = trade_side,
        tr_trade_classifier_version = trade_classifier_version,
        tr_trade_alignment_version = trade_alignment_version,
        tr_trade_classification_degraded = trade_classification_degraded,
        tr_trade_classification_reason = trade_classification_reason,
        tr_trade_coalesced = trade_coalesced,
        tr_bids = bids,
        tr_asks = asks,
        tr_quality_flags = quality_flags\<rparr>)))))))))))))))))))))))))))))))))))))"

section \<open>What a construction guarantees\<close>

lemma tape_row_post_init_Inr:
  "tape_row_post_init r = Inr r' \<longleftrightarrow>
     first_error (tape_row_checks r) = None \<and>
     r' = r\<lparr>tr_quality_flags := sorted_set (tr_quality_flags r)\<rparr>"
  by (auto simp: tape_row_post_init_def split: option.splits)

lemma tape_row_checks_flags [simp]:
  "tape_row_checks (r\<lparr>tr_quality_flags := fs\<rparr>) = tape_row_checks r"
  by (simp add: tape_row_checks_def classification_presence_def quote_presence_def)

lemma tape_row_post_init_idem:
  "tape_row_post_init r = Inr r' \<Longrightarrow> tape_row_post_init r' = Inr r'"
  by (auto simp: tape_row_post_init_Inr)

lemma tape_row_post_init_ok:
  "tape_row_post_init r = Inr r' \<Longrightarrow> list_all depth_level_ok (tr_bids r) \<Longrightarrow>
     list_all depth_level_ok (tr_asks r) \<Longrightarrow> tape_row_ok r'"
  by (auto simp: tape_row_ok_def tape_row_post_init_idem) (auto simp: tape_row_post_init_Inr)

lemma tape_row_ok_flags: "tape_row_ok r \<Longrightarrow> sorted_set (tr_quality_flags r) = tr_quality_flags r"
  by (cases r) (auto simp: tape_row_ok_def tape_row_post_init_Inr)

lemma tape_row_ok_checks: "tape_row_ok r \<Longrightarrow> first_error (tape_row_checks r) = None"
  by (simp add: tape_row_ok_def tape_row_post_init_Inr)

lemma tape_row_ok_facts [row_simps]:
  assumes "tape_row_ok r"
  shows "is_aware (tr_receive_ts r)" and "1 \<le> tr_receive_sequence r"
    and "tr_instrument_id r \<noteq> []" and "tr_run_id r \<noteq> []"
  using tape_row_ok_checks [OF assms, unfolded first_error_None]
  by (simp_all add: tape_row_checks_def not_less)

lemma depth_levels_roundtrip [simp]:
  "list_all depth_level_ok ls \<Longrightarrow>
     map_result depth_level_from_dict (map depth_level_to_dict ls) = Inr ls"
  by (induction ls) simp_all

lemma flags_roundtrip [simp]: "map_result flag_of (map (\<lambda>f. JStr (flag_str f)) fs) = Inr fs"
  by (induction fs) simp_all

lemma tape_row_roundtrip_lemma:
  assumes "tape_row_ok r"
  shows "tape_row_from_dict (tape_row_to_dict r) = Inr r"
  using assms
  by (cases r)
    (simp add: tape_row_ok_def tape_row_from_dict_def tape_row_to_dict_def list_field_def
      req_field_def get_field_def del: map_map)

section \<open>The round trip\<close>

text \<open>A standard-feed row used by the witnesses of several theories.\<close>

definition example_row :: tape_row where
  "example_row =
     \<lparr>tr_run_id = ''run-1'', tr_receive_sequence = 1, tr_connection_epoch = 1,
      tr_source = ''dhan'', tr_event_type = ''quote'', tr_instrument_id = ''NSE:OPT:A'',
      tr_broker_security_id = ''42'', tr_exchange_segment = ''NSE_FNO'',
      tr_receive_ts = Aware 1000000 19800, tr_raw_message_size_bytes = 50,
      tr_connection_id = ''primary'', tr_exchange_ts = None, tr_source_sequence = None,
      tr_update_side = None, tr_last_price = Some 100, tr_last_quantity = Some 25,
      tr_cumulative_volume = Some 500, tr_cumulative_volume_increment = None,
      tr_open_interest = None, tr_trade_quote_bid = None, tr_trade_quote_ask = None,
      tr_trade_quote_channel = None, tr_trade_quote_bid_receive_ts = None,
      tr_trade_quote_ask_receive_ts = None, tr_trade_quote_receive_ts = None,
      tr_trade_quote_age_ms = None, tr_trade_quote_freshness_bound_ms = None,
      tr_trade_side = None, tr_trade_classifier_version = None,
      tr_trade_alignment_version = None, tr_trade_classification_degraded = None,
      tr_trade_classification_reason = None, tr_trade_coalesced = None,
      tr_bids = [\<lparr>dl_price = 99, dl_quantity = 10, dl_orders = 2\<rparr>],
      tr_asks = [\<lparr>dl_price = 101, dl_quantity = 5, dl_orders = 1\<rparr>],
      tr_quality_flags = [EXCHANGE_TIMESTAMP_MISSING]\<rparr>"

lemma sorted_set_singleton [simp]: "sorted_set [x] = [x]"
  by (simp add: sorted_set_def)

lemma example_row_ok: "tape_row_ok example_row"
  by (simp add: tape_row_ok_def tape_row_post_init_def tape_row_checks_def example_row_def
      quote_presence_def py_strip_def py_isspace_def depth_level_ok_iff)

text \<open>Every row a construction can return survives the dictionary round trip:
  \<open>TapeRow.from_dict(row.to_dict()) == row\<close>, with all 36 fields, both books, the enum-valued
  fields and the normalised flag tuple.\<close>

theorem tape_row_roundtrip:
  assumes "tape_row_ok r"
  shows "tape_row_from_dict (tape_row_to_dict r) = Inr r"
  by (rule tape_row_roundtrip_lemma [OF assms])

theorem tape_row_roundtrip_witness:
  "tape_row_from_dict (tape_row_to_dict example_row) = Inr example_row"
  by (rule tape_row_roundtrip [OF example_row_ok])

end
