(* ===== verification/Trade_Direction.thy ===== *)
theory Trade_Direction
  imports Tape_Contract
begin

text \<open>
  \<open>data/src/shaurya/data/trade_direction.py\<close>: the pure quote-then-tick rule \<open>classify_trade\<close> and
  the capture-time adapter around it. The adapter's dictionaries are association lists; a call
  returns the mutated classifier next to its result, because a print that raises has already been
  observed. The reference classifier at the end reads the whole row history instead of the
  per-instrument state, and the adapter is proved equal to it.
\<close>

section \<open>The pure rule\<close>

definition TRADE_CLASSIFIER_VERSION :: string where
  "TRADE_CLASSIFIER_VERSION = ''quote-mid-tick-v1''"

definition TRADE_ALIGNMENT_VERSION :: string where
  "TRADE_ALIGNMENT_VERSION = ''latest-complete-depth-before-print-v1''"

definition DEPTH_CHANNELS :: "string list" where
  "DEPTH_CHANNELS = [''depth20'', ''depth200'']"

definition PRINT_EVENT_TYPES :: "string list" where
  "PRINT_EVENT_TYPES = [''quote'', ''full'']"

datatype classification_reason =
  QUOTE_RULE | TICK_RULE | NO_PRIOR_DIFFERING_TRADE | NO_PREVAILING_QUOTE | STALE_QUOTE_REASON |
  INVALID_QUOTE

fun reason_str :: "classification_reason \<Rightarrow> string" where
  "reason_str QUOTE_RULE = ''quote_rule''"
| "reason_str TICK_RULE = ''tick_rule''"
| "reason_str NO_PRIOR_DIFFERING_TRADE = ''no_prior_differing_trade''"
| "reason_str NO_PREVAILING_QUOTE = ''no_prevailing_quote''"
| "reason_str STALE_QUOTE_REASON = ''stale_quote''"
| "reason_str INVALID_QUOTE = ''invalid_quote''"

record trade_classification =
  tc_side :: trade_side
  tc_reason :: classification_reason
  tc_degraded :: bool
  tc_coalesced :: bool

definition classify_trade ::
    "rat \<Rightarrow> rat option \<Rightarrow> rat option \<Rightarrow> rat option \<Rightarrow> rat option \<Rightarrow> rat \<Rightarrow> int \<Rightarrow> int \<Rightarrow>
     trade_classification result" where
  "classify_trade last_price best_bid best_ask last_differing quote_age_ms bound increment
     last_quantity =
   (if last_price \<le> 0 then Inl (ValueError ''last_price must be positive'')
    else if bound \<le> 0 then Inl (ValueError ''quote_freshness_bound_ms must be positive'')
    else if increment \<le> 0 then Inl (ValueError ''cumulative_volume_increment must be positive'')
    else if last_quantity < 0 then Inl (ValueError ''last_quantity must be non-negative'')
    else if \<not> opt_ok (\<lambda>a. 0 \<le> a) quote_age_ms
    then Inl (ValueError ''quote_age_ms must be non-negative'')
    else
      let coalesced = increment > last_quantity;
          answer = (\<lambda>side reason degraded.
            Inr \<lparr>tc_side = side, tc_reason = reason, tc_degraded = degraded,
                 tc_coalesced = coalesced\<rparr>)
      in case (best_bid, best_ask, quote_age_ms) of
           (Some bid, Some ask, Some age) \<Rightarrow>
             if bid \<le> 0 \<or> ask \<le> 0 \<or> bid \<ge> ask then answer UNCLASSIFIED INVALID_QUOTE True
             else if age > bound then answer UNCLASSIFIED STALE_QUOTE_REASON True
             else
               let midpoint = (bid + ask) / 2
               in if last_price > midpoint then answer BUY QUOTE_RULE False
                  else if last_price < midpoint then answer SELL QUOTE_RULE False
                  else (case last_differing of
                          None \<Rightarrow> answer UNCLASSIFIED NO_PRIOR_DIFFERING_TRADE False
                        | Some d \<Rightarrow>
                            if last_price > d then answer BUY TICK_RULE False
                            else if last_price < d then answer SELL TICK_RULE False
                            else Inl (ValueError
                              ''last_differing_trade_price must differ from last_price''))
         | _ \<Rightarrow> answer UNCLASSIFIED NO_PREVAILING_QUOTE True)"

section \<open>The adapter\<close>

record quote_state =
  qs_channel :: string
  qs_best_bid :: rat
  qs_best_ask :: rat
  qs_bid_receive_ts :: datetime
  qs_ask_receive_ts :: datetime

definition state_receive_ts :: "quote_state \<Rightarrow> datetime" where
  "state_receive_ts q = dt_max2 (qs_bid_receive_ts q) (qs_ask_receive_ts q)"

text \<open>Microseconds as milliseconds.\<close>

definition us_ms :: "int \<Rightarrow> rat" where
  "us_ms us = of_int us / 1000"

definition age_ms_at :: "quote_state \<Rightarrow> datetime \<Rightarrow> rat" where
  "age_ms_at q print_ts =
     max (us_ms (instant print_ts - instant (qs_bid_receive_ts q)))
         (us_ms (instant print_ts - instant (qs_ask_receive_ts q)))"

record trade_state =
  ts_cumulative_volume :: "int option"
  ts_last_trade_price :: "rat option"
  ts_prior_differing_trade_price :: "rat option"

definition trade_state_init :: trade_state where
  "trade_state_init =
     \<lparr>ts_cumulative_volume = None, ts_last_trade_price = None,
      ts_prior_differing_trade_price = None\<rparr>"

definition last_differing_price :: "trade_state \<Rightarrow> rat \<Rightarrow> rat option" where
  "last_differing_price st p =
     (case ts_last_trade_price st of
        None \<Rightarrow> None
      | Some l \<Rightarrow> if p \<noteq> l then Some l else ts_prior_differing_trade_price st)"

definition observe_price :: "trade_state \<Rightarrow> rat \<Rightarrow> trade_state" where
  "observe_price st p =
     (case ts_last_trade_price st of
        None \<Rightarrow> st\<lparr>ts_last_trade_price := Some p\<rparr>
      | Some l \<Rightarrow>
          if p \<noteq> l
          then st\<lparr>ts_prior_differing_trade_price := Some l, ts_last_trade_price := Some p\<rparr>
          else st)"

type_synonym book_key = "string \<times> string"

record classifier =
  cl_bound_ms :: rat
  cl_side_times :: "(book_key \<times> (string \<times> datetime) list) list"
  cl_quotes :: "(book_key \<times> quote_state) list"
  cl_trades :: "(string \<times> trade_state) list"

definition classifier_init :: "rat \<Rightarrow> classifier result" where
  "classifier_init quote_freshness_seconds =
     (if quote_freshness_seconds \<le> 0
      then Inl (ValueError ''quote_freshness_seconds must be positive'')
      else Inr \<lparr>cl_bound_ms = quote_freshness_seconds * 1000, cl_side_times = [], cl_quotes = [],
                cl_trades = []\<rparr>)"

definition row_key :: "tape_row \<Rightarrow> book_key" where
  "row_key r = (tr_instrument_id r, tr_event_type r)"

definition flushes :: "tape_row \<Rightarrow> bool" where
  "flushes r \<longleftrightarrow>
     CONNECTION_GAP \<in> set (tr_quality_flags r) \<or> RECONNECTED \<in> set (tr_quality_flags r)"

definition flush_book :: "classifier \<Rightarrow> tape_row \<Rightarrow> classifier" where
  "flush_book c r =
     (if flushes r
      then c\<lparr>cl_side_times := AList.delete (row_key r) (cl_side_times c),
             cl_quotes := AList.delete (row_key r) (cl_quotes c)\<rparr>
      else c)"

text \<open>The quote of a row once both sides of its book have been received; \<open>None\<close> is the early
  return.\<close>

definition book_quote ::
    "tape_row \<Rightarrow> datetime option \<Rightarrow> datetime option \<Rightarrow> quote_state option" where
  "book_quote r bid_ts ask_ts =
     (case (tr_bids r, tr_asks r, bid_ts, ask_ts) of
        (b # _, a # _, Some bid_at, Some ask_at) \<Rightarrow>
          Some \<lparr>qs_channel = tr_event_type r, qs_best_bid = dl_price b, qs_best_ask = dl_price a,
                qs_bid_receive_ts = bid_at, qs_ask_receive_ts = ask_at\<rparr>
      | _ \<Rightarrow> None)"

definition one_sided :: "tape_row \<Rightarrow> bool" where
  "one_sided r \<longleftrightarrow> tr_update_side r \<in> {Some ''bid'', Some ''ask''}"

definition times_of :: "classifier \<Rightarrow> book_key \<Rightarrow> (string \<times> datetime) list" where
  "times_of c k = (case map_of (cl_side_times c) k of None \<Rightarrow> [] | Some t \<Rightarrow> t)"

definition observe_depth :: "classifier \<Rightarrow> tape_row \<Rightarrow> classifier" where
  "observe_depth c0 r =
     (let c = flush_book c0 r; key = row_key r in
      if \<not> one_sided r then c
      else
        let times = AList.update (the (tr_update_side r)) (tr_receive_ts r) (times_of c key);
            c = c\<lparr>cl_side_times := AList.update key times (cl_side_times c)\<rparr>
        in case book_quote r (map_of times ''bid'') (map_of times ''ask'') of
             None \<Rightarrow> c
           | Some quote \<Rightarrow> c\<lparr>cl_quotes := AList.update key quote (cl_quotes c)\<rparr>)"

definition quote_rank :: "quote_state \<Rightarrow> int \<times> string" where
  "quote_rank q = (instant (state_receive_ts q), qs_channel q)"

text \<open>The newest composite state, the channel name breaking exact ties.\<close>

definition latest_candidate :: "quote_state list \<Rightarrow> quote_state option" where
  "latest_candidate qs = first_max quote_rank qs"

definition prevailing_quote :: "classifier \<Rightarrow> tape_row \<Rightarrow> quote_state option" where
  "prevailing_quote c r =
     latest_candidate
       [q. ((i, _), q) \<leftarrow> cl_quotes c,
           i = tr_instrument_id r \<and> instant (state_receive_ts q) \<le> instant (tr_receive_ts r)]"

text \<open>The \<open>dataclasses.replace\<close> of a classified print.\<close>

definition enrich ::
    "tape_row \<Rightarrow> rat \<Rightarrow> int \<Rightarrow> quote_state option \<Rightarrow> trade_classification \<Rightarrow> tape_row result" where
  "enrich r bound increment quote result =
     tape_row_post_init
       (r\<lparr>tr_cumulative_volume_increment := Some increment,
          tr_trade_quote_bid := map_option qs_best_bid quote,
          tr_trade_quote_ask := map_option qs_best_ask quote,
          tr_trade_quote_channel := map_option qs_channel quote,
          tr_trade_quote_bid_receive_ts := map_option qs_bid_receive_ts quote,
          tr_trade_quote_ask_receive_ts := map_option qs_ask_receive_ts quote,
          tr_trade_quote_receive_ts := map_option state_receive_ts quote,
          tr_trade_quote_age_ms := map_option (\<lambda>q. age_ms_at q (tr_receive_ts r)) quote,
          tr_trade_quote_freshness_bound_ms := Some bound,
          tr_trade_side := Some (tc_side result),
          tr_trade_classifier_version := Some TRADE_CLASSIFIER_VERSION,
          tr_trade_alignment_version := Some TRADE_ALIGNMENT_VERSION,
          tr_trade_classification_degraded := Some (tc_degraded result),
          tr_trade_classification_reason := Some (reason_str (tc_reason result)),
          tr_trade_coalesced := Some (tc_coalesced result),
          tr_quality_flags :=
            tr_quality_flags r
              @ (if tc_degraded result then [TRADE_CLASSIFICATION_DEGRADED] else [])
              @ (if tc_coalesced result then [COALESCED_PRINT] else [])\<rparr>)"

definition observe_print :: "classifier \<Rightarrow> tape_row \<Rightarrow> classifier \<times> tape_row result" where
  "observe_print c r =
     (case (tr_last_price r, tr_last_quantity r, tr_cumulative_volume r) of
        (Some price, Some quantity, Some volume) \<Rightarrow>
          let i = tr_instrument_id r;
              state = (case map_of (cl_trades c) i of None \<Rightarrow> trade_state_init | Some s \<Rightarrow> s);
              prior_volume = ts_cumulative_volume state;
              state = state\<lparr>ts_cumulative_volume := Some volume\<rparr>;
              last_differing = last_differing_price state price;
              c' = c\<lparr>cl_trades := AList.update i (observe_price state price) (cl_trades c)\<rparr>
          in (case prior_volume of
                None \<Rightarrow> (c', Inr r)
              | Some prior \<Rightarrow>
                  if volume \<le> prior then (c', Inr r)
                  else
                    let increment = volume - prior;
                        quote = prevailing_quote c' r
                    in (c', bind_result
                          (classify_trade price (map_option qs_best_bid quote)
                            (map_option qs_best_ask quote) last_differing
                            (map_option (\<lambda>q. age_ms_at q (tr_receive_ts r)) quote)
                            (cl_bound_ms c') increment quantity)
                          (enrich r (cl_bound_ms c') increment quote)))
      | _ \<Rightarrow> (c, Inr r))"

definition process :: "classifier \<Rightarrow> tape_row \<Rightarrow> classifier \<times> tape_row result" where
  "process c r =
     (if tr_event_type r \<in> set DEPTH_CHANNELS then (observe_depth c r, Inr r)
      else if tr_event_type r \<notin> set PRINT_EVENT_TYPES then (c, Inr r)
      else observe_print c r)"

section \<open>The reference classifier\<close>

text \<open>The reference reads the rows seen so far, newest first. A book is the segment of the rows of
  one instrument and depth channel since its last flagged row, that row included.\<close>

definition book_rows :: "book_key \<Rightarrow> tape_row list \<Rightarrow> tape_row list" where
  "book_rows k h = filter (\<lambda>r. row_key r = k \<and> tr_event_type r \<in> set DEPTH_CHANNELS) h"

fun since_flush :: "tape_row list \<Rightarrow> tape_row list" where
  "since_flush [] = []"
| "since_flush (r # older) = (if flushes r then [r] else r # since_flush older)"

definition side_time :: "string \<Rightarrow> tape_row list \<Rightarrow> datetime option" where
  "side_time s seg = map_option tr_receive_ts (find (\<lambda>r. tr_update_side r = Some s) seg)"

fun completed_quote :: "tape_row list \<Rightarrow> quote_state option" where
  "completed_quote [] = None"
| "completed_quote (r # older) =
     (case if one_sided r
           then book_quote r (side_time ''bid'' (r # older)) (side_time ''ask'' (r # older))
           else None of
        Some q \<Rightarrow> Some q
      | None \<Rightarrow> completed_quote older)"

definition reference_quote :: "tape_row list \<Rightarrow> book_key \<Rightarrow> quote_state option" where
  "reference_quote h k = completed_quote (since_flush (book_rows k h))"

definition reference_prevailing :: "tape_row list \<Rightarrow> tape_row \<Rightarrow> quote_state option" where
  "reference_prevailing h r =
     latest_candidate
       (filter (\<lambda>q. instant (state_receive_ts q) \<le> instant (tr_receive_ts r))
         (List.map_filter (\<lambda>ch. reference_quote h (tr_instrument_id r, ch)) DEPTH_CHANNELS))"

definition complete_print :: "tape_row \<Rightarrow> bool" where
  "complete_print r \<longleftrightarrow>
     tr_event_type r \<in> set PRINT_EVENT_TYPES \<and> tr_last_price r \<noteq> None \<and>
     tr_last_quantity r \<noteq> None \<and> tr_cumulative_volume r \<noteq> None"

definition prints :: "string \<Rightarrow> tape_row list \<Rightarrow> tape_row list" where
  "prints i h = filter (\<lambda>r. tr_instrument_id r = i \<and> complete_print r) h"

definition print_price :: "tape_row \<Rightarrow> rat" where
  "print_price r = the (tr_last_price r)"

definition print_volume :: "tape_row \<Rightarrow> int" where
  "print_volume r = the (tr_cumulative_volume r)"

definition reference_differing :: "tape_row list \<Rightarrow> rat \<Rightarrow> rat option" where
  "reference_differing ps p = find (\<lambda>q. q \<noteq> p) (map print_price ps)"

definition reference_process :: "rat \<Rightarrow> tape_row list \<Rightarrow> tape_row \<Rightarrow> tape_row result" where
  "reference_process bound h r =
     (case prints (tr_instrument_id r) h of
        [] \<Rightarrow> Inr r
      | newest # _ \<Rightarrow>
          if \<not> complete_print r \<or> print_volume r \<le> print_volume newest then Inr r
          else
            let quote = reference_prevailing h r
            in bind_result
                 (classify_trade (print_price r) (map_option qs_best_bid quote)
                   (map_option qs_best_ask quote)
                   (reference_differing (prints (tr_instrument_id r) h) (print_price r))
                   (map_option (\<lambda>q. age_ms_at q (tr_receive_ts r)) quote) bound
                   (print_volume r - print_volume newest) (the (tr_last_quantity r)))
                 (enrich r bound (print_volume r - print_volume newest) quote))"

section \<open>The adapter follows the history\<close>

definition trade_of :: "classifier \<Rightarrow> string \<Rightarrow> trade_state" where
  "trade_of c i = (case map_of (cl_trades c) i of None \<Rightarrow> trade_state_init | Some s \<Rightarrow> s)"

fun reference_trade :: "tape_row list \<Rightarrow> trade_state" where
  "reference_trade [] = trade_state_init"
| "reference_trade (r # older) =
     \<lparr>ts_cumulative_volume = Some (print_volume r), ts_last_trade_price = Some (print_price r),
      ts_prior_differing_trade_price = reference_differing older (print_price r)\<rparr>"

lemma last_differing_reference:
  "last_differing_price (reference_trade ps\<lparr>ts_cumulative_volume := v\<rparr>) p =
     reference_differing ps p"
  by (cases ps) (auto simp: last_differing_price_def trade_state_init_def reference_differing_def)

lemma observe_price_reference:
  "observe_price (reference_trade ps\<lparr>ts_cumulative_volume := Some (print_volume r)\<rparr>)
     (print_price r) = reference_trade (r # ps)"
  by (cases ps) (auto simp: observe_price_def trade_state_init_def reference_differing_def)

lemma since_flush_Cons_book [simp]:
  "book_rows k (r # h) =
     (if row_key r = k \<and> tr_event_type r \<in> set DEPTH_CHANNELS then r # book_rows k h
      else book_rows k h)"
  by (simp add: book_rows_def)

lemma prints_Cons [simp]:
  "prints i (r # h) =
     (if tr_instrument_id r = i \<and> complete_print r then r # prints i h else prints i h)"
  by (simp add: prints_def)

text \<open>What the classifier's dictionaries hold after the rows \<open>h\<close>.\<close>

definition tracks_times :: "tape_row list \<Rightarrow> classifier \<Rightarrow> bool" where
  "tracks_times h c \<longleftrightarrow>
     (\<forall>k. \<forall>s \<in> {''bid'', ''ask''}.
        map_of (times_of c k) s = side_time s (since_flush (book_rows k h)))"

definition tracks_quotes :: "tape_row list \<Rightarrow> classifier \<Rightarrow> bool" where
  "tracks_quotes h c \<longleftrightarrow>
     distinct (map fst (cl_quotes c)) \<and> (\<forall>k. map_of (cl_quotes c) k = reference_quote h k)"

definition tracks_trades :: "tape_row list \<Rightarrow> classifier \<Rightarrow> bool" where
  "tracks_trades h c \<longleftrightarrow> (\<forall>i. trade_of c i = reference_trade (prints i h))"

lemma flush_times:
  "times_of (flush_book c r) k = (if flushes r \<and> k = row_key r then [] else times_of c k)"
  by (simp add: flush_book_def times_of_def dict_simps)

lemma flush_quotes:
  "map_of (cl_quotes (flush_book c r)) k =
     (if flushes r \<and> k = row_key r then None else map_of (cl_quotes c) k)"
  by (simp add: flush_book_def dict_simps)

lemma times_of_update [simp]:
  "times_of (c\<lparr>cl_side_times := AList.update k t (cl_side_times c)\<rparr>) k' =
     (if k' = k then t else times_of c k')"
  "times_of (c\<lparr>cl_quotes := qs\<rparr>) k' = times_of c k'"
  by (simp_all add: times_of_def dict_simps)

lemma observe_depth_times:
  "times_of (observe_depth c r) k =
     (if one_sided r \<and> k = row_key r
      then AList.update (the (tr_update_side r)) (tr_receive_ts r) (times_of (flush_book c r) k)
      else times_of (flush_book c r) k)"
proof -
  let ?c = "flush_book c r"
  let ?t = "AList.update (the (tr_update_side r)) (tr_receive_ts r) (times_of ?c (row_key r))"
  show ?thesis
    by (cases "book_quote r (map_of ?t ''bid'') (map_of ?t ''ask'')")
      (auto simp: observe_depth_def Let_def)
qed

lemma side_time_Cons:
  "side_time s (r # seg) =
     (if tr_update_side r = Some s then Some (tr_receive_ts r) else side_time s seg)"
  by (simp add: side_time_def)

lemma side_time_Nil [simp]: "side_time s [] = None"
  by (simp add: side_time_def)

lemma tracks_timesD:
  "tracks_times h c \<Longrightarrow> s = ''bid'' \<or> s = ''ask'' \<Longrightarrow>
     map_of (times_of c k) s = side_time s (since_flush (book_rows k h))"
  unfolding tracks_times_def by blast

lemma observe_depth_tracks_times:
  assumes "tracks_times h c" and "tr_event_type r \<in> set DEPTH_CHANNELS"
  shows "tracks_times (r # h) (observe_depth c r)"
  unfolding tracks_times_def
proof (intro allI ballI)
  fix k s assume s: "s \<in> {''bid'', ''ask''}"
  then have old: "map_of (times_of c k) s = side_time s (since_flush (book_rows k h))"
    using assms(1) by (intro tracks_timesD) auto
  have side: "one_sided r \<Longrightarrow> tr_update_side r = Some s' \<longleftrightarrow> the (tr_update_side r) = s'"
      and side': "\<not> one_sided r \<Longrightarrow> tr_update_side r \<noteq> Some s" for s'
    using s by (auto simp: one_sided_def)
  show "map_of (times_of (observe_depth c r) k) s =
      side_time s (since_flush (book_rows k (r # h)))"
  proof (cases "one_sided r")
    case True
    then show ?thesis
      using old assms(2) by (auto simp: observe_depth_times flush_times side_time_Cons dict_simps side)
  next
    case False
    then show ?thesis
      using old assms(2) by (simp add: observe_depth_times flush_times side_time_Cons side')
  qed
qed

lemma observe_depth_quotes:
  "map_of (cl_quotes (observe_depth c r)) k =
     (let times = times_of (observe_depth c r) k;
          q = book_quote r (map_of times ''bid'') (map_of times ''ask'')
      in if one_sided r \<and> k = row_key r \<and> q \<noteq> None then q
         else map_of (cl_quotes (flush_book c r)) k)"
proof -
  let ?c = "flush_book c r"
  let ?t = "AList.update (the (tr_update_side r)) (tr_receive_ts r) (times_of ?c (row_key r))"
  show ?thesis
    unfolding observe_depth_times
    by (cases "book_quote r (map_of ?t ''bid'') (map_of ?t ''ask'')")
      (auto simp: observe_depth_def Let_def dict_simps)
qed

lemma observe_depth_distinct:
  assumes "distinct (map fst (cl_quotes c))"
  shows "distinct (map fst (cl_quotes (observe_depth c r)))"
proof -
  have "distinct (map fst (cl_quotes (flush_book c r)))"
    using assms by (simp add: flush_book_def distinct_delete)
  then show ?thesis
    by (simp add: observe_depth_def Let_def distinct_update split: option.split)
qed

lemma observe_depth_tracks_quotes:
  assumes "tracks_times h c" and "tracks_quotes h c" and depth: "tr_event_type r \<in> set DEPTH_CHANNELS"
  shows "tracks_quotes (r # h) (observe_depth c r)"
proof -
  have times: "map_of (times_of (observe_depth c r) k) ''bid'' =
        side_time ''bid'' (since_flush (book_rows k (r # h)))"
      "map_of (times_of (observe_depth c r) k) ''ask'' =
        side_time ''ask'' (since_flush (book_rows k (r # h)))" for k
    by (rule tracks_timesD [OF observe_depth_tracks_times [OF assms(1) depth]]; simp)+
  have quotes: "map_of (cl_quotes c) k = completed_quote (since_flush (book_rows k h))" for k
    using assms(2) unfolding tracks_quotes_def reference_quote_def by blast
  have "map_of (cl_quotes (observe_depth c r)) k = reference_quote (r # h) k" for k
  proof (cases "k = row_key r")
    case True
    then show ?thesis
      using depth quotes [of k]
      by (simp add: observe_depth_quotes reference_quote_def times flush_quotes Let_def
          split: option.split)
  next
    case False
    then show ?thesis
      using quotes [of k] by (simp add: observe_depth_quotes reference_quote_def flush_quotes Let_def)
  qed
  then show ?thesis
    using assms(2) by (simp add: tracks_quotes_def observe_depth_distinct)
qed

lemma observe_print_trades:
  "trade_of (fst (observe_print c r)) i =
     (if tr_last_price r \<noteq> None \<and> tr_last_quantity r \<noteq> None \<and> tr_cumulative_volume r \<noteq> None \<and>
         i = tr_instrument_id r
      then observe_price ((trade_of c i)\<lparr>ts_cumulative_volume := Some (print_volume r)\<rparr>)
             (print_price r)
      else trade_of c i)"
  by (cases "tr_last_price r"; cases "tr_last_quantity r"; cases "tr_cumulative_volume r")
    (auto simp: observe_print_def Let_def trade_of_def dict_simps print_volume_def print_price_def
      split: option.split)

lemma observe_print_frame [simp]:
  "cl_side_times (fst (observe_print c r)) = cl_side_times c"
  "cl_quotes (fst (observe_print c r)) = cl_quotes c"
  "cl_bound_ms (fst (observe_print c r)) = cl_bound_ms c"
  by (auto simp: observe_print_def Let_def split: option.split)

lemma flush_book_frame [simp]:
  "cl_bound_ms (flush_book c r) = cl_bound_ms c" "cl_trades (flush_book c r) = cl_trades c"
  by (simp_all add: flush_book_def)

lemma observe_depth_frame [simp]:
  "cl_bound_ms (observe_depth c r) = cl_bound_ms c" "cl_trades (observe_depth c r) = cl_trades c"
  by (simp_all add: observe_depth_def Let_def split: option.split)

definition tracks :: "rat \<Rightarrow> tape_row list \<Rightarrow> classifier \<Rightarrow> bool" where
  "tracks bound h c \<longleftrightarrow>
     cl_bound_ms c = bound \<and> tracks_times h c \<and> tracks_quotes h c \<and> tracks_trades h c"

lemma depth_not_print:
  "tr_event_type r \<in> set DEPTH_CHANNELS \<Longrightarrow> \<not> complete_print r"
  by (auto simp: DEPTH_CHANNELS_def PRINT_EVENT_TYPES_def complete_print_def)

lemma process_tracks:
  assumes "tracks b h c"
  shows "tracks b (r # h) (fst (process c r))"
proof -
  consider (depth) "tr_event_type r \<in> set DEPTH_CHANNELS"
    | (other) "tr_event_type r \<notin> set DEPTH_CHANNELS" "tr_event_type r \<notin> set PRINT_EVENT_TYPES"
    | (print) "tr_event_type r \<notin> set DEPTH_CHANNELS" "tr_event_type r \<in> set PRINT_EVENT_TYPES"
    by blast
  then show ?thesis
  proof cases
    case depth
    moreover have "tracks_trades (r # h) (observe_depth c r)"
      using assms depth_not_print [OF depth] by (simp add: tracks_def tracks_trades_def trade_of_def)
    ultimately show ?thesis
      using assms observe_depth_tracks_times observe_depth_tracks_quotes
      by (simp add: tracks_def process_def)
  next
    case other
    then have "\<not> complete_print r" by (simp add: complete_print_def)
    then show ?thesis
      using assms other
      by (simp add: tracks_def process_def tracks_times_def tracks_quotes_def tracks_trades_def
          reference_quote_def)
  next
    case print
    have "tracks_trades (r # h) (fst (observe_print c r))"
      using assms print
      by (auto simp: tracks_def tracks_trades_def observe_print_trades complete_print_def
          observe_price_reference)
    then show ?thesis
      using assms print
      by (simp add: tracks_def process_def tracks_times_def tracks_quotes_def reference_quote_def
          times_of_def)
  qed
qed

fun classifier_run :: "classifier \<Rightarrow> tape_row list \<Rightarrow> classifier" where
  "classifier_run c [] = c"
| "classifier_run c (r # rs) = classifier_run (fst (process c r)) rs"

lemma classifier_run_tracks:
  "tracks b h c \<Longrightarrow> tracks b (rev rs @ h) (classifier_run c rs)"
  by (induction rs arbitrary: h c) (use process_tracks in force)+

lemma classifier_init_tracks:
  "classifier_init q = Inr c \<Longrightarrow> tracks (q * 1000) [] c \<and> 0 < q"
  by (auto simp: classifier_init_def tracks_def tracks_times_def tracks_quotes_def times_of_def
      tracks_trades_def trade_of_def reference_quote_def book_rows_def prints_def
      split: if_splits)

lemma run_tracks:
  "classifier_init q = Inr c \<Longrightarrow> tracks (q * 1000) (rev rs) (classifier_run c rs)"
  using classifier_run_tracks [of "q * 1000" "[]" c rs] classifier_init_tracks by simp

section \<open>The prevailing quote\<close>

lemma since_flush_subset: "set (since_flush h) \<subseteq> set h"
  by (induction h) auto

lemma completed_quote_channel:
  "completed_quote seg = Some q \<Longrightarrow> \<exists>d \<in> set seg. qs_channel q = tr_event_type d"
  by (induction seg) (auto simp: book_quote_def split: option.splits if_splits list.splits)

lemma reference_quote_channel:
  assumes "reference_quote h k = Some q"
  shows "qs_channel q = snd k" and "snd k \<in> set DEPTH_CHANNELS"
proof -
  from assms obtain d where d: "d \<in> set (since_flush (book_rows k h))"
      and q: "qs_channel q = tr_event_type d"
    unfolding reference_quote_def by (blast dest: completed_quote_channel)
  from d have "d \<in> set (book_rows k h)" using since_flush_subset by blast
  with q show "qs_channel q = snd k" and "snd k \<in> set DEPTH_CHANNELS"
    by (auto simp: book_rows_def row_key_def)
qed

lemma set_map_filter: "y \<in> set (List.map_filter f xs) \<longleftrightarrow> (\<exists>x \<in> set xs. f x = Some y)"
  by (induction xs) (auto simp: map_filter_simps split: option.splits)

lemma prevailing_quote_reference:
  assumes "tracks_quotes h c"
  shows "prevailing_quote c r = reference_prevailing h r"
proof -
  let ?ok = "\<lambda>q. instant (state_receive_ts q) \<le> instant (tr_receive_ts r)"
  let ?i = "tr_instrument_id r"
  let ?dict = "[q. ((i, _), q) \<leftarrow> cl_quotes c, i = ?i \<and> ?ok q]"
  have dist: "distinct (map fst (cl_quotes c))"
    and quotes: "\<And>k. map_of (cl_quotes c) k = reference_quote h k"
    using assms by (auto simp: tracks_quotes_def)
  have dict: "q \<in> set ?dict \<longleftrightarrow> (\<exists>ch. reference_quote h (?i, ch) = Some q) \<and> ?ok q" for q
    using dist by (auto simp flip: quotes)
  have "q \<in> set (filter ?ok (List.map_filter (\<lambda>ch. reference_quote h (?i, ch)) DEPTH_CHANNELS)) \<longleftrightarrow>
      (\<exists>ch. reference_quote h (?i, ch) = Some q) \<and> ?ok q" for q
    using reference_quote_channel(2) [of h "(?i, _)"] by (auto simp: set_map_filter)
  then have "set ?dict = set (filter ?ok
      (List.map_filter (\<lambda>ch. reference_quote h (?i, ch)) DEPTH_CHANNELS))"
    using dict by blast
  moreover have "inj_on quote_rank (set ?dict)"
  proof (rule inj_onI)
    fix x y assume "x \<in> set ?dict" "y \<in> set ?dict" and rank: "quote_rank x = quote_rank y"
    then obtain chx chy where x: "reference_quote h (?i, chx) = Some x"
        and y: "reference_quote h (?i, chy) = Some y"
      unfolding dict by blast
    have "chx = chy"
      using rank reference_quote_channel(1) [OF x] reference_quote_channel(1) [OF y]
      by (simp add: quote_rank_def)
    with x y show "x = y" by simp
  qed
  ultimately show ?thesis
    unfolding prevailing_quote_def reference_prevailing_def latest_candidate_def
    by (rule first_max_set)
qed

lemma prevailing_quote_trades [simp]:
  "prevailing_quote (c\<lparr>cl_trades := t\<rparr>) r = prevailing_quote c r"
  by (simp add: prevailing_quote_def)

lemma observe_print_complete:
  assumes "complete_print r"
  shows "snd (observe_print c r) =
     (case ts_cumulative_volume (trade_of c (tr_instrument_id r)) of
        None \<Rightarrow> Inr r
      | Some prior \<Rightarrow>
          if print_volume r \<le> prior then Inr r
          else bind_result
            (classify_trade (print_price r) (map_option qs_best_bid (prevailing_quote c r))
               (map_option qs_best_ask (prevailing_quote c r))
               (last_differing_price
                  ((trade_of c (tr_instrument_id r))
                     \<lparr>ts_cumulative_volume := Some (print_volume r)\<rparr>) (print_price r))
               (map_option (\<lambda>q. age_ms_at q (tr_receive_ts r)) (prevailing_quote c r))
               (cl_bound_ms c) (print_volume r - prior) (the (tr_last_quantity r)))
            (enrich r (cl_bound_ms c) (print_volume r - prior) (prevailing_quote c r)))"
  using assms
  by (auto simp: complete_print_def observe_print_def Let_def trade_of_def print_price_def
      print_volume_def split: option.split)

lemma process_reference:
  assumes "tracks b h c"
  shows "snd (process c r) = reference_process b h r"
proof (cases "complete_print r")
  case True
  have "tr_event_type r \<notin> set DEPTH_CHANNELS" using True depth_not_print by blast
  moreover have "tr_event_type r \<in> set PRINT_EVENT_TYPES" using True by (simp add: complete_print_def)
  moreover have trade: "trade_of c i = reference_trade (prints i h)" for i
    using assms by (simp add: tracks_def tracks_trades_def)
  moreover have "prevailing_quote c r = reference_prevailing h r" and "cl_bound_ms c = b"
    using assms prevailing_quote_reference by (auto simp: tracks_def)
  ultimately show ?thesis
    using True
    by (cases "prints (tr_instrument_id r) h")
      (simp_all add: process_def observe_print_complete reference_process_def Let_def
        last_differing_reference trade trade_state_init_def
        del: reference_trade.simps(2) cong: if_cong option.case_cong
        add: arg_cong [OF reference_trade.simps(2), of ts_cumulative_volume])
next
  case False
  then have "snd (process c r) = Inr r"
    by (cases "tr_last_price r"; cases "tr_last_quantity r"; cases "tr_cumulative_volume r")
      (auto simp: process_def observe_print_def complete_print_def)
  with False show ?thesis by (simp add: reference_process_def split: list.split)
qed

section \<open>What an accepted row carries\<close>

lemma classify_trade_total:
  assumes "0 < price" "0 < b" "0 < inc" "0 \<le> qty" "opt_ok (\<lambda>a. 0 \<le> a) age" "d \<noteq> Some price"
  shows "\<exists>k. classify_trade price bid ask d age b inc qty = Inr k"
  using assms
  by (cases bid; cases ask; cases age; cases d)
    (auto simp: classify_trade_def Let_def not_less order_antisym_conv)

text \<open>Every quote the reference can offer was assembled from rows of the book's current segment.\<close>

lemma completed_quote_source:
  assumes "completed_quote seg = Some q"
  obtains newer d older where "seg = newer @ d # older" and "one_sided d"
    and "tr_best_bid d = Some (qs_best_bid q)" and "tr_best_ask d = Some (qs_best_ask q)"
    and "qs_channel q = tr_event_type d"
    and "side_time ''bid'' (d # older) = Some (qs_bid_receive_ts q)"
    and "side_time ''ask'' (d # older) = Some (qs_ask_receive_ts q)"
proof -
  have "\<exists>newer d older. seg = newer @ d # older \<and> one_sided d \<and>
      tr_best_bid d = Some (qs_best_bid q) \<and> tr_best_ask d = Some (qs_best_ask q) \<and>
      qs_channel q = tr_event_type d \<and>
      side_time ''bid'' (d # older) = Some (qs_bid_receive_ts q) \<and>
      side_time ''ask'' (d # older) = Some (qs_ask_receive_ts q)"
    using assms
  proof (induction seg)
    case (Cons r seg)
    show ?case
    proof (cases "one_sided r \<and>
        book_quote r (side_time ''bid'' (r # seg)) (side_time ''ask'' (r # seg)) = Some q")
      case True
      then show ?thesis
        by (intro exI [of _ "[]"] exI [of _ r] exI [of _ seg])
          (auto simp: book_quote_def tr_best_bid_def tr_best_ask_def
            split: list.splits option.splits)
    next
      case False
      with Cons.prems have "completed_quote seg = Some q" by (auto split: if_splits option.splits)
      from Cons.IH [OF this] show ?thesis by (metis append_Cons)
    qed
  qed simp
  with that show thesis by blast
qed

lemma side_time_row:
  "side_time s seg = Some t \<Longrightarrow> \<exists>d \<in> set seg. tr_receive_ts d = t \<and> tr_update_side d = Some s"
  by (induction seg) (auto simp: side_time_Cons split: if_splits)

definition quote_ok :: "quote_state \<Rightarrow> bool" where
  "quote_ok q \<longleftrightarrow>
     qs_channel q \<in> set DEPTH_CHANNELS \<and> is_aware (qs_bid_receive_ts q) \<and>
     is_aware (qs_ask_receive_ts q) \<and> 0 < qs_best_bid q \<and> 0 < qs_best_ask q"

lemma best_price_positive:
  "tape_row_ok r \<Longrightarrow> tr_best_bid r = Some p \<Longrightarrow> 0 < p"
  "tape_row_ok r \<Longrightarrow> tr_best_ask r = Some p \<Longrightarrow> 0 < p"
  by (cases "tr_bids r"; cases "tr_asks r";
      simp add: tr_best_bid_def tr_best_ask_def tape_row_ok_def depth_level_ok_iff)+

lemma reference_quote_ok:
  assumes "reference_quote h k = Some q" and "list_all tape_row_ok h"
  shows "quote_ok q"
proof -
  have ok: "tape_row_ok d" if "d \<in> set (since_flush (book_rows k h))" for d
    using that since_flush_subset assms(2) by (fastforce simp: book_rows_def list_all_iff)
  obtain newer d older where seg: "since_flush (book_rows k h) = newer @ d # older"
      and q: "tr_best_bid d = Some (qs_best_bid q)" "tr_best_ask d = Some (qs_best_ask q)"
        "side_time ''bid'' (d # older) = Some (qs_bid_receive_ts q)"
        "side_time ''ask'' (d # older) = Some (qs_ask_receive_ts q)"
    using assms(1) unfolding reference_quote_def by (rule completed_quote_source) blast
  have "is_aware t" if "side_time s (d # older) = Some t" for s t
    using side_time_row [OF that] ok seg tape_row_ok_facts(1) by fastforce
  then show ?thesis
    using q best_price_positive ok [of d] seg reference_quote_channel [OF assms(1)]
    by (auto simp: quote_ok_def)
qed

lemma reference_prevailing_ok:
  assumes "reference_prevailing h r = Some q" and "list_all tape_row_ok h"
  shows "quote_ok q" and "instant (state_receive_ts q) \<le> instant (tr_receive_ts r)"
  using first_max_in [OF assms(1) [unfolded reference_prevailing_def latest_candidate_def]]
    reference_quote_ok [OF _ assms(2)]
  by (auto simp: set_map_filter)

lemma reference_prevailing_opt:
  assumes "list_all tape_row_ok h"
  shows "opt_ok quote_ok (reference_prevailing h r)"
    and "opt_ok (\<lambda>q. instant (state_receive_ts q) \<le> instant (tr_receive_ts r))
           (reference_prevailing h r)"
  using reference_prevailing_ok [OF _ assms, of r] by (cases "reference_prevailing h r"; simp)+

lemma age_nonneg:
  "instant (state_receive_ts q) \<le> instant t \<Longrightarrow> 0 \<le> age_ms_at q t"
  by (auto simp: state_receive_ts_def age_ms_at_def us_ms_def dt_max2_def le_max_iff_disj
      split: if_splits)

lemma enrich_Inr:
  assumes "enrich r b inc quote k = Inr r'"
  shows "tr_cumulative_volume_increment r' = Some inc"
    and "tr_trade_quote_bid r' = map_option qs_best_bid quote"
    and "tr_trade_quote_ask r' = map_option qs_best_ask quote"
    and "tr_trade_quote_channel r' = map_option qs_channel quote"
    and "tr_instrument_id r' = tr_instrument_id r"
  using assms by (auto simp: enrich_def tape_row_post_init_Inr)

lemma checked_row_ok:
  assumes "first_error (tape_row_checks r) = None"
    and "list_all depth_level_ok (tr_bids r)" "list_all depth_level_ok (tr_asks r)"
  shows "\<exists>r'. tape_row_post_init (r\<lparr>tr_quality_flags := fs\<rparr>) = Inr r' \<and> tape_row_ok r'"
proof -
  have "tape_row_post_init (r\<lparr>tr_quality_flags := fs\<rparr>) =
      Inr (r\<lparr>tr_quality_flags := sorted_set fs\<rparr>)"
    using assms(1) by (simp add: tape_row_post_init_def)
  moreover from this have "tape_row_ok (r\<lparr>tr_quality_flags := sorted_set fs\<rparr>)"
    by (rule tape_row_post_init_ok) (use assms in simp_all)
  ultimately show ?thesis by blast
qed

lemma enrich_ok:
  assumes "tape_row_ok r" "tr_event_type r \<in> set PRINT_EVENT_TYPES" "0 < b" "0 < inc"
    and "opt_ok quote_ok quote"
    and "opt_ok (\<lambda>q. instant (state_receive_ts q) \<le> instant (tr_receive_ts r)) quote"
  shows "\<exists>r'. enrich r b inc quote k = Inr r' \<and> tape_row_ok r'"
proof -
  note old = tape_row_ok_checks [OF assms(1), unfolded first_error_None tape_row_checks_def]
  have books: "list_all depth_level_ok (tr_bids r)" "list_all depth_level_ok (tr_asks r)"
    using assms(1) by (simp_all add: tape_row_ok_def)
  define r1 where "r1 = (r\<lparr>tr_cumulative_volume_increment := Some inc,
          tr_trade_quote_bid := map_option qs_best_bid quote,
          tr_trade_quote_ask := map_option qs_best_ask quote,
          tr_trade_quote_channel := map_option qs_channel quote,
          tr_trade_quote_bid_receive_ts := map_option qs_bid_receive_ts quote,
          tr_trade_quote_ask_receive_ts := map_option qs_ask_receive_ts quote,
          tr_trade_quote_receive_ts := map_option state_receive_ts quote,
          tr_trade_quote_age_ms := map_option (\<lambda>q. age_ms_at q (tr_receive_ts r)) quote,
          tr_trade_quote_freshness_bound_ms := Some b,
          tr_trade_side := Some (tc_side k),
          tr_trade_classifier_version := Some TRADE_CLASSIFIER_VERSION,
          tr_trade_alignment_version := Some TRADE_ALIGNMENT_VERSION,
          tr_trade_classification_degraded := Some (tc_degraded k),
          tr_trade_classification_reason := Some (reason_str (tc_reason k)),
          tr_trade_coalesced := Some (tc_coalesced k)\<rparr>)"
  have "is_aware (state_receive_ts q)" if "quote_ok q" for q
    using that by (simp add: quote_ok_def state_receive_ts_def dt_max2_def)
  then have "first_error (tape_row_checks r1) = None"
    using old assms age_nonneg
    by (cases quote)
      (simp_all add: r1_def first_error_None tape_row_checks_def classification_presence_def
        quote_presence_def PRINT_EVENT_TYPES_def quote_ok_def DEPTH_CHANNELS_def)
  moreover have "list_all depth_level_ok (tr_bids r1)" "list_all depth_level_ok (tr_asks r1)"
    using books by (simp_all add: r1_def)
  ultimately have "\<exists>r'. tape_row_post_init (r1\<lparr>tr_quality_flags := fs\<rparr>) = Inr r' \<and> tape_row_ok r'" for fs
    by (rule checked_row_ok)
  then show ?thesis by (simp add: enrich_def r1_def)
qed

text \<open>The classification fields; everything else of a row is its frame.\<close>

definition unclassified_frame :: "tape_row \<Rightarrow> tape_row" where
  "unclassified_frame r =
     r\<lparr>tr_cumulative_volume_increment := None, tr_trade_quote_bid := None,
       tr_trade_quote_ask := None, tr_trade_quote_channel := None,
       tr_trade_quote_bid_receive_ts := None, tr_trade_quote_ask_receive_ts := None,
       tr_trade_quote_receive_ts := None, tr_trade_quote_age_ms := None,
       tr_trade_quote_freshness_bound_ms := None, tr_trade_side := None,
       tr_trade_classifier_version := None, tr_trade_alignment_version := None,
       tr_trade_classification_degraded := None, tr_trade_classification_reason := None,
       tr_trade_coalesced := None, tr_quality_flags := []\<rparr>"

definition only_enriched :: "tape_row \<Rightarrow> tape_row \<Rightarrow> bool" where
  "only_enriched r r' \<longleftrightarrow>
     unclassified_frame r' = unclassified_frame r \<and>
     set (tr_quality_flags r) \<subseteq> set (tr_quality_flags r') \<and>
     set (tr_quality_flags r') \<subseteq>
       set (tr_quality_flags r) \<union> {TRADE_CLASSIFICATION_DEGRADED, COALESCED_PRINT}"

lemma enrich_frame:
  "enrich r b inc quote k = Inr r' \<Longrightarrow> only_enriched r r'"
  by (auto simp: enrich_def tape_row_post_init_Inr only_enriched_def unclassified_frame_def)

lemma reference_process_cases:
  obtains (unchanged) "reference_process b h r = Inr r"
  | (classified) newest older quote inc where
      "complete_print r" and "prints (tr_instrument_id r) h = newest # older"
      and "inc = print_volume r - print_volume newest" and "0 < inc"
      and "quote = reference_prevailing h r"
      and "reference_process b h r = bind_result
        (classify_trade (print_price r) (map_option qs_best_bid quote)
           (map_option qs_best_ask quote)
           (reference_differing (prints (tr_instrument_id r) h) (print_price r))
           (map_option (\<lambda>q. age_ms_at q (tr_receive_ts r)) quote) b inc (the (tr_last_quantity r)))
        (enrich r b inc quote)"
proof (cases "prints (tr_instrument_id r) h")
  case Nil
  then show thesis by (intro unchanged) (simp add: reference_process_def)
next
  case (Cons newest older)
  show thesis
  proof (cases "complete_print r \<and> print_volume newest < print_volume r")
    case True
    with Cons show thesis
      by (intro classified [OF _ Cons refl _ refl]) (simp_all add: reference_process_def Let_def)
  next
    case False
    with Cons show thesis by (intro unchanged) (auto simp: reference_process_def)
  qed
qed

lemma reference_differing_neq: "reference_differing ps p \<noteq> Some p"
  by (auto simp: reference_differing_def find_Some_iff)

lemma reference_process_sound:
  assumes "0 < b" and rows: "list_all tape_row_ok h" and r: "tape_row_ok r"
  shows "case reference_process b h r of
      Inr r' \<Rightarrow> tape_row_ok r' \<and> only_enriched r r'
    | Inl e \<Rightarrow> complete_print r \<and> (print_price r \<le> 0 \<or> the (tr_last_quantity r) < 0)"
proof (cases rule: reference_process_cases [of b h r])
  case unchanged
  then show ?thesis using r by (auto simp: only_enriched_def)
next
  case (classified newest older quote inc)
  have quote: "opt_ok quote_ok quote"
      "opt_ok (\<lambda>q. instant (state_receive_ts q) \<le> instant (tr_receive_ts r)) quote"
    unfolding classified(5) by (rule reference_prevailing_opt [OF rows])+
  have age: "opt_ok (\<lambda>a. 0 \<le> a) (map_option (\<lambda>q. age_ms_at q (tr_receive_ts r)) quote)"
    using quote(2) age_nonneg by (cases quote) simp_all
  have event: "tr_event_type r \<in> set PRINT_EVENT_TYPES"
    using classified(1) by (simp add: complete_print_def)
  define k where "k = classify_trade (print_price r) (map_option qs_best_bid quote)
           (map_option qs_best_ask quote)
           (reference_differing (prints (tr_instrument_id r) h) (print_price r))
           (map_option (\<lambda>q. age_ms_at q (tr_receive_ts r)) quote) b inc (the (tr_last_quantity r))"
  note result = classified(6) [folded k_def]
  show ?thesis
  proof (cases k)
    case (Inl e)
    then have "\<not> (0 < print_price r \<and> 0 \<le> the (tr_last_quantity r))"
      using classify_trade_total [OF _ \<open>0 < b\<close> \<open>0 < inc\<close> _ age reference_differing_neq]
      unfolding k_def by (metis sum.distinct(1))
    then show ?thesis using Inl result classified(1) by auto
  next
    case (Inr x)
    obtain r' where "enrich r b inc quote x = Inr r'" "tape_row_ok r'"
      using enrich_ok [OF r event \<open>0 < b\<close> classified(4) quote] by blast
    then show ?thesis using Inr result enrich_frame by simp
  qed
qed

section \<open>Properties\<close>

text \<open>A short capture on which the properties are instantiated.\<close>

definition example_depth :: "string \<Rightarrow> int \<Rightarrow> tape_row" where
  "example_depth side us =
     example_row\<lparr>tr_event_type := ''depth20'', tr_update_side := Some side,
       tr_receive_ts := Aware us 19800\<rparr>"

definition example_print :: "rat \<Rightarrow> int \<Rightarrow> int \<Rightarrow> tape_row" where
  "example_print price volume us =
     example_row\<lparr>tr_last_price := Some price, tr_cumulative_volume := Some volume,
       tr_receive_ts := Aware us 19800\<rparr>"

definition example_rows :: "tape_row list" where
  "example_rows =
     [example_depth ''bid'' 1000000, example_depth ''ask'' 1100000, example_print 100 500 1200000]"

definition example_classifier :: classifier where
  "example_classifier =
     \<lparr>cl_bound_ms = 1000, cl_side_times = [], cl_quotes = [], cl_trades = []\<rparr>"

lemma example_classifier: "classifier_init 1 = Inr example_classifier"
  by (simp add: classifier_init_def example_classifier_def)

definition example_result :: tape_row where
  "example_result =
     projr (snd (process (classifier_run example_classifier example_rows)
                   (example_print 101 530 1300000)))"

lemma example_result:
  "snd (process (classifier_run example_classifier example_rows) (example_print 101 530 1300000)) =
     Inr example_result"
proof -
  have "\<not> isl (snd (process (classifier_run example_classifier example_rows)
      (example_print 101 530 1300000)))"
    by code_simp
  then show ?thesis unfolding example_result_def by (rule sum.collapse(2) [symmetric])
qed

lemma example_result_fields:
  "(tr_trade_quote_bid example_result, tr_trade_side example_result,
    tr_cumulative_volume_increment example_result, tr_trade_coalesced example_result) =
   (Some 99, Some BUY, Some 30, Some True)"
  by code_simp

lemma example_rows_ok: "list_all tape_row_ok example_rows"
  by code_simp

lemma example_print_ok: "tape_row_ok (example_print 101 530 1300000)"
  by code_simp


fun swap_side :: "trade_side \<Rightarrow> trade_side" where
  "swap_side BUY = SELL"
| "swap_side SELL = BUY"
| "swap_side UNCLASSIFIED = UNCLASSIFIED"

text \<open>The rule treats buyers and sellers alike. Reflecting the print price and the last
  differing trade price about the midpoint of the quote swaps BUY and SELL and leaves the reason,
  the degraded and the coalesced flags as they are, in the quote rule, the tick rule and the
  unclassified outcomes.\<close>

theorem classify_trade_mirror:
  assumes "classify_trade p (Some b) (Some a) d age bound inc qty = Inr k"
    and "0 < b + a - p"
  shows "classify_trade (b + a - p) (Some b) (Some a) (map_option (\<lambda>x. b + a - x) d) age bound inc qty
       = Inr (k\<lparr>tc_side := swap_side (tc_side k)\<rparr>)"
proof -
  have flip: "(b + a - p > (b + a) / 2) = (p < (b + a) / 2)"
      "(b + a - p < (b + a) / 2) = (p > (b + a) / 2)"
    by (simp_all add: field_simps)
  have tick: "(b + a - p > b + a - x) = (p < x)" "(b + a - p < b + a - x) = (p > x)" for x
    by auto
  show ?thesis
    using assms
    by (cases age; cases d)
      (auto simp: classify_trade_def Let_def flip tick split: if_splits)
qed

theorem classify_trade_mirror_witness:
  "classify_trade 100 (Some 99) (Some 102) None (Some 5) 1000 30 25 =
     Inr \<lparr>tc_side = SELL, tc_reason = QUOTE_RULE, tc_degraded = False, tc_coalesced = True\<rparr> \<and>
   classify_trade (99 + 102 - 100) (Some 99) (Some 102) (map_option (\<lambda>x. 99 + 102 - x) None)
       (Some 5) 1000 30 25 =
     Inr \<lparr>tc_side = BUY, tc_reason = QUOTE_RULE, tc_degraded = False, tc_coalesced = True\<rparr>"
proof -
  have "classify_trade 100 (Some 99) (Some 102) None (Some 5) 1000 30 25 =
     Inr \<lparr>tc_side = SELL, tc_reason = QUOTE_RULE, tc_degraded = False, tc_coalesced = True\<rparr>"
    by (simp add: classify_trade_def)
  with classify_trade_mirror [OF this] show ?thesis by simp
qed

text \<open>C18: the bounded adapter implements the reference classifier that reads the whole history.
  Whatever rows have been processed, the answer for the next row is the one computed from scratch:
  its volume increment against the latest earlier complete print of the instrument, the last trade
  price different from its own anywhere in the past, and the prevailing depth quote of the
  instrument rebuilt from the rows since each book's last flagged row.\<close>

theorem process_implements_reference:
  assumes "classifier_init q = Inr c"
  shows "snd (process (classifier_run c rs) r) = reference_process (q * 1000) (rev rs) r"
  using process_reference [OF run_tracks [OF assms]] .

theorem process_implements_reference_witness:
  "snd (process (classifier_run example_classifier example_rows) (example_print 101 530 1300000)) =
     reference_process (1 * 1000) (rev example_rows) (example_print 101 530 1300000) \<and>
   tr_trade_side example_result = Some BUY"
  using process_implements_reference [OF example_classifier] example_result_fields by simp

text \<open>C25: processing is safe. For rows a construction can return, whatever was processed before,
  the result is again a row a construction can return, which differs from the input in the
  classification fields only and gains at most the two classification flags; a raise comes only
  from a complete print with a non-positive price or a negative quantity (in particular the final
  \<open>last_differing_trade_price must differ\<close> error is unreachable).\<close>

theorem process_safe:
  assumes "classifier_init q = Inr c" and "list_all tape_row_ok rs" and "tape_row_ok r"
  shows "case snd (process (classifier_run c rs) r) of
      Inr r' \<Rightarrow> tape_row_ok r' \<and> only_enriched r r'
    | Inl e \<Rightarrow> complete_print r \<and> (print_price r \<le> 0 \<or> the (tr_last_quantity r) < 0)"
  unfolding process_reference [OF run_tracks [OF assms(1)]]
  by (rule reference_process_sound) (use assms classifier_init_tracks [OF assms(1)] in simp_all)

theorem process_safe_witness:
  "tape_row_ok example_result \<and> only_enriched (example_print 101 530 1300000) example_result"
  using process_safe [OF example_classifier example_rows_ok example_print_ok]
  by (simp add: example_result)

text \<open>A book's segment is what came after its last flagged row.\<close>

lemma since_flush_split:
  "\<exists>rest. h = since_flush h @ rest \<and>
     (\<forall>newer d older. since_flush h = newer @ d # older \<longrightarrow> list_all (\<lambda>x. \<not> flushes x) newer)"
proof (induction h)
  case (Cons r h)
  then obtain rest where rest: "h = since_flush h @ rest"
    "\<forall>newer d older. since_flush h = newer @ d # older \<longrightarrow> list_all (\<lambda>x. \<not> flushes x) newer"
    by blast
  show ?case
  proof (cases "flushes r")
    case True
    then show ?thesis by (auto simp: Cons_eq_append_conv)
  next
    case False
    then show ?thesis
      using rest by (intro exI [of _ rest]) (auto simp: Cons_eq_append_conv)
  qed
qed simp

lemma filter_split:
  assumes "filter P xs = us @ d # vs"
  shows "\<exists>us' vs'. xs = us' @ d # vs' \<and> filter P us' = us \<and> filter P vs' = vs \<and> P d"
  using assms
proof (induction us arbitrary: xs)
  case Nil
  then obtain as bs where "xs = as @ d # bs" "\<forall>a \<in> set as. \<not> P a" "P d" "filter P bs = vs"
    by (auto simp: filter_eq_Cons_iff)
  then show ?case by (intro exI [of _ as] exI [of _ bs]) (simp add: filter_empty_conv)
next
  case (Cons u us)
  then obtain as bs where xs: "xs = as @ u # bs" "\<forall>a \<in> set as. \<not> P a" "P u"
      "filter P bs = us @ d # vs"
    by (auto simp: filter_eq_Cons_iff)
  from Cons.IH [OF xs(4)] obtain us' vs' where
    bs: "bs = us' @ d # vs'" "filter P us' = us" "filter P vs' = vs" "P d" by blast
  have "filter P as = []" using xs(2) by (simp add: filter_empty_conv)
  with xs bs show ?case by (intro exI [of _ "as @ u # us'"] exI [of _ vs']) simp
qed

lemma one_sided_time:
  "one_sided d \<Longrightarrow> side_time ''bid'' (d # older) = Some tb \<Longrightarrow>
     side_time ''ask'' (d # older) = Some ta \<Longrightarrow> tr_receive_ts d = tb \<or> tr_receive_ts d = ta"
  by (auto simp: one_sided_def side_time_Cons)

lemma reference_quote_source:
  assumes "reference_quote h k = Some q"
  obtains newer d older where "h = newer @ d # older" and "row_key d = k"
    and "tr_best_bid d = Some (qs_best_bid q)" and "tr_best_ask d = Some (qs_best_ask q)"
    and "qs_channel q = tr_event_type d" and "tr_event_type d \<in> set DEPTH_CHANNELS"
    and "instant (tr_receive_ts d) \<le> instant (state_receive_ts q)"
    and "\<forall>x \<in> set newer. row_key x = k \<longrightarrow> \<not> flushes x"
proof -
  let ?book = "\<lambda>r. row_key r = k \<and> tr_event_type r \<in> set DEPTH_CHANNELS"
  obtain seg1 d seg2 where seg: "since_flush (book_rows k h) = seg1 @ d # seg2" and "one_sided d"
      and q: "tr_best_bid d = Some (qs_best_bid q)" "tr_best_ask d = Some (qs_best_ask q)"
        "qs_channel q = tr_event_type d"
      and times: "side_time ''bid'' (d # seg2) = Some (qs_bid_receive_ts q)"
        "side_time ''ask'' (d # seg2) = Some (qs_ask_receive_ts q)"
    using assms unfolding reference_quote_def by (rule completed_quote_source) blast
  from one_sided_time [OF \<open>one_sided d\<close> times]
  have ts: "instant (tr_receive_ts d) \<le> instant (state_receive_ts q)"
    by (auto simp: state_receive_ts_def dt_max2_def)
  from since_flush_split [of "book_rows k h"] seg obtain rest where
    book: "book_rows k h = seg1 @ d # seg2 @ rest" and noflush: "list_all (\<lambda>x. \<not> flushes x) seg1"
    by (metis append.assoc append_Cons)
  from filter_split [OF book [unfolded book_rows_def]] obtain newer older where
    h: "h = newer @ d # older" "filter ?book newer = seg1" "?book d" by blast
  have "\<not> flushes x" if "x \<in> set newer" "row_key x = k" for x
  proof -
    have "tr_event_type x = tr_event_type d"
      using that(2) h(3) by (simp add: row_key_def prod_eq_iff)
    with that h(3) have "x \<in> set seg1" unfolding h(2) [symmetric] by simp
    with noflush show ?thesis by (simp add: list_all_iff)
  qed
  with h q ts that show thesis by blast
qed

lemma reference_process_bid:
  assumes "reference_process b h r = Inr r'"
    and "tr_trade_quote_bid r = None" and "tr_trade_quote_bid r' = Some bid"
  obtains q where "reference_prevailing h r = Some q" and "bid = qs_best_bid q"
    and "tr_trade_quote_ask r' = Some (qs_best_ask q)"
    and "tr_trade_quote_channel r' = Some (qs_channel q)"
proof (cases rule: reference_process_cases [of b h r])
  case (classified newest older quote inc)
  from assms(1) [unfolded classified(6) bind_result_Inr]
  obtain k where "enrich r b inc quote k = Inr r'" by blast
  note fields = enrich_Inr(2,3,4) [OF this, unfolded classified(5)]
  show thesis
    by (cases "reference_prevailing h r") (use that assms(3) fields in simp_all)
qed (use assms in auto)



text \<open>The sum of the increments attributed to one instrument's rows, and the positive jumps of a
  cumulative volume series.\<close>

fun process_all :: "classifier \<Rightarrow> tape_row list \<Rightarrow> tape_row result list" where
  "process_all c [] = []"
| "process_all c (r # rs) = snd (process c r) # process_all (fst (process c r)) rs"

fun attributed :: "string \<Rightarrow> tape_row result list \<Rightarrow> int" where
  "attributed i [] = 0"
| "attributed i (Inr r # rs) =
     (if tr_instrument_id r = i
      then (case tr_cumulative_volume_increment r of None \<Rightarrow> 0 | Some n \<Rightarrow> n) else 0)
       + attributed i rs"
| "attributed i (Inl e # rs) = attributed i rs"

lemma reference_increment:
  assumes "reference_process b h r = Inr r'" and "tr_cumulative_volume_increment r = None"
  shows "tr_instrument_id r' = tr_instrument_id r"
    and "(case tr_cumulative_volume_increment r' of None \<Rightarrow> 0 | Some n \<Rightarrow> n) =
      (case prints (tr_instrument_id r) h of
         [] \<Rightarrow> 0
       | newest # _ \<Rightarrow>
           if complete_print r then max 0 (print_volume r - print_volume newest) else 0)"
proof -
  have "tr_instrument_id r' = tr_instrument_id r \<and>
     (case tr_cumulative_volume_increment r' of None \<Rightarrow> 0 | Some n \<Rightarrow> n) =
      (case prints (tr_instrument_id r) h of
         [] \<Rightarrow> 0
       | newest # _ \<Rightarrow>
           if complete_print r then max 0 (print_volume r - print_volume newest) else 0)"
  proof (cases rule: reference_process_cases [of b h r])
    case unchanged
    with assms have r': "r' = r" by simp
    show ?thesis
    proof (cases "prints (tr_instrument_id r) h")
      case (Cons newest older)
      have "\<not> (complete_print r \<and> print_volume newest < print_volume r)"
      proof
        assume "complete_print r \<and> print_volume newest < print_volume r"
        then obtain q k where "enrich r b (print_volume r - print_volume newest) q k = Inr r"
          using unchanged Cons by (auto simp: reference_process_def Let_def bind_result_Inr)
        from enrich_Inr(1) [OF this] assms(2) show False by simp
      qed
      with r' Cons assms(2) show ?thesis by auto
    qed (use r' assms(2) in simp)
  next
    case (classified newest older quote inc)
    from assms(1) [unfolded classified(6) bind_result_Inr]
    obtain k where "enrich r b inc quote k = Inr r'" by blast
    from enrich_Inr(1,5) [OF this] show ?thesis
      using classified(1-4) by simp
  qed
  then show "tr_instrument_id r' = tr_instrument_id r"
    and "(case tr_cumulative_volume_increment r' of None \<Rightarrow> 0 | Some n \<Rightarrow> n) =
      (case prints (tr_instrument_id r) h of
         [] \<Rightarrow> 0
       | newest # _ \<Rightarrow>
           if complete_print r then max 0 (print_volume r - print_volume newest) else 0)"
    by blast+
qed

fun rises :: "int list \<Rightarrow> int" where
  "rises (a # b # vs) = max 0 (b - a) + rises (b # vs)"
| "rises _ = 0"

lemma rises_sorted: "sorted vs \<Longrightarrow> vs \<noteq> [] \<Longrightarrow> rises vs = last vs - hd vs"
  by (induction vs rule: rises.induct) auto

definition previous_volume :: "string \<Rightarrow> tape_row list \<Rightarrow> int list" where
  "previous_volume i h = (case prints i h of [] \<Rightarrow> [] | newest # _ \<Rightarrow> [print_volume newest])"

definition plain_row :: "tape_row \<Rightarrow> bool" where
  "plain_row r \<longleftrightarrow>
     tape_row_ok r \<and> tr_cumulative_volume_increment r = None \<and>
     (complete_print r \<longrightarrow> 0 < print_price r \<and> 0 \<le> the (tr_last_quantity r))"

lemma attributed_rises:
  assumes "tracks b h c" and "0 < b" and "list_all tape_row_ok h" and "list_all plain_row rs"
  shows "attributed i (process_all c rs) =
     rises (previous_volume i h @ map print_volume (prints i rs))"
  using assms
proof (induction rs arbitrary: c h)
  case Nil
  then show ?case by (simp add: previous_volume_def prints_def split: list.split)
next
  case (Cons r rs)
  have r: "tape_row_ok r" "tr_cumulative_volume_increment r = None"
      "complete_print r \<longrightarrow> 0 < print_price r \<and> 0 \<le> the (tr_last_quantity r)"
    using Cons.prems by (auto simp: plain_row_def)
  have snd: "snd (process c r) = reference_process b h r"
    using Cons.prems(1) by (rule process_reference)
  obtain r' where r': "reference_process b h r = Inr r'"
    using reference_process_sound [OF Cons.prems(2,3) r(1)] r(3)
    by (cases "reference_process b h r") auto
  have IH: "attributed i (process_all (fst (process c r)) rs) =
      rises (previous_volume i (r # h) @ map print_volume (prints i rs))"
    using Cons.prems r(1) by (intro Cons.IH process_tracks) simp_all
  show ?case
    using IH reference_increment [OF r' r(2)]
    by (cases "prints i h"; cases "prints i rs")
      (auto simp: snd r' previous_volume_def)
qed

text \<open>No traded volume is lost or counted twice. When the cumulative volumes of an instrument's
  complete prints never decrease, the increments attributed to its rows add up to the last
  cumulative volume minus the first, whatever other rows are interleaved.\<close>

theorem volume_conserved:
  assumes "classifier_init q = Inr c" and "list_all plain_row rs"
    and "sorted (map print_volume (prints i rs))" and "prints i rs \<noteq> []"
  shows "attributed i (process_all c rs) =
     print_volume (last (prints i rs)) - print_volume (hd (prints i rs))"
proof -
  have "tracks (q * 1000) [] c" "0 < q * 1000" using classifier_init_tracks [OF assms(1)] by auto
  then have "attributed i (process_all c rs) = rises (map print_volume (prints i rs))"
    using attributed_rises [of "q * 1000" "[]" c rs i] assms(2)
    by (simp add: previous_volume_def prints_def)
  then show ?thesis
    using assms(3,4) by (simp add: rises_sorted last_map hd_map)
qed

definition example_prints :: "tape_row list" where
  "example_prints = example_rows @ [example_print 101 530 1300000, example_print 101 560 1400000]"

theorem volume_conserved_witness:
  "attributed ''NSE:OPT:A'' (process_all example_classifier example_prints) = 560 - 500"
proof -
  have "list_all plain_row example_prints" by code_simp
  moreover have "map print_volume (prints ''NSE:OPT:A'' example_prints) = [500, 530, 560]"
    by code_simp
  moreover have "print_volume (last (prints ''NSE:OPT:A'' example_prints)) = 560"
    by code_simp
  moreover have "print_volume (hd (prints ''NSE:OPT:A'' example_prints)) = 500"
    by code_simp
  moreover have "prints ''NSE:OPT:A'' example_prints \<noteq> []"
    by code_simp
  ultimately show ?thesis
    using volume_conserved [OF example_classifier, of example_prints "''NSE:OPT:A''"] by simp
qed

end
