(* ===== verification/Data_Contract.thy ===== *)
theory Data_Contract
  imports Json_Values
begin

text \<open>
  \<open>data/src/shaurya/contracts/data.py\<close>: dataset requests, closed segments, operational artifacts
  and dataset handles. A \<open>_validate\<close> function is the model's pydantic validation: the field
  validators in declaration order, then the \<open>after\<close> validator; it returns the normalised value or
  the first error (pydantic's \<open>ValidationError\<close> is a ValueError). Fields typed with one literal
  (\<open>schema_version\<close> of requests, segments and artifacts, \<open>producer\<close>, the segment's
  \<open>storage_format_version\<close>) are constants and carry no record field. \<open>digest\<close> stands for
  \<open>sha256(json.dumps(...).encode()).hexdigest()\<close>; nothing about it is used except, where a theorem
  says so, that it does not collide on the two values at hand.
\<close>

section \<open>Enumerations\<close>

datatype data_channel = STANDARD | DEPTH20 | DEPTH200 | HISTORICAL

fun channel_str :: "data_channel \<Rightarrow> string" where
  "channel_str STANDARD = ''standard''"
| "channel_str DEPTH20 = ''depth20''"
| "channel_str DEPTH200 = ''depth200''"
| "channel_str HISTORICAL = ''historical''"

lemma channel_str_inj: "channel_str a = channel_str b \<Longrightarrow> a = b"
  by (cases a; cases b; simp)

text \<open>\<open>sorted(set(channels), key=str)\<close> orders channels by their string values.\<close>

instantiation data_channel :: linorder
begin

definition less_eq_data_channel :: "data_channel \<Rightarrow> data_channel \<Rightarrow> bool" where
  "less_eq_data_channel a b \<longleftrightarrow> channel_str a \<le> channel_str b"

definition less_data_channel :: "data_channel \<Rightarrow> data_channel \<Rightarrow> bool" where
  "less_data_channel a b \<longleftrightarrow> channel_str a < channel_str b"

instance
  by standard (auto simp: less_eq_data_channel_def less_data_channel_def intro: channel_str_inj)

end

datatype dataset_status = ACTIVE | COMPLETED | INVALIDATED | FAILED | CANCELLED | ORPHANED

datatype storage_format = LEGACY_JSONL | SEGMENTED_PARQUET

datatype handle_version = V1 | V2

datatype handle_source = DHAN | LEGACY_TAPE | LEGACY_CONVERSION

section \<open>Shared validators\<close>

definition non_empty :: "string \<Rightarrow> string \<Rightarrow> string result" where
  "non_empty value name =
     (let cleaned = py_strip value
      in if cleaned = [] then Inl (ValueError (name @ '' is required'')) else Inr cleaned)"

definition clean_channels :: "string \<Rightarrow> data_channel list \<Rightarrow> data_channel list result" where
  "clean_channels message value =
     (if value = [] then Inl (ValueError message) else Inr (sorted_set value))"

definition clean_instruments :: "string \<Rightarrow> string list \<Rightarrow> string list result" where
  "clean_instruments message value =
     bind_result (map_result (\<lambda>item. non_empty item ''instrument_id'') value) (\<lambda>cleaned.
     if cleaned = [] then Inl (ValueError message) else Inr (sorted_set cleaned))"

section \<open>Requests\<close>

record dataset_request =
  rq_consumer :: string
  rq_purpose :: string
  rq_trading_date :: date
  rq_channels :: "data_channel list"
  rq_instrument_ids :: "string list"
  rq_coverage_start :: "datetime option"
  rq_coverage_end :: "datetime option"
  rq_allow_active :: bool

definition request_coverage_checks :: "dataset_request \<Rightarrow> (bool \<times> exn) list" where
  "request_coverage_checks r =
     [(\<not> opt_ok is_aware (rq_coverage_start r),
       ValueError ''coverage_start must be timezone-aware''),
      (\<not> opt_ok is_aware (rq_coverage_end r), ValueError ''coverage_end must be timezone-aware''),
      (case (rq_coverage_start r, rq_coverage_end r) of
         (Some s, Some e) \<Rightarrow> instant e \<le> instant s | _ \<Rightarrow> False,
       ValueError ''coverage_end must be later than coverage_start'')]"

definition request_validate :: "dataset_request \<Rightarrow> dataset_request result" where
  "request_validate r =
     bind_result (non_empty (rq_consumer r) ''consumer'') (\<lambda>consumer.
     bind_result (non_empty (rq_purpose r) ''purpose'') (\<lambda>purpose.
     bind_result (clean_channels ''at least one data channel is required'' (rq_channels r))
       (\<lambda>channels.
     bind_result
       (clean_instruments ''at least one canonical instrument ID is required''
         (rq_instrument_ids r)) (\<lambda>instruments.
     let r' = r\<lparr>rq_consumer := consumer, rq_purpose := purpose, rq_channels := channels,
                rq_instrument_ids := instruments\<rparr>
     in case first_error (request_coverage_checks r') of
          Some e \<Rightarrow> Inl e
        | None \<Rightarrow> Inr r'))))"

text \<open>The identity dictionary; a date is its ordinal and a timestamp keeps its offset, as
  \<open>isoformat\<close> prints it.\<close>

definition acquisition_identity :: "dataset_request \<Rightarrow> jval" where
  "acquisition_identity r =
     JObj [(''schema_version'', JStr ''1.0.0''),
           (''trading_date'', JInt (rq_trading_date r)),
           (''channels'', JList (map (\<lambda>c. JStr (channel_str c)) (rq_channels r))),
           (''instrument_ids'', JList (map JStr (rq_instrument_ids r))),
           (''coverage_start'', j_opt JIso (rq_coverage_start r)),
           (''coverage_end'', j_opt JIso (rq_coverage_end r))]"

definition acquisition_fingerprint :: "(jval \<Rightarrow> string) \<Rightarrow> dataset_request \<Rightarrow> string" where
  "acquisition_fingerprint digest r = digest (acquisition_identity r)"

section \<open>Segments\<close>

record dataset_segment =
  sg_segment_number :: int
  sg_path :: string
  sg_rows :: int
  sg_bytes :: int
  sg_sha256 :: string
  sg_first_receive_sequence :: int
  sg_last_receive_sequence :: int
  sg_coverage_start :: datetime
  sg_coverage_end :: datetime
  sg_channels :: "data_channel list"
  sg_instrument_ids :: "string list"
  sg_row_groups :: int
  sg_row_schema_version :: string

definition segment_bounds_checks :: "dataset_segment \<Rightarrow> (bool \<times> exn) list" where
  "segment_bounds_checks s =
     [(sg_segment_number s < 1 \<or> sg_rows s < 1 \<or> sg_bytes s < 1 \<or> sg_row_groups s < 1,
       ValueError ''segment numbers and counts must be positive''),
      (sg_first_receive_sequence s < 1,
       ValueError ''segment first receive sequence must be positive''),
      (sg_last_receive_sequence s \<noteq> sg_first_receive_sequence s + sg_rows s - 1,
       ValueError ''segment receive sequence bounds are not contiguous with row count''),
      (\<not> is_aware (sg_coverage_start s) \<or> \<not> is_aware (sg_coverage_end s),
       ValueError ''segment coverage timestamps must be timezone-aware''),
      (instant (sg_coverage_end s) < instant (sg_coverage_start s),
       ValueError ''segment coverage end cannot precede start''),
      (\<not> prefix ''2.'' (sg_row_schema_version s),
       ValueError ''segment row schema major version is unsupported'')]"

definition segment_validate :: "dataset_segment \<Rightarrow> dataset_segment result" where
  "segment_validate s =
     bind_result (non_empty (sg_path s) ''segment path'') (\<lambda>path.
     if \<not> is_sha256 (sg_sha256 s)
     then Inl (ValueError ''segment sha256 must be 64 lowercase hexadecimal characters'')
     else
     bind_result (clean_channels ''segment requires channel coverage'' (sg_channels s)) (\<lambda>channels.
     bind_result (clean_instruments ''segment requires instrument coverage'' (sg_instrument_ids s))
       (\<lambda>instruments.
     let s' = s\<lparr>sg_path := path, sg_channels := channels, sg_instrument_ids := instruments\<rparr>
     in case first_error (segment_bounds_checks s') of
          Some e \<Rightarrow> Inl e
        | None \<Rightarrow> Inr s')))"

definition segment_ok :: "dataset_segment \<Rightarrow> bool" where
  "segment_ok s \<longleftrightarrow> segment_validate s = Inr s"

section \<open>Operational artifacts\<close>

record operational_artifact =
  oa_kind :: string
  oa_path :: string
  oa_bytes :: int
  oa_sha256 :: string

definition artifact_validate :: "operational_artifact \<Rightarrow> operational_artifact result" where
  "artifact_validate a =
     bind_result (non_empty (oa_kind a) ''kind'') (\<lambda>kind.
     bind_result (non_empty (oa_path a) ''path'') (\<lambda>path.
     if oa_bytes a < 1 then Inl (ValueError ''operational artifact bytes must be positive'')
     else if \<not> is_sha256 (oa_sha256 a)
     then Inl (ValueError ''operational artifact sha256 must be lowercase hexadecimal'')
     else Inr (a\<lparr>oa_kind := kind, oa_path := path\<rparr>)))"

definition artifact_ok :: "operational_artifact \<Rightarrow> bool" where
  "artifact_ok a \<longleftrightarrow> artifact_validate a = Inr a"

section \<open>Handles\<close>

record dataset_handle =
  dh_schema_version :: handle_version
  dh_dataset_id :: string
  dh_acquisition_fingerprint :: string
  dh_source :: handle_source
  dh_status :: dataset_status
  dh_producer_pid :: "int option"
  dh_producer_host :: "string option"
  dh_trading_date :: date
  dh_channels :: "data_channel list"
  dh_instrument_ids :: "string list"
  dh_storage_format :: "storage_format option"
  dh_storage_format_version :: "string option"
  dh_row_schema_version :: "string option"
  dh_dataset_name :: "string option"
  dh_row_run_id :: "string option"
  dh_dataset_path :: "string option"
  dh_segments :: "dataset_segment list"
  dh_operational_artifacts :: "operational_artifact list"
  dh_dataset_digest :: "string option"
  dh_tape_path :: "string option"
  dh_manifest_path :: "string option"
  dh_index_path :: "string option"
  dh_archive_path :: "string option"
  dh_started_at :: datetime
  dh_completed_at :: "datetime option"
  dh_requested_coverage_start :: "datetime option"
  dh_requested_coverage_end :: "datetime option"
  dh_coverage_start :: "datetime option"
  dh_coverage_end :: "datetime option"
  dh_rows :: int
  dh_bytes :: int
  dh_tape_sha256 :: "string option"
  dh_index_sha256 :: "string option"
  dh_archive_sha256 :: "string option"
  dh_invalidation_reason :: "string option"
  dh_legacy_source_sha256 :: "string option"
  dh_canonical_row_digest :: "string option"

text \<open>\<open>[A-Za-z0-9][A-Za-z0-9._-]{0,127}\<close>.\<close>

definition ascii_alnum :: "char \<Rightarrow> bool" where
  "ascii_alnum c =
     (let n = (of_char c :: nat)
      in 48 \<le> n \<and> n \<le> 57 \<or> 65 \<le> n \<and> n \<le> 90 \<or> 97 \<le> n \<and> n \<le> 122)"

definition safe_component :: "string \<Rightarrow> bool" where
  "safe_component s =
     (case s of
        [] \<Rightarrow> False
      | c # cs \<Rightarrow>
          ascii_alnum c \<and> length cs \<le> 127 \<and>
          list_all (\<lambda>c. ascii_alnum c \<or> c \<in> set ''._-'') cs)"

definition absent :: "string option \<Rightarrow> bool" where
  "absent x \<longleftrightarrow> x = None \<or> x = Some []"

definition blank :: "string option \<Rightarrow> bool" where
  "blank x = (case x of None \<Rightarrow> True | Some s \<Rightarrow> py_strip s = [])"

definition reasoned :: "dataset_status list" where
  "reasoned = [INVALIDATED, FAILED, CANCELLED, ORPHANED]"

definition lifecycle_checks :: "dataset_handle \<Rightarrow> (bool \<times> exn) list" where
  "lifecycle_checks h =
     [(\<not> is_aware (dh_started_at h), ValueError ''started_at must be timezone-aware''),
      (\<not> opt_ok is_aware (dh_completed_at h), ValueError ''completed_at must be timezone-aware''),
      (\<not> opt_ok is_aware (dh_requested_coverage_start h),
       ValueError ''requested_coverage_start must be timezone-aware''),
      (\<not> opt_ok is_aware (dh_requested_coverage_end h),
       ValueError ''requested_coverage_end must be timezone-aware''),
      (\<not> opt_ok is_aware (dh_coverage_start h), ValueError ''coverage_start must be timezone-aware''),
      (\<not> opt_ok is_aware (dh_coverage_end h), ValueError ''coverage_end must be timezone-aware''),
      (dh_rows h < 0 \<or> dh_bytes h < 0, ValueError ''dataset rows and bytes must be non-negative''),
      (\<not> opt_ok (\<lambda>p. 1 \<le> p) (dh_producer_pid h), ValueError ''producer_pid must be positive''),
      (\<not> opt_ok (\<lambda>s. py_strip s \<noteq> []) (dh_producer_host h),
       ValueError ''producer_host cannot be blank''),
      (case (dh_coverage_start h, dh_coverage_end h) of
         (Some s, Some e) \<Rightarrow> instant e < instant s | _ \<Rightarrow> False,
       ValueError ''dataset coverage_end cannot precede coverage_start''),
      (dh_status h = ACTIVE \<and> dh_completed_at h \<noteq> None,
       ValueError ''active dataset cannot have completed_at''),
      (dh_status h = ACTIVE \<and> dh_producer_pid h = None,
       ValueError ''active dataset requires a producer_pid''),
      (dh_status h \<noteq> ACTIVE \<and> dh_completed_at h = None,
       ValueError ''terminal dataset status requires completed_at''),
      (dh_status h \<in> set reasoned \<and> absent (dh_invalidation_reason h),
       ValueError ''dataset requires a reason''),
      (dh_status h \<notin> set reasoned \<and> dh_invalidation_reason h \<noteq> None,
       ValueError ''only non-success terminal datasets carry an invalidation reason'')]"

definition v1_checks :: "dataset_handle \<Rightarrow> (bool \<times> exn) list" where
  "v1_checks h =
     [(absent (dh_tape_path h), ValueError ''version-1 dataset handle requires tape_path''),
      (dh_storage_format h \<notin> {None, Some LEGACY_JSONL},
       ValueError ''version-1 dataset cannot be reinterpreted as non-JSONL'')]"

definition segment_numbers_ok :: "dataset_segment list \<Rightarrow> bool" where
  "segment_numbers_ok segs \<longleftrightarrow> map sg_segment_number segs = map int [1..<Suc (length segs)]"

definition sequences_contiguous :: "dataset_segment list \<Rightarrow> bool" where
  "sequences_contiguous segs \<longleftrightarrow>
     list_all (\<lambda>(previous, current).
         sg_first_receive_sequence current = sg_last_receive_sequence previous + 1)
       (zip segs (tl segs))"

definition v2_checks :: "dataset_handle \<Rightarrow> (bool \<times> exn) list" where
  "v2_checks h =
     [(\<not> distinct (map oa_kind (dh_operational_artifacts h)),
       ValueError ''version-2 operational artifact kinds must be unique''),
      (dh_storage_format h \<noteq> Some SEGMENTED_PARQUET,
       ValueError ''version-2 dataset requires segmented_parquet storage''),
      (dh_storage_format_version h \<noteq> Some ''2.0.0'' \<or>
       \<not> (case dh_row_schema_version h of None \<Rightarrow> False | Some v \<Rightarrow> prefix ''2.'' v),
       ValueError ''version-2 dataset has unsupported storage or row schema''),
      (blank (dh_dataset_name h),
       ValueError ''version-2 dataset requires a human-readable dataset name''),
      (blank (dh_dataset_path h), ValueError ''version-2 dataset requires its storage directory''),
      (blank (dh_row_run_id h), ValueError ''version-2 dataset requires the logical row run ID''),
      (dh_tape_path h \<noteq> None \<or> dh_index_path h \<noteq> None \<or> dh_tape_sha256 h \<noteq> None,
       ValueError ''version-2 dataset cannot carry legacy single-tape fields''),
      (\<not> segment_numbers_ok (dh_segments h),
       ValueError ''version-2 segments must be ordered and contiguous from one''),
      (\<not> sequences_contiguous (dh_segments h),
       ValueError ''receive sequence is not contiguous across segments''),
      (dh_status h = COMPLETED \<and> (dh_segments h = [] \<or> absent (dh_dataset_digest h)),
       ValueError ''completed version-2 dataset requires segments and digest''),
      (dh_status h = COMPLETED \<and> dh_rows h \<noteq> sum_list (map sg_rows (dh_segments h)),
       ValueError ''dataset row count differs from ordered segments''),
      (dh_status h = COMPLETED \<and> dh_bytes h \<noteq> sum_list (map sg_bytes (dh_segments h)),
       ValueError ''dataset byte count differs from ordered segments''),
      (\<not> opt_ok is_sha256 (dh_dataset_digest h),
       ValueError ''dataset digest must be 64 lowercase hexadecimal characters'')]"

definition handle_checks :: "dataset_handle \<Rightarrow> (bool \<times> exn) list" where
  "handle_checks h =
     lifecycle_checks h @ (case dh_schema_version h of V1 \<Rightarrow> v1_checks h | V2 \<Rightarrow> v2_checks h)"

definition handle_validate :: "dataset_handle \<Rightarrow> dataset_handle result" where
  "handle_validate h =
     bind_result (non_empty (dh_dataset_id h) ''dataset_id'') (\<lambda>dataset_id.
     if \<not> safe_component dataset_id
     then Inl (ValueError ''dataset_id must be a safe filesystem component'')
     else
     bind_result (non_empty (dh_acquisition_fingerprint h) ''acquisition_fingerprint'')
       (\<lambda>fingerprint.
     bind_result (clean_channels ''dataset handle requires channels'' (dh_channels h)) (\<lambda>channels.
     bind_result (clean_instruments ''dataset handle requires instruments'' (dh_instrument_ids h))
       (\<lambda>instruments.
     let h' = h\<lparr>dh_dataset_id := dataset_id, dh_acquisition_fingerprint := fingerprint,
                dh_channels := channels, dh_instrument_ids := instruments\<rparr>
     in case first_error (handle_checks h') of
          Some e \<Rightarrow> Inl e
        | None \<Rightarrow> Inr h'))))"

definition handle_ok :: "dataset_handle \<Rightarrow> bool" where
  "handle_ok h \<longleftrightarrow>
     handle_validate h = Inr h \<and> list_all segment_ok (dh_segments h) \<and>
     list_all artifact_ok (dh_operational_artifacts h)"

text \<open>The two identical guards of a bounded request: only one exact slice can answer it.\<close>

definition exact_slice :: "dataset_handle \<Rightarrow> dataset_request \<Rightarrow> bool" where
  "exact_slice h r \<longleftrightarrow>
     length (dh_channels h) = 1 \<and> length (dh_instrument_ids h) = 1 \<and>
     dh_channels h = rq_channels r \<and> dh_instrument_ids h = rq_instrument_ids r"

definition satisfies :: "dataset_handle \<Rightarrow> dataset_request \<Rightarrow> bool" where
  "satisfies h r =
     (if dh_status h \<notin> {ACTIVE, COMPLETED} then False
      else if dh_status h = ACTIVE \<and> \<not> rq_allow_active r then False
      else if dh_trading_date h \<noteq> rq_trading_date r then False
      else if \<not> set (rq_channels r) \<subseteq> set (dh_channels h) then False
      else if \<not> set (rq_instrument_ids r) \<subseteq> set (dh_instrument_ids h) then False
      else if
        (case rq_coverage_start r of
           None \<Rightarrow> False
         | Some want \<Rightarrow>
             \<not> exact_slice h r \<or>
             (case if dh_status h = COMPLETED then dh_coverage_start h
                   else dh_requested_coverage_start h of
                None \<Rightarrow> True | Some available \<Rightarrow> instant available > instant want))
      then False
      else if
        (case rq_coverage_end r of
           None \<Rightarrow> False
         | Some want \<Rightarrow>
             \<not> exact_slice h r \<or>
             (case if dh_status h = COMPLETED then dh_coverage_end h
                   else dh_requested_coverage_end h of
                None \<Rightarrow> True | Some available \<Rightarrow> instant available < instant want))
      then False
      else True)"

section \<open>Normalisation\<close>

lemma non_empty_Inr: "non_empty v n = Inr c \<longleftrightarrow> c = py_strip v \<and> c \<noteq> []"
  by (auto simp: non_empty_def Let_def)

lemma clean_channels_Inr: "clean_channels m v = Inr cs \<longleftrightarrow> v \<noteq> [] \<and> cs = sorted_set v"
  by (auto simp: clean_channels_def)

lemma map_non_empty:
  "map_result (\<lambda>item. non_empty item n) v = Inr cs \<longleftrightarrow>
     cs = map py_strip v \<and> list_all (\<lambda>x. py_strip x \<noteq> []) v"
  by (induction v arbitrary: cs) (auto simp: bind_result_Inr non_empty_Inr)

lemma clean_instruments_Inr:
  "clean_instruments m v = Inr cs \<longleftrightarrow>
     v \<noteq> [] \<and> list_all (\<lambda>x. py_strip x \<noteq> []) v \<and> cs = sorted_set (map py_strip v)"
  by (auto simp: clean_instruments_def bind_result_Inr map_non_empty)

lemma stripped_set: "\<forall>x \<in> set xs. py_strip x = x \<Longrightarrow> map py_strip xs = xs"
  by (simp add: map_idI)

lemma clean_instruments_idem:
  assumes "clean_instruments m v = Inr cs"
  shows "clean_instruments m' cs = Inr cs"
proof -
  have cs: "set cs = py_strip ` set v" "sorted_set cs = cs" "cs \<noteq> []" "\<forall>x \<in> set v. py_strip x \<noteq> []"
    using assms by (auto simp: clean_instruments_Inr list_all_iff)
  then have "map py_strip cs = cs" by (intro stripped_set) auto
  with cs show ?thesis by (auto simp: clean_instruments_Inr list_all_iff)
qed

lemma request_validate_Inr:
  "request_validate r = Inr r' \<longleftrightarrow>
     py_strip (rq_consumer r) \<noteq> [] \<and> py_strip (rq_purpose r) \<noteq> [] \<and>
     rq_channels r \<noteq> [] \<and> rq_instrument_ids r \<noteq> [] \<and>
     list_all (\<lambda>x. py_strip x \<noteq> []) (rq_instrument_ids r) \<and>
     first_error (request_coverage_checks r) = None \<and>
     r' = r\<lparr>rq_consumer := py_strip (rq_consumer r), rq_purpose := py_strip (rq_purpose r),
            rq_channels := sorted_set (rq_channels r),
            rq_instrument_ids := sorted_set (map py_strip (rq_instrument_ids r))\<rparr>"
  by (auto simp: request_validate_def bind_result_Inr non_empty_Inr clean_channels_Inr
      clean_instruments_Inr Let_def request_coverage_checks_def split: option.splits)

lemma handle_checks_frame [simp]:
  "handle_checks (h\<lparr>dh_dataset_id := a, dh_acquisition_fingerprint := b, dh_channels := c,
     dh_instrument_ids := d\<rparr>) = handle_checks h"
  by (cases "dh_schema_version h")
    (simp_all add: handle_checks_def lifecycle_checks_def v1_checks_def v2_checks_def)

lemma segment_bounds_frame [simp]:
  "segment_bounds_checks (s\<lparr>sg_path := a, sg_channels := b, sg_instrument_ids := c\<rparr>) =
     segment_bounds_checks s"
  by (simp add: segment_bounds_checks_def)

lemma handle_validate_Inr:
  "handle_validate h = Inr h' \<longleftrightarrow>
     h' = h\<lparr>dh_dataset_id := py_strip (dh_dataset_id h),
            dh_acquisition_fingerprint := py_strip (dh_acquisition_fingerprint h),
            dh_channels := sorted_set (dh_channels h),
            dh_instrument_ids := sorted_set (map py_strip (dh_instrument_ids h))\<rparr> \<and>
     safe_component (py_strip (dh_dataset_id h)) \<and>
     py_strip (dh_acquisition_fingerprint h) \<noteq> [] \<and> dh_channels h \<noteq> [] \<and>
     dh_instrument_ids h \<noteq> [] \<and> list_all (\<lambda>x. py_strip x \<noteq> []) (dh_instrument_ids h) \<and>
     first_error (handle_checks h) = None"
proof -
  have "safe_component s \<Longrightarrow> s \<noteq> []" for s by (auto simp: safe_component_def)
  then show ?thesis
    by (auto simp: handle_validate_def bind_result_Inr non_empty_Inr clean_channels_Inr
        clean_instruments_Inr Let_def split: option.splits if_splits)
qed

lemma segment_validate_Inr:
  "segment_validate s = Inr s' \<longleftrightarrow>
     s' = s\<lparr>sg_path := py_strip (sg_path s), sg_channels := sorted_set (sg_channels s),
            sg_instrument_ids := sorted_set (map py_strip (sg_instrument_ids s))\<rparr> \<and>
     py_strip (sg_path s) \<noteq> [] \<and> is_sha256 (sg_sha256 s) \<and> sg_channels s \<noteq> [] \<and>
     sg_instrument_ids s \<noteq> [] \<and> list_all (\<lambda>x. py_strip x \<noteq> []) (sg_instrument_ids s) \<and>
     first_error (segment_bounds_checks s) = None"
proof -
  show ?thesis
    by (auto simp: segment_validate_def bind_result_Inr non_empty_Inr clean_channels_Inr
        clean_instruments_Inr Let_def split: option.splits if_splits)
qed

text \<open>Validation is a projection: a validated value validates to itself.\<close>

lemma stripped_normal:
  assumes "list_all (\<lambda>x. py_strip x \<noteq> []) xs"
  shows "sorted_set (map py_strip (sorted_set (map py_strip xs))) = sorted_set (map py_strip xs)"
    and "list_all (\<lambda>x. py_strip x \<noteq> []) (sorted_set (map py_strip xs))"
proof -
  have "map py_strip (sorted_set (map py_strip xs)) = sorted_set (map py_strip xs)"
    by (rule stripped_set) auto
  then show "sorted_set (map py_strip (sorted_set (map py_strip xs))) = sorted_set (map py_strip xs)"
    by simp
  show "list_all (\<lambda>x. py_strip x \<noteq> []) (sorted_set (map py_strip xs))"
    using assms by (simp add: list_all_iff)
qed

lemma handle_validate_idem:
  assumes "handle_validate h = Inr h'"
  shows "handle_validate h' = Inr h'"
proof -
  show ?thesis
    using assms stripped_normal [of "dh_instrument_ids h"]
    by (auto simp: handle_validate_Inr)
qed

lemma segment_validate_idem:
  assumes "segment_validate s = Inr s'"
  shows "segment_ok s'"
proof -
  show ?thesis
    using assms stripped_normal [of "sg_instrument_ids s"]
    by (auto simp: segment_ok_def segment_validate_Inr)
qed

text \<open>What the bounds of an accepted segment say.\<close>

lemma segment_ok_facts:
  assumes "segment_ok s"
  shows "1 \<le> sg_segment_number s" "1 \<le> sg_rows s" "1 \<le> sg_bytes s"
    "1 \<le> sg_first_receive_sequence s"
    "sg_last_receive_sequence s = sg_first_receive_sequence s + sg_rows s - 1"
    "is_aware (sg_coverage_start s)" "is_aware (sg_coverage_end s)"
    "instant (sg_coverage_start s) \<le> instant (sg_coverage_end s)"
proof -
  have "first_error (segment_bounds_checks s) = None"
    using assms by (simp add: segment_ok_def segment_validate_Inr)
  from this [unfolded first_error_None] show "1 \<le> sg_segment_number s" "1 \<le> sg_rows s"
    "1 \<le> sg_bytes s" "1 \<le> sg_first_receive_sequence s"
    "sg_last_receive_sequence s = sg_first_receive_sequence s + sg_rows s - 1"
    "is_aware (sg_coverage_start s)" "is_aware (sg_coverage_end s)"
    "instant (sg_coverage_start s) \<le> instant (sg_coverage_end s)"
    by (auto simp: segment_bounds_checks_def)
qed

section \<open>Ordered segments partition the receive sequences\<close>

definition segment_sequences :: "dataset_segment \<Rightarrow> int list" where
  "segment_sequences s = [sg_first_receive_sequence s .. sg_last_receive_sequence s]"

lemma sequences_contiguous_Cons:
  "sequences_contiguous (s # t # rest) \<longleftrightarrow>
     sg_first_receive_sequence t = sg_last_receive_sequence s + 1 \<and> sequences_contiguous (t # rest)"
  by (simp add: sequences_contiguous_def)

lemma segments_partition:
  assumes "segs \<noteq> []" "list_all segment_ok segs" "sequences_contiguous segs"
  shows "concat (map segment_sequences segs) =
      [sg_first_receive_sequence (hd segs) .. sg_last_receive_sequence (last segs)] \<and>
    sg_last_receive_sequence (last segs) =
      sg_first_receive_sequence (hd segs) + sum_list (map sg_rows segs) - 1 \<and>
    1 \<le> sum_list (map sg_rows segs)"
  using assms
proof (induction segs)
  case (Cons s segs)
  have s: "segment_ok s" using Cons.prems by simp
  show ?case
  proof (cases segs)
    case Nil
    with segment_ok_facts [OF s] show ?thesis by (simp add: segment_sequences_def)
  next
    case [simp]: (Cons t rest)
    have IH: "concat (map segment_sequences segs) =
        [sg_first_receive_sequence t .. sg_last_receive_sequence (last segs)]"
      "sg_last_receive_sequence (last segs) =
        sg_first_receive_sequence t + sum_list (map sg_rows segs) - 1"
      "1 \<le> sum_list (map sg_rows segs)"
      using Cons.IH Cons.prems by (simp_all add: sequences_contiguous_Cons)
    have t: "sg_first_receive_sequence t = sg_last_receive_sequence s + 1"
      using Cons.prems by (simp add: sequences_contiguous_Cons)
    have le: "sg_first_receive_sequence s \<le> sg_last_receive_sequence s"
        "sg_last_receive_sequence s \<le> sg_last_receive_sequence (last segs)"
      using segment_ok_facts [OF s] IH t by linarith+
    have "concat (map segment_sequences (s # segs)) =
        segment_sequences s @ [sg_last_receive_sequence s + 1 .. sg_last_receive_sequence (last segs)]"
      using IH(1) t by simp
    also have "\<dots> = [sg_first_receive_sequence s .. sg_last_receive_sequence (last segs)]"
      using upto_split2 [OF le] by (simp add: segment_sequences_def)
    finally show ?thesis
      using IH(2,3) t segment_ok_facts [OF s] by simp
  qed
qed simp

lemma completed_v2_facts:
  assumes "handle_ok h" "dh_schema_version h = V2"
  shows "segment_numbers_ok (dh_segments h)" "sequences_contiguous (dh_segments h)"
    "dh_status h = COMPLETED \<Longrightarrow> dh_segments h \<noteq> [] \<and>
       dh_rows h = sum_list (map sg_rows (dh_segments h)) \<and>
       dh_bytes h = sum_list (map sg_bytes (dh_segments h))"
proof -
  have "first_error (lifecycle_checks h @ v2_checks h) = None"
    using assms by (simp add: handle_ok_def handle_validate_Inr handle_checks_def)
  then have "\<forall>(bad, e) \<in> set (v2_checks h). \<not> bad" by (auto simp: first_error_None)
  then show "segment_numbers_ok (dh_segments h)" "sequences_contiguous (dh_segments h)"
    "dh_status h = COMPLETED \<Longrightarrow> dh_segments h \<noteq> [] \<and>
       dh_rows h = sum_list (map sg_rows (dh_segments h)) \<and>
       dh_bytes h = sum_list (map sg_bytes (dh_segments h))"
    by (simp_all add: v2_checks_def)
qed

section \<open>Properties\<close>

definition example_request :: dataset_request where
  "example_request =
     \<lparr>rq_consumer = ''sur'', rq_purpose = ''replay'', rq_trading_date = 739000,
      rq_channels = [STANDARD, DEPTH20], rq_instrument_ids = [''A'', ''B''],
      rq_coverage_start = None, rq_coverage_end = None, rq_allow_active = True\<rparr>"

definition example_sha :: string where
  "example_sha = replicate 64 (CHR ''a'')"

definition example_segment :: "int \<Rightarrow> int \<Rightarrow> dataset_segment" where
  "example_segment n first =
     \<lparr>sg_segment_number = n, sg_path = ''segment'', sg_rows = 10, sg_bytes = 100,
      sg_sha256 = example_sha, sg_first_receive_sequence = first,
      sg_last_receive_sequence = first + 9, sg_coverage_start = Aware 10 0,
      sg_coverage_end = Aware 20 0, sg_channels = [DEPTH20, STANDARD],
      sg_instrument_ids = [''A'', ''B''], sg_row_groups = 1, sg_row_schema_version = ''2.0.0''\<rparr>"

definition example_handle :: dataset_handle where
  "example_handle =
     \<lparr>dh_schema_version = V2, dh_dataset_id = ''ds-1'', dh_acquisition_fingerprint = ''f'',
      dh_source = DHAN, dh_status = COMPLETED, dh_producer_pid = None, dh_producer_host = None,
      dh_trading_date = 739000, dh_channels = [DEPTH20, STANDARD],
      dh_instrument_ids = [''A'', ''B''], dh_storage_format = Some SEGMENTED_PARQUET,
      dh_storage_format_version = Some ''2.0.0'', dh_row_schema_version = Some ''2.0.0'',
      dh_dataset_name = Some ''name'', dh_row_run_id = Some ''run-1'',
      dh_dataset_path = Some ''/data/ds-1'',
      dh_segments = [example_segment 1 1, example_segment 2 11],
      dh_operational_artifacts = [], dh_dataset_digest = Some example_sha,
      dh_tape_path = None, dh_manifest_path = None, dh_index_path = None,
      dh_archive_path = None, dh_started_at = Aware 5 0, dh_completed_at = Some (Aware 30 0),
      dh_requested_coverage_start = None, dh_requested_coverage_end = None,
      dh_coverage_start = Some (Aware 10 0), dh_coverage_end = Some (Aware 20 0),
      dh_rows = 20, dh_bytes = 200, dh_tape_sha256 = None, dh_index_sha256 = None,
      dh_archive_sha256 = None, dh_invalidation_reason = None, dh_legacy_source_sha256 = None,
      dh_canonical_row_digest = None\<rparr>"

lemma example_handle_ok: "handle_ok example_handle"
  by code_simp

text \<open>The acquisition fingerprint identifies the broker work and nothing else. Two accepted
  requests have the same fingerprint exactly when they ask for the same date, the same set of
  channels, the same set of (stripped) instruments and the same coverage stamps, in whatever order
  and multiplicity, and whoever asks and why; the only assumption is that sha256 does not collide
  on their two identity documents.\<close>

theorem fingerprint_identity:
  assumes "request_validate raw1 = Inr r1" and "request_validate raw2 = Inr r2"
    and "inj_on digest {acquisition_identity r1, acquisition_identity r2}"
  shows "acquisition_fingerprint digest r1 = acquisition_fingerprint digest r2 \<longleftrightarrow>
     rq_trading_date raw1 = rq_trading_date raw2 \<and>
     set (rq_channels raw1) = set (rq_channels raw2) \<and>
     py_strip ` set (rq_instrument_ids raw1) = py_strip ` set (rq_instrument_ids raw2) \<and>
     rq_coverage_start raw1 = rq_coverage_start raw2 \<and>
     rq_coverage_end raw1 = rq_coverage_end raw2"
proof -
  have "acquisition_fingerprint digest r1 = acquisition_fingerprint digest r2 \<longleftrightarrow>
      acquisition_identity r1 = acquisition_identity r2"
    unfolding acquisition_fingerprint_def by (rule inj_on_eq_iff [OF assms(3)]) simp_all
  also have "\<dots> \<longleftrightarrow> rq_trading_date r1 = rq_trading_date r2 \<and> rq_channels r1 = rq_channels r2 \<and>
      rq_instrument_ids r1 = rq_instrument_ids r2 \<and>
      rq_coverage_start r1 = rq_coverage_start r2 \<and> rq_coverage_end r1 = rq_coverage_end r2"
  proof -
    have "inj (\<lambda>c. JStr (channel_str c))" by (auto intro!: injI dest: channel_str_inj)
    then have chan: "map (\<lambda>c. JStr (channel_str c)) xs = map (\<lambda>c. JStr (channel_str c)) ys \<longleftrightarrow> xs = ys"
      for xs ys by (rule inj_map_eq_map)
    have inst: "map JStr xs = map JStr ys \<longleftrightarrow> xs = ys" for xs ys
      by (rule inj_map_eq_map) (simp add: inj_def)
    have stamp: "j_opt JIso a = j_opt JIso b \<longleftrightarrow> a = b" for a b
      by (cases a; cases b) simp_all
    show ?thesis by (auto simp: acquisition_identity_def chan inst stamp)
  qed
  also have "\<dots> \<longleftrightarrow> rq_trading_date raw1 = rq_trading_date raw2 \<and>
     set (rq_channels raw1) = set (rq_channels raw2) \<and>
     py_strip ` set (rq_instrument_ids raw1) = py_strip ` set (rq_instrument_ids raw2) \<and>
     rq_coverage_start raw1 = rq_coverage_start raw2 \<and>
     rq_coverage_end raw1 = rq_coverage_end raw2"
    using assms(1,2) by (simp add: request_validate_Inr sorted_set_eq_iff)
  finally show ?thesis .
qed

theorem fingerprint_identity_witness:
  "acquisition_fingerprint
      (\<lambda>j. if j = acquisition_identity (example_request\<lparr>rq_channels := [DEPTH20, STANDARD]\<rparr>)
           then ''a'' else ''b'')
      (example_request\<lparr>rq_channels := [DEPTH20, STANDARD]\<rparr>) =
   acquisition_fingerprint
      (\<lambda>j. if j = acquisition_identity (example_request\<lparr>rq_channels := [DEPTH20, STANDARD]\<rparr>)
           then ''a'' else ''b'')
      (example_request\<lparr>rq_channels := [DEPTH20, STANDARD], rq_consumer := ''sig''\<rparr>)"
proof -
  have r1: "request_validate example_request =
      Inr (example_request\<lparr>rq_channels := [DEPTH20, STANDARD]\<rparr>)"
    by code_simp
  have r2: "request_validate (example_request\<lparr>rq_channels := [DEPTH20, STANDARD, DEPTH20],
        rq_instrument_ids := ['' B'', ''A ''], rq_consumer := ''sig''\<rparr>) =
      Inr (example_request\<lparr>rq_channels := [DEPTH20, STANDARD], rq_consumer := ''sig''\<rparr>)"
    by code_simp
  have strip: "py_strip '' B'' = ''B''" "py_strip ''A '' = ''A''" "py_strip ''A'' = ''A''"
    "py_strip ''B'' = ''B''" by code_simp+
  show ?thesis
    by (rule fingerprint_identity [OF r1 r2, THEN iffD2])
      (auto simp: inj_on_def example_request_def acquisition_identity_def strip)
qed

text \<open>\<open>satisfies\<close> is monotone in the request. A handle that satisfies a request also satisfies
  every narrower one: same date, no more channels or instruments, active data still allowed when it
  was allowed before, and each bound of the new request implied by a bound of the old one on the
  same slice.\<close>

theorem satisfies_narrower:
  assumes "satisfies h r"
    and "rq_trading_date r' = rq_trading_date r"
    and "rq_allow_active r \<longrightarrow> rq_allow_active r'"
    and "set (rq_channels r') \<subseteq> set (rq_channels r)"
    and "set (rq_instrument_ids r') \<subseteq> set (rq_instrument_ids r)"
    and "rq_coverage_start r' \<noteq> None \<or> rq_coverage_end r' \<noteq> None \<longrightarrow>
           rq_channels r' = rq_channels r \<and> rq_instrument_ids r' = rq_instrument_ids r"
    and "opt_ok (\<lambda>t'. \<exists>t. rq_coverage_start r = Some t \<and> instant t \<le> instant t')
           (rq_coverage_start r')"
    and "opt_ok (\<lambda>t'. \<exists>t. rq_coverage_end r = Some t \<and> instant t' \<le> instant t)
           (rq_coverage_end r')"
  shows "satisfies h r'"
proof -
  have "exact_slice h r' \<longleftrightarrow> exact_slice h r"
    if "rq_coverage_start r' \<noteq> None \<or> rq_coverage_end r' \<noteq> None"
    using assms(6) that unfolding exact_slice_def by metis
  then show ?thesis
    using assms(1-5,7,8)
    by (cases "rq_coverage_start r'"; cases "rq_coverage_end r'")
      (auto simp: satisfies_def split: if_splits option.splits)
qed

theorem satisfies_narrower_witness:
  "satisfies example_handle (example_request\<lparr>rq_channels := [STANDARD], rq_consumer := ''x''\<rparr>)"
proof -
  have "satisfies example_handle example_request" by code_simp
  from satisfies_narrower [OF this, of "example_request\<lparr>rq_channels := [STANDARD], rq_consumer := ''x''\<rparr>"]
  show ?thesis by (simp add: example_request_def)
qed



end
