(* ===== verification/Catalog_Events.thy ===== *)
theory Catalog_Events
  imports Data_Contract
begin

text \<open>
  \<open>data/src/shaurya/data/catalog.py\<close>, the event fragments: how a dataset handle becomes the one row
  of an immutable Parquet fragment and how it is read back. Parquet itself (pyarrow) is outside the
  repository; a fragment is its row, a dictionary of column values, and timestamps come back in UTC
  as the \<open>timestamp("ns", tz="UTC")\<close> columns store them. A \<open>date\<close> column is the ordinal.
  \<open>handle_columns\<close> is the handle's part of \<open>_event_payload\<close>; \<open>utc_handle\<close> is a handle with its
  timestamps moved to UTC, which Python's \<open>==\<close> cannot tell from the original.
\<close>

section \<open>Enumeration columns\<close>

text \<open>An enumeration column: the string of a member, and the member with that string.\<close>

definition member_of :: "('a \<Rightarrow> string) \<Rightarrow> 'a list \<Rightarrow> string \<Rightarrow> jval \<Rightarrow> 'a result" where
  "member_of f members name v =
     (case find (\<lambda>x. v = JStr (f x)) members of
        None \<Rightarrow> Inl (ValueError name) | Some x \<Rightarrow> Inr x)"

fun status_str :: "dataset_status \<Rightarrow> string" where
  "status_str ACTIVE = ''active''"
| "status_str COMPLETED = ''completed''"
| "status_str INVALIDATED = ''invalidated''"
| "status_str FAILED = ''failed''"
| "status_str CANCELLED = ''cancelled''"
| "status_str ORPHANED = ''orphaned''"

fun storage_str :: "storage_format \<Rightarrow> string" where
  "storage_str LEGACY_JSONL = ''legacy_jsonl''"
| "storage_str SEGMENTED_PARQUET = ''segmented_parquet''"

fun version_str :: "handle_version \<Rightarrow> string" where
  "version_str V1 = ''1.0.0''"
| "version_str V2 = ''2.0.0''"

fun source_str :: "handle_source \<Rightarrow> string" where
  "source_str DHAN = ''dhan''"
| "source_str LEGACY_TAPE = ''legacy_tape''"
| "source_str LEGACY_CONVERSION = ''legacy_conversion''"

definition channel_of :: "jval \<Rightarrow> data_channel result" where
  "channel_of = member_of channel_str [STANDARD, DEPTH20, DEPTH200, HISTORICAL] ''DataChannel''"

definition status_of :: "jval \<Rightarrow> dataset_status result" where
  "status_of = member_of status_str [ACTIVE, COMPLETED, INVALIDATED, FAILED, CANCELLED, ORPHANED]
     ''DatasetStatus''"

definition storage_of :: "jval \<Rightarrow> storage_format result" where
  "storage_of = member_of storage_str [LEGACY_JSONL, SEGMENTED_PARQUET] ''StorageFormat''"

definition version_of :: "jval \<Rightarrow> handle_version result" where
  "version_of = member_of version_str [V1, V2] ''schema_version''"

definition source_of :: "jval \<Rightarrow> handle_source result" where
  "source_of = member_of source_str [DHAN, LEGACY_TAPE, LEGACY_CONVERSION] ''source''"

lemma member_of_str [simp]:
  "channel_of (JStr (channel_str c)) = Inr c"
  "status_of (JStr (status_str t)) = Inr t"
  "storage_of (JStr (storage_str f)) = Inr f"
  "version_of (JStr (version_str v)) = Inr v"
  "source_of (JStr (source_str s)) = Inr s"
proof -
  show "channel_of (JStr (channel_str c)) = Inr c"
    by (cases c) (simp_all add: channel_of_def member_of_def)
  show "status_of (JStr (status_str t)) = Inr t"
    by (cases t) (simp_all add: status_of_def member_of_def)
  show "storage_of (JStr (storage_str f)) = Inr f"
    by (cases f) (simp_all add: storage_of_def member_of_def)
  show "version_of (JStr (version_str v)) = Inr v"
    by (cases v) (simp_all add: version_of_def member_of_def)
  show "source_of (JStr (source_str s)) = Inr s"
    by (cases s) (simp_all add: source_of_def member_of_def)
qed

text \<open>A \<open>Literal\<close> field, a required list, \<open>record.get(k) or []\<close> and \<open>conv(x) if x else None\<close>.\<close>

definition literal :: "string \<Rightarrow> jval \<Rightarrow> unit result" where
  "literal s v = (if v = JStr s then Inr () else Inl (ValueError ''unexpected literal''))"

definition req_list :: "(jval \<Rightarrow> 'a result) \<Rightarrow> jobj \<Rightarrow> string \<Rightarrow> 'a list result" where
  "req_list f d k =
     bind_result (req_field d k) (\<lambda>v. bind_result (as_list v) (map_result f))"

definition or_list :: "(jval \<Rightarrow> 'a result) \<Rightarrow> jobj \<Rightarrow> string \<Rightarrow> 'a list result" where
  "or_list f d k =
     (if get_field d k = JNull then Inr []
      else bind_result (as_list (get_field d k)) (map_result f))"

definition opt_truthy :: "(jval \<Rightarrow> 'a result) \<Rightarrow> jval \<Rightarrow> 'a option result" where
  "opt_truthy f v = (if v = JStr [] then Inr None else opt_conv f v)"

lemma opt_truthy_storage [simp]:
  "opt_truthy storage_of (j_opt (\<lambda>f. JStr (storage_str f)) v) = Inr v"
proof (cases v)
  case (Some f)
  have "storage_str f \<noteq> []" by (cases f) simp_all
  with Some show ?thesis by (simp add: opt_truthy_def opt_conv_def)
qed (simp add: opt_truthy_def opt_conv_def)

section \<open>Segment and artifact structs\<close>

definition segment_record :: "dataset_segment \<Rightarrow> jval" where
  "segment_record s =
     JObj [(''schema_version'', JStr ''1.0.0''),
           (''segment_number'', JInt (sg_segment_number s)),
           (''path'', JStr (sg_path s)),
           (''rows'', JInt (sg_rows s)),
           (''bytes'', JInt (sg_bytes s)),
           (''sha256'', JStr (sg_sha256 s)),
           (''first_receive_sequence'', JInt (sg_first_receive_sequence s)),
           (''last_receive_sequence'', JInt (sg_last_receive_sequence s)),
           (''coverage_start'', JIso (to_utc (sg_coverage_start s))),
           (''coverage_end'', JIso (to_utc (sg_coverage_end s))),
           (''channels'', JList (map (\<lambda>c. JStr (channel_str c)) (sg_channels s))),
           (''instrument_ids'', JList (map JStr (sg_instrument_ids s))),
           (''row_groups'', JInt (sg_row_groups s)),
           (''storage_format_version'', JStr ''2.0.0''),
           (''row_schema_version'', JStr (sg_row_schema_version s))]"

definition segment_of_record :: "jval \<Rightarrow> dataset_segment result" where
  "segment_of_record v =
     bind_result (as_obj v) (\<lambda>d.
     bind_result (bind_result (req_field d ''schema_version'') (literal ''1.0.0'')) (\<lambda>_.
     bind_result (bind_result (req_field d ''segment_number'') as_int) (\<lambda>number.
     bind_result (bind_result (req_field d ''path'') as_str) (\<lambda>path.
     bind_result (bind_result (req_field d ''rows'') as_int) (\<lambda>rows.
     bind_result (bind_result (req_field d ''bytes'') as_int) (\<lambda>size.
     bind_result (bind_result (req_field d ''sha256'') as_str) (\<lambda>sha.
     bind_result (bind_result (req_field d ''first_receive_sequence'') as_int) (\<lambda>first.
     bind_result (bind_result (req_field d ''last_receive_sequence'') as_int) (\<lambda>end_seq.
     bind_result (bind_result (req_field d ''coverage_start'') as_datetime) (\<lambda>cover_start.
     bind_result (bind_result (req_field d ''coverage_end'') as_datetime) (\<lambda>cover_end.
     bind_result (req_list channel_of d ''channels'') (\<lambda>channels.
     bind_result (req_list as_str d ''instrument_ids'') (\<lambda>instruments.
     bind_result (bind_result (req_field d ''row_groups'') as_int) (\<lambda>groups.
     bind_result (bind_result (req_field d ''storage_format_version'') (literal ''2.0.0'')) (\<lambda>_.
     bind_result (bind_result (req_field d ''row_schema_version'') as_str) (\<lambda>row_schema.
     segment_validate
       \<lparr>sg_segment_number = number, sg_path = path, sg_rows = rows, sg_bytes = size,
        sg_sha256 = sha, sg_first_receive_sequence = first, sg_last_receive_sequence = end_seq,
        sg_coverage_start = cover_start, sg_coverage_end = cover_end, sg_channels = channels,
        sg_instrument_ids = instruments, sg_row_groups = groups,
        sg_row_schema_version = row_schema\<rparr>))))))))))))))))"

definition artifact_record :: "operational_artifact \<Rightarrow> jval" where
  "artifact_record a =
     JObj [(''schema_version'', JStr ''1.0.0''), (''kind'', JStr (oa_kind a)),
           (''path'', JStr (oa_path a)), (''bytes'', JInt (oa_bytes a)),
           (''sha256'', JStr (oa_sha256 a))]"

definition artifact_of_record :: "jval \<Rightarrow> operational_artifact result" where
  "artifact_of_record v =
     bind_result (as_obj v) (\<lambda>d.
     bind_result (bind_result (req_field d ''schema_version'') (literal ''1.0.0'')) (\<lambda>_.
     bind_result (bind_result (req_field d ''kind'') as_str) (\<lambda>kind.
     bind_result (bind_result (req_field d ''path'') as_str) (\<lambda>path.
     bind_result (bind_result (req_field d ''bytes'') as_int) (\<lambda>size.
     bind_result (bind_result (req_field d ''sha256'') as_str) (\<lambda>sha.
     artifact_validate \<lparr>oa_kind = kind, oa_path = path, oa_bytes = size, oa_sha256 = sha\<rparr>))))))"

section \<open>Handle columns\<close>

definition handle_columns :: "dataset_handle \<Rightarrow> jobj" where
  "handle_columns h =
    [(''handle_schema_version'', JStr (version_str (dh_schema_version h))),
     (''dataset_id'', JStr (dh_dataset_id h)),
     (''acquisition_fingerprint'', JStr (dh_acquisition_fingerprint h)),
     (''producer'', JStr ''DAT''),
     (''source'', JStr (source_str (dh_source h))),
     (''status'', JStr (status_str (dh_status h))),
     (''producer_pid'', j_opt JInt (dh_producer_pid h)),
     (''producer_host'', j_opt JStr (dh_producer_host h)),
     (''trading_date'', JInt (dh_trading_date h)),
     (''channels'', JList (map (\<lambda>c. JStr (channel_str c)) (dh_channels h))),
     (''instrument_ids'', JList (map JStr (dh_instrument_ids h))),
     (''storage_format'', j_opt (\<lambda>f. JStr (storage_str f)) (dh_storage_format h)),
     (''storage_format_version'', j_opt JStr (dh_storage_format_version h)),
     (''row_schema_version'', j_opt JStr (dh_row_schema_version h)),
     (''dataset_name'', j_opt JStr (dh_dataset_name h)),
     (''row_run_id'', j_opt JStr (dh_row_run_id h)),
     (''dataset_path'', j_opt JStr (dh_dataset_path h)),
     (''segments'', JList (map segment_record (dh_segments h))),
     (''operational_artifacts'', JList (map artifact_record (dh_operational_artifacts h))),
     (''dataset_digest'', j_opt JStr (dh_dataset_digest h)),
     (''tape_path'', j_opt JStr (dh_tape_path h)),
     (''manifest_path'', j_opt JStr (dh_manifest_path h)),
     (''index_path'', j_opt JStr (dh_index_path h)),
     (''archive_path'', j_opt JStr (dh_archive_path h)),
     (''started_at'', JIso (to_utc (dh_started_at h))),
     (''completed_at'', j_opt JIso (map_option to_utc (dh_completed_at h))),
     (''requested_coverage_start'', j_opt JIso (map_option to_utc (dh_requested_coverage_start h))),
     (''requested_coverage_end'', j_opt JIso (map_option to_utc (dh_requested_coverage_end h))),
     (''coverage_start'', j_opt JIso (map_option to_utc (dh_coverage_start h))),
     (''coverage_end'', j_opt JIso (map_option to_utc (dh_coverage_end h))),
     (''rows'', JInt (dh_rows h)),
     (''bytes'', JInt (dh_bytes h)),
     (''tape_sha256'', j_opt JStr (dh_tape_sha256 h)),
     (''index_sha256'', j_opt JStr (dh_index_sha256 h)),
     (''archive_sha256'', j_opt JStr (dh_archive_sha256 h)),
     (''invalidation_reason'', j_opt JStr (dh_invalidation_reason h)),
     (''legacy_source_sha256'', j_opt JStr (dh_legacy_source_sha256 h)),
     (''canonical_row_digest'', j_opt JStr (dh_canonical_row_digest h))]"

definition record_handle :: "jobj \<Rightarrow> dataset_handle result" where
  "record_handle d =
     bind_result (or_list segment_of_record d ''segments'') (\<lambda>p_segments.
     bind_result (or_list artifact_of_record d ''operational_artifacts'') (\<lambda>p_operational_artifacts.
     bind_result (bind_result (req_field d ''handle_schema_version'') version_of) (\<lambda>p_schema_version.
     bind_result (bind_result (req_field d ''dataset_id'') as_str) (\<lambda>p_dataset_id.
     bind_result (bind_result (req_field d ''acquisition_fingerprint'') as_str) (\<lambda>p_acquisition_fingerprint.
     bind_result (bind_result (req_field d ''producer'') (literal ''DAT'')) (\<lambda>_.
     bind_result (bind_result (req_field d ''source'') source_of) (\<lambda>p_source.
     bind_result (bind_result (req_field d ''status'') status_of) (\<lambda>p_status.
     bind_result (opt_conv as_int (get_field d ''producer_pid'')) (\<lambda>p_producer_pid.
     bind_result (opt_conv as_str (get_field d ''producer_host'')) (\<lambda>p_producer_host.
     bind_result (bind_result (req_field d ''trading_date'') as_int) (\<lambda>p_trading_date.
     bind_result (req_list channel_of d ''channels'') (\<lambda>p_channels.
     bind_result (req_list as_str d ''instrument_ids'') (\<lambda>p_instrument_ids.
     bind_result (opt_truthy storage_of (get_field d ''storage_format'')) (\<lambda>p_storage_format.
     bind_result (opt_conv as_str (get_field d ''storage_format_version'')) (\<lambda>p_storage_format_version.
     bind_result (opt_conv as_str (get_field d ''row_schema_version'')) (\<lambda>p_row_schema_version.
     bind_result (opt_conv as_str (get_field d ''dataset_name'')) (\<lambda>p_dataset_name.
     bind_result (opt_conv as_str (get_field d ''row_run_id'')) (\<lambda>p_row_run_id.
     bind_result (opt_conv as_str (get_field d ''dataset_path'')) (\<lambda>p_dataset_path.
     bind_result (opt_conv as_str (get_field d ''dataset_digest'')) (\<lambda>p_dataset_digest.
     bind_result (opt_conv as_str (get_field d ''tape_path'')) (\<lambda>p_tape_path.
     bind_result (opt_conv as_str (get_field d ''manifest_path'')) (\<lambda>p_manifest_path.
     bind_result (opt_conv as_str (get_field d ''index_path'')) (\<lambda>p_index_path.
     bind_result (opt_conv as_str (get_field d ''archive_path'')) (\<lambda>p_archive_path.
     bind_result (bind_result (req_field d ''started_at'') as_datetime) (\<lambda>p_started_at.
     bind_result (opt_conv as_datetime (get_field d ''completed_at'')) (\<lambda>p_completed_at.
     bind_result (opt_conv as_datetime (get_field d ''requested_coverage_start'')) (\<lambda>p_requested_coverage_start.
     bind_result (opt_conv as_datetime (get_field d ''requested_coverage_end'')) (\<lambda>p_requested_coverage_end.
     bind_result (opt_conv as_datetime (get_field d ''coverage_start'')) (\<lambda>p_coverage_start.
     bind_result (opt_conv as_datetime (get_field d ''coverage_end'')) (\<lambda>p_coverage_end.
     bind_result (bind_result (req_field d ''rows'') as_int) (\<lambda>p_rows.
     bind_result (bind_result (req_field d ''bytes'') as_int) (\<lambda>p_bytes.
     bind_result (opt_conv as_str (get_field d ''tape_sha256'')) (\<lambda>p_tape_sha256.
     bind_result (opt_conv as_str (get_field d ''index_sha256'')) (\<lambda>p_index_sha256.
     bind_result (opt_conv as_str (get_field d ''archive_sha256'')) (\<lambda>p_archive_sha256.
     bind_result (opt_conv as_str (get_field d ''invalidation_reason'')) (\<lambda>p_invalidation_reason.
     bind_result (opt_conv as_str (get_field d ''legacy_source_sha256'')) (\<lambda>p_legacy_source_sha256.
     bind_result (opt_conv as_str (get_field d ''canonical_row_digest'')) (\<lambda>p_canonical_row_digest.
     handle_validate
       \<lparr>dh_schema_version = p_schema_version,
        dh_dataset_id = p_dataset_id,
        dh_acquisition_fingerprint = p_acquisition_fingerprint,
        dh_source = p_source,
        dh_status = p_status,
        dh_producer_pid = p_producer_pid,
        dh_producer_host = p_producer_host,
        dh_trading_date = p_trading_date,
        dh_channels = p_channels,
        dh_instrument_ids = p_instrument_ids,
        dh_storage_format = p_storage_format,
        dh_storage_format_version = p_storage_format_version,
        dh_row_schema_version = p_row_schema_version,
        dh_dataset_name = p_dataset_name,
        dh_row_run_id = p_row_run_id,
        dh_dataset_path = p_dataset_path,
        dh_segments = p_segments,
        dh_operational_artifacts = p_operational_artifacts,
        dh_dataset_digest = p_dataset_digest,
        dh_tape_path = p_tape_path,
        dh_manifest_path = p_manifest_path,
        dh_index_path = p_index_path,
        dh_archive_path = p_archive_path,
        dh_started_at = p_started_at,
        dh_completed_at = p_completed_at,
        dh_requested_coverage_start = p_requested_coverage_start,
        dh_requested_coverage_end = p_requested_coverage_end,
        dh_coverage_start = p_coverage_start,
        dh_coverage_end = p_coverage_end,
        dh_rows = p_rows,
        dh_bytes = p_bytes,
        dh_tape_sha256 = p_tape_sha256,
        dh_index_sha256 = p_index_sha256,
        dh_archive_sha256 = p_archive_sha256,
        dh_invalidation_reason = p_invalidation_reason,
        dh_legacy_source_sha256 = p_legacy_source_sha256,
        dh_canonical_row_digest = p_canonical_row_digest\<rparr>))))))))))))))))))))))))))))))))))))))"

section \<open>UTC copies\<close>

definition utc_segment :: "dataset_segment \<Rightarrow> dataset_segment" where
  "utc_segment s =
     s\<lparr>sg_coverage_start := to_utc (sg_coverage_start s),
       sg_coverage_end := to_utc (sg_coverage_end s)\<rparr>"

definition utc_handle :: "dataset_handle \<Rightarrow> dataset_handle" where
  "utc_handle h =
     h\<lparr>dh_segments := map utc_segment (dh_segments h),
       dh_started_at := to_utc (dh_started_at h),
       dh_completed_at := map_option to_utc (dh_completed_at h),
       dh_requested_coverage_start := map_option to_utc (dh_requested_coverage_start h),
       dh_requested_coverage_end := map_option to_utc (dh_requested_coverage_end h),
       dh_coverage_start := map_option to_utc (dh_coverage_start h),
       dh_coverage_end := map_option to_utc (dh_coverage_end h)\<rparr>"

text \<open>Python's equality of handles and segments: aware timestamps compare by instant.\<close>

definition handle_eq :: "dataset_handle \<Rightarrow> dataset_handle \<Rightarrow> bool" where
  "handle_eq a b \<longleftrightarrow> utc_handle a = utc_handle b"

lemma utc_segment_idem [simp]: "utc_segment (utc_segment s) = utc_segment s"
  by (simp add: utc_segment_def)

lemma utc_handle_idem [simp]: "utc_handle (utc_handle h) = utc_handle h"
  by (simp add: utc_handle_def option.map_comp comp_def)

lemma handle_eq_utc [simp]: "handle_eq (utc_handle h) h" "handle_eq h (utc_handle h)" "handle_eq h h"
  by (simp_all add: handle_eq_def)

lemma utc_segment_fields [simp]:
  "sg_segment_number (utc_segment s) = sg_segment_number s"
  "sg_rows (utc_segment s) = sg_rows s"
  "sg_bytes (utc_segment s) = sg_bytes s"
  "sg_first_receive_sequence (utc_segment s) = sg_first_receive_sequence s"
  "sg_last_receive_sequence (utc_segment s) = sg_last_receive_sequence s"
  by (simp_all add: utc_segment_def)

lemma segment_ok_utc [simp]: "segment_ok (utc_segment s) = segment_ok s"
proof -
  have "segment_bounds_checks (utc_segment s) = segment_bounds_checks s"
    by (simp add: segment_bounds_checks_def utc_segment_def)
  then show ?thesis
    by (cases s) (auto simp: segment_ok_def segment_validate_Inr utc_segment_def)
qed

lemma opt_ok_aware_utc [simp]: "opt_ok is_aware (map_option to_utc t) = opt_ok is_aware t"
  by (cases t) simp_all

lemma sequences_contiguous_utc [simp]:
  "sequences_contiguous (map utc_segment segs) = sequences_contiguous segs"
proof (induction segs)
  case (Cons s segs)
  then show ?case
    by (cases segs) (simp_all add: sequences_contiguous_Cons, simp add: sequences_contiguous_def)
qed simp

lemma handle_checks_utc [simp]: "handle_checks (utc_handle h) = handle_checks h"
proof -
  have "lifecycle_checks (utc_handle h) = lifecycle_checks h"
    by (cases "dh_coverage_start h"; cases "dh_coverage_end h")
      (simp_all add: lifecycle_checks_def utc_handle_def)
  moreover have "v1_checks (utc_handle h) = v1_checks h"
    by (simp add: v1_checks_def utc_handle_def)
  moreover have "v2_checks (utc_handle h) = v2_checks h"
    by (simp add: v2_checks_def utc_handle_def segment_numbers_ok_def comp_def)
  moreover have "dh_schema_version (utc_handle h) = dh_schema_version h"
    by (simp add: utc_handle_def)
  ultimately show ?thesis by (cases "dh_schema_version h") (simp_all add: handle_checks_def)
qed

lemma handle_ok_utc [simp]: "handle_ok (utc_handle h) = handle_ok h"
proof -
  have self: "k = k\<lparr>dh_dataset_id := a, dh_acquisition_fingerprint := b, dh_channels := c,
      dh_instrument_ids := d\<rparr> \<longleftrightarrow> dh_dataset_id k = a \<and> dh_acquisition_fingerprint k = b \<and>
      dh_channels k = c \<and> dh_instrument_ids k = d" for k :: dataset_handle and a b c d
    by (cases k) simp
  have "dh_dataset_id (utc_handle h) = dh_dataset_id h"
    "dh_acquisition_fingerprint (utc_handle h) = dh_acquisition_fingerprint h"
    "dh_channels (utc_handle h) = dh_channels h"
    "dh_instrument_ids (utc_handle h) = dh_instrument_ids h"
    by (simp_all add: utc_handle_def)
  then have "handle_validate (utc_handle h) = Inr (utc_handle h) \<longleftrightarrow> handle_validate h = Inr h"
    unfolding handle_validate_Inr self by simp
  then show ?thesis by (simp add: handle_ok_def utc_handle_def list_all_iff)
qed

section \<open>The round trip of a handle\<close>

lemma channels_back [simp]:
  "map_result channel_of (map (\<lambda>c. JStr (channel_str c)) cs) = Inr cs"
  by (induction cs) simp_all

lemma strings_back [simp]: "map_result as_str (map JStr ss) = Inr ss"
  by (induction ss) simp_all

lemma segment_back [simp]:
  "segment_ok s \<Longrightarrow> segment_of_record (segment_record s) = Inr (utc_segment s)"
  using segment_ok_utc [of s, unfolded segment_ok_def [of "utc_segment s"]]
  by (cases s) (simp add: segment_of_record_def segment_record_def req_field_def literal_def
      req_list_def utc_segment_def)

lemma segments_back [simp]:
  "list_all segment_ok ss \<Longrightarrow>
     map_result segment_of_record (map segment_record ss) = Inr (map utc_segment ss)"
  by (induction ss) simp_all

lemma artifact_back [simp]:
  "artifact_ok a \<Longrightarrow> artifact_of_record (artifact_record a) = Inr a"
  by (cases a) (simp add: artifact_of_record_def artifact_record_def req_field_def literal_def
      artifact_ok_def)

lemma artifacts_back [simp]:
  "list_all artifact_ok as \<Longrightarrow> map_result artifact_of_record (map artifact_record as) = Inr as"
  by (induction as) simp_all

lemma opt_times_back [simp]: "opt_conv as_datetime (j_opt JIso t) = Inr t"
  by (cases t) (simp_all add: opt_conv_def)

lemma record_handle_back:
  assumes "handle_ok h"
  shows "record_handle (handle_columns h) = Inr (utc_handle h)"
proof -
  have "handle_validate (utc_handle h) = Inr (utc_handle h)"
    using assms by (metis handle_ok_utc handle_ok_def)
  moreover have "list_all segment_ok (dh_segments h)" "list_all artifact_ok (dh_operational_artifacts h)"
    using assms by (simp_all add: handle_ok_def)
  ultimately show ?thesis
    by (cases h) (simp add: record_handle_def handle_columns_def req_field_def get_field_def
        literal_def req_list_def or_list_def utc_handle_def del: map_map)
qed

section \<open>Event fragments\<close>

definition CATALOG_SCHEMA_VERSION :: string where
  "CATALOG_SCHEMA_VERSION = ''2.0.0''"

definition event_payload ::
    "dataset_handle \<Rightarrow> int \<Rightarrow> string \<Rightarrow> datetime \<Rightarrow> string option \<Rightarrow> jobj" where
  "event_payload h event_sequence event_type recorded_at prior_event_digest =
     [(''catalog_schema_version'', JStr CATALOG_SCHEMA_VERSION),
      (''event_sequence'', JInt event_sequence),
      (''event_type'', JStr event_type),
      (''recorded_at'', JIso (to_utc recorded_at)),
      (''prior_event_digest'', j_opt JStr prior_event_digest)] @ handle_columns h"

text \<open>\<open>json.dumps(sort_keys=True)\<close> sees the keys in sorted order.\<close>

definition digest_payload :: "(jval \<Rightarrow> string) \<Rightarrow> jobj \<Rightarrow> string" where
  "digest_payload digest payload =
     digest (JObj (sort_key fst (AList.delete ''event_digest'' payload)))"

definition sealed :: "(jval \<Rightarrow> string) \<Rightarrow> jobj \<Rightarrow> jobj" where
  "sealed digest payload =
     AList.update ''event_digest'' (JStr (digest_payload digest payload)) payload"

record catalog_event =
  ev_sequence :: int
  ev_type :: string
  ev_prior :: "string option"
  ev_digest :: string
  ev_handle :: dataset_handle

definition read_event :: "(jval \<Rightarrow> string) \<Rightarrow> jobj \<Rightarrow> catalog_event result" where
  "read_event digest d =
     (if get_field d ''catalog_schema_version'' \<noteq> JStr CATALOG_SCHEMA_VERSION
      then Inl (ValueError ''unsupported data-catalogue schema'')
      else if get_field d ''event_digest'' \<noteq> JStr (digest_payload digest d)
      then Inl (ValueError ''data-catalogue event digest differs'')
      else
      bind_result (bind_result (req_field d ''event_sequence'') as_int) (\<lambda>seq.
      bind_result (bind_result (req_field d ''event_type'') as_str) (\<lambda>ty.
      bind_result (opt_truthy as_str (get_field d ''prior_event_digest'')) (\<lambda>prior.
      bind_result (bind_result (req_field d ''event_digest'') as_str) (\<lambda>dg.
      bind_result (record_handle d) (\<lambda>h.
      Inr \<lparr>ev_sequence = seq, ev_type = ty, ev_prior = prior, ev_digest = dg,
           ev_handle = h\<rparr>))))))"

lemma event_payload_keys: "''event_digest'' \<notin> fst ` set (event_payload h n ty t prior)"
  by (simp add: event_payload_def handle_columns_def)

lemma sealed_payload:
  "sealed digest (event_payload h n ty t prior) =
     event_payload h n ty t prior
       @ [(''event_digest'', JStr (digest_payload digest (event_payload h n ty t prior)))]"
  unfolding sealed_def by (rule update_append [OF event_payload_keys])

lemma digest_sealed [simp]:
  "digest_payload digest (sealed digest (event_payload h n ty t prior)) =
     digest_payload digest (event_payload h n ty t prior)"
proof -
  have "AList.delete ''event_digest'' (event_payload h n ty t prior) = event_payload h n ty t prior"
    using event_payload_keys by (simp add: delete_id)
  then show ?thesis
    unfolding digest_payload_def sealed_def by (simp add: delete_update_new event_payload_keys)
qed

text \<open>A lookup of a handle column sees through the event columns around it.\<close>

lemma handle_columns_keys:
  "fst ` set (handle_columns h) =
     {''handle_schema_version'', ''dataset_id'', ''acquisition_fingerprint'',
      ''producer'', ''source'', ''status'',
      ''producer_pid'', ''producer_host'', ''trading_date'',
      ''channels'', ''instrument_ids'', ''storage_format'',
      ''storage_format_version'', ''row_schema_version'', ''dataset_name'',
      ''row_run_id'', ''dataset_path'', ''segments'',
      ''operational_artifacts'', ''dataset_digest'', ''tape_path'',
      ''manifest_path'', ''index_path'', ''archive_path'',
      ''started_at'', ''completed_at'', ''requested_coverage_start'',
      ''requested_coverage_end'', ''coverage_start'', ''coverage_end'',
      ''rows'', ''bytes'', ''tape_sha256'',
      ''index_sha256'', ''archive_sha256'', ''invalidation_reason'',
      ''legacy_source_sha256'', ''canonical_row_digest''}"
  by (simp add: handle_columns_def)

lemma handle_column_lookup:
  assumes "k \<in> fst ` set (handle_columns h)"
  shows "map_of (sealed digest (event_payload h n ty t prior)) k = map_of (handle_columns h) k"
proof -
  have "k \<notin> {''catalog_schema_version'', ''event_sequence'', ''event_type'', ''recorded_at'',
      ''prior_event_digest'', ''event_digest''}"
    using assms by (auto simp: handle_columns_keys)
  then show ?thesis
    unfolding sealed_payload
    by (auto simp: event_payload_def map_add_def split: option.split)
qed

lemma record_handle_sealed:
  "record_handle (sealed digest (event_payload h n ty t prior)) = record_handle (handle_columns h)"
  unfolding record_handle_def req_field_def get_field_def req_list_def or_list_def
  by (simp add: handle_column_lookup handle_columns_keys)

lemma read_sealed:
  assumes "handle_ok h" and "prior \<noteq> Some []"
  shows "read_event digest (sealed digest (event_payload h n ty t prior)) =
     Inr \<lparr>ev_sequence = n, ev_type = ty, ev_prior = prior,
          ev_digest = digest_payload digest (event_payload h n ty t prior),
          ev_handle = utc_handle h\<rparr>"
proof -
  let ?d = "sealed digest (event_payload h n ty t prior)"
  have "map_of ?d ''event_digest'' = Some (JStr (digest_payload digest (event_payload h n ty t prior)))"
    by (simp add: sealed_def dict_simps)
  moreover have "map_of ?d ''catalog_schema_version'' = Some (JStr CATALOG_SCHEMA_VERSION)"
      "map_of ?d ''event_sequence'' = Some (JInt n)" "map_of ?d ''event_type'' = Some (JStr ty)"
      "map_of ?d ''prior_event_digest'' = Some (j_opt JStr prior)"
    unfolding sealed_payload by (simp_all add: event_payload_def)
  moreover have "opt_truthy as_str (j_opt JStr prior) = Inr prior"
    using assms(2) by (cases prior) (simp_all add: opt_truthy_def opt_conv_def)
  ultimately show ?thesis
    by (simp add: read_event_def get_field_def req_field_def record_handle_sealed
        record_handle_back [OF assms(1)])
qed

end
