(* ===== verification/Append_Log.thy ===== *)
theory Append_Log
  imports Prelude
begin

text \<open>
  The contract of the append-only stores: the dataset catalogue, the segmented writer, the tape
  writer, the live publisher and the follower all promise that an accepted operation keeps every
  entry it found and only adds entries behind them. \<open>append_log\<close> states the two laws and lifts
  them to runs of operations; \<open>checked_log\<close> adds that consecutive entries are related by a
  transitive relation, so any two entries of any reachable state are.
\<close>

locale append_log =
  fixes entries :: "'s \<Rightarrow> 'e list"
    and step :: "'s \<Rightarrow> 'op \<Rightarrow> 's result"
    and valid :: "'op \<Rightarrow> bool"
    and inv :: "'s \<Rightarrow> bool"
  assumes step_inv: "inv s \<Longrightarrow> valid a \<Longrightarrow> step s a = Inr s' \<Longrightarrow> inv s'"
    and step_entries:
      "inv s \<Longrightarrow> valid a \<Longrightarrow> step s a = Inr s' \<Longrightarrow> prefix (entries s) (entries s')"
begin

lemma run_inv:
  "inv s \<Longrightarrow> list_all valid as \<Longrightarrow> fold_result step s as = Inr s' \<Longrightarrow> inv s'"
  by (induction "as" arbitrary: s) (auto simp: bind_result_Inr dest: step_inv)

lemma run_prefix:
  "inv s \<Longrightarrow> list_all valid as \<Longrightarrow> fold_result step s as = Inr s' \<Longrightarrow>
     prefix (entries s) (entries s')"
proof (induction "as" arbitrary: s)
  case (Cons a as)
  then obtain s1 where s1: "step s a = Inr s1" "fold_result step s1 as = Inr s'"
      and valid: "valid a" "list_all valid as"
    by (auto simp: bind_result_Inr)
  have "prefix (entries s1) (entries s')"
    using Cons.IH [OF step_inv [OF Cons.prems(1) valid(1) s1(1)] valid(2) s1(2)] .
  with step_entries [OF Cons.prems(1) valid(1) s1(1)] show ?case by (rule prefix_order.trans)
qed simp

lemma run_nth:
  assumes "inv s" and "list_all valid as" and "fold_result step s as = Inr s'" and "i < length (entries s)"
  shows "i < length (entries s') \<and> entries s' ! i = entries s ! i"
  using run_prefix [OF assms(1,2,3)] assms(4) by (auto simp: prefix_def nth_append)

end

locale checked_log = append_log entries step valid inv
  for entries :: "'s \<Rightarrow> 'e list" and step :: "'s \<Rightarrow> 'op \<Rightarrow> 's result"
    and valid :: "'op \<Rightarrow> bool" and inv :: "'s \<Rightarrow> bool" +
  fixes follows :: "'e \<Rightarrow> 'e \<Rightarrow> bool"
  assumes inv_follows: "inv s \<Longrightarrow> successively follows (entries s)"
    and follows_trans: "follows a b \<Longrightarrow> follows b c \<Longrightarrow> follows a c"
begin

lemma follows_transp: "transp follows"
  by (rule transpI) (rule follows_trans)

lemma entries_sorted: "inv s \<Longrightarrow> sorted_wrt follows (entries s)"
  using inv_follows follows_transp by (simp add: successively_conv_sorted_wrt)

lemma entries_follow:
  "inv s \<Longrightarrow> i < j \<Longrightarrow> j < length (entries s) \<Longrightarrow> follows (entries s ! i) (entries s ! j)"
  using entries_sorted by (blast intro: sorted_wrt_nth_less)

text \<open>The newest entry of a state is still there after a run, or the newest entry then follows
  it.\<close>

lemma run_last:
  assumes "inv s" and "list_all valid as" and "fold_result step s as = Inr s'" and "entries s \<noteq> []"
  shows "last (entries s') = last (entries s) \<or> follows (last (entries s)) (last (entries s'))"
proof -
  obtain more where more: "entries s' = entries s @ more"
    using run_prefix [OF assms(1,2,3)] by (auto simp: prefix_def)
  show ?thesis
  proof (cases "more = []")
    case False
    have "sorted_wrt follows (entries s @ more)"
      using entries_sorted [OF run_inv [OF assms(1,2,3)]] more by simp
    then have "follows (last (entries s)) (last more)"
      using assms(4) False by (simp add: sorted_wrt_append)
    with False more show ?thesis by simp
  qed (use more in simp)
qed

end

end
