(* ===== verification/Catalog.thy ===== *)
theory Catalog
  imports Catalog_Events Append_Log
begin

text \<open>
  \<open>data/src/shaurya/data/catalog.py\<close>, \<open>DataCatalog\<close>: the immutable lifecycle catalogue. A catalogue is
  the legacy handles in file order (the JSON coercion of a legacy line is not modelled) and one
  directory of event fragments per dataset; \<open>append_event\<close> reads the directory, validates the
  transition, seals the payload with its digest, reads it back and adds the fragment. Locks only
  serialise calls and are not modelled; \<open>now\<close> is the clock read of the call.
\<close>

record catalog =
  ct_legacy :: "dataset_handle list"
  ct_events :: "(string \<times> jobj list) list"

section \<open>Transitions\<close>

text \<open>The attributes no transition may change; timestamps compare by instant.\<close>

definition immutable_fields where
  "immutable_fields h =
     ((dh_schema_version h, dh_dataset_id h, dh_acquisition_fingerprint h, dh_source h,
       dh_trading_date h, dh_channels h, dh_instrument_ids h),
      (dh_storage_format h, dh_storage_format_version h, dh_row_schema_version h,
       dh_dataset_name h, dh_row_run_id h, dh_dataset_path h),
      (to_utc (dh_started_at h), map_option to_utc (dh_requested_coverage_start h),
       map_option to_utc (dh_requested_coverage_end h)))"

definition transition_checks ::
    "dataset_handle \<Rightarrow> dataset_handle \<Rightarrow> string \<Rightarrow> (bool \<times> exn) list" where
  "transition_checks previous current event_type =
     [(immutable_fields previous \<noteq> immutable_fields current,
       ValueError ''catalogue transition changes immutable dataset identity''),
      (dh_status previous \<noteq> ACTIVE \<and>
         (event_type \<noteq> ''dataset_published'' \<or> dh_status current \<noteq> dh_status previous),
       ValueError ''terminal dataset status cannot be changed''),
      (map utc_segment (take (length (dh_segments previous)) (dh_segments current)) \<noteq>
         map utc_segment (dh_segments previous),
       ValueError ''catalogue transition rewrites or removes published segments''),
      (dh_rows current < dh_rows previous \<or> dh_bytes current < dh_bytes previous,
       ValueError ''catalogue transition regresses published row or byte counts''),
      (event_type = ''segment_published'' \<and> dh_status current \<noteq> ACTIVE,
       ValueError ''segment publication must retain ACTIVE status''),
      (dh_status previous = ACTIVE \<and> event_type = ''dataset_published'' \<and>
         dh_status current = ACTIVE,
       ValueError ''terminal publication cannot retain ACTIVE status'')]"

definition validate_transition ::
    "dataset_handle \<Rightarrow> dataset_handle \<Rightarrow> string \<Rightarrow> exn option" where
  "validate_transition previous current event_type =
     first_error (transition_checks previous current event_type)"

section \<open>Reading\<close>

definition dataset_files :: "catalog \<Rightarrow> string \<Rightarrow> jobj list" where
  "dataset_files c i = (case map_of (ct_events c) i of None \<Rightarrow> [] | Some fs \<Rightarrow> fs)"

text \<open>\<open>sorted(root.rglob("*.parquet"))\<close>: directories by name, fragments by sequence number.\<close>

definition event_files :: "catalog \<Rightarrow> jobj list" where
  "event_files c = concat (map (dataset_files c) (sorted_set (map fst (ct_events c))))"

definition legacy_handles :: "catalog \<Rightarrow> (string \<times> dataset_handle) list" where
  "legacy_handles c = foldl (\<lambda>latest h. AList.update (dh_dataset_id h) h latest) [] (ct_legacy c)"

definition add_event ::
    "(string \<times> catalog_event list) list \<Rightarrow> catalog_event \<Rightarrow> (string \<times> catalog_event list) list" where
  "add_event histories e =
     (let i = dh_dataset_id (ev_handle e);
          old = (case map_of histories i of None \<Rightarrow> [] | Some evs \<Rightarrow> evs)
      in AList.update i (old @ [e]) histories)"

fun check_chain :: "string option \<Rightarrow> dataset_handle option \<Rightarrow> catalog_event list \<Rightarrow> exn option" where
  "check_chain prior previous [] = None"
| "check_chain prior previous (e # es) =
     (if ev_prior e \<noteq> prior then Some (ValueError ''broken data-catalogue digest chain'')
      else if ev_sequence e = 1 \<and> ev_type e \<noteq> ''dataset_registered''
      then Some (ValueError ''invalid first catalogue event'')
      else
        (case (case previous of
                 None \<Rightarrow> None
               | Some p \<Rightarrow> validate_transition p (ev_handle e) (ev_type e)) of
           Some err \<Rightarrow> Some err
         | None \<Rightarrow> check_chain (Some (ev_digest e)) (Some (ev_handle e)) es))"

definition verify_history :: "catalog_event list \<Rightarrow> dataset_handle result" where
  "verify_history evs =
     (let history = sort_key ev_sequence evs in
      if map ev_sequence history \<noteq> map int [1..<Suc (length history)]
      then Inl (ValueError ''non-contiguous data-catalogue history'')
      else
        (case check_chain None None history of
           Some err \<Rightarrow> Inl err
         | None \<Rightarrow> Inr (ev_handle (last history))))"

definition handles :: "(jval \<Rightarrow> string) \<Rightarrow> catalog \<Rightarrow> (string \<times> dataset_handle) list result" where
  "handles digest c =
     bind_result (map_result (read_event digest) (event_files c)) (\<lambda>evs.
     fold_result
       (\<lambda>latest (i, history).
          bind_result (verify_history history) (\<lambda>h. Inr (AList.update i h latest)))
       (legacy_handles c) (foldl add_event [] evs))"

section \<open>Appending\<close>

definition append_event ::
    "(jval \<Rightarrow> string) \<Rightarrow> catalog \<Rightarrow> datetime \<Rightarrow> string \<Rightarrow> dataset_handle \<Rightarrow> catalog result" where
  "append_event digest c now event_type h =
     (let i = dh_dataset_id h in
      bind_result (map_result (read_event digest) (dataset_files c i)) (\<lambda>evs.
      let history = sort_key ev_sequence evs;
          sequence = int (length history) + 1
      in case
           (if history \<noteq> [] then
              if event_type = ''dataset_registered''
              then Some (ValueError ''dataset already registered'')
              else validate_transition (ev_handle (last history)) h event_type
            else if event_type \<noteq> ''dataset_registered''
            then Some (ValueError ''first catalogue event must register the dataset'')
            else None) of
           Some err \<Rightarrow> Inl err
         | None \<Rightarrow>
             let prior_digest = (if history = [] then None else Some (ev_digest (last history)));
                 payload = event_payload h sequence event_type now prior_digest;
                 fragment = sealed digest payload
             in bind_result (read_event digest fragment) (\<lambda>verified.
                if ev_sequence verified \<noteq> sequence \<or> ev_type verified \<noteq> event_type \<or>
                   ev_prior verified \<noteq> prior_digest \<or>
                   ev_digest verified \<noteq> digest_payload digest payload \<or>
                   \<not> handle_eq (ev_handle verified) h
                then Inl (ValueError ''catalogue event changed during Parquet round-trip'')
                else Inr (c\<lparr>ct_events :=
                  AList.update i (dataset_files c i @ [fragment]) (ct_events c)\<rparr>))))"

definition register ::
    "(jval \<Rightarrow> string) \<Rightarrow> catalog \<Rightarrow> datetime \<Rightarrow> dataset_handle \<Rightarrow> catalog result" where
  "register digest c now h =
     bind_result (handles digest c) (\<lambda>hs.
     if dh_dataset_id h \<in> fst ` set hs then Inl (ValueError ''dataset already registered'')
     else append_event digest c now ''dataset_registered'' h)"

definition publish_segment ::
    "(jval \<Rightarrow> string) \<Rightarrow> catalog \<Rightarrow> datetime \<Rightarrow> dataset_handle \<Rightarrow> catalog result" where
  "publish_segment digest c now h =
     bind_result (handles digest c) (\<lambda>hs.
     if dh_dataset_id h \<notin> fst ` set hs then Inl (KeyError ''dataset is not registered'')
     else append_event digest c now ''segment_published'' h)"

definition publish ::
    "(jval \<Rightarrow> string) \<Rightarrow> catalog \<Rightarrow> datetime \<Rightarrow> dataset_handle \<Rightarrow> catalog result" where
  "publish digest c now h =
     bind_result (handles digest c) (\<lambda>hs.
     if dh_dataset_id h \<notin> fst ` set hs then Inl (KeyError ''dataset is not registered'')
     else append_event digest c now ''dataset_published'' h)"

section \<open>Lookup\<close>

definition get :: "(jval \<Rightarrow> string) \<Rightarrow> catalog \<Rightarrow> string \<Rightarrow> dataset_handle result" where
  "get digest c i =
     bind_result (handles digest c) (\<lambda>hs.
     case map_of hs i of
       None \<Rightarrow> Inl (DatasetUnavailableError ''unknown DAT dataset'')
     | Some h \<Rightarrow> Inr h)"

fun or_else :: "'a option \<Rightarrow> 'a \<Rightarrow> 'a" where
  "or_else None d = d"
| "or_else (Some x) d = x"

definition get_dataset :: "(jval \<Rightarrow> string) \<Rightarrow> catalog \<Rightarrow> date \<Rightarrow> dataset_handle result" where
  "get_dataset digest c trading_date =
     bind_result (handles digest c) (\<lambda>hs.
     let matches = [h. (_, h) \<leftarrow> hs, dh_trading_date h = trading_date \<and> dh_status h = COMPLETED] in
     if matches = [] then
       Inl (DatasetUnavailableError ''DAT has no completed dataset for trading date'')
     else
       Inr (hd (sort_descending
         (\<lambda>h. (instant (or_else (dh_completed_at h) (or_else (dh_coverage_end h) (dh_started_at h))),
               dh_dataset_id h)) matches)))"

text \<open>\<open>alive pid\<close> is the outcome of \<open>os.kill(pid, 0)\<close> on this host: \<open>False\<close> exactly for
  ProcessLookupError.\<close>

definition active_process_is_live :: "(int \<Rightarrow> bool) \<Rightarrow> string \<Rightarrow> dataset_handle \<Rightarrow> bool" where
  "active_process_is_live alive hostname h =
     (case dh_producer_pid h of
        None \<Rightarrow> True
      | Some pid \<Rightarrow>
          if dh_status h \<noteq> ACTIVE then True
          else if dh_producer_host h \<noteq> None \<and> dh_producer_host h \<noteq> Some hostname then True
          else alive pid)"

definition resolve_rank :: "dataset_handle \<Rightarrow> bool \<times> int \<times> int" where
  "resolve_rank h =
     (dh_status h = ACTIVE, instant (or_else (dh_coverage_end h) (dh_started_at h)),
      instant (dh_started_at h))"

definition resolve ::
    "(jval \<Rightarrow> string) \<Rightarrow> (int \<Rightarrow> bool) \<Rightarrow> string \<Rightarrow> catalog \<Rightarrow> dataset_request \<Rightarrow>
     dataset_handle result" where
  "resolve digest alive hostname c r =
     bind_result (handles digest c) (\<lambda>hs.
     let matches = [h. (_, h) \<leftarrow> hs, satisfies h r \<and> active_process_is_live alive hostname h] in
     if matches = [] then Inl (DatasetUnavailableError ''DAT has no dataset satisfying request'')
     else Inr (hd (sort_descending resolve_rank matches)))"

definition active_satisfying ::
    "(jval \<Rightarrow> string) \<Rightarrow> (int \<Rightarrow> bool) \<Rightarrow> string \<Rightarrow> catalog \<Rightarrow> dataset_request \<Rightarrow>
     dataset_handle option result" where
  "active_satisfying digest alive hostname c r =
     bind_result (handles digest c) (\<lambda>hs.
     Inr (find (\<lambda>h. dh_status h = ACTIVE \<and> satisfies h r \<and>
                active_process_is_live alive hostname h) (map snd hs)))"

section \<open>Well-formed catalogues\<close>

text \<open>sha256 hex digests are never empty.\<close>

definition hexdigest :: "(jval \<Rightarrow> string) \<Rightarrow> bool" where
  "hexdigest digest \<longleftrightarrow> (\<forall>v. digest v \<noteq> [])"

definition dir_events :: "(jval \<Rightarrow> string) \<Rightarrow> jobj list \<Rightarrow> catalog_event list" where
  "dir_events digest files =
     (case map_result (read_event digest) files of Inl _ \<Rightarrow> [] | Inr evs \<Rightarrow> evs)"

definition dir_ok :: "(jval \<Rightarrow> string) \<Rightarrow> string \<Rightarrow> jobj list \<Rightarrow> bool" where
  "dir_ok digest i files \<longleftrightarrow>
     files \<noteq> [] \<and> map_result (read_event digest) files = Inr (dir_events digest files) \<and>
     map ev_sequence (dir_events digest files) = map int [1..<Suc (length files)] \<and>
     check_chain None None (dir_events digest files) = None \<and>
     list_all (\<lambda>e. dh_dataset_id (ev_handle e) = i \<and> ev_digest e \<noteq> []) (dir_events digest files)"

definition catalog_ok :: "(jval \<Rightarrow> string) \<Rightarrow> catalog \<Rightarrow> bool" where
  "catalog_ok digest c \<longleftrightarrow>
     distinct (map fst (ct_events c)) \<and> list_all (\<lambda>(i, fs). dir_ok digest i fs) (ct_events c)"

definition events_of :: "(jval \<Rightarrow> string) \<Rightarrow> catalog \<Rightarrow> string \<Rightarrow> catalog_event list" where
  "events_of digest c i = dir_events digest (dataset_files c i)"

text \<open>The published states of a dataset, oldest first.\<close>

definition published :: "(jval \<Rightarrow> string) \<Rightarrow> string \<Rightarrow> catalog \<Rightarrow> dataset_handle list" where
  "published digest i c = map ev_handle (events_of digest c i)"

lemma map_result_append:
  "map_result f (xs @ ys) =
     bind_result (map_result f xs) (\<lambda>as. bind_result (map_result f ys) (\<lambda>bs. Inr (as @ bs)))"
proof (induction xs)
  case (Cons x xs)
  then show ?case by (cases "f x"; cases "map_result f xs"; cases "map_result f ys") simp_all
qed (cases "map_result f ys"; simp)

lemma map_result_concat:
  "(\<And>x. x \<in> set xs \<Longrightarrow> map_result f (g x) = Inr (h x)) \<Longrightarrow>
     map_result f (concat (map g xs)) = Inr (concat (map h xs))"
  by (induction xs) (simp_all add: map_result_append)

lemma map_result_length: "map_result f xs = Inr ys \<Longrightarrow> length ys = length xs"
  by (simp add: map_result_Inr list_all2_lengthD)

lemma dir_ok_length: "dir_ok digest i files \<Longrightarrow> length (dir_events digest files) = length files"
  by (auto simp: dir_ok_def dest: map_result_length)

lemma dir_events_Nil [simp]: "dir_events digest [] = []"
  by (simp add: dir_events_def)

lemma sorted_sequence:
  assumes "map ev_sequence evs = map int [1..<Suc n]"
  shows "sort_key ev_sequence evs = evs"
proof (rule sort_key_id_if_sorted)
  have "sorted (map int [1..<Suc n])" by (simp add: sorted_map_same sorted_wrt_map del: upt_Suc)
  then show "sorted (map ev_sequence evs)" using assms by simp
qed

lemma verify_dir:
  assumes "dir_ok digest i files"
  shows "verify_history (dir_events digest files) = Inr (ev_handle (last (dir_events digest files)))"
  using assms dir_ok_length [OF assms] sorted_sequence [of "dir_events digest files"]
  by (simp add: verify_history_def dir_ok_def)

lemma catalog_ok_dir:
  assumes "catalog_ok digest c" and "i \<in> fst ` set (ct_events c)"
  shows "dir_ok digest i (dataset_files c i)"
proof -
  from assms(2) obtain fs where "(i, fs) \<in> set (ct_events c)" by auto
  then show ?thesis
    using assms(1) by (auto simp: catalog_ok_def dataset_files_def list_all_iff map_of_is_SomeI)
qed

lemma dataset_files_unknown: "i \<notin> fst ` set (ct_events c) \<Longrightarrow> dataset_files c i = []"
  by (auto simp: dataset_files_def dest: map_of_SomeD split: option.split) (metis fst_conv image_eqI map_of_SomeD)

section \<open>Grouping the events of all directories\<close>

lemma add_event_run:
  assumes "i \<notin> fst ` set d" and "list_all (\<lambda>e. dh_dataset_id (ev_handle e) = i) es"
  shows "foldl add_event (d @ [(i, acc)]) es = d @ [(i, acc @ es)]"
  using assms(2)
proof (induction es arbitrary: acc)
  case (Cons e es)
  have "map_of (d @ [(i, acc)]) i = Some acc"
  proof -
    have "map_of d i = None" using assms(1) by (simp add: map_of_eq_None_iff)
    then show ?thesis by (simp add: map_add_def)
  qed
  moreover have "AList.update i v (d @ [(i, acc)]) = d @ [(i, v)]" for v
    using assms(1) by (induction d) auto
  ultimately have "add_event (d @ [(i, acc)]) e = d @ [(i, acc @ [e])]"
    using Cons.prems by (simp add: add_event_def)
  with Cons.IH [of "acc @ [e]"] Cons.prems show ?case by simp
qed simp

lemma add_event_group:
  assumes "i \<notin> fst ` set d" and "list_all (\<lambda>e. dh_dataset_id (ev_handle e) = i) es" and "es \<noteq> []"
  shows "foldl add_event d es = d @ [(i, es)]"
proof -
  obtain e rest where es: "es = e # rest" using assms(3) by (cases es) auto
  have "map_of d i = None" using assms(1) by (simp add: map_of_eq_None_iff)
  then have "add_event d e = d @ [(i, [e])]"
    using assms(1,2) es by (simp add: add_event_def update_append)
  then show ?thesis using add_event_run [OF assms(1), of rest "[e]"] assms(2) es by simp
qed

lemma add_event_groups:
  assumes "distinct ids" and "set ids \<inter> fst ` set d = {}"
    and "\<And>i. i \<in> set ids \<Longrightarrow> g i \<noteq> [] \<and> list_all (\<lambda>e. dh_dataset_id (ev_handle e) = i) (g i)"
  shows "foldl add_event d (concat (map g ids)) = d @ map (\<lambda>i. (i, g i)) ids"
  using assms
proof (induction ids arbitrary: d)
  case (Cons i ids)
  have "foldl add_event d (g i) = d @ [(i, g i)]"
    using Cons.prems by (intro add_event_group) auto
  with Cons.IH [of "d @ [(i, g i)]"] Cons.prems show ?case by (auto simp: foldl_append)
qed simp

lemma fold_latest:
  assumes "\<And>i. i \<in> set ids \<Longrightarrow> verify_history (g i) = Inr (v i)" and "distinct ids"
  shows "\<exists>latest'. fold_result
      (\<lambda>latest (i, history). bind_result (verify_history history) (\<lambda>h. Inr (AList.update i h latest)))
      latest (map (\<lambda>i. (i, g i)) ids) = Inr latest' \<and>
    (\<forall>k. map_of latest' k = (if k \<in> set ids then Some (v k) else map_of latest k))"
  using assms
proof (induction ids arbitrary: latest)
  case (Cons i ids)
  from Cons.IH [of "AList.update i (v i) latest"] Cons.prems show ?case
    by (auto simp: dict_simps)
qed simp

lemma handles_distinct:
  assumes "handles digest c = Inr hs"
  shows "distinct (map fst hs)"
proof -
  have fold: "distinct (map fst (foldl (\<lambda>latest h. AList.update (dh_dataset_id h) h latest) d l))"
    if "distinct (map fst d)" for d l
    using that by (induction l arbitrary: d) (simp_all add: distinct_update)
  have start: "distinct (map fst (legacy_handles c))"
    unfolding legacy_handles_def by (rule fold) simp
  obtain evs where "fold_result
      (\<lambda>latest (i, history). bind_result (verify_history history) (\<lambda>h. Inr (AList.update i h latest)))
      (legacy_handles c) (foldl add_event [] evs) = Inr hs"
    using assms by (auto simp: handles_def bind_result_Inr)
  then show ?thesis
    using start
    by (rule fold_result_invariant) (auto simp: bind_result_Inr distinct_update split: prod.splits)
qed

lemma handles_ok:
  assumes "catalog_ok digest c"
  obtains hs where "handles digest c = Inr hs"
    and "\<And>i. map_of hs i =
      (if i \<in> fst ` set (ct_events c) then Some (last (published digest i c))
       else map_of (legacy_handles c) i)"
proof -
  let ?ids = "sorted_set (map fst (ct_events c))"
  let ?g = "events_of digest c"
  have dir: "dir_ok digest i (dataset_files c i)" if "i \<in> set ?ids" for i
    using catalog_ok_dir [OF assms] that by simp
  have read: "map_result (read_event digest) (event_files c) = Inr (concat (map ?g ?ids))"
    unfolding event_files_def using dir
    by (intro map_result_concat) (simp add: dir_ok_def events_of_def)
  have nonempty: "?g i \<noteq> []" if "i \<in> set ?ids" for i
    using dir [OF that] dir_ok_length [OF dir [OF that]] by (auto simp: dir_ok_def events_of_def)
  have "foldl add_event [] (concat (map ?g ?ids)) = [] @ map (\<lambda>i. (i, ?g i)) ?ids"
    using dir nonempty
    by (intro add_event_groups) (auto simp: dir_ok_def events_of_def list_all_iff)
  moreover have "verify_history (?g i) = Inr (ev_handle (last (?g i)))" if "i \<in> set ?ids" for i
    using verify_dir [OF dir [OF that]] by (simp add: events_of_def)
  ultimately obtain hs where hs: "handles digest c = Inr hs"
      "\<forall>k. map_of hs k = (if k \<in> set ?ids then Some (ev_handle (last (?g k)))
        else map_of (legacy_handles c) k)"
    using fold_latest [of ?ids ?g "\<lambda>i. ev_handle (last (?g i))" "legacy_handles c"]
    by (auto simp: handles_def read)
  have "map_of hs i = (if i \<in> fst ` set (ct_events c) then Some (last (published digest i c))
       else map_of (legacy_handles c) i)" for i
    using hs(2) nonempty [of i] by (auto simp: published_def last_map)
  with hs(1) that show thesis by blast
qed

section \<open>Appending keeps the catalogue well formed\<close>

lemma check_chain_snoc:
  "check_chain prior previous (es @ [e]) =
     (case check_chain prior previous es of
        Some err \<Rightarrow> Some err
      | None \<Rightarrow> check_chain (if es = [] then prior else Some (ev_digest (last es)))
                 (if es = [] then previous else Some (ev_handle (last es))) [e])"
  by (induction es arbitrary: prior previous) (auto split: option.split)

definition prior_of :: "catalog_event list \<Rightarrow> string option" where
  "prior_of evs = (if evs = [] then None else Some (ev_digest (last evs)))"

definition new_fragment ::
    "(jval \<Rightarrow> string) \<Rightarrow> catalog \<Rightarrow> datetime \<Rightarrow> string \<Rightarrow> dataset_handle \<Rightarrow> jobj" where
  "new_fragment digest c now ty h =
     (let evs = events_of digest c (dh_dataset_id h)
      in sealed digest (event_payload h (int (length evs) + 1) ty now (prior_of evs)))"

definition add_fragment :: "catalog \<Rightarrow> string \<Rightarrow> jobj \<Rightarrow> catalog" where
  "add_fragment c i fragment =
     c\<lparr>ct_events := AList.update i (dataset_files c i @ [fragment]) (ct_events c)\<rparr>"

lemma dataset_files_add [simp]:
  "dataset_files (add_fragment c i f) j =
     (if j = i then dataset_files c i @ [f] else dataset_files c j)"
  by (simp add: dataset_files_def add_fragment_def dict_simps)

lemma events_of_read:
  assumes "catalog_ok digest c"
  shows "map_result (read_event digest) (dataset_files c i) = Inr (events_of digest c i)"
    and "map ev_sequence (events_of digest c i) = map int [1..<Suc (length (events_of digest c i))]"
    and "check_chain None None (events_of digest c i) = None"
    and "list_all (\<lambda>e. dh_dataset_id (ev_handle e) = i \<and> ev_digest e \<noteq> []) (events_of digest c i)"
proof -
  have "dataset_files c i = [] \<or> dir_ok digest i (dataset_files c i)"
    using catalog_ok_dir [OF assms] dataset_files_unknown by blast
  then show "map_result (read_event digest) (dataset_files c i) = Inr (events_of digest c i)"
    and "map ev_sequence (events_of digest c i) = map int [1..<Suc (length (events_of digest c i))]"
    and "check_chain None None (events_of digest c i) = None"
    and "list_all (\<lambda>e. dh_dataset_id (ev_handle e) = i \<and> ev_digest e \<noteq> []) (events_of digest c i)"
    using dir_ok_length [of digest i "dataset_files c i"]
    by (auto simp: dir_ok_def events_of_def simp del: upt_Suc)
qed

lemma prior_of_nonempty:
  assumes "catalog_ok digest c"
  shows "prior_of (events_of digest c i) \<noteq> Some []"
  using events_of_read(4) [OF assms, of i] by (auto simp: prior_of_def list_all_iff)

text \<open>An append is decided by the lifecycle rules alone; the Parquet read-back never objects.\<close>

lemma append_eq:
  assumes "catalog_ok digest c" and "handle_ok h"
  shows "append_event digest c now ty h =
     (let old = published digest (dh_dataset_id h) c in
      case (if old = []
            then if ty \<noteq> ''dataset_registered''
                 then Some (ValueError ''first catalogue event must register the dataset'') else None
            else if ty = ''dataset_registered''
            then Some (ValueError ''dataset already registered'')
            else validate_transition (last old) h ty) of
        Some err \<Rightarrow> Inl err
      | None \<Rightarrow> Inr (add_fragment c (dh_dataset_id h) (new_fragment digest c now ty h)))"
proof -
  let ?i = "dh_dataset_id h"
  let ?evs = "events_of digest c ?i"
  note read = events_of_read [OF assms(1), of ?i]
  have sort: "sort_key ev_sequence ?evs = ?evs" by (rule sorted_sequence [OF read(2)])
  note reread = read_sealed [OF assms(2) prior_of_nonempty [OF assms(1), of ?i], of digest
      "int (length ?evs) + 1" ty now]
  have "append_event digest c now ty h =
     (case (if ?evs \<noteq> [] then
              if ty = ''dataset_registered'' then Some (ValueError ''dataset already registered'')
              else validate_transition (ev_handle (last ?evs)) h ty
            else if ty \<noteq> ''dataset_registered''
            then Some (ValueError ''first catalogue event must register the dataset'')
            else None) of
        Some err \<Rightarrow> Inl err
      | None \<Rightarrow> Inr (add_fragment c ?i (new_fragment digest c now ty h)))"
    unfolding append_event_def Let_def read(1) bind_result_simps sort prior_of_def [symmetric] reread
    by (simp add: add_fragment_def new_fragment_def Let_def split: option.split)
  then show ?thesis by (simp add: published_def last_map Let_def)
qed

lemma add_fragment_events:
  assumes "catalog_ok digest c" and "handle_ok h"
  shows "events_of digest (add_fragment c (dh_dataset_id h) (new_fragment digest c now ty h)) j =
     (if j = dh_dataset_id h
      then events_of digest c j @
        [\<lparr>ev_sequence = int (length (events_of digest c j)) + 1, ev_type = ty,
          ev_prior = prior_of (events_of digest c j),
          ev_digest = digest_payload digest (event_payload h (int (length (events_of digest c j)) + 1)
            ty now (prior_of (events_of digest c j))),
          ev_handle = utc_handle h\<rparr>]
      else events_of digest c j)"
proof (cases "j = dh_dataset_id h")
  case True
  have "map_result (read_event digest)
      (dataset_files c j @ [new_fragment digest c now ty h]) =
    Inr (events_of digest c j @
      [\<lparr>ev_sequence = int (length (events_of digest c j)) + 1, ev_type = ty,
        ev_prior = prior_of (events_of digest c j),
        ev_digest = digest_payload digest (event_payload h (int (length (events_of digest c j)) + 1)
          ty now (prior_of (events_of digest c j))),
        ev_handle = utc_handle h\<rparr>])"
    using events_of_read(1) [OF assms(1), of j]
      read_sealed [OF assms(2) prior_of_nonempty [OF assms(1), of j]] True
    by (simp add: map_result_append new_fragment_def Let_def)
  with True show ?thesis
    unfolding events_of_def [of _ "add_fragment _ _ _"] dir_events_def by simp
next
  case False
  then show ?thesis by (simp add: events_of_def)
qed

lemma utc_handle_fields [simp]:
  "dh_dataset_id (utc_handle h) = dh_dataset_id h" "dh_status (utc_handle h) = dh_status h"
  "dh_rows (utc_handle h) = dh_rows h" "dh_bytes (utc_handle h) = dh_bytes h"
  "dh_segments (utc_handle h) = map utc_segment (dh_segments h)"
  "immutable_fields (utc_handle h) = immutable_fields h"
  by (simp_all add: utc_handle_def immutable_fields_def option.map_comp comp_def)

lemma validate_transition_utc [simp]:
  "validate_transition p (utc_handle h) ty = validate_transition p h ty"
  by (simp add: validate_transition_def transition_checks_def take_map comp_def)

lemma append_ok:
  assumes "catalog_ok digest c" and "handle_ok h" and "hexdigest digest"
    and "append_event digest c now ty h = Inr c'"
  shows "catalog_ok digest c'"
    and "published digest j c' =
      (if j = dh_dataset_id h then published digest j c @ [utc_handle h] else published digest j c)"
    and "published digest (dh_dataset_id h) c \<noteq> [] \<Longrightarrow>
      validate_transition (last (published digest (dh_dataset_id h) c)) h ty = None"
    and "ct_legacy c' = ct_legacy c"
proof -
  let ?i = "dh_dataset_id h"
  have c': "c' = add_fragment c ?i (new_fragment digest c now ty h)"
    and first: "published digest ?i c = [] \<Longrightarrow> ty = ''dataset_registered''"
    and trans: "published digest ?i c \<noteq> [] \<Longrightarrow>
        validate_transition (last (published digest ?i c)) h ty = None"
    using assms(4) unfolding append_eq [OF assms(1,2)]
    by (auto simp: Let_def split: option.splits if_splits)
  show "ct_legacy c' = ct_legacy c" by (simp add: c' add_fragment_def)
  show "published digest j c' =
      (if j = ?i then published digest j c @ [utc_handle h] else published digest j c)"
    by (simp add: c' published_def add_fragment_events [OF assms(1,2)])
  show "published digest ?i c \<noteq> [] \<Longrightarrow>
      validate_transition (last (published digest ?i c)) h ty = None"
    by (rule trans)
  note old = events_of_read [OF assms(1), of ?i]
  have new: "dir_ok digest ?i (dataset_files c' ?i)"
    unfolding dir_ok_def
  proof (intro conjI)
    let ?evs = "events_of digest c' ?i"
    have evs: "dir_events digest (dataset_files c' ?i) = ?evs" by (simp add: events_of_def)
    note shape = add_fragment_events [OF assms(1,2), of now ty ?i, folded c', simplified]
    have len: "length (dataset_files c' ?i) = length ?evs"
      using map_result_length [OF old(1)] by (simp add: shape) (simp add: c')
    show "dataset_files c' ?i \<noteq> []" by (simp add: c')
    show "map_result (read_event digest) (dataset_files c' ?i) =
        Inr (dir_events digest (dataset_files c' ?i))"
      unfolding evs shape
      using old(1) read_sealed [OF assms(2) prior_of_nonempty [OF assms(1), of ?i]]
      by (simp add: c' map_result_append new_fragment_def Let_def)
    show "map ev_sequence (dir_events digest (dataset_files c' ?i)) =
        map int [1..<Suc (length (dataset_files c' ?i))]"
      unfolding len evs shape using old(2) by simp
    have "published digest ?i c = [] \<longleftrightarrow> events_of digest c ?i = []" by (simp add: published_def)
    then show "check_chain None None (dir_events digest (dataset_files c' ?i)) = None"
      unfolding evs shape check_chain_snoc old(3)
      using first trans by (auto simp: prior_of_def published_def last_map)
    show "list_all (\<lambda>e. dh_dataset_id (ev_handle e) = ?i \<and> ev_digest e \<noteq> [])
        (dir_events digest (dataset_files c' ?i))"
      unfolding evs shape using old(4) assms(3) by (simp add: hexdigest_def digest_payload_def)
  qed
  have dist: "distinct (map fst (ct_events c'))"
    using assms(1) by (simp add: c' add_fragment_def catalog_ok_def distinct_update)
  moreover have "dir_ok digest j fs" if "(j, fs) \<in> set (ct_events c')" for j fs
  proof -
    have fs: "fs = dataset_files c' j"
      using that dist by (simp add: dataset_files_def map_of_is_SomeI)
    show ?thesis
    proof (cases "j = ?i")
      case False
      have "j \<in> insert ?i (fst ` set (ct_events c))"
        using imageI [OF that, of fst]
        by (simp add: c' add_fragment_def dict_simps)
      with False catalog_ok_dir [OF assms(1)] fs show ?thesis by (simp add: c')
    qed (use new fs in simp)
  qed
  ultimately show "catalog_ok digest c'" by (auto simp: catalog_ok_def list_all_iff)
qed

section \<open>The catalogue as a checked append-only log\<close>

datatype catalog_op =
    Register datetime dataset_handle
  | PublishSegment datetime dataset_handle
  | Publish datetime dataset_handle

fun catalog_step :: "(jval \<Rightarrow> string) \<Rightarrow> catalog \<Rightarrow> catalog_op \<Rightarrow> catalog result" where
  "catalog_step digest c (Register now h) = register digest c now h"
| "catalog_step digest c (PublishSegment now h) = publish_segment digest c now h"
| "catalog_step digest c (Publish now h) = publish digest c now h"

fun op_handle :: "catalog_op \<Rightarrow> dataset_handle" where
  "op_handle (Register now h) = h"
| "op_handle (PublishSegment now h) = h"
| "op_handle (Publish now h) = h"

definition op_ok :: "catalog_op \<Rightarrow> bool" where
  "op_ok p \<longleftrightarrow> handle_ok (op_handle p)"

text \<open>What a dataset's later state keeps of an earlier one.\<close>

definition evolves :: "dataset_handle \<Rightarrow> dataset_handle \<Rightarrow> bool" where
  "evolves a b \<longleftrightarrow>
     immutable_fields a = immutable_fields b \<and>
     prefix (map utc_segment (dh_segments a)) (map utc_segment (dh_segments b)) \<and>
     dh_rows a \<le> dh_rows b \<and> dh_bytes a \<le> dh_bytes b \<and>
     (dh_status a \<noteq> ACTIVE \<longrightarrow> dh_status b = dh_status a)"

lemma evolves_refl [simp]: "evolves a a"
  by (simp add: evolves_def)

lemma evolves_trans: "evolves a b \<Longrightarrow> evolves b c \<Longrightarrow> evolves a c"
  unfolding evolves_def by (metis order.trans prefix_order.trans)

lemma evolves_utc [simp]: "evolves a (utc_handle b) = evolves a b"
  by (simp add: evolves_def comp_def)

lemma transition_evolves:
  assumes "validate_transition a b ty = None"
  shows "evolves a b"
proof -
  note checks = assms [unfolded validate_transition_def first_error_None]
  then have "map utc_segment (take (length (dh_segments a)) (dh_segments b)) =
      map utc_segment (dh_segments a)"
    by (simp add: transition_checks_def)
  then have "prefix (map utc_segment (dh_segments a)) (map utc_segment (dh_segments b))"
    by (metis take_is_prefix take_map)
  then show ?thesis using checks by (auto simp: transition_checks_def evolves_def)
qed

lemma check_chain_evolves:
  "check_chain prior (Some h) es = None \<Longrightarrow> successively evolves (h # map ev_handle es)"
  by (induction es arbitrary: prior h)
    (auto split: if_splits option.splits dest: transition_evolves)

lemma published_evolves:
  assumes "catalog_ok digest c"
  shows "successively evolves (published digest i c)"
proof (cases "events_of digest c i")
  case (Cons e es)
  then show ?thesis
    using events_of_read(3) [OF assms, of i]
    by (auto simp: published_def split: if_splits dest: check_chain_evolves)
qed (simp add: published_def)

lemma step_append:
  assumes "catalog_step digest c p = Inr c'"
  obtains now ty where "append_event digest c now ty (op_handle p) = Inr c'"
  using assms that
  by (cases p)
    (auto simp: register_def publish_segment_def publish_def bind_result_Inr split: if_splits)

lemma step_ok:
  assumes "hexdigest digest \<and> catalog_ok digest c" and "op_ok p"
    and "catalog_step digest c p = Inr c'"
  shows "hexdigest digest \<and> catalog_ok digest c'"
  using assms by (metis append_ok(1) op_ok_def step_append)

lemma step_published:
  assumes "hexdigest digest \<and> catalog_ok digest c" and "op_ok p"
    and "catalog_step digest c p = Inr c'"
  shows "prefix (published digest i c) (published digest i c')"
proof -
  obtain now ty where app: "append_event digest c now ty (op_handle p) = Inr c'"
    using assms(3) by (rule step_append)
  show ?thesis
    using append_ok(2) [OF _ _ _ app, of i] assms(1,2) by (simp add: op_ok_def)
qed

lemma step_files:
  assumes "hexdigest digest \<and> catalog_ok digest c" and "op_ok p"
    and "catalog_step digest c p = Inr c'"
  shows "prefix (dataset_files c i) (dataset_files c' i)"
proof -
  obtain now ty where app: "append_event digest c now ty (op_handle p) = Inr c'"
    using assms(3) by (rule step_append)
  have "handle_ok (op_handle p)" using assms(2) by (simp add: op_ok_def)
  from app [unfolded append_eq [OF conjunct2 [OF assms(1)] this]] show ?thesis
    by (auto simp: Let_def split: option.splits if_splits)
qed

interpretation fragments:
  append_log "\<lambda>c. dataset_files c i" "catalog_step digest" op_ok
    "\<lambda>c. hexdigest digest \<and> catalog_ok digest c"
  for digest i
  by unfold_locales (fact step_ok, fact step_files)

interpretation states:
  checked_log "published digest i" "catalog_step digest" op_ok
    "\<lambda>c. hexdigest digest \<and> catalog_ok digest c" evolves
  for digest i
  by unfold_locales (fact step_ok, fact step_published, use published_evolves in blast,
      fact evolves_trans)

section \<open>Current states over a run\<close>

lemma published_iff:
  assumes "catalog_ok digest c"
  shows "published digest i c \<noteq> [] \<longleftrightarrow> i \<in> fst ` set (ct_events c)"
proof
  assume "published digest i c \<noteq> []"
  then have "dataset_files c i \<noteq> []" by (auto simp: published_def events_of_def)
  then show "i \<in> fst ` set (ct_events c)" using dataset_files_unknown by blast
next
  assume "i \<in> fst ` set (ct_events c)"
  note dir = catalog_ok_dir [OF assms this]
  then have "length (dataset_files c i) \<noteq> 0" by (simp add: dir_ok_def)
  then have "dir_events digest (dataset_files c i) \<noteq> []"
    unfolding dir_ok_length [OF dir, symmetric] by simp
  then show "published digest i c \<noteq> []" by (simp add: published_def events_of_def)
qed

lemma handles_lookup:
  assumes "catalog_ok digest c"
  obtains hs where "handles digest c = Inr hs"
    and "\<And>i. map_of hs i =
      (if published digest i c \<noteq> [] then Some (last (published digest i c))
       else map_of (legacy_handles c) i)"
  using handles_ok [OF assms] published_iff [OF assms] by metis

lemma get_ok:
  assumes "catalog_ok digest c"
  shows "get digest c i = Inr h \<longleftrightarrow>
     (if published digest i c \<noteq> [] then h = last (published digest i c)
      else map_of (legacy_handles c) i = Some h)"
proof -
  obtain hs where hs: "handles digest c = Inr hs"
    and lookup: "\<And>i. map_of hs i = (if published digest i c \<noteq> [] then Some (last (published digest i c))
       else map_of (legacy_handles c) i)"
    by (rule handles_lookup [OF assms]) blast
  show ?thesis
    unfolding get_def hs by (auto simp: lookup split: option.splits)
qed

text \<open>Only a dataset the catalogue does not know can be registered, and only a dataset with events
  can be published again; a legacy dataset is never touched.\<close>

lemma step_target:
  assumes "catalog_ok digest c" and "op_ok p" and "catalog_step digest c p = Inr c'"
  shows "published digest (dh_dataset_id (op_handle p)) c \<noteq> [] \<or>
     map_of (legacy_handles c) (dh_dataset_id (op_handle p)) = None"
proof (rule ccontr)
  let ?i = "dh_dataset_id (op_handle p)"
  assume neg: "\<not> ?thesis"
  obtain hs where hs: "handles digest c = Inr hs"
    and lookup: "\<And>i. map_of hs i = (if published digest i c \<noteq> [] then Some (last (published digest i c))
       else map_of (legacy_handles c) i)"
    by (rule handles_lookup [OF assms(1)]) blast
  have known: "?i \<in> fst ` set hs"
    using lookup [of ?i] neg by (metis map_of_eq_None_iff)
  have refused: "append_event digest c now ty (op_handle p) \<noteq> Inr c'" if "ty \<noteq> ''dataset_registered''"
    for now ty
    using that neg assms(2) by (simp add: op_ok_def append_eq [OF assms(1)])
  show False
  proof (cases p)
    case (Register now h)
    with assms(3) known show False by (simp add: register_def hs)
  next
    case (PublishSegment now h)
    with assms(3) known refused [of "''segment_published''" now] show False
      by (simp add: publish_segment_def hs)
  next
    case (Publish now h)
    with assms(3) known refused [of "''dataset_published''" now] show False
      by (simp add: publish_def hs)
  qed
qed

lemma step_unknown:
  assumes "hexdigest digest \<and> catalog_ok digest c" and "op_ok p"
    and "catalog_step digest c p = Inr c'"
  shows "published digest i c' = published digest i c \<or>
     published digest i c' = published digest i c @ [utc_handle (op_handle p)] \<and>
       (published digest i c \<noteq> [] \<or> map_of (legacy_handles c) i = None)"
    and "legacy_handles c' = legacy_handles c"
proof -
  obtain now ty where app: "append_event digest c now ty (op_handle p) = Inr c'"
    using assms(3) by (rule step_append)
  have ok: "catalog_ok digest c" "handle_ok (op_handle p)" "hexdigest digest"
    using assms(1,2) by (simp_all add: op_ok_def)
  show "published digest i c' = published digest i c \<or>
     published digest i c' = published digest i c @ [utc_handle (op_handle p)] \<and>
       (published digest i c \<noteq> [] \<or> map_of (legacy_handles c) i = None)"
    using append_ok(2) [OF ok app, of i] step_target [OF ok(1) assms(2,3)] by auto
  show "legacy_handles c' = legacy_handles c"
    using append_ok(4) [OF ok app] by (simp add: legacy_handles_def)
qed

lemma run_legacy:
  assumes "hexdigest digest \<and> catalog_ok digest c" and "list_all op_ok ps"
    and "fold_result (catalog_step digest) c ps = Inr c'"
    and "published digest i c = []" and "map_of (legacy_handles c) i = Some h"
  shows "published digest i c' = [] \<and> legacy_handles c' = legacy_handles c"
  using assms
proof (induction ps arbitrary: c)
  case (Cons p ps)
  then obtain c1 where c1: "catalog_step digest c p = Inr c1"
      "fold_result (catalog_step digest) c1 ps = Inr c'" and ok: "op_ok p" "list_all op_ok ps"
    by (auto simp: bind_result_Inr)
  note step = step_unknown [OF Cons.prems(1) ok(1) c1(1)]
  have "published digest i c1 = []" "legacy_handles c1 = legacy_handles c"
    using step(1) [of i] step(2) Cons.prems(4,5) by auto
  with Cons.IH [OF step_ok [OF Cons.prems(1) ok(1) c1(1)] ok(2) c1(2)] Cons.prems(5)
  show ?case by simp
qed simp

text \<open>The outcome of each call on a well-formed catalogue.\<close>

lemma known_iff:
  assumes "catalog_ok digest c" and "handles digest c = Inr hs"
  shows "i \<in> fst ` set hs \<longleftrightarrow>
     published digest i c \<noteq> [] \<or> map_of (legacy_handles c) i \<noteq> None"
proof -
  have "map_of hs i = (if published digest i c \<noteq> [] then Some (last (published digest i c))
       else map_of (legacy_handles c) i)"
    by (rule handles_lookup [OF assms(1)]) (use assms(2) in simp)
  then show ?thesis by (metis map_of_eq_None_iff option.distinct(1))
qed

lemma register_eq:
  assumes "catalog_ok digest c" and "handle_ok h"
  shows "register digest c now h =
     (if published digest (dh_dataset_id h) c \<noteq> [] \<or>
         map_of (legacy_handles c) (dh_dataset_id h) \<noteq> None
      then Inl (ValueError ''dataset already registered'')
      else Inr (add_fragment c (dh_dataset_id h)
        (new_fragment digest c now ''dataset_registered'' h)))"
proof -
  obtain hs where hs: "handles digest c = Inr hs" by (rule handles_lookup [OF assms(1)]) blast
  show ?thesis
    unfolding register_def hs bind_result_simps known_iff [OF assms(1) hs] append_eq [OF assms]
    by (simp add: Let_def)
qed

lemma publish_segment_eq:
  assumes "catalog_ok digest c" and "handle_ok h"
  shows "publish_segment digest c now h =
     (if published digest (dh_dataset_id h) c = []
      then if map_of (legacy_handles c) (dh_dataset_id h) = None
           then Inl (KeyError ''dataset is not registered'')
           else Inl (ValueError ''first catalogue event must register the dataset'')
      else case validate_transition (last (published digest (dh_dataset_id h) c)) h
                  ''segment_published'' of
             Some err \<Rightarrow> Inl err
           | None \<Rightarrow> Inr (add_fragment c (dh_dataset_id h)
               (new_fragment digest c now ''segment_published'' h)))"
proof -
  obtain hs where hs: "handles digest c = Inr hs" by (rule handles_lookup [OF assms(1)]) blast
  show ?thesis
    unfolding publish_segment_def hs bind_result_simps known_iff [OF assms(1) hs] append_eq [OF assms]
    by (simp add: Let_def)
qed

section \<open>The digest chain\<close>

text \<open>The document a fragment's digest was taken of.\<close>

definition digested :: "jobj \<Rightarrow> jval" where
  "digested d = JObj (sort_key fst (AList.delete ''event_digest'' d))"

lemma digested_fields:
  assumes "digested d = digested d'" and "distinct (map fst d)" and "distinct (map fst d')"
    and "k \<noteq> ''event_digest''"
  shows "map_of d k = map_of d' k"
proof -
  let ?del = "AList.delete ''event_digest''"
  have "map_of (sort_key fst (?del d)) = map_of (?del d)" if "distinct (map fst d)" for d :: jobj
  proof -
    have "distinct (map fst (?del d))" using that by (rule distinct_delete)
    moreover from this have "distinct (map fst (sort_key fst (?del d)))"
      by (simp add: distinct_map)
    ultimately show ?thesis by (simp add: map_of_inject_set)
  qed
  then have "map_of (?del d) = map_of (?del d')"
    using assms(1-3) by (simp add: digested_def) (metis)
  then have "map_of (?del d) k = map_of (?del d') k" by simp
  with assms(4) show ?thesis by (simp add: dict_simps)
qed

lemma read_event_fields:
  assumes "read_event digest d = Inr e"
  shows "ev_digest e = digest (digested d)"
    and "bind_result (req_field d ''event_sequence'') as_int = Inr (ev_sequence e)"
    and "opt_truthy as_str (get_field d ''prior_event_digest'') = Inr (ev_prior e)"
  using assms
  by (auto simp: read_event_def bind_result_Inr digest_payload_def digested_def get_field_def
      req_field_def split: if_splits option.splits)

lemma digested_event:
  assumes "digested d = digested d'" and "distinct (map fst d)" and "distinct (map fst d')"
    and "read_event digest d = Inr e" and "read_event digest d' = Inr e'"
  shows "ev_sequence e = ev_sequence e'" and "ev_prior e = ev_prior e'"
proof -
  note same = digested_fields [OF assms(1-3)]
  show "ev_sequence e = ev_sequence e'"
    using read_event_fields(2) [OF assms(4)] read_event_fields(2) [OF assms(5)]
      same [of "''event_sequence''"] by (simp add: req_field_def)
  show "ev_prior e = ev_prior e'"
    using read_event_fields(3) [OF assms(4)] read_event_fields(3) [OF assms(5)]
      same [of "''prior_event_digest''"] by (simp add: get_field_def)
qed

lemma check_chain_links:
  assumes "check_chain prior previous evs = None" and "Suc k < length evs"
  shows "ev_prior (evs ! Suc k) = Some (ev_digest (evs ! k))"
  using assms
proof (induction evs arbitrary: prior previous k)
  case (Cons e es)
  then have "check_chain (Some (ev_digest e)) (Some (ev_handle e)) es = None"
    by (auto split: if_splits option.splits)
  moreover from this have "es \<noteq> [] \<Longrightarrow> ev_prior (hd es) = Some (ev_digest e)"
    by (cases es) (auto split: if_splits)
  ultimately show ?case using Cons by (cases k) (auto simp: hd_conv_nth)
qed simp

lemma dir_event_nth:
  assumes "dir_ok digest i fs" and "k < length fs"
  shows "read_event digest (fs ! k) = Inr (dir_events digest fs ! k)"
    and "ev_sequence (dir_events digest fs ! k) = int k + 1"
proof -
  have "map_result (read_event digest) fs = Inr (dir_events digest fs)"
    using assms(1) by (simp add: dir_ok_def)
  then show "read_event digest (fs ! k) = Inr (dir_events digest fs ! k)"
    using assms(2) by (simp add: map_result_Inr list_all2_conv_all_nth)
  have "map ev_sequence (dir_events digest fs) ! k = map int [1..<Suc (length fs)] ! k"
    using assms(1) by (simp add: dir_ok_def)
  then show "ev_sequence (dir_events digest fs ! k) = int k + 1"
    using assms(2) dir_ok_length [OF assms(1)] by (simp del: upt_Suc)
qed

lemma chain_binds:
  assumes ok: "dir_ok digest i fs" "dir_ok digest j fs'"
    and keys: "list_all (\<lambda>d. distinct (map fst d)) (fs @ fs')"
    and inj: "inj_on digest (digested ` set (fs @ fs'))"
    and same: "ev_digest (last (dir_events digest fs)) = ev_digest (last (dir_events digest fs'))"
  shows "map digested fs = map digested fs'"
proof -
  let ?n = "length fs" and ?n' = "length fs'"
  have nonempty: "0 < ?n" "0 < ?n'" using ok by (auto simp: dir_ok_def)
  have digest_eq: "digested (fs ! k) = digested (fs' ! l)"
    if "k < ?n" "l < ?n'" "ev_digest (dir_events digest fs ! k) = ev_digest (dir_events digest fs' ! l)"
    for k l
  proof -
    have "digest (digested (fs ! k)) = digest (digested (fs' ! l))"
      using that read_event_fields(1) dir_event_nth(1) [OF ok(1) that(1)]
        dir_event_nth(1) [OF ok(2) that(2)] by metis
    then show ?thesis by (rule inj_onD [OF inj]) (use that in simp_all)
  qed
  have distinct: "k < ?n \<Longrightarrow> distinct (map fst (fs ! k))" "k < ?n' \<Longrightarrow> distinct (map fst (fs' ! k))"
    for k
    using keys by (simp_all add: list_all_iff)
  have last_eq: "last (dir_events digest fs) = dir_events digest fs ! (?n - 1)"
      "last (dir_events digest fs') = dir_events digest fs' ! (?n' - 1)"
  proof -
    have "dir_events digest fs \<noteq> []" "dir_events digest fs' \<noteq> []"
      using nonempty dir_ok_length [OF ok(1)] dir_ok_length [OF ok(2)]
      by (metis length_greater_0_conv)+
    then show "last (dir_events digest fs) = dir_events digest fs ! (?n - 1)"
      "last (dir_events digest fs') = dir_events digest fs' ! (?n' - 1)"
      using dir_ok_length [OF ok(1)] dir_ok_length [OF ok(2)] by (simp_all add: last_conv_nth)
  qed
  have top: "digested (fs ! (?n - 1)) = digested (fs' ! (?n' - 1))"
    using same unfolding last_eq by (intro digest_eq) (use nonempty in simp_all)
  have "ev_sequence (dir_events digest fs ! (?n - 1)) = ev_sequence (dir_events digest fs' ! (?n' - 1))"
    by (rule digested_event(1) [OF top _ _ dir_event_nth(1) [OF ok(1)] dir_event_nth(1) [OF ok(2)]])
      (use nonempty distinct in auto)
  then have len: "?n = ?n'"
    using nonempty dir_event_nth(2) [OF ok(1), of "?n - 1"] dir_event_nth(2) [OF ok(2), of "?n' - 1"]
    by linarith
  have down: "digested (fs ! (?n - 1 - m)) = digested (fs' ! (?n - 1 - m))" if "m < ?n" for m
    using that
  proof (induction m)
    case 0
    then show ?case using top len by simp
  next
    case (Suc m)
    let ?k = "?n - 1 - Suc m"
    have k: "Suc ?k = ?n - 1 - m" "Suc ?k < ?n" using Suc.prems by auto
    have doc: "digested (fs ! Suc ?k) = digested (fs' ! Suc ?k)" using Suc k by simp
    have "ev_prior (dir_events digest fs ! Suc ?k) = ev_prior (dir_events digest fs' ! Suc ?k)"
      by (rule digested_event(2) [OF doc _ _ dir_event_nth(1) [OF ok(1)] dir_event_nth(1) [OF ok(2)]])
        (use k len distinct in auto)
    then have "ev_digest (dir_events digest fs ! ?k) = ev_digest (dir_events digest fs' ! ?k)"
      using check_chain_links [of None None "dir_events digest fs" ?k]
        check_chain_links [of None None "dir_events digest fs'" ?k] k len ok
        dir_ok_length [OF ok(1)] dir_ok_length [OF ok(2)]
      by (simp add: dir_ok_def)
    then show ?case by (rule digest_eq [rotated 2]) (use k len in simp_all)
  qed
  have "digested (fs ! k) = digested (fs' ! k)" if "k < ?n" for k
  proof -
    have "?n - 1 - (?n - 1 - k) = k" "?n - 1 - k < ?n" using that by simp_all
    with down [of "?n - 1 - k"] show ?thesis by simp
  qed
  then show ?thesis using len by (intro nth_equalityI) simp_all
qed

section \<open>Properties\<close>

definition example_digest :: "jval \<Rightarrow> string" where
  "example_digest v = ''d''"

definition example_active :: dataset_handle where
  "example_active =
     example_handle\<lparr>dh_status := ACTIVE, dh_producer_pid := Some 7, dh_completed_at := None,
       dh_segments := [example_segment 1 1], dh_dataset_digest := None, dh_rows := 10,
       dh_bytes := 100\<rparr>"

definition example_ops :: "catalog_op list" where
  "example_ops =
     [Register (Aware 6 0) (example_active\<lparr>dh_segments := [], dh_rows := 0, dh_bytes := 0\<rparr>),
      PublishSegment (Aware 12 0) example_active]"

definition empty_catalog :: catalog where
  "empty_catalog = \<lparr>ct_legacy = [], ct_events = []\<rparr>"

text \<open>C3: a dataset's lifecycle only moves forward. From any well-formed catalogue, after any run of
  register, publish-segment and publish calls with valid handles, the catalogue is well formed
  again, every fragment that was on disk is still there unchanged in its place, and every dataset
  that could be read still can: its identity is unchanged, its published segments are a prefix of
  the new ones, rows and bytes did not shrink and a terminal status is final.\<close>

theorem lifecycle_forward:
  assumes "hexdigest digest" and "catalog_ok digest c" and "list_all op_ok ps"
    and "fold_result (catalog_step digest) c ps = Inr c'"
  shows "catalog_ok digest c' \<and> (\<forall>i. prefix (dataset_files c i) (dataset_files c' i)) \<and>
     (\<forall>i h. get digest c i = Inr h \<longrightarrow> (\<exists>h'. get digest c' i = Inr h' \<and> evolves h h'))"
proof -
  have start: "hexdigest digest \<and> catalog_ok digest c" using assms(1,2) by simp
  have ok': "catalog_ok digest c'" using states.run_inv [OF start assms(3,4)] by simp
  have "\<exists>h'. get digest c' i = Inr h' \<and> evolves h h'" if get: "get digest c i = Inr h" for i h
  proof (cases "published digest i c = []")
    case True
    with get have "map_of (legacy_handles c) i = Some h" by (simp add: get_ok [OF assms(2)])
    with run_legacy [OF start assms(3,4) True] show ?thesis by (simp add: get_ok [OF ok'])
  next
    case False
    with get have h: "h = last (published digest i c)" by (simp add: get_ok [OF assms(2)])
    have "published digest i c' \<noteq> []"
      using states.run_prefix [OF start assms(3,4), of i] False by auto
    moreover have "evolves h (last (published digest i c'))"
      using states.run_last [OF start assms(3,4) False] h by auto
    ultimately show ?thesis by (simp add: get_ok [OF ok'])
  qed
  with ok' fragments.run_prefix [OF start assms(3,4)] show ?thesis by blast
qed

lemma example_ops_ok: "list_all op_ok example_ops"
  by code_simp

lemma empty_catalog_ok: "catalog_ok example_digest empty_catalog"
  by (simp add: catalog_ok_def empty_catalog_def)

lemma example_hexdigest: "hexdigest example_digest"
  by (simp add: hexdigest_def example_digest_def)

lemma example_run:
  obtains c where "fold_result (catalog_step example_digest) empty_catalog example_ops = Inr c"
    and "published example_digest ''ds-1'' c =
      [utc_handle (example_active\<lparr>dh_segments := [], dh_rows := 0, dh_bytes := 0\<rparr>),
       utc_handle example_active]"
proof -
  let ?h0 = "example_active\<lparr>dh_segments := [], dh_rows := 0, dh_bytes := 0\<rparr>"
  have ids: "dh_dataset_id ?h0 = ''ds-1''" "dh_dataset_id example_active = ''ds-1''"
    by (simp_all add: example_active_def example_handle_def)
  have ok: "handle_ok ?h0" "handle_ok example_active"
    using example_ops_ok by (simp_all add: example_ops_def op_ok_def)
  have empty: "published example_digest i empty_catalog = []"
      "legacy_handles empty_catalog = []" for i
    by (simp_all add: published_def events_of_def dataset_files_def empty_catalog_def
        legacy_handles_def)
  obtain c1 where c1: "register example_digest empty_catalog (Aware 6 0) ?h0 = Inr c1"
    by (simp add: register_eq [OF empty_catalog_ok ok(1)] empty)
  then have app1: "append_event example_digest empty_catalog (Aware 6 0) ''dataset_registered'' ?h0 =
      Inr c1"
    by (auto simp: register_def bind_result_Inr split: if_splits)
  note step1 = append_ok [OF empty_catalog_ok ok(1) example_hexdigest app1]
  have pub1: "published example_digest ''ds-1'' c1 = [utc_handle ?h0]"
    using step1(2) [of "''ds-1''"] by (simp add: empty ids)
  have "validate_transition (utc_handle ?h0) example_active ''segment_published'' = None"
    by code_simp
  then obtain c2 where c2: "publish_segment example_digest c1 (Aware 12 0) example_active = Inr c2"
    by (simp add: publish_segment_eq [OF step1(1) ok(2)] ids pub1)
  then have app2: "append_event example_digest c1 (Aware 12 0) ''segment_published'' example_active =
      Inr c2"
    by (auto simp: publish_segment_def bind_result_Inr split: if_splits)
  have "published example_digest ''ds-1'' c2 = [utc_handle ?h0, utc_handle example_active]"
    using append_ok(2) [OF step1(1) ok(2) example_hexdigest app2, of "''ds-1''"]
    by (simp add: ids pub1)
  moreover have "fold_result (catalog_step example_digest) empty_catalog example_ops = Inr c2"
    by (simp add: example_ops_def c1 c2)
  ultimately show thesis using that by blast
qed

theorem lifecycle_forward_witness:
  "\<exists>c. fold_result (catalog_step example_digest) empty_catalog example_ops = Inr c \<and>
     catalog_ok example_digest c \<and> get example_digest c ''ds-1'' = Inr (utc_handle example_active)"
proof -
  obtain c where run: "fold_result (catalog_step example_digest) empty_catalog example_ops = Inr c"
    and pub: "published example_digest ''ds-1'' c =
      [utc_handle (example_active\<lparr>dh_segments := [], dh_rows := 0, dh_bytes := 0\<rparr>),
       utc_handle example_active]"
    by (rule example_run)
  have "catalog_ok example_digest c"
    using lifecycle_forward [OF example_hexdigest empty_catalog_ok example_ops_ok run] by blast
  with run pub show ?thesis by (auto simp: get_ok)
qed

text \<open>C21: the digest chain fixes the whole history. If two event directories that a catalogue accepts
  end in the same event digest, they hold the same documents from the first event to the last; a
  rewritten, dropped, reordered or inserted event changes the newest digest. The only assumption is
  that sha256 does not collide on the documents of the two directories.\<close>

theorem digest_chain_binds:
  assumes "dir_ok digest i fs" and "dir_ok digest j fs'"
    and "list_all (\<lambda>d. distinct (map fst d)) (fs @ fs')"
    and "inj_on digest (digested ` set (fs @ fs'))"
    and "ev_digest (last (dir_events digest fs)) = ev_digest (last (dir_events digest fs'))"
  shows "map digested fs = map digested fs'"
  using assms by (rule chain_binds)

theorem digest_chain_binds_witness:
  "\<exists>f. dir_ok example_digest ''ds-1'' [f] \<and> map digested [f] = map digested [f]"
proof -
  let ?h0 = "example_active\<lparr>dh_segments := [], dh_rows := 0, dh_bytes := 0\<rparr>"
  have id: "dh_dataset_id ?h0 = ''ds-1''" by (simp add: example_active_def example_handle_def)
  have ok: "handle_ok ?h0" using example_ops_ok by (simp add: example_ops_def op_ok_def)
  have empty: "published example_digest i empty_catalog = []" "legacy_handles empty_catalog = []" for i
    by (simp_all add: published_def events_of_def dataset_files_def empty_catalog_def
        legacy_handles_def)
  define f where "f = new_fragment example_digest empty_catalog (Aware 6 0) ''dataset_registered'' ?h0"
  have "append_event example_digest empty_catalog (Aware 6 0) ''dataset_registered'' ?h0 =
      Inr (add_fragment empty_catalog ''ds-1'' f)"
    by (simp add: append_eq [OF empty_catalog_ok ok] empty f_def id Let_def)
  then have "catalog_ok example_digest (add_fragment empty_catalog ''ds-1'' f)"
    by (rule append_ok(1) [OF empty_catalog_ok ok example_hexdigest])
  then have dir: "dir_ok example_digest ''ds-1'' [f]"
    by (simp add: catalog_ok_def add_fragment_def empty_catalog_def dataset_files_def)
  have "distinct (map fst f)"
    unfolding f_def new_fragment_def Let_def sealed_payload
    by (simp add: event_payload_def handle_columns_def)
  then have "map digested [f] = map digested [f]"
    by (intro digest_chain_binds [OF dir dir]) simp_all
  with dir show ?thesis by blast
qed

text \<open>C36: publication is decided by the lifecycle rules alone. On a well-formed catalogue and with a
  valid handle, publishing a segment succeeds exactly when the dataset has events and the transition
  from its newest state is allowed, and otherwise fails with the error of the first rule broken; the
  comparison of the written fragment with the handle never fails.\<close>

theorem publish_segment_decision:
  assumes "catalog_ok digest c" and "handle_ok h"
  shows "publish_segment digest c now h =
     (if published digest (dh_dataset_id h) c = []
      then if map_of (legacy_handles c) (dh_dataset_id h) = None
           then Inl (KeyError ''dataset is not registered'')
           else Inl (ValueError ''first catalogue event must register the dataset'')
      else case validate_transition (last (published digest (dh_dataset_id h) c)) h
                  ''segment_published'' of
             Some err \<Rightarrow> Inl err
           | None \<Rightarrow> Inr (add_fragment c (dh_dataset_id h)
               (new_fragment digest c now ''segment_published'' h)))"
  using assms by (rule publish_segment_eq)

theorem publish_segment_decision_witness:
  "publish_segment example_digest empty_catalog (Aware 12 0) example_active =
     Inl (KeyError ''dataset is not registered'')"
proof -
  have "handle_ok example_active" using example_ops_ok by (simp add: example_ops_def op_ok_def)
  from publish_segment_decision [OF empty_catalog_ok this, of "Aware 12 0"] show ?thesis
    by (simp add: published_def events_of_def dataset_files_def empty_catalog_def legacy_handles_def)
qed

text \<open>C35: resolution is complete and picks the best. It fails exactly when no known dataset
  satisfies the request with a live producer; otherwise it returns such a dataset, and no other
  candidate is ranked above it (active before completed, then later coverage end, then later
  start).\<close>

theorem resolve_best:
  assumes "catalog_ok digest c"
  shows "case resolve digest alive hostname c r of
      Inr h \<Rightarrow>
        (\<exists>i. get digest c i = Inr h) \<and> satisfies h r \<and> active_process_is_live alive hostname h \<and>
        (\<forall>i h'. get digest c i = Inr h' \<and> satisfies h' r \<and> active_process_is_live alive hostname h' \<longrightarrow>
           resolve_rank h' \<le> resolve_rank h)
    | Inl e \<Rightarrow>
        \<forall>i h. get digest c i = Inr h \<longrightarrow>
          \<not> (satisfies h r \<and> active_process_is_live alive hostname h)"
proof -
  obtain hs where hs: "handles digest c = Inr hs" by (rule handles_lookup [OF assms]) blast
  let ?ok = "\<lambda>h. satisfies h r \<and> active_process_is_live alive hostname h"
  let ?matches = "[h. (_, h) \<leftarrow> hs, ?ok h]"
  have get: "get digest c i = Inr h \<longleftrightarrow> (i, h) \<in> set hs" for i h
  proof -
    have "get digest c i = Inr h \<longleftrightarrow> map_of hs i = Some h"
      by (simp add: get_def hs split: option.split)
    then show ?thesis using map_of_eq_Some_iff [OF handles_distinct [OF hs]] by blast
  qed
  have mem: "h \<in> set ?matches \<longleftrightarrow> (\<exists>i. get digest c i = Inr h) \<and> ?ok h" for h
    by (auto simp: get)
  show ?thesis
  proof (cases "?matches = []")
    case True
    have none: "get digest c i = Inr h \<longrightarrow> \<not> ?ok h" for i h
      using mem [of h] unfolding True by auto
    have "resolve digest alive hostname c r =
        Inl (DatasetUnavailableError ''DAT has no dataset satisfying request'')"
      unfolding resolve_def hs bind_result_simps Let_def True by simp
    with none show ?thesis by simp
  next
    case False
    let ?best = "hd (sort_descending resolve_rank ?matches)"
    have "resolve digest alive hostname c r = Inr ?best"
      unfolding resolve_def hs bind_result_simps Let_def using False by (rule if_not_P)
    then show ?thesis
      using mem [of ?best] mem sort_descending_hd [OF False, where key = resolve_rank] by auto
  qed
qed

theorem resolve_best_witness:
  "\<exists>e. resolve example_digest (\<lambda>_. True) ''host'' empty_catalog example_request = Inl e \<and>
     (\<forall>i h. get example_digest empty_catalog i = Inr h \<longrightarrow> \<not> satisfies h example_request)"
proof -
  have always: "active_process_is_live (\<lambda>_. True) ''host'' h" for h
    by (simp add: active_process_is_live_def split: option.split)
  have "resolve example_digest (\<lambda>_. True) ''host'' empty_catalog example_request =
      Inl (DatasetUnavailableError ''DAT has no dataset satisfying request'')"
    by (simp add: resolve_def handles_def event_files_def empty_catalog_def legacy_handles_def
        sorted_set_def)
  with resolve_best [OF empty_catalog_ok, where alive = "\<lambda>_. True" and hostname = "''host''"
      and r = example_request] show ?thesis
    by (simp add: always)
qed

end
