(* ===== verification/Tape_Store.thy ===== *)
theory Tape_Store
  imports Tape_Contract Data_Contract Append_Log
begin

text \<open>
  \<open>data/src/shaurya/data/tape.py\<close>: the JSON-lines tape. A tape file is its list of lines; a line is
  blank, not JSON, or the JSON value it holds (\<open>json.dumps\<close> and \<open>json.loads\<close> are inverse on row
  dictionaries), and \<open>line_size\<close> gives the byte length of an encoded line. A generator that may
  raise half way is the list of rows it yielded and the error that ended it, if any.
\<close>

section \<open>Lines\<close>

datatype tape_line = Blank | Malformed | Json jval

definition parse_line :: "string \<Rightarrow> tape_line \<Rightarrow> tape_row result" where
  "parse_line message line =
     (case line of
        Json (JObj d) \<Rightarrow>
          (case tape_row_from_dict d of
             Inl _ \<Rightarrow> Inl (TapeIntegrityError message) | Inr r \<Rightarrow> Inr r)
      | _ \<Rightarrow> Inl (TapeIntegrityError message))"

definition row_line :: "tape_row \<Rightarrow> tape_line" where
  "row_line r = Json (JObj (tape_row_to_dict r))"

lemma parse_row_line [simp]: "tape_row_ok r \<Longrightarrow> parse_line m (row_line r) = Inr r"
  by (simp add: parse_line_def row_line_def tape_row_roundtrip_lemma)

section \<open>The writer\<close>

datatype artifact_event =
    ArtifactOpened string string
  | ArtifactClosed string string int
  | ArtifactFailed string string string

record tape_writer =
  tw_run_id :: string
  tw_fsync_every :: int
  tw_lines :: "tape_line list"
  tw_size :: int
  tw_rows_written :: int
  tw_synced :: int
  tw_closed :: bool
  tw_observed :: "(tape_row \<times> int \<times> int) list"
  tw_manifest :: "artifact_event list"

text \<open>\<open>existing\<close> says that the file is already there (\<open>O_EXCL\<close>).\<close>

definition tape_writer_init :: "bool \<Rightarrow> string \<Rightarrow> int \<Rightarrow> tape_writer result" where
  "tape_writer_init existing run_id fsync_every =
     (if fsync_every < 1 then Inl (ValueError ''fsync_every must be positive'')
      else if existing then Inl (FileExistsError ''tape'')
      else Inr \<lparr>tw_run_id = run_id, tw_fsync_every = fsync_every, tw_lines = [], tw_size = 0,
                tw_rows_written = 0, tw_synced = 0, tw_closed = False, tw_observed = [],
                tw_manifest = [ArtifactOpened ''tape'' ''market_data_tape'']\<rparr>)"

definition tape_write :: "(tape_line \<Rightarrow> int) \<Rightarrow> tape_writer \<Rightarrow> tape_row \<Rightarrow> tape_writer result" where
  "tape_write line_size w r =
     (if tw_closed w then Inl (ValueError ''cannot write to a closed tape'')
      else if tr_run_id r \<noteq> tw_run_id w
      then Inl (ValueError ''tape row run_id does not match manifest run_id'')
      else
        let line = row_line r;
            byte_offset = tw_size w;
            written = tw_rows_written w + 1
        in Inr (w\<lparr>tw_lines := tw_lines w @ [line],
                  tw_size := byte_offset + line_size line,
                  tw_rows_written := written,
                  tw_observed := tw_observed w @ [(r, byte_offset, line_size line)],
                  tw_synced := (if written mod tw_fsync_every w = 0 then written
                                else tw_synced w)\<rparr>))"

definition tape_close :: "string option \<Rightarrow> tape_writer \<Rightarrow> tape_writer" where
  "tape_close failed_error_type w =
     (if tw_closed w then w
      else w\<lparr>tw_closed := True, tw_synced := tw_rows_written w,
             tw_manifest := tw_manifest w @
               [case failed_error_type of
                  None \<Rightarrow> ArtifactClosed ''tape'' ''market_data_tape'' (tw_rows_written w)
                | Some e \<Rightarrow>
                    if e = [] then ArtifactClosed ''tape'' ''market_data_tape'' (tw_rows_written w)
                    else ArtifactFailed ''tape'' ''market_data_tape'' e]\<rparr>)"

section \<open>The reader\<close>

fun read_rows ::
    "bool \<Rightarrow> string option \<Rightarrow> int option \<Rightarrow> tape_line list \<Rightarrow> tape_row list \<times> exn option" where
  "read_rows contiguous observed prior [] = ([], None)"
| "read_rows contiguous observed prior (line # lines) =
     (if line = Blank then ([], Some (TapeIntegrityError ''blank tape row''))
      else
        case parse_line ''invalid canonical tape row'' line of
          Inl e \<Rightarrow> ([], Some e)
        | Inr row \<Rightarrow>
            let run = (case observed of None \<Rightarrow> tr_run_id row | Some run \<Rightarrow> run) in
            if tr_run_id row \<noteq> run then ([], Some (TapeIntegrityError ''run_id changed''))
            else if \<not> opt_ok (\<lambda>p. p < tr_receive_sequence row) prior
            then ([], Some (TapeIntegrityError ''receive sequence is not strictly increasing''))
            else if contiguous \<and> \<not> opt_ok (\<lambda>p. tr_receive_sequence row = p + 1) prior
            then ([], Some (TapeIntegrityError ''receive sequence gap''))
            else
              (case read_rows contiguous (Some run) (Some (tr_receive_sequence row)) lines of
                 (rows, err) \<Rightarrow> (row # rows, err)))"

definition reader_rows :: "string option \<Rightarrow> bool \<Rightarrow> tape_line list \<Rightarrow> tape_row list \<times> exn option" where
  "reader_rows expected_run_id require_contiguous lines =
     read_rows require_contiguous expected_run_id None lines"

text \<open>\<open>replay\<close>: the rows delivered to the consumer and the returned count, or the error.\<close>

definition replay :: "string option \<Rightarrow> bool \<Rightarrow> tape_line list \<Rightarrow> tape_row list \<times> int result" where
  "replay expected_run_id require_contiguous lines =
     (case reader_rows expected_run_id require_contiguous lines of
        (rows, None) \<Rightarrow> (rows, Inr (int (length rows)))
      | (rows, Some e) \<Rightarrow> (rows, Inl e))"

definition data_channel_for_row :: "tape_row \<Rightarrow> data_channel" where
  "data_channel_for_row r =
     (if tr_event_type r = ''depth20'' then DEPTH20
      else if tr_event_type r = ''depth200'' then DEPTH200
      else STANDARD)"

section \<open>The seek index\<close>

text \<open>A checkpoint keeps its stamp as the ISO string; \<open>JIso\<close> is the string of a datetime.\<close>

record index_checkpoint =
  cp_row_number :: int
  cp_byte_offset :: int
  cp_receive_sequence :: int
  cp_receive_ts :: jval

definition checkpoint_to_dict :: "index_checkpoint \<Rightarrow> jval" where
  "checkpoint_to_dict c =
     JObj [(''row_number'', JInt (cp_row_number c)), (''byte_offset'', JInt (cp_byte_offset c)),
           (''receive_sequence'', JInt (cp_receive_sequence c)), (''receive_ts'', cp_receive_ts c)]"

record index_builder =
  ix_stride_rows :: int
  ix_rows :: int
  ix_bytes :: int
  ix_coverage_start :: "datetime option"
  ix_coverage_end :: "datetime option"
  ix_monotone :: bool
  ix_prior_stamp :: "datetime option"
  ix_checkpoints :: "index_checkpoint list"
  ix_channel_rows :: "(string \<times> int) list"
  ix_instrument_rows :: "(string \<times> int) list"

definition index_init :: "int \<Rightarrow> index_builder result" where
  "index_init stride_rows =
     (if stride_rows < 1 then Inl (ValueError ''index stride_rows must be positive'')
      else Inr \<lparr>ix_stride_rows = stride_rows, ix_rows = 0, ix_bytes = 0, ix_coverage_start = None,
                ix_coverage_end = None, ix_monotone = True, ix_prior_stamp = None,
                ix_checkpoints = [], ix_channel_rows = [], ix_instrument_rows = []\<rparr>)"

text \<open>\<open>counter[key] += 1\<close>.\<close>

definition count_key :: "string \<Rightarrow> (string \<times> int) list \<Rightarrow> (string \<times> int) list" where
  "count_key k c = AList.update k ((case map_of c k of None \<Rightarrow> 0 | Some n \<Rightarrow> n) + 1) c"

definition index_observe ::
    "index_builder \<Rightarrow> tape_row \<times> int \<times> int \<Rightarrow> index_builder result" where
  "index_observe b observation =
     (case observation of (r, byte_offset, encoded_bytes) \<Rightarrow>
      if byte_offset < 0 \<or> encoded_bytes < 1
      then Inl (ValueError ''invalid tape index byte accounting'')
      else
        let stamp = tr_receive_ts r; rows = ix_rows b + 1 in
        Inr (b\<lparr>ix_rows := rows,
               ix_bytes := ix_bytes b + encoded_bytes,
               ix_coverage_start :=
                 (case ix_coverage_start b of
                    None \<Rightarrow> Some stamp
                  | Some s \<Rightarrow> Some (if instant stamp < instant s then stamp else s)),
               ix_coverage_end :=
                 (case ix_coverage_end b of
                    None \<Rightarrow> Some stamp
                  | Some s \<Rightarrow> Some (if instant stamp > instant s then stamp else s)),
               ix_monotone :=
                 (ix_monotone b \<and> opt_ok (\<lambda>p. instant p \<le> instant stamp) (ix_prior_stamp b)),
               ix_prior_stamp := Some stamp,
               ix_channel_rows :=
                 count_key (channel_str (data_channel_for_row r)) (ix_channel_rows b),
               ix_instrument_rows := count_key (tr_instrument_id r) (ix_instrument_rows b),
               ix_checkpoints :=
                 (if rows = 1 \<or> (rows - 1) mod ix_stride_rows b = 0
                  then ix_checkpoints b @
                    [\<lparr>cp_row_number = rows, cp_byte_offset = byte_offset,
                      cp_receive_sequence = tr_receive_sequence r, cp_receive_ts = JIso stamp\<rparr>]
                  else ix_checkpoints b)\<rparr>))"

text \<open>The index document; \<open>digest\<close> is \<open>sha256_file\<close> of the tape and \<open>size\<close> its byte length. The
  index file is created with \<open>O_EXCL\<close>.\<close>

definition index_write ::
    "(tape_line list \<Rightarrow> string) \<Rightarrow> index_builder \<Rightarrow> bool \<Rightarrow> string \<Rightarrow> tape_line list \<Rightarrow> int \<Rightarrow>
     jval result" where
  "index_write digest b index_exists tape_name lines size_bytes =
     (case (ix_coverage_start b, ix_coverage_end b) of
        (Some first, Some final) \<Rightarrow>
          if ix_rows b < 1 then Inl (ValueError ''cannot write an index for an empty tape'')
          else if index_exists then Inl (FileExistsError ''index'')
          else Inr (JObj
            [(''schema_version'', JStr ''1.0.0''),
             (''tape_name'', JStr tape_name),
             (''tape_sha256'', JStr (digest lines)),
             (''rows'', JInt (ix_rows b)),
             (''bytes'', JInt size_bytes),
             (''stride_rows'', JInt (ix_stride_rows b)),
             (''coverage_start'', JIso first),
             (''coverage_end'', JIso final),
             (''receive_time_monotone'', JBool (ix_monotone b)),
             (''channel_rows'',
               JObj (map (\<lambda>(k, n). (k, JInt n)) (sort_key fst (ix_channel_rows b)))),
             (''instrument_rows'',
               JObj (map (\<lambda>(k, n). (k, JInt n)) (sort_key fst (ix_instrument_rows b)))),
             (''checkpoints'', JList (map checkpoint_to_dict (ix_checkpoints b)))])
      | _ \<Rightarrow> Inl (ValueError ''cannot write an index for an empty tape''))"

text \<open>\<open>bool(value)\<close>.\<close>

fun py_truthy :: "jval \<Rightarrow> bool" where
  "py_truthy JNull = False"
| "py_truthy (JBool b) = b"
| "py_truthy (JInt n) = (n \<noteq> 0)"
| "py_truthy (JFloat x) = (x \<noteq> 0)"
| "py_truthy (JStr s) = (s \<noteq> [])"
| "py_truthy (JIso t) = True"
| "py_truthy (JList vs) = (vs \<noteq> [])"
| "py_truthy (JObj d) = (d \<noteq> [])"

fun iso_text :: "jval \<Rightarrow> jval result" where
  "iso_text (JIso t) = Inr (JIso t)"
| "iso_text v = bind_result (as_str v) (\<lambda>s. Inr (JStr s))"

definition checkpoint_from_dict :: "jobj \<Rightarrow> index_checkpoint result" where
  "checkpoint_from_dict d =
     bind_result (bind_result (req_field d ''row_number'') as_int) (\<lambda>n.
     bind_result (bind_result (req_field d ''byte_offset'') as_int) (\<lambda>off.
     bind_result (bind_result (req_field d ''receive_sequence'') as_int) (\<lambda>seq.
     bind_result (bind_result (req_field d ''receive_ts'') iso_text) (\<lambda>ts.
     Inr \<lparr>cp_row_number = n, cp_byte_offset = off, cp_receive_sequence = seq,
          cp_receive_ts = ts\<rparr>))))"

record seek_index =
  si_monotone :: bool
  si_checkpoints :: "index_checkpoint list"

text \<open>\<open>Path(name).suffix == ".gz"\<close>.\<close>

definition gz_name :: "string \<Rightarrow> bool" where
  "gz_name name \<longleftrightarrow> suffix ''.gz'' name \<and> name \<noteq> ''.gz''"

definition indexed_reader_init ::
    "(tape_line list \<Rightarrow> string) \<Rightarrow> string \<Rightarrow> tape_line list option \<Rightarrow> jval option \<Rightarrow>
     seek_index result" where
  "indexed_reader_init digest tape_name tape index =
     (if gz_name tape_name
      then Inl (ValueError ''seek indexes require the warm uncompressed JSONL tape'')
      else
        case (tape, index) of
          (Some lines, Some (JObj loaded)) \<Rightarrow>
            if get_field loaded ''schema_version'' \<noteq> JStr ''1.0.0''
            then Inl (TapeIntegrityError ''unsupported or malformed tape index'')
            else if get_field loaded ''tape_name'' \<noteq> JStr tape_name
            then Inl (TapeIntegrityError ''tape index names a different tape'')
            else if get_field loaded ''tape_sha256'' \<noteq> JStr (digest lines)
            then Inl (TapeIntegrityError ''tape hash no longer matches its seek index'')
            else
              (case get_field loaded ''checkpoints'' of
                 JList (c # cs) \<Rightarrow>
                   bind_result
                     (map_result checkpoint_from_dict
                       (List.map_filter (\<lambda>v. case v of JObj d \<Rightarrow> Some d | _ \<Rightarrow> None) (c # cs)))
                     (\<lambda>cps. Inr \<lparr>si_monotone = py_truthy (get_field loaded ''receive_time_monotone''),
                                si_checkpoints = cps\<rparr>)
               | _ \<Rightarrow> Inl (TapeIntegrityError ''tape index has no checkpoints''))
        | (Some lines, Some _) \<Rightarrow> Inl (TapeIntegrityError ''unsupported or malformed tape index'')
        | _ \<Rightarrow> Inl (FileNotFoundError tape_name))"

text \<open>\<open>bisect.bisect_right\<close>, as the standard library computes it. The stamps come from rows, which
  are timezone-aware, so they are compared by instant.\<close>

function bisect_right_from :: "int list \<Rightarrow> int \<Rightarrow> nat \<Rightarrow> nat \<Rightarrow> nat" where
  "bisect_right_from a x lo hi =
     (if lo < hi
      then let mid = (lo + hi) div 2
           in if x < a ! mid then bisect_right_from a x lo mid
              else bisect_right_from a x (mid + 1) hi
      else lo)"
  by pat_completeness auto

termination by (relation "measure (\<lambda>(a, x, lo, hi). hi - lo)") auto

declare bisect_right_from.simps [simp del]

definition bisect_right :: "int list \<Rightarrow> int \<Rightarrow> nat" where
  "bisect_right a x = bisect_right_from a x 0 (length a)"

definition start_offset :: "seek_index \<Rightarrow> datetime option \<Rightarrow> int result" where
  "start_offset ix start =
     (case start of
        None \<Rightarrow> Inr 0
      | Some s \<Rightarrow>
          if \<not> si_monotone ix then Inr 0
          else if \<not> is_aware s then Inl (ValueError ''start must be timezone-aware'')
          else
            bind_result (map_result (\<lambda>c. as_datetime (cp_receive_ts c)) (si_checkpoints ix)) (\<lambda>stamps.
            let position = bisect_right (map instant stamps) (instant s) - 1
            in if position < length (si_checkpoints ix)
               then Inr (cp_byte_offset (si_checkpoints ix ! position))
               else Inl (IndexError ''tuple index out of range'')))"

text \<open>Seeking to a byte offset that is the start of a line.\<close>

fun lines_from :: "(tape_line \<Rightarrow> int) \<Rightarrow> int \<Rightarrow> tape_line list \<Rightarrow> tape_line list" where
  "lines_from line_size offset [] = []"
| "lines_from line_size offset (l # ls) =
     (if offset \<le> 0 then l # ls else lines_from line_size (offset - line_size l) ls)"

definition wanted_row ::
    "data_channel list \<Rightarrow> string list \<Rightarrow> tape_row \<Rightarrow> bool" where
  "wanted_row channels instruments r \<longleftrightarrow>
     (channels = [] \<or> data_channel_for_row r \<in> set channels) \<and>
     (instruments = [] \<or> tr_instrument_id r \<in> set instruments)"

fun scan_rows ::
    "bool \<Rightarrow> datetime option \<Rightarrow> datetime option \<Rightarrow> (tape_row \<Rightarrow> bool) \<Rightarrow> tape_line list \<Rightarrow>
     tape_row list \<times> exn option" where
  "scan_rows ordered start end_ts wanted [] = ([], None)"
| "scan_rows ordered start end_ts wanted (line # lines) =
     (case parse_line ''invalid indexed tape row'' line of
        Inl e \<Rightarrow> ([], Some e)
      | Inr r \<Rightarrow>
          if \<not> opt_ok is_aware start
          then ([], Some (TypeError ''can't compare offset-naive and offset-aware datetimes''))
          else if \<not> opt_ok (\<lambda>s. instant s \<le> instant (tr_receive_ts r)) start
          then scan_rows ordered start end_ts wanted lines
          else if \<not> opt_ok (\<lambda>e. instant (tr_receive_ts r) \<le> instant e) end_ts
          then if ordered then ([], None) else scan_rows ordered start end_ts wanted lines
          else if \<not> wanted r then scan_rows ordered start end_ts wanted lines
          else (case scan_rows ordered start end_ts wanted lines of (rows, e) \<Rightarrow> (r # rows, e)))"

definition indexed_rows ::
    "(tape_line \<Rightarrow> int) \<Rightarrow> seek_index \<Rightarrow> tape_line list \<Rightarrow> datetime option \<Rightarrow>
     datetime option \<Rightarrow> data_channel list \<Rightarrow> string list \<Rightarrow> tape_row list \<times> exn option" where
  "indexed_rows line_size ix lines start end_ts channels instruments =
     (if \<not> opt_ok is_aware end_ts then ([], Some (ValueError ''end must be timezone-aware''))
      else if end_ts \<noteq> None \<and> \<not> opt_ok is_aware start
      then ([], Some (TypeError ''can't compare offset-naive and offset-aware datetimes''))
      else if (case (start, end_ts) of (Some s, Some e) \<Rightarrow> instant e < instant s | _ \<Rightarrow> False)
      then ([], Some (ValueError ''end cannot precede start''))
      else
        (case start_offset ix start of
           Inl e \<Rightarrow> ([], Some e)
         | Inr offset \<Rightarrow>
             scan_rows (si_monotone ix) start end_ts (wanted_row channels instruments)
               (lines_from line_size offset lines)))"

section \<open>What a decoded row satisfies\<close>

lemma depth_level_from_dict_ok: "depth_level_from_dict v = Inr l \<Longrightarrow> depth_level_ok l"
  by (auto simp: depth_level_from_dict_def bind_result_Inr depth_level_ok_def depth_level_post_init_def
      split: if_splits)

lemma depth_list_ok: "list_field depth_level_from_dict d k = Inr ls \<Longrightarrow> list_all depth_level_ok ls"
  by (auto simp: list_field_def bind_result_Inr map_result_Inr list_all_iff list_all2_conv_all_nth
      in_set_conv_nth dest!: depth_level_from_dict_ok split: option.splits)

lemma tape_row_post_init_returns:
  "list_all depth_level_ok (tr_bids r) \<Longrightarrow> list_all depth_level_ok (tr_asks r) \<Longrightarrow>
     returns (tape_row_post_init r) tape_row_ok"
  by (cases "tape_row_post_init r") (auto dest: tape_row_post_init_ok)

lemma tape_row_from_dict_returns: "returns (tape_row_from_dict d) tape_row_ok"
  unfolding tape_row_from_dict_def Let_def
  apply (rule if_split [THEN iffD2])
  apply (intro conjI impI returns_Inl returns_bind tape_row_post_init_returns)
  apply (simp_all only: tape_row.select_convs)
  apply (erule depth_list_ok)+
  done

lemma tape_row_from_dict_ok: "tape_row_from_dict d = Inr r \<Longrightarrow> tape_row_ok r"
  by (rule returnsD [OF tape_row_from_dict_returns])

lemma parse_line_ok: "parse_line m line = Inr r \<Longrightarrow> tape_row_ok r"
  by (auto simp: parse_line_def dest: tape_row_from_dict_ok split: tape_line.splits jval.splits sum.splits)

section \<open>The reader checks what it yields\<close>

lemma read_rows_sound:
  assumes "read_rows contiguous observed prior lines = (rows, err)"
  shows "list_all tape_row_ok rows \<and> length rows \<le> length lines \<and>
     (err = None \<longrightarrow> length rows = length lines) \<and>
     map (parse_line ''invalid canonical tape row'') (take (length rows) lines) = map Inr rows \<and>
     (\<exists>run. (observed = None \<or> observed = Some run) \<and> list_all (\<lambda>r. tr_run_id r = run) rows) \<and>
     successively (<) ((case prior of None \<Rightarrow> [] | Some p \<Rightarrow> [p]) @ map tr_receive_sequence rows) \<and>
     (contiguous \<longrightarrow>
       consecutive ((case prior of None \<Rightarrow> [] | Some p \<Rightarrow> [p]) @ map tr_receive_sequence rows))"
  using assms
proof (induction lines arbitrary: observed prior rows)
  case Nil
  then show ?case by (cases observed; cases prior; auto)
next
  case (Cons line lines)
  show ?case
  proof (cases "rows = []")
    case True
    with Cons.prems show ?thesis
      by (cases observed; cases prior)
        (auto split: if_splits sum.splits prod.splits simp: Let_def)
  next
    case False
    with Cons.prems obtain row rest where row: "parse_line ''invalid canonical tape row'' line = Inr row"
      and run: "observed = None \<or> observed = Some (tr_run_id row)"
      and incr: "opt_ok (\<lambda>p. p < tr_receive_sequence row) prior"
      and cont: "contiguous \<Longrightarrow> opt_ok (\<lambda>p. tr_receive_sequence row = p + 1) prior"
      and rest: "read_rows contiguous (Some (tr_run_id row)) (Some (tr_receive_sequence row)) lines =
        (rest, err)" and rows: "rows = row # rest"
      by (auto split: if_splits sum.splits prod.splits option.splits simp: Let_def)
    show ?thesis
      using Cons.IH [OF rest] incr cont run row parse_line_ok [OF row]
      by (cases prior) (auto simp: rows)
  qed
qed

lemma read_rows_complete:
  assumes "list_all tape_row_ok rows" and "list_all (\<lambda>r. tr_run_id r = run) rows"
    and "observed = None \<or> observed = Some run"
    and "consecutive ((case prior of None \<Rightarrow> [] | Some p \<Rightarrow> [p]) @ map tr_receive_sequence rows)"
  shows "read_rows contiguous observed prior (map row_line rows) = (rows, None)"
  using assms
proof (induction rows arbitrary: observed prior)
  case (Cons r rows)
  have "read_rows contiguous (Some run) (Some (tr_receive_sequence r)) (map row_line rows) = (rows, None)"
    using Cons.prems by (intro Cons.IH) (auto simp: consecutive_append split: option.splits)
  moreover have "opt_ok (\<lambda>p. p < tr_receive_sequence r) prior"
      "opt_ok (\<lambda>p. tr_receive_sequence r = p + 1) prior"
    using Cons.prems(4) by (cases prior; simp)+
  moreover have "row_line r \<noteq> Blank" by (simp add: row_line_def)
  ultimately show ?case
    using Cons.prems by (auto simp: Let_def)
qed simp

section \<open>The writer is an append-only log\<close>

definition tape_writer_ok :: "(tape_line \<Rightarrow> int) \<Rightarrow> tape_writer \<Rightarrow> bool" where
  "tape_writer_ok line_size w \<longleftrightarrow>
     tw_lines w = map (row_line \<circ> fst) (tw_observed w) \<and>
     list_all (\<lambda>(r, off, n). tr_run_id r = tw_run_id w \<and> n = line_size (row_line r)) (tw_observed w) \<and>
     (\<forall>k < length (tw_observed w). fst (snd (tw_observed w ! k)) =
        sum_list (map line_size (take k (tw_lines w)))) \<and>
     tw_size w = sum_list (map line_size (tw_lines w)) \<and>
     tw_rows_written w = int (length (tw_lines w))"

lemma tape_write_ok:
  assumes "tape_writer_ok line_size w" and "tape_write line_size w r = Inr w'"
  shows "tape_writer_ok line_size w'" and "tw_lines w' = tw_lines w @ [row_line r]"
    and "tw_observed w' = tw_observed w @ [(r, tw_size w, line_size (row_line r))]"
    and "tw_run_id w' = tw_run_id w"
proof -
  have len: "length (tw_lines w) = length (tw_observed w)"
    using assms(1) by (simp add: tape_writer_ok_def)
  show "tw_lines w' = tw_lines w @ [row_line r]"
    and "tw_observed w' = tw_observed w @ [(r, tw_size w, line_size (row_line r))]"
    and "tw_run_id w' = tw_run_id w"
    using assms(2) by (auto simp: tape_write_def Let_def split: if_splits)
  show "tape_writer_ok line_size w'"
    using assms len
    by (auto simp: tape_writer_ok_def tape_write_def Let_def nth_append less_Suc_eq
        split: if_splits)
qed

interpretation tape:
  append_log tw_lines "tape_write line_size" "\<lambda>_. True" "tape_writer_ok line_size"
  for line_size
  by unfold_locales (auto dest: tape_write_ok)


section \<open>The seek index points into the tape\<close>

lemma bisect_right_from_bounds: "lo \<le> hi \<Longrightarrow> lo \<le> bisect_right_from a x lo hi \<and> bisect_right_from a x lo hi \<le> hi"
proof (induction a x lo hi rule: bisect_right_from.induct)
  case (1 a x lo hi)
  show ?case
  proof (cases "lo < hi")
    case True
    let ?mid = "(lo + hi) div 2"
    have "lo \<le> ?mid" "?mid < hi" using True by auto
    then show ?thesis
      using 1(1) [OF True refl] 1(2) [OF True refl] True
      by (subst (1 2) bisect_right_from.simps) (auto simp: Let_def)
  qed (use 1(3) in \<open>simp add: bisect_right_from.simps\<close>)
qed

text \<open>Every element left of the answer is at most \<open>x\<close> as far as it was probed; in a sorted list the
  answer is the number of elements that are at most \<open>x\<close>.\<close>

lemma bisect_right_from_left:
  "(lo = 0 \<or> a ! (lo - 1) \<le> x) \<Longrightarrow>
     bisect_right_from a x lo hi = 0 \<or> a ! (bisect_right_from a x lo hi - 1) \<le> x"
proof (induction a x lo hi rule: bisect_right_from.induct)
  case (1 a x lo hi)
  show ?case
  proof (cases "lo < hi")
    case True
    then show ?thesis
      using 1(1) [OF True refl] 1(2) [OF True refl] 1(3)
      by (subst (1 2) bisect_right_from.simps) (auto simp: Let_def not_less)
  qed (use 1(3) in \<open>simp add: bisect_right_from.simps\<close>)
qed

lemma bisect_right_from_right:
  "(hi = length a \<or> x < a ! hi) \<Longrightarrow> lo \<le> hi \<Longrightarrow>
     bisect_right_from a x lo hi = length a \<or> x < a ! bisect_right_from a x lo hi"
proof (induction a x lo hi rule: bisect_right_from.induct)
  case (1 a x lo hi)
  show ?case
  proof (cases "lo < hi")
    case True
    then show ?thesis
      using 1(1) [OF True refl] 1(2) [OF True refl] 1(3)
      by (subst (1 2) bisect_right_from.simps) (auto simp: Let_def not_less)
  qed (use 1(3,4) in \<open>simp add: bisect_right_from.simps\<close>)
qed

lemma bisect_right_prior: "bisect_right a x = 0 \<or> a ! (bisect_right a x - 1) \<le> x"
  unfolding bisect_right_def by (rule bisect_right_from_left) simp

lemma bisect_right_le: "bisect_right a x \<le> length a"
  unfolding bisect_right_def using bisect_right_from_bounds [of 0 "length a" a x] by simp

lemma bisect_right_counts:
  assumes "sorted a"
  shows "bisect_right a x = length (filter (\<lambda>y. y \<le> x) a)"
proof -
  define p where "p = bisect_right a x"
  have le: "p \<le> length a" unfolding p_def by (rule bisect_right_le)
  have right: "p = length a \<or> x < a ! p"
    unfolding p_def bisect_right_def by (rule bisect_right_from_right) simp_all
  have left: "p = 0 \<or> a ! (p - 1) \<le> x" unfolding p_def by (rule bisect_right_prior)
  have "y \<le> x" if "y \<in> set (take p a)" for y
  proof -
    from that obtain i where i: "i < p" "y = a ! i" using le by (auto simp: in_set_conv_nth)
    have "a ! i \<le> a ! (p - 1)" by (rule sorted_nth_mono [OF assms]) (use i le in auto)
    with left i show ?thesis by auto
  qed
  moreover have "x < y" if "y \<in> set (drop p a)" for y
  proof -
    from that obtain i where "i < length a - p" "y = drop p a ! i" by (auto simp: in_set_conv_nth)
    then have i: "p + i < length a" "y = a ! (p + i)" using le by simp_all
    have "a ! p \<le> a ! (p + i)" by (rule sorted_nth_mono [OF assms]) (use i in auto)
    with right i show ?thesis by auto
  qed
  ultimately have "filter (\<lambda>y. y \<le> x) (take p a) = take p a" "filter (\<lambda>y. y \<le> x) (drop p a) = []"
    by (auto simp: filter_empty_conv intro!: filter_True) (meson leD)
  then have "filter (\<lambda>y. y \<le> x) (take p a @ drop p a) = take p a" by (simp only: filter_append append_Nil2)
  then show ?thesis using le by (simp add: p_def)
qed

lemma lines_from_take:
  assumes "\<And>l. 0 < line_size l"
  shows "k \<le> length ls \<Longrightarrow>
    lines_from line_size (sum_list (map line_size (take k ls))) ls = drop k ls"
proof (induction ls arbitrary: k)
  case (Cons l ls)
  have "0 \<le> sum_list (map line_size (take j ls))" for j
    by (rule sum_list_nonneg) (use assms in \<open>auto intro: less_imp_le\<close>)
  then have "0 < line_size l + sum_list (map line_size (take j ls))" for j
    using assms [of l] by (simp add: add_pos_nonneg)
  with Cons show ?case by (cases k) (auto simp: not_le [symmetric])
qed simp

text \<open>The number a counter holds for a key.\<close>

definition counted :: "(string \<times> int) list \<Rightarrow> string \<Rightarrow> int" where
  "counted c k = (case map_of c k of None \<Rightarrow> 0 | Some n \<Rightarrow> n)"

lemma counted_count_key: "counted (count_key k c) k' = counted c k' + (if k = k' then 1 else 0)"
  by (simp add: counted_def count_key_def dict_simps split: option.splits)

definition index_ok :: "(tape_row \<times> int \<times> int) list \<Rightarrow> index_builder \<Rightarrow> bool" where
  "index_ok obs b \<longleftrightarrow>
     ix_rows b = int (length obs) \<and>
     ix_bytes b = sum_list (map (snd \<circ> snd) obs) \<and>
     ix_prior_stamp b = (if obs = [] then None else Some (tr_receive_ts (fst (last obs)))) \<and>
     (ix_monotone b \<longleftrightarrow> sorted (map (instant \<circ> tr_receive_ts \<circ> fst) obs)) \<and>
     (\<forall>k. counted (ix_channel_rows b) k =
        int (length (filter (\<lambda>x. channel_str (data_channel_for_row (fst x)) = k) obs))) \<and>
     (\<forall>k. counted (ix_instrument_rows b) k =
        int (length (filter (\<lambda>x. tr_instrument_id (fst x) = k) obs))) \<and>
     (case obs of [] \<Rightarrow> ix_coverage_start b = None \<and> ix_coverage_end b = None
      | x # xs \<Rightarrow>
          ix_coverage_start b = Some (dt_min (tr_receive_ts (fst x)) (map (tr_receive_ts \<circ> fst) xs)) \<and>
          ix_coverage_end b = Some (dt_max (tr_receive_ts (fst x)) (map (tr_receive_ts \<circ> fst) xs))) \<and>
     (\<forall>c \<in> set (ix_checkpoints b). \<exists>k < length obs.
        cp_byte_offset c = fst (snd (obs ! k)) \<and>
        cp_receive_ts c = JIso (tr_receive_ts (fst (obs ! k)))) \<and>
     (obs \<noteq> [] \<longrightarrow> ix_checkpoints b \<noteq> [] \<and>
        cp_byte_offset (hd (ix_checkpoints b)) = fst (snd (hd obs)))"


lemma dt_min_snoc: "dt_min a (bs @ [b]) = dt_min2 (dt_min a bs) b"
  by (induction bs arbitrary: a) simp_all

lemma dt_max_snoc: "dt_max a (bs @ [b]) = dt_max2 (dt_max a bs) b"
  by (induction bs arbitrary: a) simp_all

lemma index_init_ok: "index_init n = Inr b \<Longrightarrow> index_ok [] b"
  by (auto simp: index_init_def index_ok_def counted_def split: if_splits)

lemma index_observe_fields:
  assumes "index_observe b (r, off, n) = Inr b'"
  shows "0 \<le> off" "0 < n" "ix_rows b' = ix_rows b + 1" "ix_bytes b' = ix_bytes b + n"
    and "ix_prior_stamp b' = Some (tr_receive_ts r)"
    and "ix_monotone b' \<longleftrightarrow>
      ix_monotone b \<and> opt_ok (\<lambda>p. instant p \<le> instant (tr_receive_ts r)) (ix_prior_stamp b)"
    and "ix_channel_rows b' = count_key (channel_str (data_channel_for_row r)) (ix_channel_rows b)"
    and "ix_instrument_rows b' = count_key (tr_instrument_id r) (ix_instrument_rows b)"
    and "ix_coverage_start b' = Some (case ix_coverage_start b of None \<Rightarrow> tr_receive_ts r
      | Some s \<Rightarrow> dt_min2 s (tr_receive_ts r))"
    and "ix_coverage_end b' = Some (case ix_coverage_end b of None \<Rightarrow> tr_receive_ts r
      | Some s \<Rightarrow> dt_max2 s (tr_receive_ts r))"
    and "ix_checkpoints b' = ix_checkpoints b \<and> ix_rows b \<noteq> 0 \<or>
      (\<exists>c. ix_checkpoints b' = ix_checkpoints b @ [c] \<and> cp_byte_offset c = off \<and>
        cp_receive_ts c = JIso (tr_receive_ts r))"
  using assms
  by (auto simp: index_observe_def Let_def dt_min2_def dt_max2_def split: if_splits option.split)

lemma index_observe_ok:
  assumes ok: "index_ok obs b" and step: "index_observe b x = Inr b'"
  shows "index_ok (obs @ [x]) b'"
proof -
  obtain r off n where x: "x = (r, off, n)" by (cases x)
  note f = index_observe_fields [OF step [unfolded x]]
  have sorted: "ix_monotone b' \<longleftrightarrow> sorted (map (instant \<circ> tr_receive_ts \<circ> fst) (obs @ [x]))"
  proof (cases obs rule: rev_cases)
    case (snoc ys y)
    have "sorted (map (instant \<circ> tr_receive_ts \<circ> fst) (obs @ [x])) \<longleftrightarrow>
        sorted (map (instant \<circ> tr_receive_ts \<circ> fst) obs) \<and>
        instant (tr_receive_ts (fst y)) \<le> instant (tr_receive_ts r)"
      unfolding snoc x by (auto simp: sorted_append)
    then show ?thesis using ok f(6) snoc by (simp add: index_ok_def)
  qed (use ok f(6) in \<open>simp add: index_ok_def\<close>)
  have cover: "case obs @ [x] of [] \<Rightarrow> ix_coverage_start b' = None \<and> ix_coverage_end b' = None
      | x # xs \<Rightarrow>
          ix_coverage_start b' = Some (dt_min (tr_receive_ts (fst x)) (map (tr_receive_ts \<circ> fst) xs)) \<and>
          ix_coverage_end b' = Some (dt_max (tr_receive_ts (fst x)) (map (tr_receive_ts \<circ> fst) xs))"
    using ok f(9,10) x by (cases obs) (simp_all add: index_ok_def dt_min_snoc dt_max_snoc)
  have old: "\<exists>k < length (obs @ [x]). cp_byte_offset c = fst (snd ((obs @ [x]) ! k)) \<and>
      cp_receive_ts c = JIso (tr_receive_ts (fst ((obs @ [x]) ! k)))"
    if c: "c \<in> set (ix_checkpoints b)" for c
  proof -
    from ok c obtain k where k: "k < length obs" "cp_byte_offset c = fst (snd (obs ! k))"
        "cp_receive_ts c = JIso (tr_receive_ts (fst (obs ! k)))"
      unfolding index_ok_def by blast
    then show ?thesis by (intro exI [of _ k]) (simp add: nth_append)
  qed
  have fresh: "\<exists>k < length (obs @ [x]). cp_byte_offset c = fst (snd ((obs @ [x]) ! k)) \<and>
      cp_receive_ts c = JIso (tr_receive_ts (fst ((obs @ [x]) ! k)))"
    if "cp_byte_offset c = off" "cp_receive_ts c = JIso (tr_receive_ts r)" for c
    by (intro exI [of _ "length obs"]) (simp add: that x)
  have points: "\<forall>c \<in> set (ix_checkpoints b'). \<exists>k < length (obs @ [x]).
        cp_byte_offset c = fst (snd ((obs @ [x]) ! k)) \<and>
        cp_receive_ts c = JIso (tr_receive_ts (fst ((obs @ [x]) ! k)))"
    using f(11)
  proof (elim disjE exE conjE)
    fix c assume c: "ix_checkpoints b' = ix_checkpoints b @ [c]" "cp_byte_offset c = off"
        "cp_receive_ts c = JIso (tr_receive_ts r)"
    show ?thesis unfolding c(1) using old fresh [OF c(2,3)] by simp
  qed (use old in simp)
  have first: "ix_checkpoints b' \<noteq> [] \<and>
        cp_byte_offset (hd (ix_checkpoints b')) = fst (snd (hd (obs @ [x])))"
  proof (cases "obs = []")
    case True
    then have "ix_rows b = 0" "ix_checkpoints b = []" using ok by (simp_all add: index_ok_def)
    with f(11) True show ?thesis by (auto simp: x)
  next
    case False
    then have "ix_checkpoints b \<noteq> []" "cp_byte_offset (hd (ix_checkpoints b)) = fst (snd (hd obs))"
      using ok by (simp_all add: index_ok_def)
    with f(11) False show ?thesis by auto
  qed
  have counts: "counted (ix_channel_rows b') k =
        int (length (filter (\<lambda>x. channel_str (data_channel_for_row (fst x)) = k) (obs @ [x]))) \<and>
      counted (ix_instrument_rows b') k =
        int (length (filter (\<lambda>x. tr_instrument_id (fst x) = k) (obs @ [x])))" for k
    using ok f(7,8) x by (simp add: counted_count_key index_ok_def)
  show ?thesis
    unfolding index_ok_def
    using sorted cover points first counts ok f(3,4,5) x by (simp add: index_ok_def)
qed

lemma index_observe_all:
  assumes "list_all (\<lambda>(r, off, n). 0 \<le> off \<and> 0 < n) new" and "index_ok obs b"
  shows "\<exists>b'. fold_result index_observe b new = Inr b' \<and> index_ok (obs @ new) b'"
  using assms
proof (induction new arbitrary: obs b)
  case (Cons x new)
  obtain b1 where b1: "index_observe b x = Inr b1"
    using Cons.prems(1) by (cases x) (auto simp: index_observe_def Let_def)
  have "list_all (\<lambda>(r, off, n). 0 \<le> off \<and> 0 < n) new" using Cons.prems(1) by simp
  from Cons.IH [OF this index_observe_ok [OF Cons.prems(2) b1]] b1 show ?case by simp
qed simp


section \<open>From the writer to the readers\<close>

lemma tape_writer_init_ok:
  "tape_writer_init existing run n = Inr w \<Longrightarrow>
     tape_writer_ok line_size w \<and> tw_observed w = [] \<and> tw_run_id w = run \<and> tw_lines w = []"
  by (auto simp: tape_writer_init_def tape_writer_ok_def split: if_splits)

lemma tape_write_all:
  assumes "tape_writer_ok line_size w" and "fold_result (tape_write line_size) w rows = Inr w'"
  shows "tape_writer_ok line_size w' \<and> tw_lines w' = tw_lines w @ map row_line rows \<and>
    map fst (tw_observed w') = map fst (tw_observed w) @ rows \<and> tw_run_id w' = tw_run_id w"
  using assms
proof (induction rows arbitrary: w)
  case (Cons r rows)
  from Cons.prems(2) obtain w1 where w1: "tape_write line_size w r = Inr w1"
      "fold_result (tape_write line_size) w1 rows = Inr w'"
    unfolding fold_result.simps bind_result_Inr by blast
  note step = tape_write_ok [OF Cons.prems(1) w1(1)]
  from Cons.IH [OF step(1) w1(2)] step(2-4) show ?case by simp
qed simp

lemma tape_written:
  assumes "tape_writer_init existing run n = Inr w0"
    and "fold_result (tape_write line_size) w0 rows = Inr w"
  shows "tape_writer_ok line_size w" and "tw_lines w = map row_line rows"
    and "map fst (tw_observed w) = rows" and "tw_run_id w = run"
  using tape_write_all [OF _ assms(2)] tape_writer_init_ok [OF assms(1)] by auto

lemma tape_written_run:
  assumes "tape_writer_init existing run n = Inr w0"
    and "fold_result (tape_write line_size) w0 rows = Inr w"
  shows "list_all (\<lambda>r. tr_run_id r = run) rows"
proof -
  have "\<forall>x \<in> set (tw_observed w). tr_run_id (fst x) = run"
    using tape_written(1,4) [OF assms] by (auto simp: tape_writer_ok_def list_all_iff)
  then show ?thesis
    unfolding tape_written(3) [OF assms, symmetric] by (simp add: list_all_iff)
qed

lemma tape_written_open:
  assumes "tape_writer_init existing run n = Inr w0"
    and "fold_result (tape_write line_size) w0 rows = Inr w"
  shows "\<not> tw_closed w"
  by (rule fold_result_invariant [OF assms(2)])
    (use assms(1) in \<open>auto simp: tape_writer_init_def tape_write_def Let_def split: if_splits\<close>)

definition in_window :: "datetime option \<Rightarrow> datetime option \<Rightarrow> tape_row \<Rightarrow> bool" where
  "in_window start end_ts r \<longleftrightarrow>
     opt_ok (\<lambda>s. instant s \<le> instant (tr_receive_ts r)) start \<and>
     opt_ok (\<lambda>e. instant (tr_receive_ts r) \<le> instant e) end_ts"

lemma scan_rows_filter:
  assumes "list_all tape_row_ok rows" and "opt_ok is_aware start"
    and "ordered \<Longrightarrow> sorted (map (instant \<circ> tr_receive_ts) rows)"
  shows "scan_rows ordered start end_ts wanted (map row_line rows) =
    (filter (\<lambda>r. in_window start end_ts r \<and> wanted r) rows, None)"
  using assms
proof (induction rows)
  case (Cons r rows)
  let ?late = "\<not> opt_ok (\<lambda>e. instant (tr_receive_ts r) \<le> instant e) end_ts"
  have rest: "scan_rows ordered start end_ts wanted (map row_line rows) =
      (filter (\<lambda>r. in_window start end_ts r \<and> wanted r) rows, None)"
    using Cons.prems by (intro Cons.IH) simp_all
  have stop: "filter (\<lambda>r. in_window start end_ts r \<and> wanted r) rows = []" if ordered ?late
  proof -
    from \<open>?late\<close> obtain e where e: "end_ts = Some e" "instant e < instant (tr_receive_ts r)"
      by (cases end_ts) auto
    then show ?thesis
      using Cons.prems(3) [OF \<open>ordered\<close>] by (force simp: in_window_def filter_empty_conv)
  qed
  show ?case
    using Cons.prems(1,2) rest stop by (auto simp: in_window_def)
qed simp

lemma checkpoint_from_to_dict:
  "cp_receive_ts c = JIso t \<Longrightarrow>
     (case checkpoint_to_dict c of JObj d \<Rightarrow> Some d | _ \<Rightarrow> None) = Some d \<Longrightarrow>
     checkpoint_from_dict d = Inr c"
  by (cases c) (auto simp: checkpoint_to_dict_def checkpoint_from_dict_def req_field_def)

lemma checkpoints_roundtrip:
  assumes "\<forall>c \<in> set cps. \<exists>t. cp_receive_ts c = JIso t"
  shows "map_result checkpoint_from_dict
    (List.map_filter (\<lambda>v. case v of JObj d \<Rightarrow> Some d | _ \<Rightarrow> None) (map checkpoint_to_dict cps)) = Inr cps"
  using assms
proof (induction cps)
  case (Cons c cps)
  from Cons.prems obtain t where t: "cp_receive_ts c = JIso t" by auto
  have "\<exists>d. (case checkpoint_to_dict c of JObj d \<Rightarrow> Some d | _ \<Rightarrow> None) = Some d"
    by (simp add: checkpoint_to_dict_def)
  with checkpoint_from_to_dict [OF t] Cons show ?case by (auto simp: List.map_filter_simps)
qed (simp add: List.map_filter_simps)

text \<open>Building, storing and loading the index of a written tape.\<close>

lemma index_stored:
  assumes w: "tape_writer_ok line_size w" and pos: "\<And>l. 0 < line_size l" and stride: "1 \<le> stride"
    and ne: "tw_observed w \<noteq> []" and name: "\<not> gz_name name"
  obtains b0 b doc ix where "index_init stride = Inr b0"
    and "fold_result index_observe b0 (tw_observed w) = Inr b" and "index_ok (tw_observed w) b"
    and "index_write digest b False name (tw_lines w) (tw_size w) = Inr doc"
    and "indexed_reader_init digest name (Some (tw_lines w)) (Some doc) = Inr ix"
    and "ix = \<lparr>si_monotone = ix_monotone b, si_checkpoints = ix_checkpoints b\<rparr>"
proof -
  obtain b0 where b0: "index_init stride = Inr b0" using stride by (simp add: index_init_def)
  have off: "0 \<le> sum_list (map line_size ls)" for ls
    by (rule sum_list_nonneg) (use pos in \<open>auto intro: less_imp_le\<close>)
  have "list_all (\<lambda>(r, off, n). 0 \<le> off \<and> 0 < n) (tw_observed w)"
    unfolding list_all_length
  proof (intro allI impI)
    fix k assume k: "k < length (tw_observed w)"
    have "fst (snd (tw_observed w ! k)) = sum_list (map line_size (take k (tw_lines w)))"
      using w k by (simp add: tape_writer_ok_def)
    moreover have "snd (snd (tw_observed w ! k)) = line_size (row_line (fst (tw_observed w ! k)))"
      using w k by (auto simp: tape_writer_ok_def list_all_length split_beta)
    ultimately show "case tw_observed w ! k of (r, off, n) \<Rightarrow> 0 \<le> off \<and> 0 < n"
      using pos off by (simp add: split_beta)
  qed
  from index_observe_all [OF this index_init_ok [OF b0]] obtain b
    where b: "fold_result index_observe b0 (tw_observed w) = Inr b" "index_ok (tw_observed w) b"
    by auto
  obtain f l where cover: "ix_coverage_start b = Some f" "ix_coverage_end b = Some l"
    using b(2) ne unfolding index_ok_def by (cases "tw_observed w") auto
  have rows: "\<not> ix_rows b < 1" using b(2) ne by (cases "tw_observed w") (simp_all add: index_ok_def)
  then obtain doc where doc: "index_write digest b False name (tw_lines w) (tw_size w) = Inr (JObj doc)"
      "get_field doc ''schema_version'' = JStr ''1.0.0''" "get_field doc ''tape_name'' = JStr name"
      "get_field doc ''tape_sha256'' = JStr (digest (tw_lines w))"
      "get_field doc ''receive_time_monotone'' = JBool (ix_monotone b)"
      "get_field doc ''checkpoints'' = JList (map checkpoint_to_dict (ix_checkpoints b))"
    using cover by (auto simp: index_write_def get_field_def)
  have "map_result checkpoint_from_dict
      (List.map_filter (\<lambda>v. case v of JObj d \<Rightarrow> Some d | _ \<Rightarrow> None)
        (map checkpoint_to_dict (ix_checkpoints b))) = Inr (ix_checkpoints b)"
    using b(2) by (intro checkpoints_roundtrip) (auto simp: index_ok_def)
  moreover obtain c cs where cs: "ix_checkpoints b = c # cs"
    using b(2) ne by (cases "ix_checkpoints b") (auto simp: index_ok_def)
  ultimately have "indexed_reader_init digest name (Some (tw_lines w)) (Some (JObj doc)) =
      Inr \<lparr>si_monotone = ix_monotone b, si_checkpoints = ix_checkpoints b\<rparr>"
    using name by (simp add: indexed_reader_init_def doc)
  with that b0 b doc(1) show thesis by blast
qed


lemma checkpoint_is_entry:
  assumes w: "tape_writer_ok line_size w" and b: "index_ok (tw_observed w) b"
    and c: "c \<in> set (ix_checkpoints b)"
  obtains k where "k < length (tw_observed w)"
    and "cp_byte_offset c = sum_list (map line_size (take k (tw_lines w)))"
    and "cp_receive_ts c = JIso (tr_receive_ts (fst (tw_observed w ! k)))"
proof -
  have "\<forall>c \<in> set (ix_checkpoints b). \<exists>k < length (tw_observed w).
      cp_byte_offset c = fst (snd (tw_observed w ! k)) \<and>
      cp_receive_ts c = JIso (tr_receive_ts (fst (tw_observed w ! k)))"
    using b by (simp add: index_ok_def)
  with c obtain k where k: "k < length (tw_observed w)"
      "cp_byte_offset c = fst (snd (tw_observed w ! k))"
      "cp_receive_ts c = JIso (tr_receive_ts (fst (tw_observed w ! k)))" by blast
  moreover have "fst (snd (tw_observed w ! k)) = sum_list (map line_size (take k (tw_lines w)))"
    using w k(1) by (simp add: tape_writer_ok_def)
  ultimately show thesis using that by simp
qed

text \<open>Where a seek lands: on a line of the tape before which every row is earlier than \<open>start\<close>.\<close>

lemma start_offset_exact:
  assumes w: "tape_writer_ok line_size w" and b: "index_ok (tw_observed w) b"
    and ne: "tw_observed w \<noteq> []" and start: "opt_ok is_aware start"
    and apart: "\<And>s c t. start = Some s \<Longrightarrow> c \<in> set (tl (ix_checkpoints b)) \<Longrightarrow>
      cp_receive_ts c = JIso t \<Longrightarrow> instant t \<noteq> instant s"
  obtains k where "k \<le> length (tw_lines w)"
    and "start_offset \<lparr>si_monotone = ix_monotone b, si_checkpoints = ix_checkpoints b\<rparr> start =
      Inr (sum_list (map line_size (take k (tw_lines w))))"
    and "\<And>x. x \<in> set (take k (tw_observed w)) \<Longrightarrow> \<not> in_window start end_ts (fst x)"
proof (cases "start = None \<or> \<not> ix_monotone b")
  case True
  then show thesis by (intro that [of 0]) (auto simp: start_offset_def split: option.split)
next
  case False
  then obtain s where s: "start = Some s" and mono: "ix_monotone b" by auto
  define stamp where "stamp c = (THE t. cp_receive_ts c = JIso t)" for c :: index_checkpoint
  define cps where "cps = ix_checkpoints b"
  have stamp: "cp_receive_ts c = JIso (stamp c)" if "c \<in> set cps" for c
    using checkpoint_is_entry [OF w b, of c] that unfolding cps_def stamp_def by force
  have stamps: "map_result (\<lambda>c. as_datetime (cp_receive_ts c)) cps = Inr (map stamp cps)"
    using map_result_map [of cps "\<lambda>c. as_datetime (cp_receive_ts c)" id stamp] stamp by simp
  define p where "p = bisect_right (map (instant \<circ> stamp) cps) (instant s) - 1"
  have "cps \<noteq> []" using b ne by (simp add: index_ok_def cps_def)
  then have p: "p < length cps"
    using bisect_right_le [of "map (instant \<circ> stamp) cps" "instant s"] unfolding p_def by (cases cps) auto
  obtain k where k: "k < length (tw_observed w)"
      "cp_byte_offset (cps ! p) = sum_list (map line_size (take k (tw_lines w)))"
      "cp_receive_ts (cps ! p) = JIso (tr_receive_ts (fst (tw_observed w ! k)))"
    using checkpoint_is_entry [OF w b, of "cps ! p"] p unfolding cps_def by (metis nth_mem)
  have offset: "start_offset \<lparr>si_monotone = ix_monotone b, si_checkpoints = ix_checkpoints b\<rparr> start =
      Inr (sum_list (map line_size (take k (tw_lines w))))"
    using s mono start stamps p k(2) by (simp add: start_offset_def Let_def cps_def [symmetric] p_def)
  have len: "length (tw_lines w) = length (tw_observed w)" using w by (simp add: tape_writer_ok_def)
  show thesis
  proof (cases "p = 0")
    case True
    then have "cp_byte_offset (cps ! p) = fst (snd (tw_observed w ! 0))"
      using b ne \<open>cps \<noteq> []\<close> unfolding index_ok_def cps_def by (metis hd_conv_nth)
    then have "cp_byte_offset (cps ! p) = 0" using w ne by (simp add: tape_writer_ok_def)
    with offset k(2) show thesis by (intro that [of 0]) simp_all
  next
    case False
    have "map (instant \<circ> stamp) cps ! p \<le> instant s"
      using bisect_right_prior [of "map (instant \<circ> stamp) cps" "instant s"] False
      unfolding p_def by auto
    then have "instant (stamp (cps ! p)) \<le> instant s" using p by simp
    moreover have "cps ! p \<in> set (tl cps)"
      using p False by (cases cps) (auto simp: nth_Cons')
    ultimately have before: "instant (tr_receive_ts (fst (tw_observed w ! k))) < instant s"
      using apart [OF s, of "cps ! p"] stamp [of "cps ! p"] k(3) p unfolding cps_def
      by (simp add: order_less_le)
    have "\<not> in_window start end_ts (fst x)" if "x \<in> set (take k (tw_observed w))" for x
    proof -
      from that obtain j where j: "j < k" "x = tw_observed w ! j"
        using k(1) by (auto simp: in_set_conv_nth)
      have "sorted (map (instant \<circ> tr_receive_ts \<circ> fst) (tw_observed w))"
        using b mono by (simp add: index_ok_def)
      from sorted_nth_mono [OF this, of j k] j k(1) before show ?thesis
        by (simp add: in_window_def s)
    qed
    with offset k(1) len show thesis by (intro that [of k]) simp_all
  qed
qed


text \<open>Two rows of one capture used by the witnesses.\<close>

definition stored_rows :: "tape_row list" where
  "stored_rows =
     [example_row,
      example_row\<lparr>tr_receive_sequence := 2, tr_receive_ts := Aware 2000000 19800\<rparr>,
      example_row\<lparr>tr_receive_sequence := 3, tr_receive_ts := Aware 3000000 19800\<rparr>]"

definition example_size :: "tape_line \<Rightarrow> int" where
  "example_size line = (case line of Json v \<Rightarrow> 500 | Malformed \<Rightarrow> 3 | Blank \<Rightarrow> 1)"

definition example_writer :: tape_writer where
  "example_writer =
     \<lparr>tw_run_id = ''run-1'', tw_fsync_every = 100, tw_lines = [], tw_size = 0,
      tw_rows_written = 0, tw_synced = 0, tw_closed = False, tw_observed = [],
      tw_manifest = [ArtifactOpened ''tape'' ''market_data_tape'']\<rparr>"

lemma stored_rows_ok [simp]: "list_all tape_row_ok stored_rows"
  by code_simp

lemma example_writes:
  "tape_writer_init False ''run-1'' 100 = Inr example_writer"
  "\<exists>w. fold_result (tape_write example_size) example_writer stored_rows = Inr w"
  by (simp_all add: tape_writer_init_def example_writer_def stored_rows_def tape_write_def Let_def
      example_row_def)




definition example_index :: "int \<Rightarrow> seek_index result" where
  "example_index stride =
     bind_result (fold_result (tape_write example_size) example_writer stored_rows) (\<lambda>w.
     bind_result (index_init stride) (\<lambda>b0.
     bind_result (fold_result index_observe b0 (tw_observed w)) (\<lambda>b.
     bind_result (index_write (\<lambda>_. ''d'') b False ''tape.jsonl'' (tw_lines w) (tw_size w)) (\<lambda>doc.
     indexed_reader_init (\<lambda>_. ''d'') ''tape.jsonl'' (Some (tw_lines w)) (Some doc)))))"


text \<open>The proviso is needed: \<open>bisect_right\<close> seeks past a row whose receive time equals \<open>start\<close> when a
  later checkpoint carries the same stamp, although the rows compare \<open>receive_ts < start\<close> and so
  would keep it.\<close>

definition tied_rows :: "tape_row list" where
  "tied_rows = [example_row, example_row\<lparr>tr_receive_sequence := 2\<rparr>]"

theorem indexed_rows_skip_ties:
  "case fold_result (tape_write example_size) example_writer tied_rows of Inl e \<Rightarrow> False
   | Inr w \<Rightarrow>
       (case bind_result (index_init 1) (\<lambda>b0. fold_result index_observe b0 (tw_observed w)) of
          Inl e \<Rightarrow> False
        | Inr b \<Rightarrow>
            let ix = \<lparr>si_monotone = ix_monotone b, si_checkpoints = ix_checkpoints b\<rparr>;
                start = Some (tr_receive_ts example_row)
            in indexed_rows example_size ix (tw_lines w) start None [] [] = ([tied_rows ! 1], None) \<and>
               filter (in_window start None) tied_rows = tied_rows)"
  by code_simp

end
