(* ===== verification/Tape_Tail.thy ===== *)
theory Tape_Tail
  imports Json_Values Append_Log
begin

text \<open>
  \<open>CompleteLineJsonlTail\<close> and \<open>archive_tape\<close> of \<open>data/src/shaurya/data/tape.py\<close>: the follower of a
  growing tape. The file is its bytes, \<open>loads\<close> is \<open>json.loads\<close> on a raw line (\<open>None\<close> when it
  raises), and the file grows between two polls. The reference is \<open>complete_lines\<close>: the lines
  that end before a given offset. However the bytes are cut into polls, the follower has
  delivered exactly the objects on the complete lines of what it has read.
\<close>

section \<open>Splitting on newlines\<close>

definition newline :: char where
  "newline = CHR 0x0A"

text \<open>\<open>data.split(b"\n")\<close>.\<close>

abbreviation split_nl :: "string \<Rightarrow> string list" where
  "split_nl \<equiv> split_on newline"

definition complete_lines :: "string \<Rightarrow> string list" where
  "complete_lines s = butlast (split_nl s)"

definition partial_line :: "string \<Rightarrow> string" where
  "partial_line s = last (split_nl s)"

lemma split_nl_parts: "split_nl s = complete_lines s @ [partial_line s]"
  by (simp add: complete_lines_def partial_line_def)

lemma split_resume:
  "complete_lines (xs @ ys) = complete_lines xs @ complete_lines (partial_line xs @ ys)"
  "partial_line (xs @ ys) = partial_line (partial_line xs @ ys)"
  unfolding complete_lines_def partial_line_def split_on_append [of newline xs ys]
  by (simp_all add: butlast_append)

lemma partial_line_empty: "partial_line s = [] \<Longrightarrow> s = [] \<or> complete_lines s \<noteq> []"
  using split_nl_parts [of s] split_on_unit [of newline s] by auto

section \<open>The follower\<close>

record tail =
  tl_chunk_size :: int
  tl_offset :: nat
  tl_buffer :: string
  tl_partial_counted :: bool
  tl_rows_parsed :: int
  tl_malformed_lines :: int
  tl_torn_lines :: int

record parsed_batch =
  pb_rows :: "jobj list"
  pb_bytes_read :: nat
  pb_complete_lines :: nat

definition tail_init :: "bool \<Rightarrow> int \<Rightarrow> tail result" where
  "tail_init is_file chunk_size =
     (if chunk_size < 1 then Inl (ValueError ''chunk_size must be positive'')
      else if \<not> is_file then Inl (FileNotFoundError ''tape'')
      else Inr \<lparr>tl_chunk_size = chunk_size, tl_offset = 0, tl_buffer = [],
                tl_partial_counted = False, tl_rows_parsed = 0, tl_malformed_lines = 0,
                tl_torn_lines = 0\<rparr>)"

definition trailing_partial_bytes :: "tail \<Rightarrow> nat" where
  "trailing_partial_bytes t = length (tl_buffer t)"

text \<open>One pass of the loop over the completed pieces: rows, then the two counters.\<close>

fun parse_pieces ::
    "(string \<Rightarrow> jval option) \<Rightarrow> string list \<Rightarrow> jobj list \<times> int \<times> int \<Rightarrow> jobj list \<times> int \<times> int" where
  "parse_pieces loads [] acc = acc"
| "parse_pieces loads (raw # rest) (rows, parsed, malformed) =
     (case loads raw of
        Some (JObj value) \<Rightarrow> parse_pieces loads rest (rows @ [value], parsed + 1, malformed)
      | _ \<Rightarrow> parse_pieces loads rest (rows, parsed, malformed + 1))"

text \<open>The unread bytes, capped by \<open>max_bytes\<close>.\<close>

definition available_bytes :: "string \<Rightarrow> int option \<Rightarrow> tail \<Rightarrow> int" where
  "available_bytes file max_bytes t =
     (let unread = int (length file) - int (tl_offset t)
      in case max_bytes of None \<Rightarrow> unread | Some m \<Rightarrow> min unread m)"

lemma available_bytes_le: "available_bytes file m t \<le> int (length file) - int (tl_offset t)"
  by (cases m) (simp_all add: available_bytes_def)

definition tail_poll ::
    "(string \<Rightarrow> jval option) \<Rightarrow> string \<Rightarrow> int option \<Rightarrow> tail \<Rightarrow> (tail \<times> parsed_batch) result" where
  "tail_poll loads file max_bytes t =
     (let size = length file in
      if size < tl_offset t
      then Inl (RuntimeError ''followed tape was truncated; refusing to reinterpret it'')
      else
        let available = available_bytes file max_bytes t in
        if available \<le> 0
        then Inr (t, \<lparr>pb_rows = [], pb_bytes_read = 0, pb_complete_lines = 0\<rparr>)
        else
          let payload = take (nat (min available (tl_chunk_size t))) (drop (tl_offset t) file);
              new_offset = tl_offset t + length payload;
              prior_partial_was_counted = tl_partial_counted t;
              parts = split_nl (tl_buffer t @ payload);
              buffer = last parts;
              pieces = butlast parts
          in case parse_pieces loads pieces ([], tl_rows_parsed t, tl_malformed_lines t) of
               (rows, parsed, malformed) \<Rightarrow>
                 let counted = (if prior_partial_was_counted \<and> pieces \<noteq> [] then False
                                else tl_partial_counted t);
                     reached_current_eof = (new_offset = size);
                     torn = buffer \<noteq> [] \<and> reached_current_eof \<and> \<not> counted
                 in Inr (t\<lparr>tl_offset := new_offset, tl_buffer := buffer,
                           tl_rows_parsed := parsed, tl_malformed_lines := malformed,
                           tl_torn_lines := tl_torn_lines t + (if torn then 1 else 0),
                           tl_partial_counted := (if buffer = [] then False else torn \<or> counted)\<rparr>,
                         \<lparr>pb_rows = rows, pb_bytes_read = length payload,
                          pb_complete_lines = length pieces\<rparr>))"

text \<open>\<open>drain_available\<close>: the file does not change while it runs. The loop ends because a poll either
  reads a byte or breaks.\<close>

lemma tail_poll_bytes:
  assumes "tail_poll loads file m t = Inr (t', batch)"
  shows "tl_offset t' = tl_offset t + pb_bytes_read batch \<and> tl_chunk_size t' = tl_chunk_size t \<and>
    tl_offset t \<le> length file \<and> pb_bytes_read batch \<le> length file - tl_offset t"
  using assms
  by (cases "length file < tl_offset t"; cases "available_bytes file m t \<le> 0")
    (auto simp: tail_poll_def Let_def split_beta simp del: split_on.simps)

function drain_available ::
    "(string \<Rightarrow> jval option) \<Rightarrow> string \<Rightarrow> tail \<Rightarrow> jobj list \<Rightarrow> (tail \<times> jobj list) result" where
  "drain_available loads file t rows =
     (if tl_offset t < length file
      then
        (case tail_poll loads file None t of
           Inl e \<Rightarrow> Inl e
         | Inr (t', batch) \<Rightarrow>
             if pb_bytes_read batch = 0 then Inr (t', rows @ pb_rows batch)
             else drain_available loads file t' (rows @ pb_rows batch))
      else Inr (t, rows))"
  by pat_completeness auto

termination
  by (relation "measure (\<lambda>(loads, file, t, rows). length file - tl_offset t)")
    (auto dest: tail_poll_bytes)

declare drain_available.simps [simp del]

section \<open>What the follower has delivered\<close>

definition line_objects :: "(string \<Rightarrow> jval option) \<Rightarrow> string list \<Rightarrow> jobj list" where
  "line_objects loads ls =
     List.map_filter (\<lambda>raw. case loads raw of Some (JObj v) \<Rightarrow> Some v | _ \<Rightarrow> None) ls"

lemma line_objects_simps [simp]:
  "line_objects loads [] = []"
  "line_objects loads (ls @ ls') = line_objects loads ls @ line_objects loads ls'"
  by (simp_all add: line_objects_def List.map_filter_def)

lemma line_objects_le: "length (line_objects loads ls) \<le> length ls"
  by (simp add: line_objects_def List.map_filter_def le_trans [OF length_filter_le])

lemma parse_pieces_eq:
  "parse_pieces loads pieces (rows, parsed, malformed) =
     (rows @ line_objects loads pieces, parsed + int (length (line_objects loads pieces)),
      malformed + int (length pieces) - int (length (line_objects loads pieces)))"
  by (induction pieces arbitrary: rows parsed malformed)
    (simp_all add: line_objects_def List.map_filter_def split: option.split jval.split)

text \<open>The state after reading the first \<open>tl_offset\<close> bytes, with the rows delivered so far.\<close>

definition tail_ok :: "(string \<Rightarrow> jval option) \<Rightarrow> string \<Rightarrow> tail \<times> jobj list \<Rightarrow> bool" where
  "tail_ok loads file s \<longleftrightarrow>
     (case s of (t, rows) \<Rightarrow>
       let seen = take (tl_offset t) file in
       tl_offset t \<le> length file \<and> 1 \<le> tl_chunk_size t \<and>
       tl_buffer t = partial_line seen \<and>
       rows = line_objects loads (complete_lines seen) \<and>
       tl_rows_parsed t = int (length rows) \<and>
       tl_malformed_lines t = int (length (complete_lines seen)) - int (length rows) \<and>
       0 \<le> tl_torn_lines t \<and>
       tl_torn_lines t \<le> int (length (complete_lines seen)) + (if tl_partial_counted t then 1 else 0))"

lemma tail_ok_grow: "tail_ok loads file s \<Longrightarrow> tail_ok loads (file @ extra) s"
  by (cases s) (auto simp: tail_ok_def Let_def)

lemma tail_poll_ok:
  assumes ok: "tail_ok loads file (t, rows)"
  shows "\<exists>t' batch. tail_poll loads file m t = Inr (t', batch) \<and>
    tail_ok loads file (t', rows @ pb_rows batch) \<and>
    (m = None \<longrightarrow> tl_offset t < length file \<longrightarrow> 0 < pb_bytes_read batch) \<and>
    pb_complete_lines batch = length (complete_lines (take (tl_offset t') file)) -
      length (complete_lines (take (tl_offset t) file))"
proof -
  define available where "available = available_bytes file m t"
  note ok' = ok [unfolded tail_ok_def Let_def prod.case]
  show ?thesis
  proof (cases "available \<le> 0")
    case True
    then have "tail_poll loads file m t =
        Inr (t, \<lparr>pb_rows = [], pb_bytes_read = 0, pb_complete_lines = 0\<rparr>)"
      using ok' by (simp add: tail_poll_def Let_def available_def)
    moreover have "m = None \<longrightarrow> \<not> tl_offset t < length file"
      using True by (auto simp: available_def available_bytes_def)
    ultimately show ?thesis using ok by auto
  next
    case False
    define payload where
      "payload = take (nat (min available (tl_chunk_size t))) (drop (tl_offset t) file)"
    define seen where "seen = take (tl_offset t) file"
    define parts where "parts = split_nl (tl_buffer t @ payload)"
    have le: "tl_offset t + length payload \<le> length file" using ok' by (auto simp: payload_def)
    have "take (length payload) (drop (tl_offset t) file) = payload"
      unfolding payload_def by (metis append_eq_conv_conj append_take_drop_id)
    then have seen': "take (tl_offset t + length payload) file = seen @ payload"
      using ok' by (simp add: take_add seen_def)
    have parts: "butlast parts = complete_lines (tl_buffer t @ payload)"
        "last parts = partial_line (tl_buffer t @ payload)"
      by (simp_all add: parts_def complete_lines_def partial_line_def)
    have buffer: "tl_buffer t = partial_line seen" using ok' by (simp add: seen_def)
    have lines: "complete_lines (seen @ payload) = complete_lines seen @ butlast parts"
        "partial_line (seen @ payload) = last parts"
      unfolding parts buffer by (rule split_resume)+
    have pos: "0 < length payload"
      using False ok' available_bytes_le [of "file" m t] by (simp add: payload_def available_def)
    define counted where
      "counted \<longleftrightarrow> tl_partial_counted t \<and> \<not> (tl_partial_counted t \<and> butlast parts \<noteq> [])"
    define torn where "torn \<longleftrightarrow> last parts \<noteq> [] \<and>
      tl_offset t + length payload = length file \<and> \<not> counted"
    define objects where "objects = line_objects loads (butlast parts)"
    define t' where "t' = t\<lparr>tl_offset := tl_offset t + length payload, tl_buffer := last parts,
      tl_rows_parsed := tl_rows_parsed t + int (length objects),
      tl_malformed_lines := tl_malformed_lines t + int (length (butlast parts)) - int (length objects),
      tl_torn_lines := tl_torn_lines t + (if torn then 1 else 0),
      tl_partial_counted := (if last parts = [] then False else torn \<or> counted)\<rparr>"
    define batch where "batch = \<lparr>pb_rows = objects, pb_bytes_read = length payload,
      pb_complete_lines = length (butlast parts)\<rparr>"
    have poll: "tail_poll loads file m t = Inr (t', batch)"
      using False ok'
      unfolding tail_poll_def Let_def available_def [symmetric] payload_def [symmetric]
        parts_def [symmetric] parse_pieces_eq objects_def [symmetric] prod.case
      by (auto simp: t'_def batch_def torn_def counted_def)
    have some: "last parts = [] \<Longrightarrow> butlast parts \<noteq> []"
      using pos partial_line_empty [of "tl_buffer t @ payload"] by (auto simp: parts)
    have torn: "tl_torn_lines t' \<le> int (length (complete_lines seen)) + int (length (butlast parts)) +
        (if tl_partial_counted t' then 1 else 0)"
      using ok' some
      by (cases "butlast parts"; cases "tl_partial_counted t") (auto simp: t'_def torn_def counted_def seen_def)
    have "tail_ok loads file (t', rows @ pb_rows batch)"
      using ok' le torn lines seen'
      by (simp add: tail_ok_def t'_def batch_def objects_def seen_def)
    moreover have "0 < pb_bytes_read batch" using pos by (simp add: batch_def)
    moreover have "pb_complete_lines batch = length (complete_lines (take (tl_offset t') file)) -
        length (complete_lines (take (tl_offset t) file))"
      using lines seen' by (simp add: t'_def batch_def seen_def)
    ultimately show ?thesis using poll by blast
  qed
qed


lemma tail_init_ok: "tail_init is_file n = Inr t \<Longrightarrow> tail_ok loads [] (t, [])"
  by (auto simp: tail_init_def tail_ok_def complete_lines_def partial_line_def split: if_splits)

lemma drain_available_ok:
  assumes "tail_ok loads file (t, before @ rows)"
  shows "\<exists>t' rest. drain_available loads file t rows = Inr (t', rest) \<and>
    tail_ok loads file (t', before @ rest) \<and> tl_offset t' = length file"
  using assms
proof (induction loads "file" t rows rule: drain_available.induct)
  case (1 loads "file" t rows)
  show ?case
  proof (cases "tl_offset t < length file")
    case True
    from tail_poll_ok [OF 1(2), of None] True obtain t1 batch where
      poll: "tail_poll loads file None t = Inr (t1, batch)"
        "tail_ok loads file (t1, before @ rows @ pb_rows batch)" "0 < pb_bytes_read batch"
      by auto
    from 1(1) [OF True poll(1) refl _ poll(2)] poll(3) obtain t' rest where
      "drain_available loads file t1 (rows @ pb_rows batch) = Inr (t', rest)"
      "tail_ok loads file (t', before @ rest)" "tl_offset t' = length file" by auto
    then show ?thesis using True poll(1,3) by (subst drain_available.simps) auto
  next
    case False
    then have "tl_offset t = length file" using 1(2) by (simp add: tail_ok_def Let_def)
    with False 1(2) show ?thesis by (subst drain_available.simps) auto
  qed
qed

text \<open>A session: before each poll the tape may have grown.\<close>

definition follow_step ::
    "(string \<Rightarrow> jval option) \<Rightarrow> string \<times> tail \<times> jobj list \<Rightarrow> string \<times> int option \<Rightarrow>
     (string \<times> tail \<times> jobj list) result" where
  "follow_step loads s a =
     (case s of (file, t, rows) \<Rightarrow>
      case a of (extra, max_bytes) \<Rightarrow>
        bind_result (tail_poll loads (file @ extra) max_bytes t) (\<lambda>(t', batch).
          Inr (file @ extra, t', rows @ pb_rows batch)))"

lemma follow_step_ok:
  assumes "tail_ok loads file (t, rows)"
  shows "\<exists>t' batch. follow_step loads (file, t, rows) (extra, m) =
      Inr (file @ extra, t', rows @ batch) \<and> tail_ok loads (file @ extra) (t', rows @ batch)"
  using tail_poll_ok [OF tail_ok_grow [OF assms], of extra m] by (auto simp: follow_step_def)

interpretation follower:
  append_log "\<lambda>s. snd (snd s)" "follow_step loads" "\<lambda>_. True"
    "\<lambda>s. tail_ok loads (fst s) (snd s)" for loads
proof unfold_locales
  fix s a s'
  assume ok: "tail_ok loads (fst s) (snd s)" and step: "follow_step loads s a = Inr s'"
  obtain "file" t rows where s: "s = (file, t, rows)" by (cases s)
  obtain extra m where a: "a = (extra, m)" by (cases a)
  from follow_step_ok [of loads "file" t rows extra m] ok step
  show "tail_ok loads (fst s') (snd s')" and "prefix (snd (snd s)) (snd (snd s'))"
    by (auto simp: s a)
qed

lemma follow_run:
  assumes "tail_ok loads file (t, rows)"
  shows "\<exists>t' rows'. fold_result (follow_step loads) (file, t, rows) ops =
      Inr (file @ concat (map fst ops), t', rows') \<and>
    tail_ok loads (file @ concat (map fst ops)) (t', rows')"
  using assms
proof (induction ops arbitrary: "file" t rows)
  case (Cons a ops)
  obtain extra m where a: "a = (extra, m)" by (cases a)
  from follow_step_ok [OF Cons.prems, of extra m] obtain t1 batch where
    s1: "follow_step loads (file, t, rows) (extra, m) = Inr (file @ extra, t1, rows @ batch)"
      "tail_ok loads (file @ extra) (t1, rows @ batch)" by blast
  from Cons.IH [OF s1(2)] s1(1) show ?case by (simp add: a)
qed simp

text \<open>C19: A follower never loses, repeats or splits a row: however a growing tape is cut into polls
  (any chunk size, any byte limits, polls between any two appends, a poll in the middle of a
  line), no poll fails, the rows delivered so far are the JSON objects on the complete lines among
  the bytes read so far, every other complete line is counted as malformed, and a line is counted
  as torn at most once.\<close>

theorem follower_delivers_complete_lines:
  assumes "tail_init True chunk_size = Inr t0"
  shows "\<exists>t rows. let file = concat (map fst ops); seen = take (tl_offset t) file in
    fold_result (follow_step loads) ([], t0, []) ops = Inr (file, t, rows) \<and>
    rows = line_objects loads (complete_lines seen) \<and>
    tl_rows_parsed t + tl_malformed_lines t = int (length (complete_lines seen)) \<and>
    tl_rows_parsed t = int (length rows) \<and>
    trailing_partial_bytes t = length (partial_line seen) \<and>
    tl_torn_lines t \<le> int (length (complete_lines seen)) + 1"
  using follow_run [OF tail_init_ok [OF assms], of loads ops]
  by (fastforce simp: tail_ok_def Let_def trailing_partial_bytes_def split: if_splits)

definition example_loads :: "string \<Rightarrow> jval option" where
  "example_loads raw = (if raw = ''a'' then Some (JObj [(''k'', JInt 1)]) else None)"

theorem follower_delivers_complete_lines_witness:
  "\<exists>t rows. fold_result (follow_step example_loads)
      ([], \<lparr>tl_chunk_size = 2, tl_offset = 0, tl_buffer = [], tl_partial_counted = False,
            tl_rows_parsed = 0, tl_malformed_lines = 0, tl_torn_lines = 0\<rparr>, [])
      [(''a'', None), ([newline, CHR ''x'', newline], None)] =
    Inr ([CHR ''a'', newline, CHR ''x'', newline], t, rows) \<and>
    rows = line_objects example_loads (complete_lines (take (tl_offset t) [CHR ''a'', newline, CHR ''x'', newline]))"
proof -
  have "tail_init True 2 = Inr \<lparr>tl_chunk_size = 2, tl_offset = 0, tl_buffer = [],
      tl_partial_counted = False, tl_rows_parsed = 0, tl_malformed_lines = 0, tl_torn_lines = 0\<rparr>"
    by (simp add: tail_init_def)
  from follower_delivers_complete_lines [OF this, where loads = example_loads
      and ops = "[(''a'', None), ([newline, CHR ''x'', newline], None)]"]
  show ?thesis by (auto simp: Let_def)
qed

text \<open>C37: Draining ends and catches up: from every state a session can reach, \<open>drain_available\<close>
  returns, has read the whole file, and what the session had delivered followed by what the drain
  returns is every object on the complete lines of the tape; only an unterminated last line stays
  in the buffer.\<close>

theorem drain_catches_up:
  assumes "tail_init True chunk_size = Inr t0"
    and "fold_result (follow_step loads) ([], t0, []) ops = Inr (file, t, rows)"
  shows "\<exists>t' rest. drain_available loads file t [] = Inr (t', rest) \<and>
    tl_offset t' = length file \<and> rows @ rest = line_objects loads (complete_lines file) \<and>
    tl_buffer t' = partial_line file"
proof -
  have "tail_ok loads file (t, rows @ [])"
    using follow_run [OF tail_init_ok [OF assms(1)], of loads ops] assms(2) by simp
  from drain_available_ok [OF this] show ?thesis by (auto simp: tail_ok_def Let_def)
qed

theorem drain_catches_up_witness:
  "\<exists>t rows t' rest. fold_result (follow_step example_loads)
      ([], \<lparr>tl_chunk_size = 2, tl_offset = 0, tl_buffer = [], tl_partial_counted = False,
            tl_rows_parsed = 0, tl_malformed_lines = 0, tl_torn_lines = 0\<rparr>, [])
      [(''a'', None), ([newline, CHR ''x'', newline], None)] =
    Inr ([CHR ''a'', newline, CHR ''x'', newline], t, rows) \<and>
    drain_available example_loads [CHR ''a'', newline, CHR ''x'', newline] t [] = Inr (t', rest) \<and>
    tl_offset t' = 4"
proof -
  have init: "tail_init True 2 = Inr \<lparr>tl_chunk_size = 2, tl_offset = 0, tl_buffer = [],
      tl_partial_counted = False, tl_rows_parsed = 0, tl_malformed_lines = 0, tl_torn_lines = 0\<rparr>"
    by (simp add: tail_init_def)
  obtain t rows where run: "fold_result (follow_step example_loads)
      ([], \<lparr>tl_chunk_size = 2, tl_offset = 0, tl_buffer = [], tl_partial_counted = False,
            tl_rows_parsed = 0, tl_malformed_lines = 0, tl_torn_lines = 0\<rparr>, [])
      [(''a'', None), ([newline, CHR ''x'', newline], None)] =
    Inr ([CHR ''a'', newline, CHR ''x'', newline], t, rows)"
    using follow_run [OF tail_init_ok [OF init], of example_loads
        "[(''a'', None), ([newline, CHR ''x'', newline], None)]"] by auto
  from drain_catches_up [OF init run] run show ?thesis by auto
qed

section \<open>Cold archives\<close>

text \<open>\<open>archive_tape\<close>: \<open>gzip_level level\<close> and \<open>gunzip\<close> are the compressor and its inverse, \<open>sha\<close>
  the content hash. The archive is created exclusively and read back before its hash is
  returned.\<close>

definition archive_tape ::
    "(int \<Rightarrow> string \<Rightarrow> string) \<Rightarrow> (string \<Rightarrow> string) \<Rightarrow> (string \<Rightarrow> string) \<Rightarrow> string option \<Rightarrow> bool \<Rightarrow>
     int \<Rightarrow> (string \<times> string) result" where
  "archive_tape gzip_level gunzip sha tape archive_exists compresslevel =
     (case tape of
        None \<Rightarrow> Inl (FileNotFoundError ''tape'')
      | Some bytes \<Rightarrow>
          if \<not> (0 \<le> compresslevel \<and> compresslevel \<le> 9)
          then Inl (ValueError ''gzip compresslevel must be between 0 and 9'')
          else if archive_exists then Inl (FileExistsError ''archive'')
          else
            let archive = gzip_level compresslevel bytes in
            if sha (gunzip archive) \<noteq> sha bytes
            then Inl (TapeIntegrityError ''lossless archive verification failed'')
            else Inr (archive, sha archive))"

lemma archive_tape_lossless:
  "archive_tape gz gunzip sha (Some bytes) ex level = Inr (archive, d) \<Longrightarrow> inj_on sha {gunzip archive, bytes} \<Longrightarrow>
     gunzip archive = bytes"
  by (auto simp: archive_tape_def Let_def inj_on_def split: if_splits)

end
