(* ===== verification/Parquet_Rows.thy ===== *)
theory Parquet_Rows
  imports Tape_Store
begin

text \<open>
  The row side of \<open>data/src/shaurya/data/parquet.py\<close>: the Arrow schema and its check, the conversion
  of tape rows to Arrow values and back, the pushed-down filter, and the names of scopes and
  datasets. pyarrow itself is not modelled: an Arrow table value is the dictionary handed to
  \<open>Table.from_pylist\<close> and returned by \<open>to_pylist\<close>, with a \<open>Decimal\<close> as its number and a timestamp as
  \<open>JIso\<close>, and a Parquet file is what its footer and its rows say.
\<close>

section \<open>The schema\<close>

datatype arrow_type =
    AString | AInt64 | AInt32 | AFloat64 | ABool
  | ADecimal nat nat
  | ATimestamp string string
  | AStruct "(string \<times> arrow_type \<times> bool) list"
  | AList arrow_type

text \<open>A field is its name, its type and whether it is nullable.\<close>

type_synonym arrow_field = "string \<times> arrow_type \<times> bool"

definition ROW_SCHEMA_VERSION :: string where
  "ROW_SCHEMA_VERSION = ''2.0.0''"

definition PRICE_TYPE :: arrow_type where
  "PRICE_TYPE = ADecimal 38 12"

definition UTC_TIMESTAMP :: arrow_type where
  "UTC_TIMESTAMP = ATimestamp ''ns'' ''UTC''"

definition DEPTH_LEVEL_TYPE :: arrow_type where
  "DEPTH_LEVEL_TYPE =
     AStruct [(''price'', PRICE_TYPE, False), (''quantity'', AInt64, False), (''orders'', AInt32, False)]"

definition MARKET_EVENT_SCHEMA :: "arrow_field list" where
  "MARKET_EVENT_SCHEMA =
    [(''run_id'', AString, False),
     (''receive_sequence'', AInt64, False),
     (''source_sequence'', AInt64, True),
     (''connection_epoch'', AInt32, False),
     (''source'', AString, False),
     (''event_type'', AString, False),
     (''instrument_id'', AString, False),
     (''broker_security_id'', AString, False),
     (''exchange_segment'', AString, False),
     (''exchange_ts'', UTC_TIMESTAMP, True),
     (''receive_ts'', UTC_TIMESTAMP, False),
     (''raw_message_size_bytes'', AInt64, False),
     (''connection_id'', AString, False),
     (''update_side'', AString, True),
     (''last_price'', PRICE_TYPE, True),
     (''last_quantity'', AInt64, True),
     (''cumulative_volume'', AInt64, True),
     (''cumulative_volume_increment'', AInt64, True),
     (''open_interest'', AInt64, True),
     (''trade_quote_bid'', PRICE_TYPE, True),
     (''trade_quote_ask'', PRICE_TYPE, True),
     (''trade_quote_channel'', AString, True),
     (''trade_quote_bid_receive_ts'', UTC_TIMESTAMP, True),
     (''trade_quote_ask_receive_ts'', UTC_TIMESTAMP, True),
     (''trade_quote_receive_ts'', UTC_TIMESTAMP, True),
     (''trade_quote_age_ms'', AFloat64, True),
     (''trade_quote_freshness_bound_ms'', AFloat64, True),
     (''trade_side'', AString, True),
     (''trade_classifier_version'', AString, True),
     (''trade_alignment_version'', AString, True),
     (''trade_classification_degraded'', ABool, True),
     (''trade_classification_reason'', AString, True),
     (''trade_coalesced'', ABool, True),
     (''bids'', AList DEPTH_LEVEL_TYPE, False),
     (''asks'', AList DEPTH_LEVEL_TYPE, False),
     (''quality_flags'', AList AString, False)]"

text \<open>What the code reads of a Parquet file: its schema and the row-schema version of its metadata
  (\<open>None\<close> for an unreadable footer), the footer counts, the size, the content hash and the rows.\<close>

record parquet_file =
  pf_schema :: "(arrow_field list \<times> string) option"
  pf_num_rows :: int
  pf_num_row_groups :: int
  pf_size :: int
  pf_sha256 :: string
  pf_rows :: "jobj list"

definition schema_field :: "arrow_field list \<Rightarrow> string \<Rightarrow> (arrow_type \<times> bool) option" where
  "schema_field schema name = map_of schema name"

definition schema_checks :: "arrow_field list \<Rightarrow> string \<Rightarrow> (bool \<times> exn) list" where
  "schema_checks schema raw_version =
     (\<not> prefix ''2.'' raw_version,
       TapeIntegrityError ''unsupported Parquet market-event schema version'') #
     concat (map (\<lambda>(name, expected).
       [(schema_field schema name = None,
         TapeIntegrityError ''Parquet market-event schema lacks field''),
        (schema_field schema name \<noteq> Some expected,
         TapeIntegrityError ''Parquet market-event field is incompatible'')]) MARKET_EVENT_SCHEMA) @
     [(list_ex (\<lambda>(name, t, nullable). name \<notin> set (map fst MARKET_EVENT_SCHEMA) \<and> \<not> nullable) schema,
       TapeIntegrityError ''additive Parquet market-event fields must be nullable'')]"

text \<open>\<open>validate_parquet_schema\<close>: the footer counts, rows first.\<close>

definition validate_parquet_schema :: "parquet_file \<Rightarrow> (int \<times> int) result" where
  "validate_parquet_schema f =
     (case pf_schema f of
        None \<Rightarrow> Inl (TapeIntegrityError ''unreadable Parquet footer'')
      | Some (schema, raw_version) \<Rightarrow>
          (case first_error (schema_checks schema raw_version) of
             Some e \<Rightarrow> Inl e
           | None \<Rightarrow> Inr (pf_num_rows f, pf_num_row_groups f)))"

lemma canonical_schema_accepted:
  "pf_schema f = Some (MARKET_EVENT_SCHEMA, ROW_SCHEMA_VERSION) \<Longrightarrow>
     validate_parquet_schema f = Inr (pf_num_rows f, pf_num_row_groups f)"
proof -
  have "first_error (schema_checks MARKET_EVENT_SCHEMA ROW_SCHEMA_VERSION) = None" by code_simp
  then show "pf_schema f = Some (MARKET_EVENT_SCHEMA, ROW_SCHEMA_VERSION) \<Longrightarrow>
     validate_parquet_schema f = Inr (pf_num_rows f, pf_num_row_groups f)"
    by (simp add: validate_parquet_schema_def)
qed

section \<open>Prices\<close>

text \<open>\<open>Decimal.quantize\<close> in the default context: ties go to the even neighbour, and a result of more
  than 28 digits is an invalid operation.\<close>

definition round_half_even :: "rat \<Rightarrow> int" where
  "round_half_even x =
     (let f = \<lfloor>x\<rfloor>; d = x - of_int f
      in if d < 1 / 2 then f else if d > 1 / 2 then f + 1 else if even f then f else f + 1)"

definition price_quanta :: rat where
  "price_quanta = 1000000000000"

definition quantize :: "rat \<Rightarrow> rat" where
  "quantize x = of_int (round_half_even (x * price_quanta)) / price_quanta"

definition price_fits :: "rat \<Rightarrow> bool" where
  "price_fits x \<longleftrightarrow> \<bar>round_half_even (x * price_quanta)\<bar> < 10 ^ 28"

definition to_decimal :: "rat \<Rightarrow> rat result" where
  "to_decimal x =
     (if price_fits x then Inr (quantize x)
      else Inl (InvalidOperation ''quantize result has too many digits''))"

lemma round_half_even_of_int [simp]: "round_half_even (of_int n) = n"
  by (simp add: round_half_even_def)

lemma round_half_even_near: "\<bar>of_int (round_half_even x) - x\<bar> \<le> 1 / 2"
proof -
  have "0 \<le> x - of_int \<lfloor>x\<rfloor>" "x - of_int \<lfloor>x\<rfloor> < 1" by linarith+
  then show ?thesis
    unfolding round_half_even_def Let_def by (simp only: abs_le_iff split: if_split) (simp; linarith)
qed

lemma quantize_idem [simp]: "quantize (quantize x) = quantize x"
  by (simp add: quantize_def price_quanta_def)

lemma quantize_near: "\<bar>quantize x - x\<bar> \<le> 1 / 2000000000000"
proof -
  define n where "n = rat_of_int (round_half_even (x * price_quanta))"
  have "quantize x - x = (n - x * price_quanta) / price_quanta"
    by (simp add: quantize_def n_def price_quanta_def field_simps)
  then have "\<bar>quantize x - x\<bar> = \<bar>(n - x * price_quanta) / price_quanta\<bar>" by (rule arg_cong)
  then have "\<bar>quantize x - x\<bar> = \<bar>n - x * price_quanta\<bar> / price_quanta"
    unfolding abs_divide by (simp add: price_quanta_def)
  also have "\<dots> \<le> (1 / 2) / price_quanta"
    using round_half_even_near [of "x * price_quanta"]
    by (intro divide_right_mono) (simp_all add: n_def price_quanta_def)
  finally show ?thesis by (simp add: price_quanta_def)
qed

section \<open>Rows to Arrow values and back\<close>

definition utc_stamp :: "datetime option \<Rightarrow> jval result" where
  "utc_stamp value =
     (case value of
        None \<Rightarrow> Inr JNull
      | Some t \<Rightarrow>
          if \<not> is_aware t then Inl (ValueError ''Parquet timestamps must be timezone-aware'')
          else Inr (JIso (to_utc t)))"

definition decimal_value :: "rat option \<Rightarrow> jval result" where
  "decimal_value value =
     (case value of None \<Rightarrow> Inr JNull | Some x \<Rightarrow> bind_result (to_decimal x) (\<lambda>d. Inr (JFloat d)))"

definition level_to_arrow :: "depth_level \<Rightarrow> jval result" where
  "level_to_arrow l =
     bind_result (to_decimal (dl_price l)) (\<lambda>p.
     Inr (JObj [(''price'', JFloat p), (''quantity'', JInt (dl_quantity l)),
                (''orders'', JInt (dl_orders l))]))"

definition row_to_arrow :: "tape_row \<Rightarrow> jobj result" where
  "row_to_arrow r =
     bind_result (utc_stamp (tr_exchange_ts r)) (\<lambda>exchange_ts.
     bind_result (utc_stamp (Some (tr_receive_ts r))) (\<lambda>receive_ts.
     bind_result (decimal_value (tr_last_price r)) (\<lambda>last_price.
     bind_result (decimal_value (tr_trade_quote_bid r)) (\<lambda>quote_bid.
     bind_result (decimal_value (tr_trade_quote_ask r)) (\<lambda>quote_ask.
     bind_result (utc_stamp (tr_trade_quote_bid_receive_ts r)) (\<lambda>bid_ts.
     bind_result (utc_stamp (tr_trade_quote_ask_receive_ts r)) (\<lambda>ask_ts.
     bind_result (utc_stamp (tr_trade_quote_receive_ts r)) (\<lambda>quote_ts.
     bind_result (map_result level_to_arrow (tr_bids r)) (\<lambda>bids.
     bind_result (map_result level_to_arrow (tr_asks r)) (\<lambda>asks.
     Inr
      [(''run_id'', JStr (tr_run_id r)),
       (''receive_sequence'', JInt (tr_receive_sequence r)),
       (''source_sequence'', j_opt JInt (tr_source_sequence r)),
       (''connection_epoch'', JInt (tr_connection_epoch r)),
       (''source'', JStr (tr_source r)),
       (''event_type'', JStr (tr_event_type r)),
       (''instrument_id'', JStr (tr_instrument_id r)),
       (''broker_security_id'', JStr (tr_broker_security_id r)),
       (''exchange_segment'', JStr (tr_exchange_segment r)),
       (''exchange_ts'', exchange_ts),
       (''receive_ts'', receive_ts),
       (''raw_message_size_bytes'', JInt (tr_raw_message_size_bytes r)),
       (''connection_id'', JStr (tr_connection_id r)),
       (''update_side'', j_opt JStr (tr_update_side r)),
       (''last_price'', last_price),
       (''last_quantity'', j_opt JInt (tr_last_quantity r)),
       (''cumulative_volume'', j_opt JInt (tr_cumulative_volume r)),
       (''cumulative_volume_increment'', j_opt JInt (tr_cumulative_volume_increment r)),
       (''open_interest'', j_opt JInt (tr_open_interest r)),
       (''trade_quote_bid'', quote_bid),
       (''trade_quote_ask'', quote_ask),
       (''trade_quote_channel'', j_opt JStr (tr_trade_quote_channel r)),
       (''trade_quote_bid_receive_ts'', bid_ts),
       (''trade_quote_ask_receive_ts'', ask_ts),
       (''trade_quote_receive_ts'', quote_ts),
       (''trade_quote_age_ms'', j_opt JFloat (tr_trade_quote_age_ms r)),
       (''trade_quote_freshness_bound_ms'', j_opt JFloat (tr_trade_quote_freshness_bound_ms r)),
       (''trade_side'', j_opt (\<lambda>s. JStr (side_str s)) (tr_trade_side r)),
       (''trade_classifier_version'', j_opt JStr (tr_trade_classifier_version r)),
       (''trade_alignment_version'', j_opt JStr (tr_trade_alignment_version r)),
       (''trade_classification_degraded'', j_opt JBool (tr_trade_classification_degraded r)),
       (''trade_classification_reason'', j_opt JStr (tr_trade_classification_reason r)),
       (''trade_coalesced'', j_opt JBool (tr_trade_coalesced r)),
       (''bids'', JList bids),
       (''asks'', JList asks),
       (''quality_flags'', JList (map (\<lambda>f. JStr (flag_str f)) (tr_quality_flags r)))]))))))))))"

definition iso_field :: "jobj \<Rightarrow> string \<Rightarrow> jobj" where
  "iso_field payload name =
     AList.update name (case get_field payload name of JIso t \<Rightarrow> JIso t | _ \<Rightarrow> JNull) payload"

text \<open>A level restored for \<open>DepthLevel.from_dict\<close>; the price as the text of the decimal, read back as
  the same number.\<close>

definition arrow_level :: "jval \<Rightarrow> jval result" where
  "arrow_level v =
     bind_result (as_obj v) (\<lambda>level.
     bind_result (req_field level ''price'') (\<lambda>price.
     bind_result (req_field level ''quantity'') (\<lambda>quantity.
     bind_result (req_field level ''orders'') (\<lambda>orders.
     Inr (JObj [(''price'', price), (''quantity'', quantity), (''orders'', orders)])))))"

definition side_field :: "jobj \<Rightarrow> string \<Rightarrow> jobj result" where
  "side_field payload side =
     bind_result (list_field arrow_level payload side) (\<lambda>levels.
     Inr (AList.update side (JList levels) payload))"

definition arrow_to_row :: "jobj \<Rightarrow> tape_row result" where
  "arrow_to_row value =
     (let payload = AList.update ''schema_version'' (JStr SCHEMA_VERSION) value;
          stamped = fold (\<lambda>name p. iso_field p name)
            [''exchange_ts'', ''receive_ts'', ''trade_quote_bid_receive_ts'',
             ''trade_quote_ask_receive_ts'', ''trade_quote_receive_ts''] payload
      in bind_result (side_field stamped ''bids'') (\<lambda>with_bids.
         bind_result (side_field with_bids ''asks'') tape_row_from_dict))"

text \<open>The row a Parquet round trip gives back: timestamps in UTC, prices on the 12-digit grid.\<close>

definition canonical_level :: "depth_level \<Rightarrow> depth_level" where
  "canonical_level l = l\<lparr>dl_price := quantize (dl_price l)\<rparr>"

definition canonical_row :: "tape_row \<Rightarrow> tape_row" where
  "canonical_row r =
     r\<lparr>tr_exchange_ts := map_option to_utc (tr_exchange_ts r),
       tr_receive_ts := to_utc (tr_receive_ts r),
       tr_last_price := map_option quantize (tr_last_price r),
       tr_trade_quote_bid := map_option quantize (tr_trade_quote_bid r),
       tr_trade_quote_ask := map_option quantize (tr_trade_quote_ask r),
       tr_trade_quote_bid_receive_ts := map_option to_utc (tr_trade_quote_bid_receive_ts r),
       tr_trade_quote_ask_receive_ts := map_option to_utc (tr_trade_quote_ask_receive_ts r),
       tr_trade_quote_receive_ts := map_option to_utc (tr_trade_quote_receive_ts r),
       tr_bids := map canonical_level (tr_bids r),
       tr_asks := map canonical_level (tr_asks r)\<rparr>"

text \<open>A row the schema can hold: every price fits, and no depth price rounds to zero.\<close>

definition level_fits :: "depth_level \<Rightarrow> bool" where
  "level_fits l \<longleftrightarrow> price_fits (dl_price l) \<and> 0 < quantize (dl_price l)"

definition row_fits :: "tape_row \<Rightarrow> bool" where
  "row_fits r \<longleftrightarrow>
     opt_ok price_fits (tr_last_price r) \<and> opt_ok price_fits (tr_trade_quote_bid r) \<and>
     opt_ok price_fits (tr_trade_quote_ask r) \<and>
     list_all level_fits (tr_bids r) \<and> list_all level_fits (tr_asks r)"

lemma canonical_row_ok:
  assumes "tape_row_ok r" and "row_fits r"
  shows "tape_row_ok (canonical_row r)"
proof -
  have "first_error (tape_row_checks (canonical_row r)) = first_error (tape_row_checks r)"
    by (cases "tr_exchange_ts r"; cases "tr_trade_quote_bid_receive_ts r";
        cases "tr_trade_quote_ask_receive_ts r"; cases "tr_trade_quote_receive_ts r")
      (simp_all add: tape_row_checks_def canonical_row_def quote_presence_def classification_presence_def)
  moreover have "list_all depth_level_ok (map canonical_level ls)"
    if "list_all depth_level_ok ls" "list_all level_fits ls" for ls
    using that by (induction ls) (simp_all add: depth_level_ok_iff canonical_level_def level_fits_def)
  ultimately show ?thesis
    using assms tape_row_ok_flags [OF assms(1)] tape_row_ok_checks [OF assms(1)]
    unfolding tape_row_ok_def tape_row_post_init_def row_fits_def
    by (simp add: canonical_row_def)
qed

lemma canonical_row_idem: "canonical_row (canonical_row r) = canonical_row r"
  by (cases r) (simp add: canonical_row_def canonical_level_def option.map_comp comp_def)


lemma utc_stamp_ok: "opt_ok is_aware v \<Longrightarrow> utc_stamp v = Inr (j_opt JIso (map_option to_utc v))"
  by (cases v) (simp_all add: utc_stamp_def)

lemma decimal_value_ok: "opt_ok price_fits v \<Longrightarrow> decimal_value v = Inr (j_opt JFloat (map_option quantize v))"
  by (cases v) (simp_all add: decimal_value_def to_decimal_def)

lemma levels_to_arrow:
  "list_all level_fits ls \<Longrightarrow>
     map_result level_to_arrow ls = Inr (map (\<lambda>l. depth_level_to_dict (canonical_level l)) ls)"
  by (induction ls)
    (simp_all add: level_to_arrow_def level_fits_def to_decimal_def depth_level_to_dict_def canonical_level_def)

lemma arrow_levels:
  "map_result arrow_level (map depth_level_to_dict ls) = Inr (map depth_level_to_dict ls)"
  by (induction ls) (simp_all add: arrow_level_def depth_level_to_dict_def req_field_def)

lemma iso_j_opt: "(case j_opt JIso v of JIso t \<Rightarrow> JIso t | _ \<Rightarrow> JNull) = j_opt JIso v"
  by (cases v) simp_all

text \<open>The value stored for a row: the fields of the canonical row's dictionary.\<close>

definition arrow_value :: "tape_row \<Rightarrow> jobj" where
  "arrow_value r =
     filter (\<lambda>(k, v). k \<notin> {''schema_version'', ''best_bid'', ''best_ask''})
       (tape_row_to_dict (canonical_row r))"

lemma map_of_filter_key: "map_of (filter (\<lambda>(k, v). P k) xs) k = (if P k then map_of xs k else None)"
  by (induction xs) auto

lemma row_to_arrow_ok:
  assumes "tape_row_ok r" and "row_fits r"
  shows "row_to_arrow r = Inr (arrow_value r)"
proof -
  have "opt_ok is_aware (tr_exchange_ts r)" "is_aware (tr_receive_ts r)"
      "opt_ok is_aware (tr_trade_quote_bid_receive_ts r)" "opt_ok is_aware (tr_trade_quote_ask_receive_ts r)"
      "opt_ok is_aware (tr_trade_quote_receive_ts r)"
    using tape_row_ok_checks [OF assms(1), unfolded first_error_None]
    by (simp_all add: tape_row_checks_def)
  then show ?thesis
    using assms(2)
    by (simp add: row_to_arrow_def row_fits_def utc_stamp_ok decimal_value_ok levels_to_arrow
        arrow_value_def tape_row_to_dict_def canonical_row_def)
qed

lemma tape_row_from_dict_cong:
  assumes "\<And>k. k \<noteq> ''best_bid'' \<Longrightarrow> k \<noteq> ''best_ask'' \<Longrightarrow> map_of d k = map_of d' k"
  shows "tape_row_from_dict d = tape_row_from_dict d'"
  unfolding tape_row_from_dict_def list_field_def req_field_def get_field_def
  by (simp add: assms cong: if_cong)

definition timestamp_keys :: "string list" where
  "timestamp_keys =
     [''exchange_ts'', ''receive_ts'', ''trade_quote_bid_receive_ts'',
      ''trade_quote_ask_receive_ts'', ''trade_quote_receive_ts'']"

lemma iso_field_same:
  "map_of p name = Some (j_opt JIso v) \<Longrightarrow> map_of (iso_field p name) = map_of p"
  by (auto simp: iso_field_def dict_simps get_field_def iso_j_opt fun_eq_iff)

lemma iso_fields_same:
  "\<forall>k \<in> set names. \<exists>v. map_of p k = Some (j_opt JIso v) \<Longrightarrow>
     map_of (fold (\<lambda>name p. iso_field p name) names p) = map_of p"
proof (induction names arbitrary: p)
  case (Cons n names)
  then obtain v where "map_of p n = Some (j_opt JIso v)" by auto
  from iso_field_same [OF this] Cons show ?case by simp
qed simp

lemma side_field_same:
  assumes "map_of p side = Some (JList (map depth_level_to_dict ls))"
  shows "\<exists>p'. side_field p side = Inr p' \<and> map_of p' = map_of p"
  using assms by (auto simp: side_field_def list_field_def arrow_levels dict_simps fun_eq_iff)

lemma tape_row_dict_lookups:
  "map_of (tape_row_to_dict c) ''exchange_ts'' = Some (j_opt JIso (tr_exchange_ts c))"
  "map_of (tape_row_to_dict c) ''receive_ts'' = Some (j_opt JIso (Some (tr_receive_ts c)))"
  "map_of (tape_row_to_dict c) ''trade_quote_bid_receive_ts'' =
     Some (j_opt JIso (tr_trade_quote_bid_receive_ts c))"
  "map_of (tape_row_to_dict c) ''trade_quote_ask_receive_ts'' =
     Some (j_opt JIso (tr_trade_quote_ask_receive_ts c))"
  "map_of (tape_row_to_dict c) ''trade_quote_receive_ts'' =
     Some (j_opt JIso (tr_trade_quote_receive_ts c))"
  "map_of (tape_row_to_dict c) ''bids'' = Some (JList (map depth_level_to_dict (tr_bids c)))"
  "map_of (tape_row_to_dict c) ''asks'' = Some (JList (map depth_level_to_dict (tr_asks c)))"
  "map_of (tape_row_to_dict c) ''event_type'' = Some (JStr (tr_event_type c))"
  "map_of (tape_row_to_dict c) ''instrument_id'' = Some (JStr (tr_instrument_id c))"
  by (simp_all add: tape_row_to_dict_def)

lemma arrow_to_row_value:
  assumes "tape_row_ok r" and "row_fits r"
  shows "arrow_to_row (arrow_value r) = Inr (canonical_row r)"
proof -
  define c where "c = canonical_row r"
  define payload where "payload = AList.update ''schema_version'' (JStr SCHEMA_VERSION) (arrow_value r)"
  define p where "p = fold (\<lambda>name p. iso_field p name) timestamp_keys payload"
  have ok: "tape_row_ok c" unfolding c_def by (rule canonical_row_ok [OF assms])
  have payload: "map_of payload k = map_of (tape_row_to_dict c) k"
    if "k \<noteq> ''best_bid''" "k \<noteq> ''best_ask''" for k
  proof (cases "k = ''schema_version''")
    case True
    then show ?thesis by (simp add: payload_def dict_simps tape_row_to_dict_def)
  next
    case False
    with that show ?thesis
      unfolding payload_def arrow_value_def c_def [symmetric] map_of_update map_of_filter_key fun_upd_def
      by simp
  qed
  have "map_of p = map_of payload"
    unfolding p_def
  proof (rule iso_fields_same)
    show "\<forall>k \<in> set timestamp_keys. \<exists>v. map_of payload k = Some (j_opt JIso v)"
    proof
      fix k assume k: "k \<in> set timestamp_keys"
      then have "k \<noteq> ''best_bid''" "k \<noteq> ''best_ask''" by (auto simp: timestamp_keys_def)
      note payload [OF this]
      moreover have "\<exists>v. map_of (tape_row_to_dict c) k = Some (j_opt JIso v)"
        using k 
        unfolding timestamp_keys_def list.set insert_iff empty_iff
        by (elim disjE) (simp_all only: tape_row_dict_lookups option.inject simp_thms, blast+)
      ultimately show "\<exists>v. map_of payload k = Some (j_opt JIso v)" by simp
    qed
  qed
  moreover obtain p1 where p1: "side_field p ''bids'' = Inr p1" "map_of p1 = map_of p"
    using side_field_same [of p "''bids''" "tr_bids c"] calculation payload
    by (auto simp: tape_row_dict_lookups)
  moreover obtain p2 where p2: "side_field p1 ''asks'' = Inr p2" "map_of p2 = map_of p1"
    using side_field_same [of p1 "''asks''" "tr_asks c"] calculation payload
    by (auto simp: tape_row_dict_lookups)
  ultimately have "map_of p2 k = map_of (tape_row_to_dict c) k"
    if "k \<noteq> ''best_bid''" "k \<noteq> ''best_ask''" for k
    using payload [OF that] by simp
  then have "tape_row_from_dict p2 = Inr c"
    using tape_row_roundtrip_lemma [OF ok] tape_row_from_dict_cong by metis
  moreover have "arrow_to_row (arrow_value r) = tape_row_from_dict p2"
    using p1(1) p2(1) by (simp add: arrow_to_row_def Let_def payload_def p_def timestamp_keys_def)
  ultimately show ?thesis by (simp add: c_def)
qed


section \<open>Filtered reads\<close>

text \<open>The pushed-down filter is a conjunction of terms; \<open>None\<close> for channels or instruments is the
  empty list, as both are only tested for truth.\<close>

datatype filter_term =
    StampFrom datetime
  | StampUntil datetime
  | EventTypeIn "string list"
  | InstrumentIn "string list"

definition channel_event_types :: "data_channel list \<Rightarrow> string list" where
  "channel_event_types channels =
     (if STANDARD \<in> set channels then [''quote'', ''full''] else []) @
     (if DEPTH20 \<in> set channels then [''depth20''] else []) @
     (if DEPTH200 \<in> set channels then [''depth200''] else []) @
     (if HISTORICAL \<in> set channels then [''historical''] else [])"

definition filter_expression ::
    "datetime option \<Rightarrow> datetime option \<Rightarrow> data_channel list \<Rightarrow> string list \<Rightarrow>
     filter_term list result" where
  "filter_expression start end_ts channels instruments =
     (if \<not> opt_ok is_aware start then Inl (ValueError ''start must be timezone-aware'')
      else if \<not> opt_ok is_aware end_ts then Inl (ValueError ''end must be timezone-aware'')
      else Inr
        ((case start of None \<Rightarrow> [] | Some s \<Rightarrow> [StampFrom (to_utc s)]) @
         (case end_ts of None \<Rightarrow> [] | Some e \<Rightarrow> [StampUntil (to_utc e)]) @
         (if channels = [] then [] else [EventTypeIn (sorted_set (channel_event_types channels))]) @
         (if instruments = [] then [] else [InstrumentIn instruments])))"

definition stamp_of :: "jobj \<Rightarrow> int option" where
  "stamp_of v = (case map_of v ''receive_ts'' of Some (JIso t) \<Rightarrow> Some (instant t) | _ \<Rightarrow> None)"

definition text_of :: "jobj \<Rightarrow> string \<Rightarrow> string option" where
  "text_of v k = (case map_of v k of Some (JStr s) \<Rightarrow> Some s | _ \<Rightarrow> None)"

fun term_holds :: "jobj \<Rightarrow> filter_term \<Rightarrow> bool" where
  "term_holds v (StampFrom t) = (case stamp_of v of None \<Rightarrow> False | Some s \<Rightarrow> instant t \<le> s)"
| "term_holds v (StampUntil t) = (case stamp_of v of None \<Rightarrow> False | Some s \<Rightarrow> s \<le> instant t)"
| "term_holds v (EventTypeIn types) =
     (case text_of v ''event_type'' of None \<Rightarrow> False | Some s \<Rightarrow> s \<in> set types)"
| "term_holds v (InstrumentIn ids) =
     (case text_of v ''instrument_id'' of None \<Rightarrow> False | Some s \<Rightarrow> s \<in> set ids)"

definition iter_parquet_rows ::
    "parquet_file \<Rightarrow> datetime option \<Rightarrow> datetime option \<Rightarrow> data_channel list \<Rightarrow> string list \<Rightarrow> int \<Rightarrow>
     tape_row list \<times> exn option" where
  "iter_parquet_rows f start end_ts channels instruments batch_size =
     (if batch_size < 1 then ([], Some (ValueError ''batch_size must be positive''))
      else
        case validate_parquet_schema f of
          Inl e \<Rightarrow> ([], Some e)
        | Inr _ \<Rightarrow>
            (case filter_expression start end_ts channels instruments of
               Inl e \<Rightarrow> ([], Some e)
             | Inr expression \<Rightarrow>
                 gen_map arrow_to_row
                   (filter (\<lambda>v. list_all (term_holds v) expression) (pf_rows f))))"

definition all_parquet_rows :: "parquet_file \<Rightarrow> tape_row list \<times> exn option" where
  "all_parquet_rows f = iter_parquet_rows f None None [] [] 8192"

text \<open>The event types that both readers assign to the same channel.\<close>

definition pushed_down_event :: "tape_row \<Rightarrow> bool" where
  "pushed_down_event r \<longleftrightarrow> tr_event_type r \<in> set [''quote'', ''full'', ''depth20'', ''depth200'']"

lemma arrow_value_lookup:
  "k \<notin> {''schema_version'', ''best_bid'', ''best_ask''} \<Longrightarrow>
     map_of (arrow_value r) k = map_of (tape_row_to_dict (canonical_row r)) k"
  by (simp add: arrow_value_def map_of_filter_key)

lemma arrow_value_facts:
  "stamp_of (arrow_value r) = Some (instant (tr_receive_ts r))"
  "text_of (arrow_value r) ''event_type'' = Some (tr_event_type r)"
  "text_of (arrow_value r) ''instrument_id'' = Some (tr_instrument_id r)"
  by (simp_all add: stamp_of_def text_of_def arrow_value_lookup tape_row_dict_lookups)
    (simp_all add: canonical_row_def)

lemma channel_filter_agrees:
  "pushed_down_event r \<Longrightarrow>
     tr_event_type r \<in> set (channel_event_types channels) \<longleftrightarrow> data_channel_for_row r \<in> set channels"
  by (auto simp: pushed_down_event_def channel_event_types_def data_channel_for_row_def)

lemma filter_agrees:
  assumes "filter_expression start end_ts channels instruments = Inr expression"
    and "pushed_down_event r \<or> channels = []"
  shows "list_all (term_holds (arrow_value r)) expression \<longleftrightarrow>
    in_window start end_ts r \<and> wanted_row channels instruments r"
  using assms
  by (cases start; cases end_ts)
    (auto simp: filter_expression_def in_window_def wanted_row_def arrow_value_facts
      channel_filter_agrees split: if_splits)

lemma all_parquet_rows_eq:
  assumes "pf_schema f = Some (MARKET_EVENT_SCHEMA, ROW_SCHEMA_VERSION)"
    and "pf_rows f = map arrow_value rows" and "\<forall>r \<in> set rows. tape_row_ok r \<and> row_fits r"
  shows "all_parquet_rows f = (map canonical_row rows, None)"
proof -
  have "gen_map arrow_to_row (map arrow_value rows) = (map canonical_row rows, None)"
    using assms(3) by (induction rows) (simp_all add: arrow_to_row_value)
  moreover have "filter_expression None None [] [] = Inr []" by (simp add: filter_expression_def)
  ultimately show ?thesis
    by (simp add: all_parquet_rows_def iter_parquet_rows_def canonical_schema_accepted [OF assms(1)] assms(2))
qed

section \<open>Names of scopes and datasets\<close>

definition py_lower_char :: "char \<Rightarrow> char" where
  "py_lower_char c = (let n = (of_char c :: nat) in if 65 \<le> n \<and> n \<le> 90 then char_of (n + 32) else c)"

definition slug_char :: "char \<Rightarrow> bool" where
  "slug_char c = (let n = (of_char c :: nat) in 48 \<le> n \<and> n \<le> 57 \<or> 97 \<le> n \<and> n \<le> 122)"

text \<open>\<open>re.sub(r"[^a-z0-9]+", "-", text)\<close>; the flag says that a run is already open.\<close>

fun dash_runs :: "bool \<Rightarrow> string \<Rightarrow> string" where
  "dash_runs open_run [] = []"
| "dash_runs open_run (c # cs) =
     (if slug_char c then c # dash_runs False cs
      else if open_run then dash_runs True cs else CHR ''-'' # dash_runs True cs)"

definition rstrip_dash :: "string \<Rightarrow> string" where
  "rstrip_dash s = rev (dropWhile (\<lambda>c. c = CHR ''-'') (rev s))"

definition strip_dash :: "string \<Rightarrow> string" where
  "strip_dash s = rstrip_dash (dropWhile (\<lambda>c. c = CHR ''-'') s)"

definition safe_name :: "nat \<Rightarrow> string \<Rightarrow> string" where
  "safe_name max_length value =
     (let cleaned = strip_dash (dash_runs False (map py_lower_char value))
      in rstrip_dash (take max_length (if cleaned = [] then ''dataset'' else cleaned)))"

text \<open>The only element of a set comprehension, when there is just one.\<close>

definition only_element :: "string list \<Rightarrow> string option" where
  "only_element xs = (case remdups xs of [x] \<Rightarrow> Some x | _ \<Rightarrow> None)"

definition resolve_shared_underlying :: "string list \<Rightarrow> string option" where
  "resolve_shared_underlying ids =
     only_element
       (map (\<lambda>item. split_on CHR '':'' item ! 2)
         (filter (\<lambda>item. 2 \<le> count_list item CHR '':'') ids))"

definition shared_segment :: "string list \<Rightarrow> string" where
  "shared_segment ids =
     (case only_element
         (map (\<lambda>item. split_on CHR '':'' item ! 1) (filter (\<lambda>item. CHR '':'' \<in> set item) ids)) of
        None \<Rightarrow> ''multi-market'' | Some s \<Rightarrow> s)"

definition absent_text :: "string option \<Rightarrow> bool" where
  "absent_text x \<longleftrightarrow> x = None \<or> x = Some []"

definition scope_key_for_instruments :: "string list \<Rightarrow> string" where
  "scope_key_for_instruments ids =
     safe_name 64
      (case ids of
         [only] \<Rightarrow>
           let parts = split_on CHR '':'' only
           in if 4 \<le> length parts then join_with ''-'' (take 3 (drop 1 parts)) else only
       | _ \<Rightarrow>
           let segment = shared_segment ids; underlying = resolve_shared_underlying ids
           in if absent_text underlying then segment @ ''-universe''
              else segment @ ''-'' @ the underlying)"

text \<open>\<open>astimezone(IST).strftime("%H-%M-%S")\<close> of an aware value.\<close>

definition ist_clock :: "datetime \<Rightarrow> string" where
  "ist_clock t =
     (let s = nat ((instant t div 1000000 + 19800) mod 86400)
      in zero_pad 2 (s div 3600) @ ''-'' @ zero_pad 2 (s div 60 mod 60) @ ''-'' @ zero_pad 2 (s mod 60))"

definition human_dataset_name ::
    "datetime \<Rightarrow> data_channel list \<Rightarrow> string list \<Rightarrow> string option \<Rightarrow> int \<Rightarrow> string" where
  "human_dataset_name trading_date channels ids name_suffix attempt =
     (let scope =
            (case ids of
               [only] \<Rightarrow>
                 let parts = split_on CHR '':'' only
                 in if 4 \<le> length parts then join_with ''-'' (take 2 (drop 2 parts)) else only
             | _ \<Rightarrow>
                 let segment = shared_segment ids; underlying = resolve_shared_underlying ids;
                     scope_prefix = (if absent_text underlying then segment
                                     else segment @ ''-'' @ the underlying)
                 in scope_prefix @ ''-'' @ dec_digits (length ids) @ ''-instruments'');
          channel_part = join_with ''-'' (map channel_str channels);
          base = safe_name 64 scope @ ''-'' @ safe_name 64 channel_part;
          retried = (if attempt > 1 then base @ ''-retry'' @ dec_digits (nat attempt) else base);
          timed = retried @ ''-'' @ ist_clock trading_date
      in if absent_text name_suffix then timed
         else timed @ ''-'' @ safe_name 20 (the name_suffix))"


section \<open>Safe names\<close>

definition slug_text :: "string \<Rightarrow> bool" where
  "slug_text s \<longleftrightarrow>
     list_all (\<lambda>c. slug_char c \<or> c = CHR ''-'') s \<and>
     successively (\<lambda>a b. a \<noteq> CHR ''-'' \<or> b \<noteq> CHR ''-'') s"

lemma slug_text_append: "slug_text (xs @ ys) \<Longrightarrow> slug_text xs \<and> slug_text ys"
  by (simp add: slug_text_def successively_append_iff)

lemma slug_text_rev [simp]: "slug_text (rev s) = slug_text s"
proof -
  have "successively (\<lambda>x y. y \<noteq> CHR ''-'' \<or> x \<noteq> CHR ''-'') s =
      successively (\<lambda>x y. x \<noteq> CHR ''-'' \<or> y \<noteq> CHR ''-'') s"
    by (rule successively_cong) auto
  then show ?thesis unfolding slug_text_def successively_rev by (simp only: list_all_rev)
qed

lemma slug_text_dropWhile: "slug_text s \<Longrightarrow> slug_text (dropWhile P s)"
  using slug_text_append [of "takeWhile P s" "dropWhile P s"] by simp

lemma slug_text_take: "slug_text s \<Longrightarrow> slug_text (take n s)"
  using slug_text_append [of "take n s" "drop n s"] by simp

lemma slug_dash [simp]: "\<not> slug_char CHR ''-''"
  by code_simp

lemma dash_runs_slug:
  "slug_text (dash_runs b s) \<and> (b \<longrightarrow> dash_runs b s = [] \<or> hd (dash_runs b s) \<noteq> CHR ''-'')"
proof (induction b s rule: dash_runs.induct)
  case (2 b c cs)
  have cons: "slug_text (x # xs)"
    if "slug_text xs" "slug_char x \<or> x = CHR ''-''" "x \<noteq> CHR ''-'' \<or> xs = [] \<or> hd xs \<noteq> CHR ''-''" for x xs
    using that by (cases xs) (auto simp: slug_text_def)
  show ?case
    using 2 slug_dash by (cases "slug_char c"; cases b) (auto intro!: cons)
qed (simp add: slug_text_def)

lemma rstrip_dash_text:
  shows "slug_text s \<Longrightarrow> slug_text (rstrip_dash s)"
    and "rstrip_dash s = [] \<or> last (rstrip_dash s) \<noteq> CHR ''-''"
    and "length (rstrip_dash s) \<le> length s"
    and "s \<noteq> [] \<Longrightarrow> hd s \<noteq> CHR ''-'' \<Longrightarrow> rstrip_dash s \<noteq> [] \<and> hd (rstrip_dash s) = hd s"
proof -
  let ?P = "\<lambda>c. c = CHR ''-''"
  show "slug_text s \<Longrightarrow> slug_text (rstrip_dash s)"
    by (simp add: rstrip_dash_def slug_text_dropWhile)
  show "rstrip_dash s = [] \<or> last (rstrip_dash s) \<noteq> CHR ''-''"
    using hd_dropWhile [of ?P "rev s"] by (auto simp: rstrip_dash_def last_rev)
  show "length (rstrip_dash s) \<le> length s"
    using length_dropWhile_le [of ?P "rev s"] by (simp add: rstrip_dash_def)
  assume s: "s \<noteq> []" "hd s \<noteq> CHR ''-''"
  then have "hd s \<in> set (rev s)" "\<not> ?P (hd s)" by simp_all
  then have ne: "dropWhile ?P (rev s) \<noteq> []" by (auto simp: dropWhile_eq_Nil_conv)
  have "rev s = takeWhile ?P (rev s) @ dropWhile ?P (rev s)" by simp
  then have "s = rev (dropWhile ?P (rev s)) @ rev (takeWhile ?P (rev s))"
    by (metis rev_append rev_rev_ident)
  then have "hd s = hd (rev (dropWhile ?P (rev s)))" using ne by (metis hd_append2 rev_is_Nil_conv)
  with ne show "rstrip_dash s \<noteq> [] \<and> hd (rstrip_dash s) = hd s" by (simp add: rstrip_dash_def)
qed

text \<open>A finished name: short, non-empty, made of lower-case letters and digits with single dashes
  between them.\<close>

definition finished_name :: "nat \<Rightarrow> string \<Rightarrow> bool" where
  "finished_name n s \<longleftrightarrow>
     s \<noteq> [] \<and> length s \<le> n \<and> slug_text s \<and> hd s \<noteq> CHR ''-'' \<and> last s \<noteq> CHR ''-''"

lemma safe_name_finished:
  assumes "1 \<le> n"
  shows "finished_name n (safe_name n v)"
proof -
  define cleaned where "cleaned = strip_dash (dash_runs False (map py_lower_char v))"
  define base where "base = (if cleaned = [] then ''dataset'' else cleaned)"
  have "slug_text cleaned"
    unfolding cleaned_def strip_dash_def
    by (intro rstrip_dash_text(1) slug_text_dropWhile) (simp add: dash_runs_slug)
  moreover have "slug_text ''dataset''" by code_simp
  ultimately have slug: "slug_text base" by (simp add: base_def)
  have head: "base \<noteq> [] \<and> hd base \<noteq> CHR ''-''"
  proof (cases "cleaned = []")
    case False
    define d where "d = dropWhile (\<lambda>c. c = CHR ''-'') (dash_runs False (map py_lower_char v))"
    have c: "cleaned = rstrip_dash d" by (simp add: cleaned_def strip_dash_def d_def)
    have d: "d \<noteq> []" using False by (auto simp: c rstrip_dash_def)
    then have "hd d \<noteq> CHR ''-''" unfolding d_def using hd_dropWhile by blast
    with rstrip_dash_text(4) [OF d this] False show ?thesis by (simp add: base_def c)
  qed (simp add: base_def)
  have t: "take n base \<noteq> []" "hd (take n base) \<noteq> CHR ''-''" using head assms by auto
  have "safe_name n v = rstrip_dash (take n base)"
    by (simp add: safe_name_def cleaned_def base_def)
  with rstrip_dash_text(1) [OF slug_text_take [OF slug, of n]] rstrip_dash_text(2,3) [of "take n base"]
    rstrip_dash_text(4) [OF t] t
  show ?thesis unfolding finished_name_def by (auto simp: min_def split: if_splits)
qed

lemma dash_runs_id: "slug_text s \<Longrightarrow> (b \<longrightarrow> s = [] \<or> hd s \<noteq> CHR ''-'') \<Longrightarrow> dash_runs b s = s"
proof (induction s arbitrary: b)
  case (Cons c cs)
  then have "slug_text cs" "c = CHR ''-'' \<longrightarrow> cs = [] \<or> hd cs \<noteq> CHR ''-''"
    using slug_text_append [of "[c]" cs] by (cases cs; auto simp: slug_text_def)+
  with Cons show ?case by (auto simp: slug_text_def)
qed simp

lemma slug_char_lower: "slug_char c \<or> c = CHR ''-'' \<Longrightarrow> py_lower_char c = c"
  by (auto simp: slug_char_def py_lower_char_def Let_def)

lemma safe_name_id:
  assumes "finished_name n s"
  shows "safe_name n s = s"
proof -
  have lower: "map py_lower_char s = s"
    using assms by (intro map_idI) (auto simp: finished_name_def slug_text_def list_all_iff intro: slug_char_lower)
  have "dropWhile (\<lambda>c. c = CHR ''-'') s = s" "dropWhile (\<lambda>c. c = CHR ''-'') (rev s) = rev s"
    using assms by (auto simp: finished_name_def hd_rev intro!: dropWhile_hd_id)
  then have strip: "rstrip_dash s = s" "strip_dash s = s" by (simp_all add: rstrip_dash_def strip_dash_def)
  have "dash_runs False s = s" using assms by (intro dash_runs_id) (simp_all add: finished_name_def)
  with lower strip assms show ?thesis by (simp add: safe_name_def finished_name_def)
qed

section \<open>Properties\<close>

text \<open>Every path component the naming code produces is well formed: for any text and any positive
  bound it is non-empty, no longer than the bound, contains only lower-case letters, digits and
  single dashes, neither starts nor ends with a dash, and cleaning it again changes nothing.\<close>

theorem safe_name_component:
  assumes "1 \<le> n"
  shows "finished_name n (safe_name n v) \<and> safe_name n (safe_name n v) = safe_name n v \<and>
    finished_name 64 (scope_key_for_instruments ids)"
  using safe_name_finished [OF assms] safe_name_id safe_name_finished [of 64]
  by (auto simp: scope_key_for_instruments_def)

theorem safe_name_component_witness:
  "finished_name 8 (safe_name 8 ''NSE:FNO..NIFTY'') \<and> safe_name 8 ''NSE:FNO..NIFTY'' = ''nse-fno''"
  using safe_name_component [of 8 "''NSE:FNO..NIFTY''"] by (simp, code_simp)



text \<open>The filter pushed down to Parquet selects the rows the tape reader would select: for a
  file of valid rows whose event types are quote, full, depth20 or depth200, the filtered scan
  returns exactly the rows in the window that match the channels and the instruments.\<close>

theorem parquet_filter_agrees:
  assumes "pf_schema f = Some (MARKET_EVENT_SCHEMA, ROW_SCHEMA_VERSION)"
    and "pf_rows f = map arrow_value rows" and "\<forall>r \<in> set rows. tape_row_ok r \<and> row_fits r"
    and "1 \<le> batch_size" and "opt_ok is_aware start" and "opt_ok is_aware end_ts"
    and "\<forall>r \<in> set rows. pushed_down_event r \<or> channels = []"
  shows "iter_parquet_rows f start end_ts channels instruments batch_size =
    (map canonical_row (filter (\<lambda>r. in_window start end_ts r \<and> wanted_row channels instruments r) rows), None)"
proof -
  obtain expression where e: "filter_expression start end_ts channels instruments = Inr expression"
    using assms(5,6) by (simp add: filter_expression_def)
  have "filter (\<lambda>r. list_all (term_holds (arrow_value r)) expression) rows =
      filter (\<lambda>r. in_window start end_ts r \<and> wanted_row channels instruments r) rows"
    using assms(7) by (intro filter_cong refl filter_agrees [OF e]) auto
  then have "filter (\<lambda>v. list_all (term_holds v) expression) (map arrow_value rows) =
      map arrow_value (filter (\<lambda>r. in_window start end_ts r \<and> wanted_row channels instruments r) rows)"
    by (simp add: filter_map comp_def)
  moreover have "gen_map arrow_to_row (map arrow_value rs) = (map canonical_row rs, None)"
    if "set rs \<subseteq> set rows" for rs
    using that assms(3) by (induction rs) (simp_all add: arrow_to_row_value)
  ultimately show ?thesis
    using assms(4) by (simp add: iter_parquet_rows_def canonical_schema_accepted [OF assms(1)] assms(2) e)
qed

definition example_file :: "tape_row list \<Rightarrow> parquet_file" where
  "example_file rows =
     \<lparr>pf_schema = Some (MARKET_EVENT_SCHEMA, ROW_SCHEMA_VERSION), pf_num_rows = int (length rows),
      pf_num_row_groups = 1, pf_size = 100, pf_sha256 = replicate 64 CHR ''a'',
      pf_rows = map arrow_value rows\<rparr>"

theorem parquet_filter_agrees_witness:
  "iter_parquet_rows (example_file [example_row]) None None [STANDARD] [] 8192 =
     ([canonical_row example_row], None)"
proof -
  have "row_fits example_row" by code_simp
  then show ?thesis
    using parquet_filter_agrees [of "example_file [example_row]" "[example_row]" 8192 None None
        "[STANDARD]" "[]"]
    by (simp add: example_file_def pushed_down_event_def example_row_def in_window_def wanted_row_def
        data_channel_for_row_def example_row_ok [unfolded example_row_def])
qed

text \<open>The event-type proviso is needed: a ticker row belongs to the standard channel for the tape
  reader and for the segment summary, but the pushed-down filter drops it.\<close>

definition ticker_row :: tape_row where
  "ticker_row = example_row\<lparr>tr_event_type := ''ticker''\<rparr>"

lemma ticker_row_ok: "tape_row_ok ticker_row" "row_fits ticker_row"
  by code_simp+

theorem parquet_filter_drops_ticker:
  "data_channel_for_row ticker_row = STANDARD \<and>
   iter_parquet_rows (example_file [ticker_row]) None None [STANDARD] [] 8192 = ([], None) \<and>
   iter_parquet_rows (example_file [ticker_row]) None None [] [] 8192 = ([canonical_row ticker_row], None)"
proof -
  have f: "pf_schema (example_file [ticker_row]) = Some (MARKET_EVENT_SCHEMA, ROW_SCHEMA_VERSION)"
      "pf_rows (example_file [ticker_row]) = map arrow_value [ticker_row]"
    by (simp_all add: example_file_def)
  have ticker: "tr_event_type ticker_row = ''ticker''" by (simp add: ticker_row_def)
  have "iter_parquet_rows (example_file [ticker_row]) None None [STANDARD] [] 8192 = ([], None)"
    by (simp add: iter_parquet_rows_def canonical_schema_accepted [OF f(1)] f(2) filter_expression_def
        arrow_value_facts channel_event_types_def ticker)
  moreover have "iter_parquet_rows (example_file [ticker_row]) None None [] [] 8192 =
      ([canonical_row ticker_row], None)"
    using all_parquet_rows_eq [OF f] ticker_row_ok by (simp add: all_parquet_rows_def)
  ultimately show ?thesis by (simp add: data_channel_for_row_def ticker)
qed

end
