(* ===== verification/Segment_Writer.thy ===== *)
theory Segment_Writer
  imports Parquet_Rows Append_Log
begin

text \<open>
  The segmented store of \<open>data/src/shaurya/data/parquet.py\<close>: \<open>SegmentedParquetWriter\<close>,
  \<open>validate_segment\<close>, \<open>describe_segment\<close>, \<open>segments_overlap_filter\<close>, the digests and the recovery
  inventory. The file system is the association list of the final files by path; resolved paths
  are their text. \<open>row_size\<close> is the byte length of a row's JSON, and \<open>write_table\<close> is pyarrow's
  writer, given the row group size and the Arrow values: \<open>table_contract\<close> says what the code relies
  on (the file holds the values, under the canonical schema, with positive counts and a hash).
  A write that raises leaves its state behind in Python; here it is only its error.
\<close>

section \<open>Paths\<close>

definition path_name :: "string \<Rightarrow> string" where
  "path_name p = last (split_on CHR ''/'' p)"

definition path_parent :: "string \<Rightarrow> string" where
  "path_parent p = join_with ''/'' (butlast (split_on CHR ''/'' p))"

definition contains_text :: "string \<Rightarrow> string \<Rightarrow> bool" where
  "contains_text pat s = list_ex (prefix pat) (suffixes s)"

text \<open>\<open>strftime("%H%M%S%fZ")\<close> in UTC.\<close>

definition time_name :: "datetime \<Rightarrow> string" where
  "time_name t =
     (let us = instant t; s = nat (us div 1000000 mod 86400)
      in zero_pad 2 (s div 3600) @ zero_pad 2 (s div 60 mod 60) @ zero_pad 2 (s mod 60) @
         zero_pad 6 (nat (us mod 1000000)) @ ''Z'')"

definition segment_path :: "string \<Rightarrow> nat \<Rightarrow> datetime \<Rightarrow> datetime \<Rightarrow> string" where
  "segment_path dir number start end_ts =
     dir @ ''/market-events-'' @ zero_pad 6 number @ ''-'' @ time_name start @ ''-'' @
     time_name end_ts @ ''.parquet''"

section \<open>Segments of rows\<close>

type_synonym files = "(string \<times> parquet_file) list"

definition coverage_start_of :: "tape_row \<Rightarrow> tape_row list \<Rightarrow> datetime" where
  "coverage_start_of r rs = dt_min (tr_receive_ts r) (map tr_receive_ts rs)"

definition coverage_end_of :: "tape_row \<Rightarrow> tape_row list \<Rightarrow> datetime" where
  "coverage_end_of r rs = dt_max (tr_receive_ts r) (map tr_receive_ts rs)"

text \<open>The \<open>DatasetSegment(...)\<close> call shared by the writer and by \<open>describe_segment\<close>.\<close>

definition segment_of :: "nat \<Rightarrow> string \<Rightarrow> parquet_file \<Rightarrow> int \<Rightarrow> tape_row \<Rightarrow> tape_row list \<Rightarrow> dataset_segment" where
  "segment_of number path f row_groups r rs =
     \<lparr>sg_segment_number = int number, sg_path = path, sg_rows = int (length (r # rs)),
      sg_bytes = pf_size f, sg_sha256 = pf_sha256 f,
      sg_first_receive_sequence = tr_receive_sequence r,
      sg_last_receive_sequence = tr_receive_sequence (last (r # rs)),
      sg_coverage_start = coverage_start_of r rs, sg_coverage_end = coverage_end_of r rs,
      sg_channels = sorted_set (map data_channel_for_row (r # rs)),
      sg_instrument_ids = sorted_set (map tr_instrument_id (r # rs)),
      sg_row_groups = row_groups, sg_row_schema_version = ROW_SCHEMA_VERSION\<rparr>"

definition summary_matches :: "dataset_segment \<Rightarrow> dataset_segment \<Rightarrow> bool" where
  "summary_matches declared observed \<longleftrightarrow>
     sg_first_receive_sequence declared = sg_first_receive_sequence observed \<and>
     sg_last_receive_sequence declared = sg_last_receive_sequence observed \<and>
     instant (sg_coverage_start declared) = instant (sg_coverage_start observed) \<and>
     instant (sg_coverage_end declared) = instant (sg_coverage_end observed) \<and>
     sg_channels declared = sg_channels observed \<and>
     sg_instrument_ids declared = sg_instrument_ids observed"

definition validate_segment :: "files \<Rightarrow> dataset_segment \<Rightarrow> unit result" where
  "validate_segment fs s =
     (case map_of fs (sg_path s) of
        None \<Rightarrow> Inl (TapeIntegrityError ''published segment is missing or partial'')
      | Some f \<Rightarrow>
          if contains_text ''.partial'' (path_name (sg_path s))
          then Inl (TapeIntegrityError ''published segment is missing or partial'')
          else if pf_size f \<noteq> sg_bytes s \<or> pf_sha256 f \<noteq> sg_sha256 s
          then Inl (TapeIntegrityError ''published segment hash or byte count differs'')
          else
            bind_result (validate_parquet_schema f) (\<lambda>(num_rows, num_groups).
            if num_rows \<noteq> sg_rows s \<or> num_groups \<noteq> sg_row_groups s
            then Inl (TapeIntegrityError ''published segment footer counts differ'')
            else
              bind_result (collected (all_parquet_rows f)) (\<lambda>rows.
              case rows of
                [] \<Rightarrow> Inl (TapeIntegrityError ''published segment is empty'')
              | r # rs \<Rightarrow>
                  if \<not> consecutive (map tr_receive_sequence rows)
                  then Inl (TapeIntegrityError ''published segment sequence is not contiguous'')
                  else if \<not> summary_matches s (segment_of 0 (sg_path s) f num_groups r rs)
                  then Inl (TapeIntegrityError ''published segment summary differs'')
                  else Inr ())))"

definition describe_segment :: "files \<Rightarrow> string \<Rightarrow> int \<Rightarrow> dataset_segment result" where
  "describe_segment fs path number =
     (case map_of fs path of
        Some f \<Rightarrow>
          if number < 1 \<or> contains_text ''.partial'' (path_name path)
          then Inl (TapeIntegrityError ''recovery segment must be a numbered final Parquet file'')
          else
            bind_result (validate_parquet_schema f) (\<lambda>(num_rows, num_groups).
            bind_result (collected (all_parquet_rows f)) (\<lambda>rows.
            case rows of
              [] \<Rightarrow> Inl (TapeIntegrityError ''recovery segment row count differs from its footer'')
            | r # rs \<Rightarrow>
                if num_rows \<noteq> int (length rows)
                then Inl (TapeIntegrityError ''recovery segment row count differs from its footer'')
                else if \<not> consecutive (map tr_receive_sequence rows)
                then Inl (TapeIntegrityError ''recovery segment receive sequence is not contiguous'')
                else segment_validate (segment_of (nat number) path f num_groups r rs)))
      | None \<Rightarrow> Inl (TapeIntegrityError ''recovery segment must be a numbered final Parquet file''))"

definition segments_overlap_filter ::
    "dataset_segment \<Rightarrow> datetime option \<Rightarrow> datetime option \<Rightarrow> data_channel list \<Rightarrow> string list \<Rightarrow> bool" where
  "segments_overlap_filter s start end_ts channels instruments =
     (if \<not> opt_ok (\<lambda>t. instant t \<le> instant (sg_coverage_end s)) start then False
      else if \<not> opt_ok (\<lambda>t. instant (sg_coverage_start s) \<le> instant t) end_ts then False
      else if channels \<noteq> [] \<and> set (sg_channels s) \<inter> set channels = {} then False
      else \<not> (instruments \<noteq> [] \<and> set (sg_instrument_ids s) \<inter> set instruments = {}))"

section \<open>The writer\<close>

record segment_writer =
  sw_dir :: string
  sw_dataset_id :: string
  sw_run_id :: string
  sw_max_rows :: int
  sw_max_duration :: int
  sw_max_bytes :: int
  sw_row_group_size :: int
  sw_rows_written :: int
  sw_bytes_written :: int
  sw_rows :: "tape_row list"
  sw_estimated :: int
  sw_segments :: "dataset_segment list"
  sw_pending :: "dataset_segment list"
  sw_prior :: "int option"
  sw_closed :: bool
  sw_files :: files

text \<open>The checks on the resumed segments, each against the one before it.\<close>

fun resume_checks ::
    "string \<Rightarrow> string \<Rightarrow> files \<Rightarrow> nat \<Rightarrow> dataset_segment option \<Rightarrow> dataset_segment list \<Rightarrow> unit result" where
  "resume_checks dir run_id fs n prior [] = Inr ()"
| "resume_checks dir run_id fs n prior (s # ss) =
     (if sg_segment_number s \<noteq> int n
      then Inl (TapeIntegrityError ''resumed segment numbers are not contiguous'')
      else if path_parent (sg_path s) \<noteq> dir
      then Inl (TapeIntegrityError ''resumed segment belongs to a different dataset directory'')
      else if \<not> opt_ok (\<lambda>p. sg_first_receive_sequence s = sg_last_receive_sequence p + 1) prior
      then Inl (TapeIntegrityError ''resumed segment receive sequences are not contiguous'')
      else
        bind_result (validate_segment fs s) (\<lambda>_.
        case map_of fs (sg_path s) of
          None \<Rightarrow> Inl (TapeIntegrityError ''published segment is missing or partial'')
        | Some f \<Rightarrow>
            (case all_parquet_rows f of
               (rows, failed) \<Rightarrow>
                 if list_ex (\<lambda>r. tr_run_id r \<noteq> run_id) rows
                 then Inl (TapeIntegrityError ''resumed segment logical run ID is inconsistent'')
                 else (case failed of
                         Some e \<Rightarrow> Inl e
                       | None \<Rightarrow> resume_checks dir run_id fs (n + 1) (Some s) ss))))"

definition final_files :: "string \<Rightarrow> files \<Rightarrow> string list" where
  "final_files dir fs =
     filter (\<lambda>p. path_parent p = dir \<and> suffix ''.parquet'' p) (map fst fs)"

definition segment_writer_init ::
    "string \<Rightarrow> string \<Rightarrow> string option \<Rightarrow> int \<Rightarrow> int \<Rightarrow> int \<Rightarrow> int \<Rightarrow> dataset_segment list \<Rightarrow> bool \<Rightarrow>
     bool \<Rightarrow> files \<Rightarrow> segment_writer result" where
  "segment_writer_init dir dataset_id expected_run_id max_rows max_duration max_bytes row_group_size
     existing resume_directory dir_exists fs =
     (let run_id = (if absent_text expected_run_id then dataset_id else the expected_run_id) in
      if max_rows < 1 \<or> max_duration \<le> 0 \<or> max_bytes < 1
      then Inl (ValueError ''segment rotation bounds must be positive'')
      else if row_group_size < 1 then Inl (ValueError ''row_group_size must be positive'')
      else if dir_exists \<and> \<not> (existing \<noteq> [] \<or> resume_directory) then Inl (FileExistsError ''dataset_dir'')
      else
        bind_result (resume_checks dir run_id fs 1 None existing) (\<lambda>_.
        if set (final_files dir fs) \<noteq> set (map sg_path existing)
        then Inl (TapeIntegrityError ''dataset directory contains unacknowledged final segments'')
        else Inr
          \<lparr>sw_dir = dir, sw_dataset_id = dataset_id, sw_run_id = run_id, sw_max_rows = max_rows,
           sw_max_duration = max_duration, sw_max_bytes = max_bytes,
           sw_row_group_size = row_group_size,
           sw_rows_written = sum_list (map sg_rows existing),
           sw_bytes_written = sum_list (map sg_bytes existing), sw_rows = [], sw_estimated = 0,
           sw_segments = existing, sw_pending = [],
           sw_prior = (if existing = [] then None else Some (sg_last_receive_sequence (last existing))),
           sw_closed = False, sw_files = fs\<rparr>))"

definition drain_published :: "segment_writer \<Rightarrow> dataset_segment list \<times> segment_writer" where
  "drain_published w = (sw_pending w, w\<lparr>sw_pending := []\<rparr>)"

definition rotation_due :: "segment_writer \<Rightarrow> bool" where
  "rotation_due w \<longleftrightarrow> sw_max_rows w \<le> int (length (sw_rows w)) \<or> sw_max_bytes w \<le> sw_estimated w"

definition finalize_segment ::
    "(int \<Rightarrow> jobj list \<Rightarrow> parquet_file) \<Rightarrow> segment_writer \<Rightarrow> segment_writer result" where
  "finalize_segment write_table w =
     (case sw_rows w of
        [] \<Rightarrow> Inr w
      | r # rs \<Rightarrow>
          let number = length (sw_segments w) + 1;
              path = segment_path (sw_dir w) number (coverage_start_of r rs) (coverage_end_of r rs)
          in bind_result (map_result row_to_arrow (r # rs)) (\<lambda>values.
             let f = write_table (min (sw_row_group_size w) (int (length (r # rs)))) values in
             bind_result (validate_parquet_schema f) (\<lambda>(num_rows, num_groups).
             if num_rows \<noteq> int (length (r # rs))
             then Inl (TapeIntegrityError ''Parquet footer row count differs before publication'')
             else
               bind_result (segment_validate (segment_of number path f num_groups r rs)) (\<lambda>s.
               Inr (w\<lparr>sw_files := AList.update path f (sw_files w),
                      sw_segments := sw_segments w @ [s],
                      sw_pending := sw_pending w @ [s],
                      sw_bytes_written := sw_bytes_written w + sg_bytes s,
                      sw_rows := [], sw_estimated := 0\<rparr>)))))"

definition segment_write ::
    "(tape_row \<Rightarrow> int) \<Rightarrow> (int \<Rightarrow> jobj list \<Rightarrow> parquet_file) \<Rightarrow> segment_writer \<Rightarrow> tape_row \<Rightarrow>
     segment_writer result" where
  "segment_write row_size write_table w r =
     (if sw_closed w then Inl (ValueError ''cannot write to a closed segmented dataset'')
      else if tr_run_id r \<noteq> sw_run_id w
      then Inl (ValueError ''row run_id does not match the logical run ID of the dataset'')
      else if \<not> opt_ok (\<lambda>p. tr_receive_sequence r = p + 1) (sw_prior w)
      then Inl (TapeIntegrityError ''receive sequence must remain contiguous across segments'')
      else
        let w1 = w\<lparr>sw_prior := Some (tr_receive_sequence r)\<rparr>;
            expired = (case sw_rows w of [] \<Rightarrow> False
              | r0 # _ \<Rightarrow> instant (tr_receive_ts r) - instant (tr_receive_ts r0) \<ge> sw_max_duration w)
        in bind_result (if expired then finalize_segment write_table w1 else Inr w1) (\<lambda>w2.
           let w3 = w2\<lparr>sw_rows := sw_rows w2 @ [r], sw_rows_written := sw_rows_written w2 + 1,
                       sw_estimated := sw_estimated w2 + row_size r\<rparr>
           in if rotation_due w3 then finalize_segment write_table w3 else Inr w3))"

definition segment_close ::
    "(int \<Rightarrow> jobj list \<Rightarrow> parquet_file) \<Rightarrow> segment_writer \<Rightarrow> segment_writer result" where
  "segment_close write_table w =
     (if sw_closed w then Inr w
      else bind_result (finalize_segment write_table w) (\<lambda>w'. Inr (w'\<lparr>sw_closed := True\<rparr>)))"


section \<open>Names of segment files\<close>

lemma split_on_sep: "split_on c (xs @ c # ys) = split_on c xs @ split_on c ys"
proof (induction xs)
  case (Cons x xs)
  obtain p ps where "split_on c xs = p # ps" by (cases "split_on c xs") simp_all
  with Cons show ?case by simp
qed simp

lemma split_on_none: "c \<notin> set s \<Longrightarrow> split_on c s = [s]"
  by (induction s) auto

lemma join_split: "join_with [c] (split_on c s) = s"
proof (induction s)
  case (Cons x s)
  obtain p ps where ps: "split_on c s = p # ps" by (cases "split_on c s") simp_all
  then show ?case using Cons by (cases ps) simp_all
qed simp

definition decimal_of :: "string \<Rightarrow> nat" where
  "decimal_of s = foldl (\<lambda>a c. 10 * a + (of_char c - 48)) 0 s"

lemma dec_digits_value: "decimal_of (dec_digits n) = n"
proof (induction n rule: dec_digits.induct)
  case (1 n)
  have d: "of_char (char_of (48 + m mod 10 :: nat)) - 48 = m mod 10" for m :: nat
    by (simp add: of_char_of)
  show ?case
  proof (cases "n < 10")
    case True
    then show ?thesis using d [of n] by (subst dec_digits.simps) (simp add: decimal_of_def)
  next
    case False
    have "decimal_of (dec_digits n) = 10 * decimal_of (dec_digits (n div 10)) + n mod 10"
      using False d [of n] by (subst dec_digits.simps) (simp add: decimal_of_def)
    with 1 [OF False] show ?thesis by simp
  qed
qed

text \<open>The characters of a numeral: none is a separator of paths or names.\<close>

definition plain_char :: "char \<Rightarrow> bool" where
  "plain_char c \<longleftrightarrow> (48 :: nat) \<le> of_char c"

lemma plain_charD: "plain_char c \<Longrightarrow> c \<noteq> CHR ''/'' \<and> c \<noteq> CHR ''.'' \<and> c \<noteq> CHR ''-''"
  by (auto simp: plain_char_def)

lemma dec_digits_chars: "list_all plain_char (dec_digits n)"
proof (induction n rule: dec_digits.induct)
  case (1 n)
  have "plain_char (char_of (48 + m mod 10 :: nat))" for m
    by (simp add: plain_char_def of_char_of)
  from this [of n] have "plain_char (char_of (48 + n mod 10))" .
  then show ?case using 1 by (subst dec_digits.simps) (cases "n < 10"; simp)
qed

lemma zero_pad_chars: "list_all plain_char (zero_pad w n)"
  using dec_digits_chars [of n] by (auto simp: zero_pad_def list_all_iff plain_char_def)

lemma zero_pad_inj: "zero_pad w n = zero_pad w m \<Longrightarrow> n = m"
proof -
  have "foldl (\<lambda>a c. 10 * a + (of_char c - 48)) 0 (replicate k CHR ''0'') = (0::nat)" for k
    by (induction k) simp_all
  then have "decimal_of (zero_pad w k) = k" for k
    using dec_digits_value [of k] by (simp add: zero_pad_def decimal_of_def)
  then show "zero_pad w n = zero_pad w m \<Longrightarrow> n = m" by metis
qed

lemma time_name_chars: "list_all plain_char (time_name t)"
  using zero_pad_chars by (simp add: time_name_def Let_def plain_char_def)

definition segment_body :: "nat \<Rightarrow> datetime \<Rightarrow> datetime \<Rightarrow> string" where
  "segment_body n a b =
     ''market-events-'' @ zero_pad 6 n @ ''-'' @ time_name a @ ''-'' @ time_name b"

lemma segment_path_body: "segment_path dir n a b = dir @ CHR ''/'' # segment_body n a b @ ''.parquet''"
  by (simp add: segment_path_def segment_body_def)

lemma segment_body_chars:
  assumes "c \<in> set (segment_body n a b)"
  shows "c \<noteq> CHR ''/'' \<and> c \<noteq> CHR ''.''"
proof -
  have "list_all (\<lambda>c. c \<noteq> CHR ''/'' \<and> c \<noteq> CHR ''.'') (''market-events-'' @ ''-'' @ ''-'')" by simp
  moreover have "list_all (\<lambda>c. c \<noteq> CHR ''/'' \<and> c \<noteq> CHR ''.'') s" if "list_all plain_char s" for s
    using that by (auto simp: list_all_iff dest!: bspec plain_charD)
  ultimately have "list_all (\<lambda>c. c \<noteq> CHR ''/'' \<and> c \<noteq> CHR ''.'') (segment_body n a b)"
    using zero_pad_chars time_name_chars unfolding segment_body_def list_all_append by blast
  with assms show ?thesis by (simp add: list_all_iff)
qed

lemma segment_path_split:
  "split_on CHR ''/'' (segment_path dir n a b) = split_on CHR ''/'' dir @ [segment_body n a b @ ''.parquet'']"
  unfolding segment_path_body split_on_sep
  using segment_body_chars [of _ n a b] by (subst (2) split_on_none) auto

lemma segment_path_parent [simp]: "path_parent (segment_path dir n a b) = dir"
  by (simp add: path_parent_def segment_path_split join_split)

lemma segment_path_name: "path_name (segment_path dir n a b) = segment_body n a b @ ''.parquet''"
  by (simp add: path_name_def segment_path_split)

lemma segment_path_final [simp]: "suffix ''.parquet'' (segment_path dir n a b)"
  unfolding segment_path_body by (intro suffixI [of _ "dir @ CHR ''/'' # segment_body n a b"]) simp

lemma segment_path_not_partial [simp]: "\<not> contains_text ''.partial'' (path_name (segment_path dir n a b))"
proof
  let ?P = "\<lambda>c. c \<noteq> CHR ''.''"
  assume "contains_text ''.partial'' (path_name (segment_path dir n a b))"
  then obtain u v where uv: "segment_body n a b @ ''.parquet'' = u @ ''.partial'' @ v"
    unfolding contains_text_def segment_path_name list_ex_iff
    by (auto simp: suffix_def prefix_def)
  have "dropWhile ?P (segment_body n a b @ ''.parquet'') = ''.parquet''"
    using segment_body_chars [of _ n a b] by (subst dropWhile_append2) auto
  moreover have "dropWhile ?P (u @ ''.partial'' @ v) \<noteq> ''.parquet''"
  proof (cases "\<forall>c \<in> set u. ?P c")
    case True
    then show ?thesis by (subst dropWhile_append2) auto
  next
    case False
    then obtain c where "c \<in> set u" "\<not> ?P c" by blast
    then have "dropWhile ?P (u @ ''.partial'' @ v) = dropWhile ?P u @ ''.partial'' @ v" "dropWhile ?P u \<noteq> []"
      by (auto simp: dropWhile_append1 dropWhile_eq_Nil_conv)
    then have "8 < length (dropWhile ?P (u @ ''.partial'' @ v))" by (simp add: length_greater_0_conv)
    moreover have "length ''.parquet'' = 8" by simp
    ultimately show ?thesis by force
  qed
  ultimately show False using uv by simp
qed

lemma segment_path_inj: "segment_path dir n a b = segment_path dir m a' b' \<Longrightarrow> n = m"
proof -
  assume "segment_path dir n a b = segment_path dir m a' b'"
  then have "zero_pad 6 n @ CHR ''-'' # time_name a @ ''-'' @ time_name b @ ''.parquet'' =
      zero_pad 6 m @ CHR ''-'' # time_name a' @ ''-'' @ time_name b' @ ''.parquet''"
    by (simp add: segment_path_def)
  then have "takeWhile (\<lambda>c. c \<noteq> CHR ''-'') (zero_pad 6 n @ CHR ''-'' # time_name a @ ''-'' @ time_name b @ ''.parquet'') =
      takeWhile (\<lambda>c. c \<noteq> CHR ''-'') (zero_pad 6 m @ CHR ''-'' # time_name a' @ ''-'' @ time_name b' @ ''.parquet'')"
    by (rule arg_cong)
  moreover have "takeWhile (\<lambda>c. c \<noteq> CHR ''-'') (zero_pad 6 k @ CHR ''-'' # ys) = zero_pad 6 k" for k ys
    using zero_pad_chars [of 6 k] plain_charD by (subst takeWhile_append2) (auto simp: list_all_iff)
  ultimately have "zero_pad 6 n = zero_pad 6 m" by simp
  then show "n = m" by (rule zero_pad_inj)
qed


section \<open>What the writer relies on and keeps\<close>

text \<open>pyarrow's writer, and the rows it is given.\<close>

definition file_holds :: "parquet_file \<Rightarrow> jobj list \<Rightarrow> bool" where
  "file_holds f values \<longleftrightarrow>
     pf_schema f = Some (MARKET_EVENT_SCHEMA, ROW_SCHEMA_VERSION) \<and> pf_rows f = values \<and>
     pf_num_rows f = int (length values) \<and> 1 \<le> pf_num_row_groups f \<and> 1 \<le> pf_size f \<and>
     is_sha256 (pf_sha256 f)"

definition table_contract :: "(int \<Rightarrow> jobj list \<Rightarrow> parquet_file) \<Rightarrow> bool" where
  "table_contract write_table \<longleftrightarrow>
     (\<forall>n values. 1 \<le> n \<longrightarrow> values \<noteq> [] \<longrightarrow> file_holds (write_table n values) values)"

definition admissible :: "tape_row \<Rightarrow> bool" where
  "admissible r \<longleftrightarrow>
     tape_row_ok r \<and> row_fits r \<and> py_strip (tr_instrument_id r) = tr_instrument_id r"

text \<open>A batch of rows as the writer publishes it.\<close>

definition batch_ok :: "string \<Rightarrow> tape_row list \<Rightarrow> bool" where
  "batch_ok run_id rows \<longleftrightarrow>
     list_all admissible rows \<and> list_all (\<lambda>r. tr_run_id r = run_id) rows \<and>
     consecutive (map tr_receive_sequence rows)"

fun segment_published :: "string \<Rightarrow> files \<Rightarrow> nat \<Rightarrow> dataset_segment \<Rightarrow> tape_row list \<Rightarrow> bool" where
  "segment_published dir fs n s [] = False"
| "segment_published dir fs n s (r # rs) =
     (sg_path s = segment_path dir n (coverage_start_of r rs) (coverage_end_of r rs) \<and>
      (case map_of fs (sg_path s) of None \<Rightarrow> False
       | Some f \<Rightarrow>
           file_holds f (map arrow_value (r # rs)) \<and>
           s = segment_of n (sg_path s) f (pf_num_row_groups f) r rs))"

lemma dt_min_utc: "instant (dt_min (to_utc a) (map to_utc bs)) = instant (dt_min a bs)"
proof (induction bs arbitrary: a)
  case (Cons b bs)
  have "dt_min2 (to_utc a) (to_utc b) = to_utc (dt_min2 a b)" by (simp add: dt_min2_def)
  with Cons show ?case by simp
qed simp

lemma dt_max_utc: "instant (dt_max (to_utc a) (map to_utc bs)) = instant (dt_max a bs)"
proof (induction bs arbitrary: a)
  case (Cons b bs)
  have "dt_max2 (to_utc a) (to_utc b) = to_utc (dt_max2 a b)" by (simp add: dt_max2_def)
  with Cons show ?case by simp
qed simp

lemma canonical_row_fields [simp]:
  "tr_receive_sequence (canonical_row r) = tr_receive_sequence r"
  "tr_receive_ts (canonical_row r) = to_utc (tr_receive_ts r)"
  "tr_instrument_id (canonical_row r) = tr_instrument_id r"
  "tr_run_id (canonical_row r) = tr_run_id r"
  "data_channel_for_row (canonical_row r) = data_channel_for_row r"
  by (simp_all add: canonical_row_def data_channel_for_row_def)

lemma summary_canonical:
  "summary_matches (segment_of n p f g r rs)
     (segment_of m p f g (canonical_row r) (map canonical_row rs))"
proof -
  have stamps: "map tr_receive_ts (map canonical_row rs) = map to_utc (map tr_receive_ts rs)" by simp
  have "instant (coverage_start_of r rs) = instant (coverage_start_of (canonical_row r) (map canonical_row rs))"
    "instant (coverage_end_of r rs) = instant (coverage_end_of (canonical_row r) (map canonical_row rs))"
    unfolding coverage_start_of_def coverage_end_of_def stamps canonical_row_fields
    by (rule dt_min_utc [symmetric], rule dt_max_utc [symmetric])
  then show ?thesis
    by (simp add: summary_matches_def segment_of_def comp_def last_map)
qed

lemma file_holds_rows:
  assumes "file_holds f (map arrow_value rows)" and "list_all admissible rows"
  shows "all_parquet_rows f = (map canonical_row rows, None)"
  using assms
  by (intro all_parquet_rows_eq) (auto simp: file_holds_def list_all_iff admissible_def)

lemma consecutive_canonical:
  "consecutive (map tr_receive_sequence (map canonical_row rows)) = consecutive (map tr_receive_sequence rows)"
  by (simp add: comp_def)

text \<open>A published batch passes its own validation, and its description is its metadata.\<close>

lemma published_valid:
  assumes p: "segment_published dir fs n s rows" and b: "batch_ok run_id rows"
  shows "validate_segment fs s = Inr ()"
proof -
  obtain r rs where rows: "rows = r # rs" using p by (cases rows) auto
  obtain f where f: "map_of fs (sg_path s) = Some f" "file_holds f (map arrow_value rows)"
      "s = segment_of n (sg_path s) f (pf_num_row_groups f) r rs"
      "sg_path s = segment_path dir n (coverage_start_of r rs) (coverage_end_of r rs)"
    using p by (auto simp: rows split: option.splits)
  have read: "all_parquet_rows f = (map canonical_row rows, None)"
    using file_holds_rows [OF f(2)] b by (simp add: batch_ok_def)
  have footer: "validate_parquet_schema f = Inr (int (length rows), pf_num_row_groups f)"
    using canonical_schema_accepted [of f] f(2) by (simp add: file_holds_def)
  have fields: "sg_rows s = int (length rows)" "sg_row_groups s = pf_num_row_groups f"
      "sg_bytes s = pf_size f" "sg_sha256 s = pf_sha256 f"
    by (subst f(3), simp add: segment_of_def rows)+
  have "summary_matches s (segment_of 0 (sg_path s) f (pf_num_row_groups f) (canonical_row r)
      (map canonical_row rs))"
    by (subst (1) f(3)) (rule summary_canonical)
  moreover have "\<not> contains_text ''.partial'' (path_name (sg_path s))" unfolding f(4) by simp
  moreover have "consecutive (map tr_receive_sequence (map canonical_row rows))"
    using b consecutive_canonical by (simp add: batch_ok_def)
  ultimately show ?thesis
    using f(1) read footer fields by (simp add: validate_segment_def collected_def rows)
qed

text \<open>The \<open>DatasetSegment\<close> constructor accepts it unchanged.\<close>

lemma path_stripped:
  assumes "prefix ''/'' dir"
  shows "py_strip (segment_path dir n a b) = segment_path dir n a b"
proof -
  obtain rest where dir: "dir = CHR ''/'' # rest" using assms by (auto simp: prefix_def)
  have "dropWhile py_isspace (segment_path dir n a b) = segment_path dir n a b"
    by (rule dropWhile_hd_id) (simp add: segment_path_def dir py_isspace_def Let_def)
  moreover have "dropWhile py_isspace (rev (segment_path dir n a b)) = rev (segment_path dir n a b)"
    by (rule dropWhile_hd_id) (simp add: segment_path_def py_isspace_def Let_def)
  ultimately show ?thesis by (simp add: py_strip_def)
qed

lemma segment_of_valid:
  assumes dir: "prefix ''/'' dir" and n: "1 \<le> n" and b: "batch_ok run_id (r # rs)"
    and f: "file_holds f (map arrow_value (r # rs))"
    and path: "path = segment_path dir n (coverage_start_of r rs) (coverage_end_of r rs)"
  shows "segment_validate (segment_of n path f (pf_num_row_groups f) r rs) =
    Inr (segment_of n path f (pf_num_row_groups f) r rs)"
proof -
  let ?s = "segment_of n path f (pf_num_row_groups f) r rs"
  have rows: "\<forall>x \<in> set (r # rs). admissible x" using b by (simp add: batch_ok_def list_all_iff)
  have "non_empty path ''segment path'' = Inr path"
    unfolding non_empty_Inr path path_stripped [OF dir] by (simp add: segment_path_def)
  moreover have "is_sha256 (pf_sha256 f)" using f by (simp add: file_holds_def)
  moreover have "clean_channels m (sg_channels ?s) = Inr (sg_channels ?s)" for m
    by (simp add: clean_channels_Inr segment_of_def)
  moreover have "clean_instruments m (sg_instrument_ids ?s) = Inr (sg_instrument_ids ?s)" for m
  proof -
    have "\<forall>x \<in> set (sg_instrument_ids ?s). py_strip x = x \<and> x \<noteq> []"
      using rows tape_row_ok_facts(3) by (auto simp: segment_of_def admissible_def)
    then have "map py_strip (sg_instrument_ids ?s) = sg_instrument_ids ?s"
        "list_all (\<lambda>x. py_strip x \<noteq> []) (sg_instrument_ids ?s)"
      by (auto simp: list_all_iff intro: map_idI)
    then show ?thesis unfolding clean_instruments_Inr by (simp add: segment_of_def)
  qed
  moreover have "first_error (segment_bounds_checks ?s) = None"
  proof -
    have aware: "\<forall>x \<in> set (tr_receive_ts r # map tr_receive_ts rs). is_aware x"
      using rows tape_row_ok_facts(1) by (auto simp: admissible_def)
    have cover: "is_aware (coverage_start_of r rs)" "is_aware (coverage_end_of r rs)"
      using aware dt_min_in [of "tr_receive_ts r" "map tr_receive_ts rs"]
        dt_max_in [of "tr_receive_ts r" "map tr_receive_ts rs"]
      unfolding coverage_start_of_def coverage_end_of_def by blast+
    have order: "instant (coverage_start_of r rs) \<le> instant (coverage_end_of r rs)"
      using dt_min_le [of "tr_receive_ts r" "map tr_receive_ts rs"]
        dt_max_ge [of "tr_receive_ts r" "map tr_receive_ts rs"]
      unfolding coverage_start_of_def coverage_end_of_def by linarith
    have seq: "1 \<le> tr_receive_sequence r"
      using rows tape_row_ok_facts(2) by (simp add: admissible_def)
    have "consecutive (map tr_receive_sequence (r # rs))" using b unfolding batch_ok_def by blast
    from consecutive_last [OF this]
    have final: "tr_receive_sequence (last (r # rs)) = tr_receive_sequence r + int (length (r # rs)) - 1"
      using last_map [of "r # rs" tr_receive_sequence] by simp
    show ?thesis
      using cover order seq final f n
      by (simp add: segment_bounds_checks_def segment_of_def file_holds_def ROW_SCHEMA_VERSION_def)
  qed
  ultimately show ?thesis by (simp add: segment_validate_def segment_of_def Let_def)
qed


section \<open>The invariant of the writer\<close>

text \<open>The rotation bounds, for a published batch and for the buffered rows: at most \<open>max_rows\<close> rows, all
  received within \<open>max_duration\<close> of the first, and below \<open>max_bytes\<close> before the last one came.\<close>

definition batch_bounded :: "(tape_row \<Rightarrow> int) \<Rightarrow> segment_writer \<Rightarrow> tape_row list \<Rightarrow> bool" where
  "batch_bounded row_size w rows \<longleftrightarrow>
     int (length rows) \<le> sw_max_rows w \<and>
     (\<forall>x \<in> set rows. instant (tr_receive_ts x) - instant (tr_receive_ts (hd rows)) < sw_max_duration w) \<and>
     sum_list (map row_size (butlast rows)) < sw_max_bytes w"

text \<open>\<open>parts\<close> are the rows of the published segments, \<open>rows\<close> everything accepted so far.\<close>

definition writer_core ::
    "(tape_row \<Rightarrow> int) \<Rightarrow> tape_row list list \<Rightarrow> tape_row list \<Rightarrow> segment_writer \<Rightarrow> bool" where
  "writer_core row_size parts rows w \<longleftrightarrow>
     prefix ''/'' (sw_dir w) \<and> 1 \<le> sw_max_rows w \<and> 0 < sw_max_duration w \<and> 1 \<le> sw_max_bytes w \<and>
     1 \<le> sw_row_group_size w \<and>
     rows = concat parts @ sw_rows w \<and> batch_ok (sw_run_id w) rows \<and>
     length parts = length (sw_segments w) \<and>
     (\<forall>i < length parts. segment_published (sw_dir w) (sw_files w) (Suc i) (sw_segments w ! i) (parts ! i)) \<and>
     list_all (batch_bounded row_size w) parts \<and>
     set (final_files (sw_dir w) (sw_files w)) = set (map sg_path (sw_segments w)) \<and>
     sw_bytes_written w = sum_list (map sg_bytes (sw_segments w)) \<and>
     sw_estimated w = sum_list (map row_size (sw_rows w)) \<and>
     batch_bounded row_size w (sw_rows w)"

lemma batch_bounded_cong:
  "sw_max_rows w' = sw_max_rows w \<Longrightarrow> sw_max_duration w' = sw_max_duration w \<Longrightarrow>
     sw_max_bytes w' = sw_max_bytes w \<Longrightarrow> batch_bounded row_size w' = batch_bounded row_size w"
  by (simp add: batch_bounded_def fun_eq_iff)

definition writer_ok ::
    "(tape_row \<Rightarrow> int) \<Rightarrow> tape_row list list \<Rightarrow> tape_row list \<Rightarrow> segment_writer \<Rightarrow> bool" where
  "writer_ok row_size parts rows w \<longleftrightarrow>
     writer_core row_size parts rows w \<and> \<not> rotation_due w \<and>
     sw_rows_written w = int (length rows) \<and>
     sw_prior w = (if rows = [] then None else Some (tr_receive_sequence (last rows)))"

lemma batch_ok_parts: "batch_ok run_id (xs @ ys) \<Longrightarrow> batch_ok run_id xs \<and> batch_ok run_id ys"
  by (simp add: batch_ok_def consecutive_append)

lemma batch_ok_concat: "batch_ok run_id (concat parts) \<Longrightarrow> p \<in> set parts \<Longrightarrow> batch_ok run_id p"
  by (induction parts) (auto dest: batch_ok_parts)

lemma published_other_file:
  "segment_published dir fs n s p \<Longrightarrow> path \<noteq> sg_path s \<Longrightarrow> segment_published dir (AList.update path f fs) n s p"
  by (cases p) (auto simp: dict_simps split: option.splits)

lemma published_path: "segment_published dir fs n s p \<Longrightarrow> \<exists>a b. sg_path s = segment_path dir n a b"
  by (cases p) auto

lemma rows_to_arrow:
  "list_all admissible rows \<Longrightarrow> map_result row_to_arrow rows = Inr (map arrow_value rows)"
  by (induction rows) (simp_all add: admissible_def row_to_arrow_ok)

text \<open>What no operation changes, and that segments are only added.\<close>

definition writer_kept :: "segment_writer \<Rightarrow> segment_writer \<Rightarrow> bool" where
  "writer_kept w' w \<longleftrightarrow>
     sw_closed w' = sw_closed w \<and> sw_run_id w' = sw_run_id w \<and> sw_max_rows w' = sw_max_rows w \<and>
     sw_max_duration w' = sw_max_duration w \<and> sw_max_bytes w' = sw_max_bytes w \<and>
     sw_dir w' = sw_dir w \<and> prefix (sw_segments w) (sw_segments w')"

lemma writer_kept_trans: "writer_kept a b \<Longrightarrow> writer_kept b c \<Longrightarrow> writer_kept a c"
  by (auto simp: writer_kept_def intro: prefix_order.trans)

text \<open>Closing a segment: the buffered rows become one more published batch.\<close>

lemma finalize_ok:
  assumes c: "table_contract write_table" and core: "writer_core row_size parts rows w"
  shows "\<exists>w' parts'. finalize_segment write_table w = Inr w' \<and> writer_core row_size parts' rows w' \<and>
    sw_rows w' = [] \<and> sw_rows_written w' = sw_rows_written w \<and> sw_prior w' = sw_prior w \<and>
    writer_kept w' w"
proof (cases "sw_rows w")
  case Nil
  with core show ?thesis by (intro exI [of _ w] exI [of _ parts]) (simp add: finalize_segment_def writer_kept_def)
next
  case (Cons r rs)
  note core' = core [unfolded writer_core_def]
  define n where "n = length (sw_segments w) + 1"
  define path where "path = segment_path (sw_dir w) n (coverage_start_of r rs) (coverage_end_of r rs)"
  define f where
    "f = write_table (min (sw_row_group_size w) (int (length (r # rs)))) (map arrow_value (r # rs))"
  define s where "s = segment_of n path f (pf_num_row_groups f) r rs"
  have b: "batch_ok (sw_run_id w) (r # rs)" using core' batch_ok_parts unfolding Cons by blast
  have arrows: "map_result row_to_arrow (r # rs) = Inr (map arrow_value (r # rs))"
    using b unfolding batch_ok_def by (intro rows_to_arrow) blast
  have f: "file_holds f (map arrow_value (r # rs))"
    using c core' unfolding table_contract_def f_def by auto
  have footer: "validate_parquet_schema f = Inr (int (length (r # rs)), pf_num_row_groups f)"
    using canonical_schema_accepted [of f] f by (simp add: file_holds_def)
  have valid: "segment_validate s = Inr s"
    unfolding s_def using core' b f path_def by (intro segment_of_valid) (auto simp: n_def)
  define w' where "w' = w\<lparr>sw_files := AList.update path f (sw_files w),
    sw_segments := sw_segments w @ [s], sw_pending := sw_pending w @ [s],
    sw_bytes_written := sw_bytes_written w + sg_bytes s, sw_rows := [], sw_estimated := 0\<rparr>"
  have run: "finalize_segment write_table w = Inr w'"
    unfolding finalize_segment_def Cons list.case Let_def n_def [symmetric] path_def [symmetric] arrows
      bind_result_simps f_def [symmetric] footer prod.case s_def [symmetric] valid
    by (simp add: w'_def)
  have sp: "sg_path s = path" by (simp add: s_def segment_of_def)
  have new: "segment_published (sw_dir w) (AList.update path f (sw_files w)) n s (r # rs)"
    using f by (simp add: sp dict_simps path_def [symmetric]) (simp add: s_def)
  have old: "segment_published (sw_dir w) (AList.update path f (sw_files w)) (Suc i) (sw_segments w ! i) (parts ! i)"
    if "i < length parts" for i
  proof (rule published_other_file)
    show p: "segment_published (sw_dir w) (sw_files w) (Suc i) (sw_segments w ! i) (parts ! i)"
      using core' that by blast
    show "path \<noteq> sg_path (sw_segments w ! i)"
      using published_path [OF p] segment_path_inj that core' unfolding path_def n_def by fastforce
  qed
  have files: "set (final_files (sw_dir w) (AList.update path f (sw_files w))) =
      set (map sg_path (sw_segments w @ [s]))"
  proof -
    have "path_parent path = sw_dir w" "suffix ''.parquet'' path" by (simp_all add: path_def)
    then have "set (final_files (sw_dir w) (AList.update path f (sw_files w))) =
        insert path (set (final_files (sw_dir w) (sw_files w)))"
      by (auto simp: final_files_def dict_simps)
    then show ?thesis using core' by (simp add: sp)
  qed
  have bounded: "batch_bounded row_size w' = batch_bounded row_size w"
    by (rule batch_bounded_cong) (simp_all add: w'_def)
  have "writer_core row_size (parts @ [r # rs]) rows w'"
    unfolding writer_core_def
    unfolding bounded
    using core' new old files Cons by (auto simp: w'_def nth_append less_Suc_eq n_def batch_bounded_def)
  moreover have "sw_rows w' = [] \<and> sw_rows_written w' = sw_rows_written w \<and> sw_prior w' = sw_prior w \<and>
    writer_kept w' w"
    by (simp add: w'_def writer_kept_def)
  ultimately show ?thesis using run by blast
qed


text \<open>A row is accepted exactly when the writer is open, the run is the dataset's and the sequence goes
  on; nothing else can fail.\<close>

definition write_refused :: "segment_writer \<Rightarrow> tape_row \<Rightarrow> exn option" where
  "write_refused w r =
     first_error
       [(sw_closed w, ValueError ''cannot write to a closed segmented dataset''),
        (tr_run_id r \<noteq> sw_run_id w,
         ValueError ''row run_id does not match the logical run ID of the dataset''),
        (\<not> opt_ok (\<lambda>p. tr_receive_sequence r = p + 1) (sw_prior w),
         TapeIntegrityError ''receive sequence must remain contiguous across segments'')]"

lemma write_refused_error:
  "write_refused w r = Some e \<Longrightarrow> segment_write row_size write_table w r = Inl e"
  by (simp add: write_refused_def segment_write_def split: if_splits)

lemma writer_core_prior: "writer_core row_size parts rows (w\<lparr>sw_prior := p\<rparr>) = writer_core row_size parts rows w"
proof -
  have "batch_bounded row_size (w\<lparr>sw_prior := p\<rparr>) = batch_bounded row_size w"
    by (rule batch_bounded_cong) simp_all
  then show ?thesis by (simp add: writer_core_def)
qed

lemma write_accepted:
  assumes c: "table_contract write_table" and ok: "writer_ok row_size parts rows w"
    and r: "admissible r" and accepted: "write_refused w r = None"
  shows "\<exists>w' parts'. segment_write row_size write_table w r = Inr w' \<and>
    writer_ok row_size parts' (rows @ [r]) w' \<and> writer_kept w' w"
proof -
  note core = ok [unfolded writer_ok_def, THEN conjunct1]
  note core' = core [unfolded writer_core_def]
  have guards: "\<not> sw_closed w" "tr_run_id r = sw_run_id w"
      "opt_ok (\<lambda>p. tr_receive_sequence r = p + 1) (sw_prior w)"
    using accepted by (simp_all add: write_refused_def split: if_splits)
  define w1 where "w1 = w\<lparr>sw_prior := Some (tr_receive_sequence r)\<rparr>"
  define expired where "expired = (case sw_rows w of [] \<Rightarrow> False
      | r0 # _ \<Rightarrow> instant (tr_receive_ts r) - instant (tr_receive_ts r0) \<ge> sw_max_duration w)"
  have core1: "writer_core row_size parts rows w1" using core by (simp add: w1_def writer_core_prior)
  obtain w2 parts2 where w2:
      "(if expired then finalize_segment write_table w1 else Inr w1) = Inr w2"
      "writer_core row_size parts2 rows w2" "writer_kept w2 w"
      "sw_rows_written w2 = sw_rows_written w" "sw_prior w2 = Some (tr_receive_sequence r)"
      "expired \<Longrightarrow> sw_rows w2 = []" "\<not> expired \<Longrightarrow> w2 = w1"
    using finalize_ok [OF c core1] core1
    by (cases expired) (auto simp: writer_kept_def w1_def)
  have bounded2: "batch_bounded row_size w2 (sw_rows w2)" using w2(2) by (simp add: writer_core_def)
  have window: "\<forall>x \<in> set (sw_rows w2 @ [r]).
      instant (tr_receive_ts x) - instant (tr_receive_ts (hd (sw_rows w2 @ [r]))) < sw_max_duration w2"
  proof (cases "sw_rows w2")
    case Nil
    have "0 < sw_max_duration w2" using w2(2) by (simp add: writer_core_def)
    then show ?thesis by (simp add: Nil)
  next
    case (Cons r0 rest)
    then have "\<not> expired" using w2(6) by auto
    then have "instant (tr_receive_ts r) - instant (tr_receive_ts r0) < sw_max_duration w2"
      using w2(7) Cons by (simp add: expired_def w1_def not_le)
    then show ?thesis using bounded2 by (auto simp: batch_bounded_def Cons)
  qed
  have small: "int (length (sw_rows w2)) < sw_max_rows w2 \<and> sw_estimated w2 < sw_max_bytes w2"
  proof (cases expired)
    case True
    then show ?thesis using w2(2,6) by (simp add: writer_core_def)
  next
    case False
    then show ?thesis using ok w2(7) by (simp add: w1_def writer_ok_def rotation_due_def)
  qed
  define w3 where "w3 = w2\<lparr>sw_rows := sw_rows w2 @ [r], sw_rows_written := sw_rows_written w2 + 1,
    sw_estimated := sw_estimated w2 + row_size r\<rparr>"
  have before: "batch_ok (sw_run_id w) rows" using core' by blast
  have prior: "sw_prior w = (if rows = [] then None else Some (tr_receive_sequence (last rows)))"
    using ok by (simp add: writer_ok_def)
  have "consecutive (map tr_receive_sequence (rows @ [r]))"
    using before guards(3) unfolding prior batch_ok_def
    by (cases "rows = []") (simp_all add: consecutive_snoc last_map)
  then have batch: "batch_ok (sw_run_id w2) (rows @ [r])"
    using before r guards(2) w2(3) by (simp add: batch_ok_def writer_kept_def)
  have bounded3: "batch_bounded row_size w3 = batch_bounded row_size w2"
    by (rule batch_bounded_cong) (simp_all add: w3_def)
  have "batch_bounded row_size w2 (sw_rows w2 @ [r])"
    using w2(2) window small unfolding batch_bounded_def writer_core_def by (simp add: butlast_append)
  then have core3: "writer_core row_size parts2 (rows @ [r]) w3"
    using w2(2) batch unfolding writer_core_def bounded3 by (simp add: w3_def)
  obtain w4 parts4 where w4:
      "(if rotation_due w3 then finalize_segment write_table w3 else Inr w3) = Inr w4"
      "writer_core row_size parts4 (rows @ [r]) w4" "writer_kept w4 w3" "\<not> rotation_due w4"
      "sw_rows_written w4 = sw_rows_written w3" "sw_prior w4 = sw_prior w3"
  proof (cases "rotation_due w3")
    case True
    obtain w' parts' where w': "finalize_segment write_table w3 = Inr w'"
        "writer_core row_size parts' (rows @ [r]) w'" "sw_rows w' = []" "writer_kept w' w3"
        "sw_rows_written w' = sw_rows_written w3" "sw_prior w' = sw_prior w3"
      using finalize_ok [OF c core3] by blast
    then have "\<not> rotation_due w'" by (simp add: rotation_due_def writer_core_def)
    show thesis by (rule that [of w' parts']) (use w' True \<open>\<not> rotation_due w'\<close> in simp_all)
  next
    case False
    with core3 show thesis by (intro that [of w3]) (simp_all add: writer_kept_def)
  qed
  have run: "segment_write row_size write_table w r = Inr w4"
    using guards w2(1) w4(1)
    by (cases "rotation_due w3")
      (simp_all add: segment_write_def Let_def expired_def [symmetric] w1_def [symmetric] w3_def [symmetric])
  have "writer_ok row_size parts4 (rows @ [r]) w4"
    using w4 w2(4,5) ok by (simp add: writer_ok_def w3_def)
  moreover have "writer_kept w3 w" using w2(3) by (simp add: writer_kept_def w3_def)
  then have "writer_kept w4 w" using w4(3) writer_kept_trans by blast
  ultimately show ?thesis using run by blast
qed


section \<open>What a store holds\<close>

definition read_back :: "files \<Rightarrow> dataset_segment \<Rightarrow> tape_row list" where
  "read_back fs s =
     (case map_of fs (sg_path s) of None \<Rightarrow> [] | Some f \<Rightarrow> fst (all_parquet_rows f))"

definition store_holds :: "segment_writer \<Rightarrow> tape_row list \<Rightarrow> bool" where
  "store_holds w rows \<longleftrightarrow>
     concat (map (read_back (sw_files w)) (sw_segments w)) = map canonical_row rows \<and>
     list_all (\<lambda>s. validate_segment (sw_files w) s = Inr ()) (sw_segments w) \<and>
     list_all segment_ok (sw_segments w) \<and>
     segment_numbers_ok (sw_segments w) \<and> sequences_contiguous (sw_segments w) \<and>
     sum_list (map sg_rows (sw_segments w)) = int (length rows)"

lemma published_facts:
  assumes p: "segment_published dir fs n s rows" and b: "batch_ok run_id rows" and "prefix ''/'' dir" and "1 \<le> n"
  shows "read_back fs s = map canonical_row rows" and "segment_ok s" and "rows \<noteq> []"
    and "sg_rows s = int (length rows)" and "sg_segment_number s = int n"
    and "sg_first_receive_sequence s = tr_receive_sequence (hd rows)"
    and "sg_last_receive_sequence s = tr_receive_sequence (last rows)"
    and "path_parent (sg_path s) = dir"
proof -
  obtain r rs where rows: "rows = r # rs" using p by (cases rows) auto
  obtain f where f: "map_of fs (sg_path s) = Some f" "file_holds f (map arrow_value rows)"
      "s = segment_of n (sg_path s) f (pf_num_row_groups f) r rs"
      "sg_path s = segment_path dir n (coverage_start_of r rs) (coverage_end_of r rs)"
    using p by (auto simp: rows split: option.splits)
  show "read_back fs s = map canonical_row rows"
    using f(1) file_holds_rows [OF f(2)] b by (simp add: read_back_def batch_ok_def)
  show "segment_ok s"
    unfolding segment_ok_def
    using segment_of_valid [OF assms(3,4) b [unfolded rows] f(2) [unfolded rows] f(4)] f(3) by metis
  show "rows \<noteq> []" by (simp add: rows)
  show "sg_rows s = int (length rows)" "sg_segment_number s = int n"
      "sg_first_receive_sequence s = tr_receive_sequence (hd rows)"
      "sg_last_receive_sequence s = tr_receive_sequence (last rows)"
    by (subst f(3), simp add: segment_of_def rows)+
  show "path_parent (sg_path s) = dir" unfolding f(4) by simp
qed

lemma consecutive_concat:
  "consecutive (concat pss) \<Longrightarrow> \<forall>p \<in> set pss. p \<noteq> [] \<Longrightarrow> Suc i < length pss \<Longrightarrow>
     hd (pss ! Suc i) = last (pss ! i) + 1"
proof (induction pss arbitrary: i)
  case (Cons p pss)
  show ?case
  proof (cases i)
    case 0
    obtain q rest where pss: "pss = q # rest" using Cons.prems(3) by (cases pss) auto
    have "p \<noteq> []" "q \<noteq> []" using Cons.prems(2) pss by auto
    then show ?thesis using Cons.prems(1) by (simp add: 0 pss consecutive_append)
  next
    case (Suc j)
    with Cons show ?thesis by (simp add: consecutive_append)
  qed
qed simp

lemma core_holds:
  assumes core: "writer_core row_size parts rows w"
  shows "store_holds w (concat parts)"
    and "s \<in> set (sw_segments w) \<Longrightarrow> sg_rows s \<le> sw_max_rows w \<and> read_back (sw_files w) s \<noteq> [] \<and>
      (\<forall>x \<in> set (read_back (sw_files w) s). instant (tr_receive_ts x) -
        instant (tr_receive_ts (hd (read_back (sw_files w) s))) < sw_max_duration w)"
proof -
  note core' = core [unfolded writer_core_def]
  have len: "length parts = length (sw_segments w)" using core' by blast
  have all: "batch_ok (sw_run_id w) (concat parts)" using core' batch_ok_parts by blast
  have facts: "segment_published (sw_dir w) (sw_files w) (Suc i) (sw_segments w ! i) (parts ! i)"
      "batch_ok (sw_run_id w) (parts ! i)" if "i < length parts" for i
    using core' that batch_ok_concat [OF all] by auto
  have pfs: "read_back (sw_files w) (sw_segments w ! i) = map canonical_row (parts ! i)"
      "segment_ok (sw_segments w ! i)" "parts ! i \<noteq> []"
      "sg_rows (sw_segments w ! i) = int (length (parts ! i))"
      "sg_segment_number (sw_segments w ! i) = int (Suc i)"
      "sg_first_receive_sequence (sw_segments w ! i) = tr_receive_sequence (hd (parts ! i))"
      "sg_last_receive_sequence (sw_segments w ! i) = tr_receive_sequence (last (parts ! i))"
      "validate_segment (sw_files w) (sw_segments w ! i) = Inr ()"
    if "i < length parts" for i
    using published_facts [OF facts(1) [OF that] facts(2) [OF that]] core'
      published_valid [OF facts(1) [OF that] facts(2) [OF that]] by auto
  have decoded: "map (read_back (sw_files w)) (sw_segments w) = map (map canonical_row) parts"
    by (rule nth_equalityI) (use len pfs(1) in auto)
  have rows: "map sg_rows (sw_segments w) = map (int \<circ> length) parts"
    by (rule nth_equalityI) (use len pfs(4) in auto)
  have numbers: "segment_numbers_ok (sw_segments w)"
    unfolding segment_numbers_ok_def by (rule nth_equalityI) (use len pfs(5) in \<open>auto simp del: upt_Suc\<close>)
  have contiguous: "sequences_contiguous (sw_segments w)"
    unfolding sequences_contiguous_def list_all_length
  proof (intro allI impI)
    fix i assume "i < length (zip (sw_segments w) (tl (sw_segments w)))"
    then have i: "Suc i < length parts" using len by simp
    have "consecutive (concat (map (map tr_receive_sequence) parts))"
      using all by (simp add: batch_ok_def map_concat)
    from consecutive_concat [OF this, of i] i pfs(3)
    have "tr_receive_sequence (hd (parts ! Suc i)) = tr_receive_sequence (last (parts ! i)) + 1"
      by (force simp: in_set_conv_nth hd_map last_map)
    then show "case zip (sw_segments w) (tl (sw_segments w)) ! i of (previous, current) \<Rightarrow>
        sg_first_receive_sequence current = sg_last_receive_sequence previous + 1"
      using i len pfs(6) [of "Suc i"] pfs(7) [of i] by (simp add: nth_tl)
  qed
  have total: "sum_list (map (int \<circ> length) parts) = int (length (concat parts))"
    by (induction parts) simp_all
  show "store_holds w (concat parts)"
    unfolding store_holds_def
    using decoded rows numbers contiguous total pfs(2,8) len
    by (auto simp: map_concat list_all_length)
  assume "s \<in> set (sw_segments w)"
  then obtain i where i: "i < length parts" "s = sw_segments w ! i" using len by (auto simp: in_set_conv_nth)
  have "batch_bounded row_size w (parts ! i)" using core' i(1) by (simp add: list_all_length)
  then show "sg_rows s \<le> sw_max_rows w \<and> read_back (sw_files w) s \<noteq> [] \<and>
      (\<forall>x \<in> set (read_back (sw_files w) s). instant (tr_receive_ts x) -
        instant (tr_receive_ts (hd (read_back (sw_files w) s))) < sw_max_duration w)"
    using pfs(1,3,4) [OF i(1)] by (auto simp: i(2) batch_bounded_def hd_map)
qed


section \<open>Runs, closing and resuming\<close>

lemma fresh_writer:
  assumes "segment_writer_init dir ds run max_rows dur bytes group_size [] resume dir_exists fs = Inr w"
    and "prefix ''/'' dir"
  shows "writer_ok row_size [] [] w" and "sw_segments w = []" and "sw_max_rows w = max_rows"
    and "sw_max_duration w = dur" and "\<not> sw_closed w" and "sw_dir w = dir"
    and "sw_run_id w = (if absent_text run then ds else the run)"
  using assms
  by (auto simp: segment_writer_init_def Let_def writer_ok_def writer_core_def batch_ok_def
      batch_bounded_def rotation_due_def split: if_splits)

lemma write_step:
  assumes "table_contract write_table" and "writer_ok row_size parts rows w" and "admissible r"
    and "segment_write row_size write_table w r = Inr w'"
  shows "\<exists>parts'. writer_ok row_size parts' (rows @ [r]) w' \<and> writer_kept w' w"
proof (cases "write_refused w r")
  case None
  from write_accepted [OF assms(1-3) None] assms(4) show ?thesis by auto
next
  case (Some e)
  from write_refused_error [OF Some] assms(4) show ?thesis by auto
qed

lemma write_run:
  assumes "table_contract write_table"
  shows "writer_ok row_size parts rows w \<Longrightarrow> list_all admissible new \<Longrightarrow>
    fold_result (segment_write row_size write_table) w new = Inr w' \<Longrightarrow>
    \<exists>parts'. writer_ok row_size parts' (rows @ new) w' \<and> writer_kept w' w"
proof (induction new arbitrary: rows parts w)
  case Nil
  then show ?case by (auto simp: writer_kept_def)
next
  case (Cons r new)
  from Cons.prems(3) obtain w1 where w1: "segment_write row_size write_table w r = Inr w1"
      "fold_result (segment_write row_size write_table) w1 new = Inr w'"
    unfolding fold_result.simps bind_result_Inr by blast
  obtain parts1 where step: "writer_ok row_size parts1 (rows @ [r]) w1" "writer_kept w1 w"
    using write_step [OF assms Cons.prems(1) _ w1(1)] Cons.prems(2) by auto
  from Cons.IH [OF step(1) _ w1(2)] Cons.prems(2) step(2) show ?case
    by (auto intro: writer_kept_trans)
qed

lemma close_ok:
  assumes "table_contract write_table" and "writer_ok row_size parts rows w" and "\<not> sw_closed w"
  shows "\<exists>w' parts'. segment_close write_table w = Inr w' \<and> sw_closed w' \<and> store_holds w' rows \<and>
    writer_core row_size parts' rows w' \<and> sw_max_rows w' = sw_max_rows w \<and>
    sw_max_duration w' = sw_max_duration w \<and> sw_rows_written w' = int (length rows)"
proof -
  obtain w1 parts1 where w1: "finalize_segment write_table w = Inr w1"
      "writer_core row_size parts1 rows w1" "sw_rows w1 = []" "writer_kept w1 w"
      "sw_rows_written w1 = sw_rows_written w"
    using finalize_ok [OF assms(1)] assms(2) unfolding writer_ok_def by metis
  define w' where "w' = w1\<lparr>sw_closed := True\<rparr>"
  have bounded: "batch_bounded row_size w' = batch_bounded row_size w1"
    by (rule batch_bounded_cong) (simp_all add: w'_def)
  have core: "writer_core row_size parts1 rows w'"
    using w1(2) unfolding writer_core_def bounded by (auto simp: w'_def)
  have "rows = concat parts1" using w1(2,3) by (simp add: writer_core_def)
  with core_holds(1) [OF core] have "store_holds w' rows" by simp
  then show ?thesis
    using w1 core assms(2,3)
    by (intro exI [of _ w'] exI [of _ parts1])
      (simp add: segment_close_def w'_def writer_kept_def writer_ok_def)
qed

text \<open>Resuming on the published segments of a writer that stopped at any point.\<close>

lemma resume_checks_ok:
  assumes "\<forall>i < length ss. sg_segment_number (ss ! i) = int (n + i) \<and> path_parent (sg_path (ss ! i)) = dir \<and>
      validate_segment fs (ss ! i) = Inr () \<and>
      (\<exists>f rows. map_of fs (sg_path (ss ! i)) = Some f \<and> all_parquet_rows f = (rows, None) \<and>
        list_all (\<lambda>r. tr_run_id r = run) rows)"
    and "sequences_contiguous ss"
    and "ss \<noteq> [] \<Longrightarrow> opt_ok (\<lambda>p. sg_first_receive_sequence (hd ss) = sg_last_receive_sequence p + 1) prior"
  shows "resume_checks dir run fs n prior ss = Inr ()"
  using assms
proof (induction ss arbitrary: n prior)
  case (Cons s ss)
  have s: "sg_segment_number s = int n" "path_parent (sg_path s) = dir" "validate_segment fs s = Inr ()"
    using Cons.prems(1) by (auto dest: spec [of _ 0])
  obtain f rows where f: "map_of fs (sg_path s) = Some f" "all_parquet_rows f = (rows, None)"
      "\<not> list_ex (\<lambda>r. tr_run_id r \<noteq> run) rows"
    using Cons.prems(1) by (force simp: list_all_iff list_ex_iff dest: spec [of _ 0])
  have rest: "resume_checks dir run fs (n + 1) (Some s) ss = Inr ()"
  proof (rule Cons.IH)
    show "\<forall>i < length ss. sg_segment_number (ss ! i) = int (n + 1 + i) \<and> path_parent (sg_path (ss ! i)) = dir \<and>
      validate_segment fs (ss ! i) = Inr () \<and>
      (\<exists>f rows. map_of fs (sg_path (ss ! i)) = Some f \<and> all_parquet_rows f = (rows, None) \<and>
        list_all (\<lambda>r. tr_run_id r = run) rows)"
    proof (intro allI impI)
      fix i assume "i < length ss"
      then show "sg_segment_number (ss ! i) = int (n + 1 + i) \<and> path_parent (sg_path (ss ! i)) = dir \<and>
        validate_segment fs (ss ! i) = Inr () \<and>
        (\<exists>f rows. map_of fs (sg_path (ss ! i)) = Some f \<and> all_parquet_rows f = (rows, None) \<and>
          list_all (\<lambda>r. tr_run_id r = run) rows)"
        using Cons.prems(1) [rule_format, of "Suc i"] by simp
    qed
    show "sequences_contiguous ss"
      using Cons.prems(2) by (cases ss) (simp_all add: sequences_contiguous_def)
    show "opt_ok (\<lambda>p. sg_first_receive_sequence (hd ss) = sg_last_receive_sequence p + 1) (Some s)" if "ss \<noteq> []"
      using Cons.prems(2) that by (cases ss) (simp_all add: sequences_contiguous_def)
  qed
  show ?case using s f rest Cons.prems(3) by simp
qed simp

lemma resume_ok:
  assumes core: "writer_core row_size parts rows w" and run: "\<not> absent_text run" "sw_run_id w = the run"
  shows "\<exists>w'. segment_writer_init (sw_dir w) ds run (sw_max_rows w) (sw_max_duration w) (sw_max_bytes w)
      (sw_row_group_size w) (sw_segments w) True True (sw_files w) = Inr w' \<and>
    writer_ok row_size parts (concat parts) w' \<and> \<not> sw_closed w' \<and> sw_segments w' = sw_segments w \<and>
    sw_run_id w' = sw_run_id w"
proof -
  note core' = core [unfolded writer_core_def]
  have all: "batch_ok (sw_run_id w) (concat parts)" using core' batch_ok_parts by blast
  have holds: "store_holds w (concat parts)" by (rule core_holds(1) [OF core])
  have len: "length parts = length (sw_segments w)" using core' by blast
  have each: "sg_segment_number (sw_segments w ! i) = int (Suc i) \<and>
      path_parent (sg_path (sw_segments w ! i)) = sw_dir w \<and>
      validate_segment (sw_files w) (sw_segments w ! i) = Inr () \<and>
      sg_last_receive_sequence (sw_segments w ! i) = tr_receive_sequence (last (parts ! i)) \<and> parts ! i \<noteq> [] \<and>
      (\<exists>f rows. map_of (sw_files w) (sg_path (sw_segments w ! i)) = Some f \<and> all_parquet_rows f = (rows, None) \<and>
        list_all (\<lambda>r. tr_run_id r = sw_run_id w) rows)"
    if i: "i < length (sw_segments w)" for i
  proof -
    have p: "segment_published (sw_dir w) (sw_files w) (Suc i) (sw_segments w ! i) (parts ! i)"
      using core' i len by simp
    have b: "batch_ok (sw_run_id w) (parts ! i)" using batch_ok_concat [OF all] i len by simp
    obtain f where f: "map_of (sw_files w) (sg_path (sw_segments w ! i)) = Some f"
        "file_holds f (map arrow_value (parts ! i))"
      using p by (cases "parts ! i") (auto split: option.splits)
    have "all_parquet_rows f = (map canonical_row (parts ! i), None)"
      using file_holds_rows [OF f(2)] b by (simp add: batch_ok_def)
    moreover have "list_all (\<lambda>r. tr_run_id r = sw_run_id w) (map canonical_row (parts ! i))"
      using b by (simp add: batch_ok_def list_all_iff)
    ultimately show ?thesis
      using published_facts [OF p b] published_valid [OF p b] core' f(1) by auto
  qed
  have "resume_checks (sw_dir w) (sw_run_id w) (sw_files w) 1 None (sw_segments w) = Inr ()"
    using each holds by (intro resume_checks_ok) (auto simp: store_holds_def)
  then have checks: "resume_checks (sw_dir w) (the run) (sw_files w) 1 None (sw_segments w) = Inr ()"
    using run(2) by simp
  have prior: "(if sw_segments w = [] then None else Some (sg_last_receive_sequence (last (sw_segments w)))) =
      (if concat parts = [] then None else Some (tr_receive_sequence (last (concat parts))))"
  proof (cases "parts" rule: rev_cases)
    case (snoc ps p)
    define k where "k = length ps"
    have "sw_segments w \<noteq> []" "length (sw_segments w) = Suc k" using len by (auto simp: snoc k_def)
    then have "last (sw_segments w) = sw_segments w ! k" "k < length (sw_segments w)"
      by (simp_all add: last_conv_nth)
    with each [of k] show ?thesis using \<open>sw_segments w \<noteq> []\<close> by (simp add: snoc k_def)
  qed (use len in simp)
  define w' where "w' =
    \<lparr>sw_dir = sw_dir w, sw_dataset_id = ds, sw_run_id = the run, sw_max_rows = sw_max_rows w,
     sw_max_duration = sw_max_duration w, sw_max_bytes = sw_max_bytes w,
     sw_row_group_size = sw_row_group_size w, sw_rows_written = sum_list (map sg_rows (sw_segments w)),
     sw_bytes_written = sum_list (map sg_bytes (sw_segments w)), sw_rows = [], sw_estimated = 0,
     sw_segments = sw_segments w, sw_pending = [],
     sw_prior = (if sw_segments w = [] then None else Some (sg_last_receive_sequence (last (sw_segments w)))),
     sw_closed = False, sw_files = sw_files w\<rparr>"
  have init: "segment_writer_init (sw_dir w) ds run (sw_max_rows w) (sw_max_duration w) (sw_max_bytes w)
      (sw_row_group_size w) (sw_segments w) True True (sw_files w) = Inr w'"
    using core' run(1) checks by (auto simp: segment_writer_init_def w'_def)
  have bounded: "batch_bounded row_size w' = batch_bounded row_size w"
    by (rule batch_bounded_cong) (simp_all add: w'_def)
  have "writer_core row_size parts (concat parts) w'"
    using core' all run(2) unfolding writer_core_def bounded by (simp add: w'_def batch_bounded_def)
  moreover have "\<not> rotation_due w'" using core' by (simp add: rotation_due_def w'_def)
  moreover have "sw_rows_written w' = int (length (concat parts))"
    using holds by (simp add: store_holds_def w'_def)
  ultimately have "writer_ok row_size parts (concat parts) w'"
    using prior by (simp only: writer_ok_def) (simp add: w'_def)
  with init show ?thesis using run(2) by (intro exI [of _ w']) (simp add: w'_def)
qed


section \<open>Digests and the recovery inventory\<close>

text \<open>\<open>segment.model_dump(mode="json")\<close>.\<close>

definition segment_dump :: "dataset_segment \<Rightarrow> jval" where
  "segment_dump s =
     JObj [(''schema_version'', JStr ''1.0.0''),
           (''segment_number'', JInt (sg_segment_number s)),
           (''path'', JStr (sg_path s)),
           (''rows'', JInt (sg_rows s)),
           (''bytes'', JInt (sg_bytes s)),
           (''sha256'', JStr (sg_sha256 s)),
           (''first_receive_sequence'', JInt (sg_first_receive_sequence s)),
           (''last_receive_sequence'', JInt (sg_last_receive_sequence s)),
           (''coverage_start'', JIso (sg_coverage_start s)),
           (''coverage_end'', JIso (sg_coverage_end s)),
           (''channels'', JList (map (\<lambda>c. JStr (channel_str c)) (sg_channels s))),
           (''instrument_ids'', JList (map JStr (sg_instrument_ids s))),
           (''row_groups'', JInt (sg_row_groups s)),
           (''storage_format_version'', JStr ''2.0.0''),
           (''row_schema_version'', JStr (sg_row_schema_version s))]"

definition dataset_digest :: "(jval \<Rightarrow> string) \<Rightarrow> dataset_segment list \<Rightarrow> string" where
  "dataset_digest digest segments = digest (JList (map segment_dump segments))"

text \<open>The digest of the length-prefixed row encodings, and their number; \<open>digest_rows\<close> hashes the list
  of row dictionaries.\<close>

definition canonical_row_digest :: "(jobj list \<Rightarrow> string) \<Rightarrow> tape_row list \<Rightarrow> string \<times> int" where
  "canonical_row_digest digest_rows rows =
     (digest_rows (map tape_row_to_dict rows), int (length rows))"

record recovery_inventory =
  ri_partial_files :: "string list"
  ri_orphan_files :: "string list"
  ri_quarantined_files :: "string list"

definition quarantined_name :: "string \<Rightarrow> string \<Rightarrow> string" where
  "quarantined_name dir p = dir @ ''/quarantine/'' @ path_name p @ ''.quarantined''"

text \<open>\<open>names\<close> are the paths of the files in the dataset directory; the renamed partial files leave it.\<close>

definition inventory_recovery ::
    "string \<Rightarrow> string list \<Rightarrow> dataset_segment list \<Rightarrow> bool \<Rightarrow> recovery_inventory \<times> string list" where
  "inventory_recovery dir names published_segments quarantine_partials =
     (let partials = sort (filter (\<lambda>p. contains_text ''.partial'' (path_name p)) names);
          finals = sort (filter (suffix ''.parquet'') names);
          orphans = filter (\<lambda>p. p \<notin> set (map sg_path published_segments)) finals
      in if quarantine_partials
         then (\<lparr>ri_partial_files = partials, ri_orphan_files = orphans,
                ri_quarantined_files = map (quarantined_name dir) partials\<rparr>,
               filter (\<lambda>p. p \<notin> set partials) names)
         else (\<lparr>ri_partial_files = partials, ri_orphan_files = orphans, ri_quarantined_files = []\<rparr>, names))"

section \<open>The segments are an append-only log\<close>

text \<open>The states of a writer that has accepted some rows, over a table writer that keeps its contract.\<close>

definition writer_reached ::
    "(tape_row \<Rightarrow> int) \<Rightarrow> (int \<Rightarrow> jobj list \<Rightarrow> parquet_file) \<Rightarrow> segment_writer \<Rightarrow> bool" where
  "writer_reached row_size write_table w \<longleftrightarrow>
     table_contract write_table \<and> (\<exists>parts rows. writer_ok row_size parts rows w)"

definition segment_follows :: "dataset_segment \<Rightarrow> dataset_segment \<Rightarrow> bool" where
  "segment_follows a b \<longleftrightarrow>
     sg_segment_number a < sg_segment_number b \<and>
     sg_last_receive_sequence a < sg_first_receive_sequence b \<and>
     sg_first_receive_sequence b \<le> sg_last_receive_sequence b"

lemma segment_ok_order: "segment_ok s \<Longrightarrow> sg_first_receive_sequence s \<le> sg_last_receive_sequence s"
  by (auto simp: segment_ok_def segment_validate_def segment_bounds_checks_def Let_def bind_result_Inr
      split: if_splits option.splits)

lemma store_follows:
  assumes "store_holds w rows"
  shows "successively segment_follows (sw_segments w)"
  unfolding successively_conv_nth
proof (intro allI impI)
  fix i assume i: "Suc i < length (sw_segments w)"
  have numbers: "map sg_segment_number (sw_segments w) = map int [1..<Suc (length (sw_segments w))]"
    using assms by (simp add: store_holds_def segment_numbers_ok_def)
  have "sg_segment_number (sw_segments w ! k) = int (Suc k)" if "k < length (sw_segments w)" for k
    using arg_cong [OF numbers, of "\<lambda>xs. xs ! k"] that by (simp del: upt_Suc)
  moreover have "sg_first_receive_sequence (sw_segments w ! Suc i) =
      sg_last_receive_sequence (sw_segments w ! i) + 1"
    using assms i by (simp add: store_holds_def sequences_contiguous_def list_all_length nth_tl)
  moreover have "segment_ok (sw_segments w ! Suc i)"
    using assms i by (simp add: store_holds_def list_all_length)
  note segment_ok_order [OF this]
  ultimately show "segment_follows (sw_segments w ! i) (sw_segments w ! Suc i)"
    using i by (simp add: segment_follows_def)
qed

interpretation segment_store:
  checked_log sw_segments "segment_write row_size write_table" admissible
    "writer_reached row_size write_table" segment_follows for row_size write_table
proof unfold_locales
  fix w r w'
  assume "writer_reached row_size write_table w" "admissible r" "segment_write row_size write_table w r = Inr w'"
  then obtain parts rows where w: "table_contract write_table" "writer_ok row_size parts rows w" "admissible r"
      "segment_write row_size write_table w r = Inr w'"
    by (auto simp: writer_reached_def)
  from write_step [OF w] w(1) show "writer_reached row_size write_table w'" "prefix (sw_segments w) (sw_segments w')"
    by (auto simp: writer_reached_def writer_kept_def)
next
  fix w assume "writer_reached row_size write_table w"
  then obtain parts rows where "writer_core row_size parts rows w"
    by (auto simp: writer_reached_def writer_ok_def)
  from store_follows [OF core_holds(1) [OF this]] show "successively segment_follows (sw_segments w)" .
next
  fix a b c assume "segment_follows a b" "segment_follows b c"
  then show "segment_follows a c" by (simp add: segment_follows_def)
qed

section \<open>Properties\<close>

lemma run_from_fresh:
  assumes "table_contract write_table" and "prefix ''/'' dir"
    and "segment_writer_init dir ds run max_rows dur bytes group_size [] resume dir_exists fs = Inr w0"
    and "list_all admissible rows" and "fold_result (segment_write row_size write_table) w0 rows = Inr w"
  shows "\<exists>parts. writer_ok row_size parts rows w" and "\<not> sw_closed w" and "sw_max_rows w = max_rows"
    and "sw_max_duration w = dur" and "sw_dir w = dir" and "writer_reached row_size write_table w"
    and "sw_run_id w = (if absent_text run then ds else the run)"
proof -
  note w0 = fresh_writer [OF assms(3,2)]
  obtain parts where p: "writer_ok row_size parts rows w" "writer_kept w w0"
    using write_run [OF assms(1) w0(1) assms(4,5)] by auto
  show "\<exists>parts. writer_ok row_size parts rows w" using p(1) by blast
  show "writer_reached row_size write_table w" using p(1) assms(1) by (auto simp: writer_reached_def)
  show "\<not> sw_closed w" and "sw_max_rows w = max_rows" and "sw_max_duration w = dur" and "sw_dir w = dir"
    and "sw_run_id w = (if absent_text run then ds else the run)"
    using p(2) w0 by (auto simp: writer_kept_def)
qed


text \<open>Rotation keeps every segment within its bounds: whatever rows arrive, every segment of a closed
  dataset is non-empty, has at most \<open>max_rows\<close> rows, and all its rows were received less than
  \<open>max_duration\<close> after its first row.\<close>

theorem segments_bounded:
  assumes "table_contract write_table" and "prefix ''/'' dir"
    and "segment_writer_init dir ds run max_rows dur bytes group_size [] resume dir_exists fs = Inr w0"
    and "list_all admissible rows" and "fold_result (segment_write row_size write_table) w0 rows = Inr w"
    and "segment_close write_table w = Inr w'" and "s \<in> set (sw_segments w')"
  shows "sg_rows s \<le> max_rows \<and> read_back (sw_files w') s \<noteq> [] \<and>
    (\<forall>x \<in> set (read_back (sw_files w') s). instant (tr_receive_ts x) -
      instant (tr_receive_ts (hd (read_back (sw_files w') s))) < dur)"
proof -
  note w = run_from_fresh [OF assms(1-5)]
  obtain parts where "writer_ok row_size parts rows w" using w(1) by blast
  from close_ok [OF assms(1) this w(2)] assms(6) obtain parts' where
    "writer_core row_size parts' rows w'" "sw_max_rows w' = max_rows" "sw_max_duration w' = dur"
    using w(3,4) by auto
  from core_holds(2) [OF this(1) assms(7)] this(2,3) show ?thesis by simp
qed

text \<open>A reached writer refuses a row exactly for the documented reasons, in the order of the source:
  closed, foreign run, or a receive sequence that does not continue the last one; any other
  admissible row is accepted and leaves the published segments in place.\<close>

theorem segment_write_decision:
  assumes "table_contract write_table" and "prefix ''/'' dir"
    and "segment_writer_init dir ds run max_rows dur bytes group_size [] resume dir_exists fs = Inr w0"
    and "list_all admissible rows" and "fold_result (segment_write row_size write_table) w0 rows = Inr w"
    and "admissible r"
  shows "case write_refused w r of
      Some e \<Rightarrow> segment_write row_size write_table w r = Inl e
    | None \<Rightarrow> \<exists>w'. segment_write row_size write_table w r = Inr w' \<and>
        prefix (sw_segments w) (sw_segments w') \<and>
        sw_rows_written w' = sw_rows_written w + 1 \<and> sw_prior w' = Some (tr_receive_sequence r)"
proof (cases "write_refused w r")
  case None
  obtain parts where p: "writer_ok row_size parts rows w" using run_from_fresh(1) [OF assms(1-5)] by blast
  from write_accepted [OF assms(1) p assms(6) None] p show ?thesis
    by (auto simp: None writer_ok_def writer_kept_def)
next
  case (Some e)
  then show ?thesis using write_refused_error by simp
qed


text \<open>Pruning by segment summaries never hides a row: when a row of a published segment lies in the
  window and matches the filters, \<open>segments_overlap_filter\<close> keeps the segment.\<close>

theorem segment_pruning_sound:
  assumes "segment_published dir fs n s rows" and "r \<in> set rows"
    and "in_window start end_ts r" and "wanted_row channels instruments r"
  shows "segments_overlap_filter s start end_ts channels instruments"
proof -
  obtain x xs where rows: "rows = x # xs" using assms(1) by (cases rows) auto
  obtain f where s: "s = segment_of n (sg_path s) f (pf_num_row_groups f) x xs"
    using assms(1) by (auto simp: rows split: option.splits)
  have "instant (coverage_start_of x xs) \<le> instant (tr_receive_ts r) \<and>
      instant (tr_receive_ts r) \<le> instant (coverage_end_of x xs)"
    using dt_min_le [of "tr_receive_ts x" "map tr_receive_ts xs"]
      dt_max_ge [of "tr_receive_ts x" "map tr_receive_ts xs"] assms(2)
    by (auto simp: coverage_start_of_def coverage_end_of_def rows)
  moreover have "sg_coverage_start s = coverage_start_of x xs" "sg_coverage_end s = coverage_end_of x xs"
      "set (sg_channels s) = set (map data_channel_for_row rows)"
      "set (sg_instrument_ids s) = set (map tr_instrument_id rows)"
    by (subst s, simp add: segment_of_def rows)+
  ultimately show ?thesis
    using assms(2-4)
    by (cases start; cases end_ts)
      (auto simp: segments_overlap_filter_def in_window_def wanted_row_def)
qed


text \<open>The table writer, the rows and the run of the witnesses: two rows per segment.\<close>

definition example_table :: "int \<Rightarrow> jobj list \<Rightarrow> parquet_file" where
  "example_table n arrows =
     \<lparr>pf_schema = Some (MARKET_EVENT_SCHEMA, ROW_SCHEMA_VERSION), pf_num_rows = int (length arrows),
      pf_num_row_groups = 1, pf_size = 100, pf_sha256 = replicate 64 CHR ''a'', pf_rows = arrows\<rparr>"

definition example_store :: segment_writer where
  "example_store =
     \<lparr>sw_dir = ''/d'', sw_dataset_id = ''ds-1'', sw_run_id = ''run-1'', sw_max_rows = 2,
      sw_max_duration = 30000000, sw_max_bytes = 100000, sw_row_group_size = 10000,
      sw_rows_written = 0, sw_bytes_written = 0, sw_rows = [], sw_estimated = 0, sw_segments = [],
      sw_pending = [], sw_prior = None, sw_closed = False, sw_files = []\<rparr>"

lemma example_sha_ok: "is_sha256 (replicate 64 CHR ''a'')"
  by code_simp

lemma example_table_contract: "table_contract example_table"
  using example_sha_ok by (simp add: table_contract_def file_holds_def example_table_def)

lemma example_store_init:
  "segment_writer_init ''/d'' ''ds-1'' (Some ''run-1'') 2 30000000 100000 10000 [] False False [] = Inr example_store"
  by code_simp

lemma example_rows_admissible: "list_all admissible stored_rows"
  by code_simp

lemma example_store_run:
  obtains w where "fold_result (segment_write (\<lambda>_. 500) example_table) example_store stored_rows = Inr w"
    and "write_refused w (hd stored_rows) =
      Some (TapeIntegrityError ''receive sequence must remain contiguous across segments'')"
proof -
  have rows: "\<exists>a b c. stored_rows = [a, b, c] \<and> tr_run_id a = ''run-1'' \<and> tr_run_id b = ''run-1'' \<and>
      tr_run_id c = ''run-1'' \<and> map tr_receive_sequence [a, b, c] = [1, 2, 3]"
    by (simp add: stored_rows_def example_row_def)
  then obtain a b c where e: "stored_rows = [a, b, c]" "tr_run_id a = ''run-1''" "tr_run_id b = ''run-1''"
      "tr_run_id c = ''run-1''" "tr_receive_sequence a = 1" "tr_receive_sequence b = 2" "tr_receive_sequence c = 3"
    by auto
  have ad: "admissible a" "admissible b" "admissible c" using example_rows_admissible by (simp_all add: e(1))
  have "prefix ''/'' ''/d''" by simp
  note w0 = fresh_writer [OF example_store_init this]
  have "sw_run_id example_store = ''run-1''" by (simp add: example_store_def)
  note step = write_accepted [OF example_table_contract, where row_size = "\<lambda>_. 500"]
  have "write_refused example_store a = None" by (simp add: write_refused_def e example_store_def)
  from step [OF w0(1) ad(1) this] obtain w1 p1 where
    w1: "segment_write (\<lambda>_. 500) example_table example_store a = Inr w1"
      "writer_ok (\<lambda>_. 500) p1 [a] w1" "writer_kept w1 example_store" by auto
  then have "write_refused w1 b = None"
    by (simp add: write_refused_def e writer_kept_def example_store_def writer_ok_def)
  from step [OF w1(2) ad(2) this] obtain w2 p2 where
    w2: "segment_write (\<lambda>_. 500) example_table w1 b = Inr w2"
      "writer_ok (\<lambda>_. 500) p2 [a, b] w2" "writer_kept w2 w1" by auto
  then have "write_refused w2 c = None"
    using w1(3) by (simp add: write_refused_def e writer_kept_def example_store_def writer_ok_def)
  from step [OF w2(2) ad(3) this] obtain w3 p3 where
    w3: "segment_write (\<lambda>_. 500) example_table w2 c = Inr w3"
      "writer_ok (\<lambda>_. 500) p3 [a, b, c] w3" "writer_kept w3 w2" by auto
  show thesis
  proof (rule that)
    show "fold_result (segment_write (\<lambda>_. 500) example_table) example_store stored_rows = Inr w3"
      by (simp add: e(1) w1(1) w2(1) w3(1))
    show "write_refused w3 (hd stored_rows) =
        Some (TapeIntegrityError ''receive sequence must remain contiguous across segments'')"
      using w1(3) w2(3) w3(2,3) by (auto simp: write_refused_def e writer_kept_def example_store_def writer_ok_def)
  qed
qed


theorem segments_bounded_witness:
  "\<exists>w w'. fold_result (segment_write (\<lambda>_. 500) example_table) example_store stored_rows = Inr w \<and>
     segment_close example_table w = Inr w' \<and> sw_segments w' \<noteq> [] \<and>
     list_all (\<lambda>s. sg_rows s \<le> 2) (sw_segments w')"
proof -
  obtain w where w: "fold_result (segment_write (\<lambda>_. 500) example_table) example_store stored_rows = Inr w"
    using example_store_run by metis
  have dir: "prefix ''/'' ''/d''" by simp
  note run = run_from_fresh [OF example_table_contract dir example_store_init example_rows_admissible w]
  obtain parts where "writer_ok (\<lambda>_. 500) parts stored_rows w" using run(1) by blast
  from close_ok [OF example_table_contract this run(2)] obtain w' where
    w': "segment_close example_table w = Inr w'" "store_holds w' stored_rows" by blast
  have "sw_segments w' \<noteq> []" using w'(2) by (auto simp: store_holds_def stored_rows_def)
  moreover have "sg_rows s \<le> 2" if "s \<in> set (sw_segments w')" for s
    using segments_bounded [OF example_table_contract dir example_store_init example_rows_admissible w w'(1) that]
    by blast
  ultimately show ?thesis using w w'(1) by (auto simp: list_all_iff)
qed

theorem segment_write_decision_witness:
  "\<exists>w. fold_result (segment_write (\<lambda>_. 500) example_table) example_store stored_rows = Inr w \<and>
     segment_write (\<lambda>_. 500) example_table w (hd stored_rows) =
       Inl (TapeIntegrityError ''receive sequence must remain contiguous across segments'')"
proof -
  obtain w where w: "fold_result (segment_write (\<lambda>_. 500) example_table) example_store stored_rows = Inr w"
      "write_refused w (hd stored_rows) =
        Some (TapeIntegrityError ''receive sequence must remain contiguous across segments'')"
    using example_store_run by metis
  have dir: "prefix ''/'' ''/d''" by simp
  have "admissible (hd stored_rows)" using example_rows_admissible by (simp add: stored_rows_def)
  from segment_write_decision [OF example_table_contract dir example_store_init example_rows_admissible w(1) this]
  show ?thesis using w by auto
qed


theorem segment_pruning_sound_witness:
  "segments_overlap_filter
     (segment_of 1 (segment_path ''/d'' 1 (tr_receive_ts example_row) (tr_receive_ts example_row))
       (example_table 1 [arrow_value example_row]) 1 example_row [])
     (Some (Aware 1000000 0)) None [STANDARD] []"
proof (rule segment_pruning_sound [where r = example_row and rows = "[example_row]" and dir = "''/d''" and n = 1
      and fs = "[(segment_path ''/d'' 1 (tr_receive_ts example_row) (tr_receive_ts example_row),
        example_table 1 [arrow_value example_row])]"])
  show "segment_published ''/d''
     [(segment_path ''/d'' 1 (tr_receive_ts example_row) (tr_receive_ts example_row),
       example_table 1 [arrow_value example_row])] 1
     (segment_of 1 (segment_path ''/d'' 1 (tr_receive_ts example_row) (tr_receive_ts example_row))
       (example_table 1 [arrow_value example_row]) 1 example_row []) [example_row]"
    using example_sha_ok
    by (simp add: segment_of_def coverage_start_of_def coverage_end_of_def file_holds_def example_table_def)
qed (simp_all add: in_window_def wanted_row_def example_row_def data_channel_for_row_def)

end
