(* ===== verification/Live_Stream.thy ===== *)
theory Live_Stream
  imports Tape_Store "HOL-Library.Multiset"
begin

text \<open>
  \<open>data/src/shaurya/data/live_stream.py\<close>: the localhost fan-out of the latest row per instrument. The
  asyncio server is a transition system: every synchronous stretch of the source between two awaits
  is one step (a publish, a join with its snapshot, a wake-up of one client that drains it, a
  heartbeat, a client leaving). A client's socket is the list of messages sent to it; a message is
  the JSON object, its line framing is modelled by \<open>read_message\<close>. Timeouts and the clock are the
  choice of the step, the authentication token is a given string, and the descriptor file is its
  JSON.
\<close>

section \<open>Endpoints\<close>

definition LIVE_STREAM_SCHEMA_VERSION :: string where
  "LIVE_STREAM_SCHEMA_VERSION = ''1.0.0''"

definition LIVE_STREAM_DESCRIPTOR :: string where
  "LIVE_STREAM_DESCRIPTOR = ''live-stream.json''"

definition MAX_MESSAGE_BYTES :: nat where
  "MAX_MESSAGE_BYTES = 16 * 1024 * 1024"

record live_endpoint =
  le_schema_version :: string
  le_dataset_id :: string
  le_host :: string
  le_port :: int
  le_token :: string
  le_producer_pid :: int
  le_published_at :: datetime

definition localhost :: "string list" where
  "localhost = [''127.0.0.1'', ''::1'']"

definition endpoint_post_init :: "live_endpoint \<Rightarrow> live_endpoint result" where
  "endpoint_post_init e =
     (case first_error
        [(le_schema_version e \<noteq> LIVE_STREAM_SCHEMA_VERSION, ValueError ''unsupported live-stream schema''),
         (le_host e \<notin> set localhost, ValueError ''live-row transport must bind only to localhost''),
         (\<not> (0 < le_port e \<and> le_port e \<le> 65535), ValueError ''live-stream port must be in [1, 65535]''),
         (le_dataset_id e = [] \<or> le_token e = [],
          ValueError ''live-stream endpoint requires dataset identity and token'')] of
        Some x \<Rightarrow> Inl x | None \<Rightarrow> Inr e)"

definition endpoint_to_dict :: "live_endpoint \<Rightarrow> jobj" where
  "endpoint_to_dict e =
     [(''schema_version'', JStr (le_schema_version e)), (''dataset_id'', JStr (le_dataset_id e)),
      (''host'', JStr (le_host e)), (''port'', JInt (le_port e)), (''token'', JStr (le_token e)),
      (''producer_pid'', JInt (le_producer_pid e)), (''published_at'', JIso (le_published_at e))]"

definition endpoint_from_dict :: "jobj \<Rightarrow> live_endpoint result" where
  "endpoint_from_dict d =
     bind_result (bind_result (req_field d ''schema_version'') as_str) (\<lambda>version.
     bind_result (bind_result (req_field d ''dataset_id'') as_str) (\<lambda>dataset_id.
     bind_result (bind_result (req_field d ''host'') as_str) (\<lambda>host.
     bind_result (bind_result (req_field d ''port'') as_int) (\<lambda>port.
     bind_result (bind_result (req_field d ''token'') as_str) (\<lambda>token.
     bind_result (bind_result (req_field d ''producer_pid'') as_int) (\<lambda>pid.
     bind_result (bind_result (req_field d ''published_at'') as_datetime) (\<lambda>published_at.
     endpoint_post_init
       \<lparr>le_schema_version = version, le_dataset_id = dataset_id, le_host = host, le_port = port,
        le_token = token, le_producer_pid = pid, le_published_at = published_at\<rparr>)))))))"

definition live_stream_endpoint_path :: "dataset_handle \<Rightarrow> string result" where
  "live_stream_endpoint_path h =
     (if absent (dh_manifest_path h)
      then Inl (LiveStreamUnavailableError ''dataset has no operational metadata directory'')
      else Inr (the (dh_manifest_path h) @ ''/'' @ LIVE_STREAM_DESCRIPTOR))"

section \<open>Clients\<close>

record client_state =
  cs_max_pending :: nat
  cs_pending :: "(string \<times> tape_row) list"
  cs_event :: bool
  cs_coalesced :: int
  cs_dropped :: int
  cs_sent :: "jobj list"

definition client_offer :: "client_state \<Rightarrow> tape_row \<Rightarrow> client_state" where
  "client_offer c r =
     (let known = tr_instrument_id r \<in> fst ` set (cs_pending c) in
      if \<not> known \<and> cs_max_pending c \<le> length (cs_pending c)
      then c\<lparr>cs_dropped := cs_dropped c + 1\<rparr>
      else c\<lparr>cs_coalesced := cs_coalesced c + (if known then 1 else 0),
             cs_pending := AList.update (tr_instrument_id r) r (cs_pending c),
             cs_event := True\<rparr>)"

definition client_drain :: "client_state \<Rightarrow> (tape_row list \<times> int \<times> int) \<times> client_state" where
  "client_drain c =
     ((sort_key tr_receive_sequence (map snd (cs_pending c)), cs_coalesced c, cs_dropped c),
      c\<lparr>cs_pending := [], cs_coalesced := 0, cs_dropped := 0, cs_event := False\<rparr>)"

section \<open>The publisher\<close>

record publisher =
  lp_dataset_id :: string
  lp_host :: string
  lp_max_instruments :: nat
  lp_token :: string
  lp_source_rows :: int
  lp_source_sequence :: int
  lp_coalesced :: int
  lp_dropped :: int
  lp_latest :: "(string \<times> tape_row) list"
  lp_clients :: "client_state list"
  lp_started :: bool
  lp_closed :: bool
  lp_descriptor :: "jobj option"

definition publisher_init :: "string \<Rightarrow> string \<Rightarrow> int \<Rightarrow> int \<Rightarrow> rat \<Rightarrow> string \<Rightarrow> publisher result" where
  "publisher_init dataset_id host port max_instruments heartbeat_seconds token =
     (if host \<notin> set localhost then Inl (ValueError ''live-row publisher may bind only to localhost'')
      else if \<not> (0 \<le> port \<and> port \<le> 65535) then Inl (ValueError ''port must be in [0, 65535]'')
      else if max_instruments < 1 \<or> heartbeat_seconds \<le> 0
      then Inl (ValueError ''live-row publisher bounds must be positive'')
      else Inr \<lparr>lp_dataset_id = dataset_id, lp_host = host, lp_max_instruments = nat max_instruments,
                lp_token = token, lp_source_rows = 0, lp_source_sequence = 0, lp_coalesced = 0,
                lp_dropped = 0, lp_latest = [], lp_clients = [], lp_started = False,
                lp_closed = False, lp_descriptor = None\<rparr>)"

text \<open>\<open>start\<close>: \<open>sockets\<close> are the ports of the listeners the server bound.\<close>

definition publisher_start :: "int list \<Rightarrow> int \<Rightarrow> datetime \<Rightarrow> publisher \<Rightarrow> (publisher \<times> live_endpoint) result" where
  "publisher_start sockets pid now p =
     (if lp_started p then Inl (RuntimeError ''live-row publisher is already started'')
      else
        case sockets of
          [port] \<Rightarrow>
            bind_result
              (endpoint_post_init
                 \<lparr>le_schema_version = LIVE_STREAM_SCHEMA_VERSION, le_dataset_id = lp_dataset_id p,
                  le_host = lp_host p, le_port = port, le_token = lp_token p,
                  le_producer_pid = pid, le_published_at = now\<rparr>)
              (\<lambda>e. Inr (p\<lparr>lp_started := True, lp_descriptor := Some (endpoint_to_dict e)\<rparr>, e))
        | _ \<Rightarrow> Inl (RuntimeError ''live-row publisher did not acquire exactly one listener''))"

text \<open>The loop over the clients, with the publisher's own counters.\<close>

fun offer_all :: "tape_row \<Rightarrow> client_state list \<Rightarrow> int \<times> int \<Rightarrow> client_state list \<times> int \<times> int" where
  "offer_all r [] totals = ([], totals)"
| "offer_all r (c # cs) (coalesced, dropped) =
     (let c' = client_offer c r in
      case offer_all r cs (coalesced + (cs_coalesced c' - cs_coalesced c),
                           dropped + (cs_dropped c' - cs_dropped c)) of
        (cs', totals) \<Rightarrow> (c' # cs', totals))"

definition publish_row :: "publisher \<Rightarrow> tape_row \<Rightarrow> publisher result" where
  "publish_row p r =
     (if \<not> lp_started p \<or> lp_closed p then Inl (RuntimeError ''live-row publisher is not running'')
      else if tr_run_id r \<noteq> lp_dataset_id p
      then Inl (ValueError ''live row run_id does not match publisher dataset'')
      else if tr_receive_sequence r \<le> lp_source_sequence p
      then Inl (LiveStreamProtocolError ''live row receive sequence did not advance'')
      else if tr_instrument_id r \<notin> fst ` set (lp_latest p) \<and> lp_max_instruments p \<le> length (lp_latest p)
      then Inl (LiveStreamProtocolError ''live row exceeded the bounded instrument universe'')
      else
        case offer_all r (lp_clients p) (lp_coalesced p, lp_dropped p) of
          (clients, coalesced, dropped) \<Rightarrow>
            Inr (p\<lparr>lp_source_rows := lp_source_rows p + 1,
                   lp_source_sequence := tr_receive_sequence r,
                   lp_latest := AList.update (tr_instrument_id r) r (lp_latest p),
                   lp_clients := clients, lp_coalesced := coalesced, lp_dropped := dropped\<rparr>))"

definition publisher_metrics :: "publisher \<Rightarrow> (string \<times> int) list" where
  "publisher_metrics p =
     [(''source_rows'', lp_source_rows p), (''source_sequence'', lp_source_sequence p),
      (''connected_clients'', int (length (lp_clients p))),
      (''coalesced_client_rows'', lp_coalesced p), (''dropped_client_instruments'', lp_dropped p)]"

definition stream_message :: "publisher \<Rightarrow> string \<Rightarrow> tape_row list \<Rightarrow> int \<Rightarrow> int \<Rightarrow> jobj" where
  "stream_message p message_type rows coalesced dropped =
     [(''schema_version'', JStr LIVE_STREAM_SCHEMA_VERSION), (''type'', JStr message_type),
      (''dataset_id'', JStr (lp_dataset_id p)), (''source_sequence'', JInt (lp_source_sequence p)),
      (''source_rows'', JInt (lp_source_rows p)), (''coalesced_rows'', JInt coalesced),
      (''dropped_instruments'', JInt dropped),
      (''rows'', JList (map (\<lambda>r. JObj (tape_row_to_dict r)) rows))]"

definition client_send :: "client_state \<Rightarrow> jobj \<Rightarrow> client_state" where
  "client_send c message = c\<lparr>cs_sent := cs_sent c @ [message]\<rparr>"

text \<open>\<open>_handle_client\<close> up to its first await: authentication, registration, snapshot.\<close>

definition client_join :: "publisher \<Rightarrow> jval \<Rightarrow> publisher result" where
  "client_join p auth =
     (case auth of
        JObj d \<Rightarrow>
          if get_field d ''token'' \<noteq> JStr (lp_token p)
          then Inl (LiveStreamProtocolError ''live-row authentication failed'')
          else if get_field d ''dataset_id'' \<noteq> JStr (lp_dataset_id p)
          then Inl (LiveStreamProtocolError ''live-row dataset identity differs'')
          else
            let snapshot = sort_key tr_receive_sequence (map snd (lp_latest p));
                c = \<lparr>cs_max_pending = lp_max_instruments p, cs_pending = [], cs_event = False,
                     cs_coalesced = 0, cs_dropped = 0, cs_sent = []\<rparr>
            in Inr (p\<lparr>lp_clients := lp_clients p @
                        [client_send c (stream_message p ''snapshot'' snapshot 0 0)]\<rparr>)
      | _ \<Rightarrow> Inl (LiveStreamProtocolError ''live-row authentication failed''))"

text \<open>One turn of the client loop: woken by the event, or a heartbeat after the timeout.\<close>

definition client_flush :: "publisher \<Rightarrow> client_state \<Rightarrow> client_state" where
  "client_flush p c =
     (case client_drain c of
        ((rows, coalesced, dropped), c') \<Rightarrow>
          client_send c' (stream_message p ''rows'' rows coalesced dropped))"

definition client_wake :: "publisher \<Rightarrow> nat \<Rightarrow> publisher" where
  "client_wake p i = p\<lparr>lp_clients := (lp_clients p)[i := client_flush p (lp_clients p ! i)]\<rparr>"

definition client_beat :: "publisher \<Rightarrow> nat \<Rightarrow> publisher" where
  "client_beat p i =
     p\<lparr>lp_clients := (lp_clients p)
         [i := client_send (lp_clients p ! i) (stream_message p ''heartbeat'' [] 0 0)]\<rparr>"

definition client_leave :: "publisher \<Rightarrow> nat \<Rightarrow> publisher" where
  "client_leave p i =
     p\<lparr>lp_clients := take i (lp_clients p) @ drop (Suc i) (lp_clients p)\<rparr>"

text \<open>\<open>close\<close>: the last messages of every client with pending rows, as sent, and the closed
  publisher. The descriptor is removed only when it still carries this publisher's token.\<close>

definition publisher_close :: "jobj option \<Rightarrow> publisher \<Rightarrow> client_state list \<times> publisher" where
  "publisher_close descriptor p =
     (if lp_closed p then ([], p)
      else
        (map (\<lambda>c. if cs_pending c = [] then snd (client_drain c) else client_flush p c) (lp_clients p),
         p\<lparr>lp_closed := True, lp_clients := [],
           lp_descriptor :=
             (case descriptor of
                None \<Rightarrow> None
              | Some d \<Rightarrow> if get_field d ''token'' = JStr (lp_token p) then None else Some d)\<rparr>))"

section \<open>The subscriber\<close>

record live_batch =
  lb_rows :: "tape_row list"
  lb_source_sequence :: int
  lb_source_rows :: int
  lb_coalesced_rows :: int
  lb_message_type :: string
  lb_timed_out :: bool

record subscriber =
  ls_dataset_id :: string
  ls_buffer :: string
  ls_closed :: bool
  ls_last_source_sequence :: int
  ls_last_source_rows :: int

definition line_break :: char where
  "line_break = CHR 0x0A"

text \<open>\<open>_read_message\<close>: \<open>chunks\<close> are what \<open>recv\<close> returns before the deadline, an empty chunk being the
  end of the stream. The result is the payload (\<open>None\<close> at the deadline), the rest of the buffer
  and the chunks not read.\<close>

fun read_message ::
    "(string \<Rightarrow> jval option) \<Rightarrow> string \<Rightarrow> string list \<Rightarrow> (jobj option \<times> string \<times> string list) result" where
  "read_message loads buffer chunks =
     (if line_break \<in> set buffer
      then
        let raw = takeWhile (\<lambda>c. c \<noteq> line_break) buffer;
            rest = drop (length raw + 1) buffer
        in case loads raw of
             None \<Rightarrow> Inl (LiveStreamProtocolError ''live stream emitted invalid JSON'')
           | Some (JObj payload) \<Rightarrow> Inr (Some payload, rest, chunks)
           | Some _ \<Rightarrow> Inl (LiveStreamProtocolError ''live stream message must be an object'')
      else
        case chunks of
          [] \<Rightarrow> Inr (None, buffer, [])
        | chunk # later \<Rightarrow>
            if chunk = [] then Inl (LiveStreamUnavailableError ''live stream closed'')
            else if MAX_MESSAGE_BYTES < length (buffer @ chunk)
            then Inl (LiveStreamProtocolError ''live stream message exceeded the safety bound'')
            else read_message loads (buffer @ chunk) later)"

declare read_message.simps [simp del]

definition int_field :: "jobj \<Rightarrow> string \<Rightarrow> int result" where
  "int_field d k = (case map_of d k of None \<Rightarrow> Inr 0 | Some v \<Rightarrow> as_int v)"

text \<open>\<open>poll\<close> on the payload \<open>_read_message\<close> returned.\<close>

definition subscriber_poll :: "subscriber \<Rightarrow> jobj option \<Rightarrow> (subscriber \<times> live_batch) result" where
  "subscriber_poll s message =
     (if ls_closed s then Inl (ValueError ''cannot poll a closed live-row subscriber'')
      else
        case message of
          None \<Rightarrow>
            Inr (s, \<lparr>lb_rows = [], lb_source_sequence = ls_last_source_sequence s,
                     lb_source_rows = ls_last_source_rows s, lb_coalesced_rows = 0,
                     lb_message_type = ''timeout'', lb_timed_out = True\<rparr>)
        | Some payload \<Rightarrow>
            if get_field payload ''schema_version'' \<noteq> JStr LIVE_STREAM_SCHEMA_VERSION
            then Inl (LiveStreamProtocolError ''live stream schema differs'')
            else if get_field payload ''dataset_id'' \<noteq> JStr (ls_dataset_id s)
            then Inl (LiveStreamProtocolError ''live stream dataset identity differs'')
            else
              (case get_field payload ''type'' of
                 JStr message_type \<Rightarrow>
                   if message_type \<notin> set [''snapshot'', ''rows'', ''heartbeat'']
                   then Inl (LiveStreamProtocolError ''unknown live stream message type'')
                   else
                     bind_result (int_field payload ''source_sequence'') (\<lambda>source_sequence.
                     bind_result (int_field payload ''source_rows'') (\<lambda>source_rows.
                     if source_sequence < ls_last_source_sequence s \<or> source_rows < ls_last_source_rows s
                     then Inl (LiveStreamProtocolError ''live stream source counters regressed'')
                     else
                       case (case map_of payload ''rows'' of None \<Rightarrow> JList [] | Some v \<Rightarrow> v) of
                         JList raw_rows \<Rightarrow>
                           bind_result
                             (map_result (\<lambda>v. bind_result (as_obj v) tape_row_from_dict) raw_rows) (\<lambda>rows.
                           if list_ex (\<lambda>r. tr_run_id r \<noteq> ls_dataset_id s) rows
                           then Inl (LiveStreamProtocolError ''live stream row belongs to another dataset'')
                           else if list_ex (\<lambda>r. source_sequence < tr_receive_sequence r) rows
                           then Inl (LiveStreamProtocolError ''live stream row exceeds its source watermark'')
                           else
                             bind_result (int_field payload ''coalesced_rows'') (\<lambda>coalesced.
                             Inr (s\<lparr>ls_last_source_sequence := source_sequence,
                                    ls_last_source_rows := source_rows\<rparr>,
                                  \<lparr>lb_rows = rows, lb_source_sequence = source_sequence,
                                   lb_source_rows = source_rows, lb_coalesced_rows = coalesced,
                                   lb_message_type = message_type, lb_timed_out = False\<rparr>)))
                       | _ \<Rightarrow> Inl (LiveStreamProtocolError ''live stream rows must be a list'')))
               | _ \<Rightarrow> Inl (LiveStreamProtocolError ''unknown live stream message type'')))"

definition subscriber_init :: "string \<Rightarrow> subscriber" where
  "subscriber_init dataset_id =
     \<lparr>ls_dataset_id = dataset_id, ls_buffer = [], ls_closed = False, ls_last_source_sequence = 0,
      ls_last_source_rows = 0\<rparr>"


section \<open>The transition system\<close>

inductive live_step :: "publisher \<Rightarrow> publisher \<Rightarrow> bool" where
  step_publish: "tape_row_ok r \<Longrightarrow> publish_row p r = Inr q \<Longrightarrow> live_step p q"
| step_join: "client_join p auth = Inr q \<Longrightarrow> live_step p q"
| step_wake: "i < length (lp_clients p) \<Longrightarrow> cs_event (lp_clients p ! i) \<Longrightarrow> live_step p (client_wake p i)"
| step_beat: "i < length (lp_clients p) \<Longrightarrow> \<not> cs_event (lp_clients p ! i) \<Longrightarrow> live_step p (client_beat p i)"
| step_leave: "i < length (lp_clients p) \<Longrightarrow> live_step p (client_leave p i)"

inductive_cases live_stepE: "live_step p q"

text \<open>A subscriber reading the messages of one connection, with the batches it returned.\<close>

definition consume :: "subscriber \<times> live_batch list \<Rightarrow> jobj \<Rightarrow> (subscriber \<times> live_batch list) result" where
  "consume x message =
     bind_result (subscriber_poll (fst x) (Some message)) (\<lambda>(s, b). Inr (s, snd x @ [b]))"

definition read_stream :: "string \<Rightarrow> jobj list \<Rightarrow> (subscriber \<times> live_batch list) result" where
  "read_stream dataset_id messages = fold_result consume (subscriber_init dataset_id, []) messages"

text \<open>The latest row per instrument, as a consumer of the batches sees it.\<close>

definition apply_rows :: "(string \<rightharpoonup> tape_row) \<Rightarrow> tape_row list \<Rightarrow> (string \<rightharpoonup> tape_row)" where
  "apply_rows m rows = foldl (\<lambda>m r. m(tr_instrument_id r \<mapsto> r)) m rows"

definition latest_view :: "live_batch list \<Rightarrow> (string \<rightharpoonup> tape_row)" where
  "latest_view bs = apply_rows Map.empty (concat (map lb_rows bs))"

text \<open>The rows a subscriber was told about after its snapshot: delivered or coalesced away.\<close>

definition accounted :: "live_batch list \<Rightarrow> int" where
  "accounted bs = sum_list (map (\<lambda>b. int (length (lb_rows b)) + lb_coalesced_rows b) (tl bs))"

definition row_entry :: "string \<times> tape_row \<Rightarrow> bool" where
  "row_entry x \<longleftrightarrow> fst x = tr_instrument_id (snd x)"

definition client_ok :: "publisher \<Rightarrow> client_state \<Rightarrow> bool" where
  "client_ok p c \<longleftrightarrow>
     cs_max_pending c = lp_max_instruments p \<and> distinct (map fst (cs_pending c)) \<and>
     map_of (cs_pending c) \<subseteq>\<^sub>m map_of (lp_latest p) \<and>
     (cs_event c \<longleftrightarrow> cs_pending c \<noteq> []) \<and> cs_dropped c = 0 \<and>
     (\<exists>s bs. read_stream (lp_dataset_id p) (cs_sent c) = Inr (s, bs) \<and> \<not> ls_closed s \<and>
        ls_dataset_id s = lp_dataset_id p \<and> ls_last_source_sequence s \<le> lp_source_sequence p \<and>
        ls_last_source_rows s \<le> lp_source_rows p \<and> bs \<noteq> [] \<and>
        latest_view bs ++ map_of (cs_pending c) = map_of (lp_latest p) \<and>
        lp_source_rows p =
          lb_source_rows (hd bs) + accounted bs + int (length (cs_pending c)) + cs_coalesced c)"

definition latest_ok :: "publisher \<Rightarrow> bool" where
  "latest_ok p \<longleftrightarrow>
     distinct (map fst (lp_latest p)) \<and> length (lp_latest p) \<le> lp_max_instruments p \<and>
     list_all row_entry (lp_latest p) \<and>
     list_all (\<lambda>r. tape_row_ok r \<and> tr_run_id r = lp_dataset_id p \<and>
       tr_receive_sequence r \<le> lp_source_sequence p) (map snd (lp_latest p)) \<and>
     lp_dropped p = 0 \<and> 0 \<le> lp_source_sequence p \<and> 0 \<le> lp_source_rows p"

definition live_ok :: "publisher \<Rightarrow> bool" where
  "live_ok p \<longleftrightarrow> latest_ok p \<and> list_all (client_ok p) (lp_clients p)"

section \<open>Messages are accepted\<close>

lemma rows_from_dicts:
  "list_all tape_row_ok rows \<Longrightarrow>
     map_result (\<lambda>v. bind_result (as_obj v) tape_row_from_dict)
       (map (\<lambda>r. JObj (tape_row_to_dict r)) rows) = Inr rows"
  by (induction rows) (simp_all add: tape_row_roundtrip_lemma)

lemma poll_message:
  assumes "\<not> ls_closed s" and "ls_dataset_id s = lp_dataset_id p"
    and "ls_last_source_sequence s \<le> lp_source_sequence p" and "ls_last_source_rows s \<le> lp_source_rows p"
    and "t \<in> set [''snapshot'', ''rows'', ''heartbeat'']"
    and rows: "list_all (\<lambda>r. tape_row_ok r \<and> tr_run_id r = lp_dataset_id p \<and>
      tr_receive_sequence r \<le> lp_source_sequence p) rows"
  shows "subscriber_poll s (Some (stream_message p t rows n d)) =
    Inr (s\<lparr>ls_last_source_sequence := lp_source_sequence p, ls_last_source_rows := lp_source_rows p\<rparr>,
      \<lparr>lb_rows = rows, lb_source_sequence = lp_source_sequence p, lb_source_rows = lp_source_rows p,
       lb_coalesced_rows = n, lb_message_type = t, lb_timed_out = False\<rparr>)"
proof -
  have "map_result (\<lambda>v. bind_result (as_obj v) tape_row_from_dict)
      (map (\<lambda>r. JObj (tape_row_to_dict r)) rows) = Inr rows"
    using rows by (intro rows_from_dicts) (simp add: list_all_iff)
  moreover have "\<not> list_ex (\<lambda>r. tr_run_id r \<noteq> ls_dataset_id s) rows"
      "\<not> list_ex (\<lambda>r. lp_source_sequence p < tr_receive_sequence r) rows"
    using rows assms(2) by (auto simp: list_all_iff list_ex_iff)
  ultimately show ?thesis
    using assms(1-4) assms(5)
    by (simp add: subscriber_poll_def stream_message_def get_field_def int_field_def del: map_map)
qed

lemma apply_rows_add: "apply_rows m rows = m ++ map_of (rev (map (\<lambda>r. (tr_instrument_id r, r)) rows))"
proof (induction rows rule: rev_induct)
  case (snoc r rows)
  then show ?case by (auto simp: apply_rows_def fun_eq_iff map_add_def)
qed (simp add: apply_rows_def)

lemma apply_entries:
  assumes "distinct (map fst es)" and "list_all row_entry es"
  shows "apply_rows m (sort_key tr_receive_sequence (map snd es)) = m ++ map_of es"
proof -
  let ?rows = "sort_key tr_receive_sequence (map snd es)"
  let ?keyed = "map (\<lambda>r. (tr_instrument_id r, r)) ?rows"
  have "(\<lambda>x. (tr_instrument_id (snd x), snd x)) ` set es = id ` set es"
    using assms(2) by (intro image_cong refl) (auto simp: list_all_iff row_entry_def prod_eq_iff)
  then have "(\<lambda>r. (tr_instrument_id r, r)) ` snd ` set es = set es" by (simp add: image_image)
  then have set: "set (rev ?keyed) = set es" by simp
  have entries: "map tr_instrument_id (map snd es) = map fst es"
    using assms(2) by (simp add: list_all_iff row_entry_def)
  have keyed: "map fst ?keyed = map tr_instrument_id ?rows" by simp
  have "mset (map tr_instrument_id ?rows) = mset (map tr_instrument_id (map snd es))"
    by (simp only: mset_map mset_sort)
  then have "mset (map fst ?keyed) = mset (map fst es)" unfolding entries keyed .
  then have "distinct (map fst ?keyed)" using assms(1) mset_eq_imp_distinct_iff by blast
  then have "distinct (map fst (rev ?keyed))" by (simp only: rev_map [symmetric] distinct_rev)
  then have "map_of (rev ?keyed) = map_of es"
    using map_of_inject_set [of "rev ?keyed" es] assms(1) set by simp
  then show ?thesis unfolding apply_rows_add by simp
qed


section \<open>Every step keeps the invariant\<close>

lemma read_stream_snoc:
  assumes "read_stream ds ms = Inr (s, bs)" and "subscriber_poll s (Some m) = Inr (s', b)"
  shows "read_stream ds (ms @ [m]) = Inr (s', bs @ [b])"
  using assms by (simp add: read_stream_def fold_result_append consume_def)

lemma latest_view_snoc: "latest_view (bs @ [b]) = apply_rows (latest_view bs) (lb_rows b)"
  by (simp add: latest_view_def apply_rows_def)

lemma accounted_snoc:
  "bs \<noteq> [] \<Longrightarrow> accounted (bs @ [b]) = accounted bs + int (length (lb_rows b)) + lb_coalesced_rows b"
  by (cases bs) (simp_all add: accounted_def)

text \<open>Sending one more message: the batch the subscriber gets, and what the client keeps pending.\<close>

lemma client_send_ok:
  assumes c: "client_ok p c" and t: "t \<in> set [''snapshot'', ''rows'', ''heartbeat'']"
    and rows: "list_all (\<lambda>r. tape_row_ok r \<and> tr_run_id r = lp_dataset_id p \<and>
      tr_receive_sequence r \<le> lp_source_sequence p) rows"
    and kept: "c' = client_send (c\<lparr>cs_pending := pending, cs_coalesced := n', cs_dropped := 0, cs_event := pending \<noteq> []\<rparr>)
        (stream_message p t rows n d)"
    and sub: "map_of pending \<subseteq>\<^sub>m map_of (lp_latest p)" "distinct (map fst pending)"
    and view: "\<And>v. v ++ map_of (cs_pending c) = map_of (lp_latest p) \<Longrightarrow>
      apply_rows v rows ++ map_of pending = map_of (lp_latest p)"
    and count: "int (length rows) + n + int (length pending) + n' = int (length (cs_pending c)) + cs_coalesced c"
  shows "client_ok p c'"
proof -
  from c obtain s bs where s: "read_stream (lp_dataset_id p) (cs_sent c) = Inr (s, bs)" "\<not> ls_closed s"
      "ls_dataset_id s = lp_dataset_id p" "ls_last_source_sequence s \<le> lp_source_sequence p"
      "ls_last_source_rows s \<le> lp_source_rows p" "bs \<noteq> []"
      "latest_view bs ++ map_of (cs_pending c) = map_of (lp_latest p)"
      "lp_source_rows p = lb_source_rows (hd bs) + accounted bs + int (length (cs_pending c)) + cs_coalesced c"
    unfolding client_ok_def by blast
  note poll = poll_message [OF s(2-5) t rows, of n d]
  show ?thesis
    unfolding client_ok_def
  proof (intro conjI exI)
    show "read_stream (lp_dataset_id p) (cs_sent c') =
      Inr (s\<lparr>ls_last_source_sequence := lp_source_sequence p, ls_last_source_rows := lp_source_rows p\<rparr>,
        bs @ [\<lparr>lb_rows = rows, lb_source_sequence = lp_source_sequence p, lb_source_rows = lp_source_rows p,
          lb_coalesced_rows = n, lb_message_type = t, lb_timed_out = False\<rparr>])"
      using read_stream_snoc [OF s(1) poll] by (simp add: kept client_send_def)
  qed (use c s sub view [OF s(7)] count in
      \<open>simp_all add: kept client_send_def client_ok_def latest_view_snoc accounted_snoc\<close>)
qed

lemma pending_rows:
  assumes p: "latest_ok p" and c: "client_ok p c"
  shows "list_all row_entry (cs_pending c)"
    and "list_all (\<lambda>r. tape_row_ok r \<and> tr_run_id r = lp_dataset_id p \<and>
      tr_receive_sequence r \<le> lp_source_sequence p) (sort_key tr_receive_sequence (map snd (cs_pending c)))"
    and "set (cs_pending c) \<subseteq> set (lp_latest p)"
proof -
  show sub: "set (cs_pending c) \<subseteq> set (lp_latest p)"
  proof
    fix x assume x: "x \<in> set (cs_pending c)"
    have "map_of (cs_pending c) (fst x) = Some (snd x)"
      using c x by (cases x) (simp add: client_ok_def)
    then have "map_of (lp_latest p) (fst x) = Some (snd x)"
      using c unfolding client_ok_def by (metis domI map_le_def)
    then show "x \<in> set (lp_latest p)" using map_of_SomeD by force
  qed
  show "list_all row_entry (cs_pending c)"
    using sub p by (auto simp: latest_ok_def list_all_iff)
  show "list_all (\<lambda>r. tape_row_ok r \<and> tr_run_id r = lp_dataset_id p \<and>
      tr_receive_sequence r \<le> lp_source_sequence p) (sort_key tr_receive_sequence (map snd (cs_pending c)))"
    using sub p by (auto simp: latest_ok_def list_all_iff)
qed

lemma flush_ok:
  assumes p: "latest_ok p" and c: "client_ok p c"
  shows "client_ok p (client_flush p c)" and "cs_pending (client_flush p c) = []"
proof -
  have d: "cs_dropped c = 0" using c by (simp add: client_ok_def)
  show "cs_pending (client_flush p c) = []" by (simp add: client_flush_def client_drain_def client_send_def)
  show "client_ok p (client_flush p c)"
  proof (rule client_send_ok [OF c _ pending_rows(2) [OF p c], where t = "''rows''" and pending = "[]"
        and n = "cs_coalesced c" and n' = 0 and d = "cs_dropped c"])
    show "client_flush p c = client_send (c\<lparr>cs_pending := [], cs_coalesced := 0, cs_dropped := 0, cs_event := [] \<noteq> []\<rparr>)
        (stream_message p ''rows'' (sort_key tr_receive_sequence (map snd (cs_pending c))) (cs_coalesced c) (cs_dropped c))"
      by (simp add: client_flush_def client_drain_def)
    show "apply_rows v (sort_key tr_receive_sequence (map snd (cs_pending c))) ++ map_of [] = map_of (lp_latest p)"
      if "v ++ map_of (cs_pending c) = map_of (lp_latest p)" for v
      using that apply_entries [OF _ pending_rows(1) [OF p c]] c by (simp add: client_ok_def)
  qed simp_all
qed

lemma beat_ok:
  assumes c: "client_ok p c"
  shows "client_ok p (client_send c (stream_message p ''heartbeat'' [] 0 0))"
proof (rule client_send_ok [OF c, where t = "''heartbeat''" and rows = "[]" and pending = "cs_pending c"
      and n = 0 and n' = "cs_coalesced c" and d = 0])
  show "client_send c (stream_message p ''heartbeat'' [] 0 0) =
    client_send (c\<lparr>cs_pending := cs_pending c, cs_coalesced := cs_coalesced c, cs_dropped := 0,
      cs_event := cs_pending c \<noteq> []\<rparr>) (stream_message p ''heartbeat'' [] 0 0)"
  proof -
    have "cs_dropped c = 0" "cs_event c = (cs_pending c \<noteq> [])" using c by (simp_all add: client_ok_def)
    then show ?thesis by (cases c) (simp add: client_send_def)
  qed
qed (use c in \<open>simp_all add: client_ok_def apply_rows_def\<close>)

lemma offer_all_eq:
  "offer_all r cs (a, b) =
     (map (\<lambda>c. client_offer c r) cs,
      a + sum_list (map (\<lambda>c. cs_coalesced (client_offer c r) - cs_coalesced c) cs),
      b + sum_list (map (\<lambda>c. cs_dropped (client_offer c r) - cs_dropped c) cs))"
  by (induction cs arbitrary: a b) (simp_all add: Let_def)


text \<open>A published row is never dropped: the pending instruments are among the published ones.\<close>

lemma offer_ok:
  assumes p: "latest_ok p" and c: "client_ok p c" and pub: "publish_row p r = Inr q" and r: "tape_row_ok r"
  shows "client_ok q (client_offer c r)" and "cs_dropped (client_offer c r) = cs_dropped c"
proof -
  define k where "k = tr_instrument_id r"
  have guards: "tr_receive_sequence r > lp_source_sequence p"
      "k \<in> fst ` set (lp_latest p) \<or> length (lp_latest p) < lp_max_instruments p"
    using pub by (auto simp: publish_row_def k_def split: if_splits)
  have q: "lp_dataset_id q = lp_dataset_id p" "lp_max_instruments q = lp_max_instruments p"
      "lp_source_rows q = lp_source_rows p + 1" "lp_source_sequence q = tr_receive_sequence r"
      "lp_latest q = AList.update k r (lp_latest p)"
    using pub by (auto simp: publish_row_def k_def split: if_splits prod.splits)
  have sub: "set (cs_pending c) \<subseteq> set (lp_latest p)" by (rule pending_rows(3) [OF p c])
  have dist: "distinct (map fst (cs_pending c))" "distinct (map fst (lp_latest p))"
    using c p by (simp_all add: client_ok_def latest_ok_def)
  have len: "length (cs_pending c) = card (fst ` set (cs_pending c))"
      "length (lp_latest p) = card (fst ` set (lp_latest p))"
    using distinct_card [OF dist(1)] distinct_card [OF dist(2)] by simp_all
  have room: "k \<in> fst ` set (cs_pending c) \<or> length (cs_pending c) < cs_max_pending c"
  proof (rule disjCI)
    assume full: "\<not> length (cs_pending c) < cs_max_pending c"
    have max: "cs_max_pending c = lp_max_instruments p" using c by (simp add: client_ok_def)
    have le: "length (lp_latest p) \<le> lp_max_instruments p" using p by (simp add: latest_ok_def)
    have "fst ` set (cs_pending c) \<subseteq> fst ` set (lp_latest p)" using sub by blast
    then have "length (cs_pending c) \<le> length (lp_latest p)"
      unfolding len by (intro card_mono) simp_all
    with full max le have eq: "length (cs_pending c) = length (lp_latest p)"
        "length (lp_latest p) = lp_max_instruments p" by simp_all
    then have "fst ` set (cs_pending c) = fst ` set (lp_latest p)"
      using \<open>fst ` set (cs_pending c) \<subseteq> fst ` set (lp_latest p)\<close> unfolding len by (intro card_subset_eq) simp_all
    then show "k \<in> fst ` set (cs_pending c)" using guards(2) eq(2) by simp
  qed
  have offered: "client_offer c r = c\<lparr>cs_coalesced := cs_coalesced c + (if k \<in> fst ` set (cs_pending c) then 1 else 0),
      cs_pending := AList.update k r (cs_pending c), cs_event := True\<rparr>"
    using room by (auto simp: client_offer_def k_def Let_def)
  then show "cs_dropped (client_offer c r) = cs_dropped c" by simp
  from c obtain s bs where s: "read_stream (lp_dataset_id p) (cs_sent c) = Inr (s, bs)" "\<not> ls_closed s"
      "ls_dataset_id s = lp_dataset_id p" "ls_last_source_sequence s \<le> lp_source_sequence p"
      "ls_last_source_rows s \<le> lp_source_rows p" "bs \<noteq> []"
      "latest_view bs ++ map_of (cs_pending c) = map_of (lp_latest p)"
      "lp_source_rows p = lb_source_rows (hd bs) + accounted bs + int (length (cs_pending c)) + cs_coalesced c"
    unfolding client_ok_def by blast
  have size: "int (length (AList.update k r (cs_pending c))) +
      (cs_coalesced c + (if k \<in> fst ` set (cs_pending c) then 1 else 0)) =
      int (length (cs_pending c)) + cs_coalesced c + 1"
    by (cases "k \<in> fst ` set (cs_pending c)") (simp_all add: length_update_new length_update_old)
  have le: "map_of (cs_pending c) \<subseteq>\<^sub>m map_of (lp_latest p)" using c by (simp add: client_ok_def)
  have ne: "AList.update k r (cs_pending c) \<noteq> []" by (cases "cs_pending c") auto
  show "client_ok q (client_offer c r)"
    unfolding client_ok_def
  proof (intro conjI exI)
    show "read_stream (lp_dataset_id q) (cs_sent (client_offer c r)) = Inr (s, bs)"
      using s(1) by (simp add: offered q)
    show "map_of (cs_pending (client_offer c r)) \<subseteq>\<^sub>m map_of (lp_latest q)"
      using le by (auto simp: offered q dict_simps map_le_def)
    show "latest_view bs ++ map_of (cs_pending (client_offer c r)) = map_of (lp_latest q)"
      using s(7) by (simp add: offered q dict_simps)
    show "lp_source_rows q = lb_source_rows (hd bs) + accounted bs +
        int (length (cs_pending (client_offer c r))) + cs_coalesced (client_offer c r)"
      using s(8) size by (simp add: offered q)
  qed (use c s guards ne dist in \<open>simp_all add: offered q client_ok_def distinct_update\<close>)
qed

lemma publish_ok:
  assumes ok: "live_ok p" and r: "tape_row_ok r" and pub: "publish_row p r = Inr q"
  shows "live_ok q"
proof -
  have p: "latest_ok p" and cs: "list_all (client_ok p) (lp_clients p)" using ok by (simp_all add: live_ok_def)
  have off: "offer_all r (lp_clients p) (lp_coalesced p, lp_dropped p) =
      (map (\<lambda>c. client_offer c r) (lp_clients p),
       lp_coalesced p + sum_list (map (\<lambda>c. cs_coalesced (client_offer c r) - cs_coalesced c) (lp_clients p)),
       lp_dropped p + sum_list (map (\<lambda>c. cs_dropped (client_offer c r) - cs_dropped c) (lp_clients p)))"
    by (rule offer_all_eq)
  have q: "lp_clients q = map (\<lambda>c. client_offer c r) (lp_clients p)"
      "lp_latest q = AList.update (tr_instrument_id r) r (lp_latest p)"
      "lp_source_sequence q = tr_receive_sequence r" "lp_source_rows q = lp_source_rows p + 1"
      "lp_max_instruments q = lp_max_instruments p" "lp_dataset_id q = lp_dataset_id p"
      "lp_dropped q = lp_dropped p + sum_list (map (\<lambda>c. cs_dropped (client_offer c r) - cs_dropped c) (lp_clients p))"
    and guards: "tr_run_id r = lp_dataset_id p" "lp_source_sequence p < tr_receive_sequence r"
      "tr_instrument_id r \<in> fst ` set (lp_latest p) \<or> length (lp_latest p) < lp_max_instruments p"
    using pub unfolding publish_row_def off by (auto split: if_splits)
  have "sum_list (map (\<lambda>c. cs_dropped (client_offer c r) - cs_dropped c) (lp_clients p)) = 0"
  proof -
    have zero: "map (\<lambda>c. cs_dropped (client_offer c r) - cs_dropped c) (lp_clients p) = map (\<lambda>c. 0) (lp_clients p)"
      using offer_ok(2) [OF p _ pub r] cs by (intro map_cong refl) (simp add: list_all_iff)
    show ?thesis unfolding zero by (induction "lp_clients p") simp_all
  qed
  then have drop0: "lp_dropped q = 0" using p q(7) by (simp add: latest_ok_def)
  have size: "length (lp_latest q) \<le> lp_max_instruments q"
    using p guards(3) by (cases "tr_instrument_id r \<in> fst ` set (lp_latest p)")
      (simp_all add: q latest_ok_def length_update_new length_update_old)
  have each: "row_entry x \<and> tape_row_ok (snd x) \<and> tr_run_id (snd x) = lp_dataset_id q \<and>
      tr_receive_sequence (snd x) \<le> lp_source_sequence q" if "x \<in> set (lp_latest q)" for x
  proof -
    have "x = (tr_instrument_id r, r) \<or> x \<in> set (lp_latest p)"
      using that set_update_values [of "fst x" "snd x" "tr_instrument_id r" r "lp_latest p"] by (simp add: q)
    then show ?thesis
    proof
      assume "x \<in> set (lp_latest p)"
      then have "row_entry x" "tape_row_ok (snd x)" "tr_run_id (snd x) = lp_dataset_id p"
          "tr_receive_sequence (snd x) \<le> lp_source_sequence p"
        using p by (auto simp: latest_ok_def list_all_iff)
      then show ?thesis using guards(2) by (simp add: q)
    qed (use r guards(1) in \<open>simp add: q row_entry_def\<close>)
  qed
  then have rows: "list_all row_entry (lp_latest q)"
      "list_all (\<lambda>x. tape_row_ok x \<and> tr_run_id x = lp_dataset_id q \<and>
        tr_receive_sequence x \<le> lp_source_sequence q) (map snd (lp_latest q))"
    by (auto simp: list_all_iff)
  have "latest_ok q"
    using p drop0 size rows guards(2) by (simp add: latest_ok_def q distinct_update)
  moreover have "list_all (client_ok q) (lp_clients q)"
    using offer_ok(1) [OF p _ pub r] cs by (simp add: q list_all_iff)
  ultimately show ?thesis by (simp add: live_ok_def)
qed


text \<open>A change of the client list only: the invariant looks at the other fields.\<close>

lemma clients_ok:
  assumes "latest_ok p" and "list_all (client_ok p) cs"
  shows "live_ok (p\<lparr>lp_clients := cs\<rparr>)"
proof -
  have "client_ok (p\<lparr>lp_clients := cs\<rparr>) = client_ok p" by (simp add: client_ok_def fun_eq_iff)
  with assms show ?thesis by (simp add: live_ok_def latest_ok_def)
qed

lemma join_ok:
  assumes ok: "live_ok p" and join: "client_join p auth = Inr q"
  shows "live_ok q"
proof -
  have p: "latest_ok p" using ok by (simp add: live_ok_def)
  define rows where "rows = sort_key tr_receive_sequence (map snd (lp_latest p))"
  define c where "c = \<lparr>cs_max_pending = lp_max_instruments p, cs_pending = [], cs_event = False,
    cs_coalesced = 0, cs_dropped = 0, cs_sent = [stream_message p ''snapshot'' rows 0 0]\<rparr>"
  have q: "q = p\<lparr>lp_clients := lp_clients p @ [c]\<rparr>"
    using join by (auto simp: client_join_def Let_def client_send_def c_def rows_def split: jval.splits if_splits)
  have ok_rows: "list_all (\<lambda>r. tape_row_ok r \<and> tr_run_id r = lp_dataset_id p \<and>
      tr_receive_sequence r \<le> lp_source_sequence p) rows"
    using p by (simp add: rows_def latest_ok_def list_all_iff)
  have "subscriber_poll (subscriber_init (lp_dataset_id p)) (Some (stream_message p ''snapshot'' rows 0 0)) =
    Inr (subscriber_init (lp_dataset_id p)\<lparr>ls_last_source_sequence := lp_source_sequence p,
        ls_last_source_rows := lp_source_rows p\<rparr>,
      \<lparr>lb_rows = rows, lb_source_sequence = lp_source_sequence p, lb_source_rows = lp_source_rows p,
       lb_coalesced_rows = 0, lb_message_type = ''snapshot'', lb_timed_out = False\<rparr>)"
    using p ok_rows by (intro poll_message) (simp_all add: subscriber_init_def latest_ok_def)
  then have read: "read_stream (lp_dataset_id p) (cs_sent c) =
    Inr (subscriber_init (lp_dataset_id p)\<lparr>ls_last_source_sequence := lp_source_sequence p,
        ls_last_source_rows := lp_source_rows p\<rparr>,
      [\<lparr>lb_rows = rows, lb_source_sequence = lp_source_sequence p, lb_source_rows = lp_source_rows p,
        lb_coalesced_rows = 0, lb_message_type = ''snapshot'', lb_timed_out = False\<rparr>])"
    by (simp add: read_stream_def consume_def c_def)
  have "apply_rows Map.empty rows = map_of (lp_latest p)"
    using apply_entries [of "lp_latest p" Map.empty] p by (simp add: latest_ok_def rows_def)
  then have "client_ok p c"
    unfolding client_ok_def read
    by (simp add: c_def subscriber_init_def latest_view_def accounted_def)
  then show ?thesis
    using p ok unfolding q by (intro clients_ok) (simp_all add: live_ok_def)
qed

lemma list_all_update: "list_all P xs \<Longrightarrow> P x \<Longrightarrow> list_all P (xs[i := x])"
  by (induction xs arbitrary: i) (auto split: nat.split)

lemma live_step_ok:
  assumes "live_step p q" and "live_ok p"
  shows "live_ok q"
  using assms
proof cases
  case (step_publish r)
  then show ?thesis using publish_ok assms(2) by blast
next
  case (step_join auth)
  then show ?thesis using join_ok assms(2) by blast
next
  case (step_wake i)
  with assms(2) have "client_ok p (client_flush p (lp_clients p ! i))"
    by (intro flush_ok(1)) (auto simp: live_ok_def list_all_length)
  then show ?thesis
    using assms(2) unfolding step_wake client_wake_def
    by (intro clients_ok list_all_update) (simp_all add: live_ok_def)
next
  case (step_beat i)
  with assms(2) have "client_ok p (client_send (lp_clients p ! i) (stream_message p ''heartbeat'' [] 0 0))"
    by (intro beat_ok) (auto simp: live_ok_def list_all_length)
  then show ?thesis
    using assms(2) unfolding step_beat client_beat_def
    by (intro clients_ok list_all_update) (simp_all add: live_ok_def)
next
  case (step_leave i)
  then show ?thesis
    using assms(2) unfolding step_leave client_leave_def
    by (intro clients_ok) (auto simp: live_ok_def list_all_iff dest: in_set_takeD in_set_dropD)
qed

definition live_reach :: "publisher \<Rightarrow> publisher \<Rightarrow> bool" where
  "live_reach = live_step\<^sup>*\<^sup>*"

lemma live_reach_ok: "live_reach p q \<Longrightarrow> live_ok p \<Longrightarrow> live_ok q"
  unfolding live_reach_def by (induction rule: rtranclp_induct) (auto intro: live_step_ok)

lemma start_ok:
  assumes "publisher_init ds host port n hb token = Inr p0" and "publisher_start sockets pid now p0 = Inr (p, e)"
  shows "live_ok p" and "lp_dataset_id p = ds"
  using assms
  by (auto simp: publisher_init_def publisher_start_def live_ok_def latest_ok_def bind_result_Inr
      split: if_splits list.splits)

lemma live_step_dataset: "live_step p q \<Longrightarrow> lp_dataset_id q = lp_dataset_id p"
  by (induction rule: live_step.induct)
    (auto simp: publish_row_def client_join_def client_wake_def client_beat_def client_leave_def Let_def
      split: if_splits prod.splits jval.splits)

lemma live_reach_dataset: "live_reach p q \<Longrightarrow> lp_dataset_id q = lp_dataset_id p"
  unfolding live_reach_def by (induction rule: rtranclp_induct) (auto dest: live_step_dataset)

section \<open>Framing and endpoints\<close>

lemma endpoint_roundtrip: "endpoint_post_init e = Inr e \<Longrightarrow> endpoint_from_dict (endpoint_to_dict e) = Inr e"
  by (cases e) (simp add: endpoint_from_dict_def endpoint_to_dict_def req_field_def)

lemma takeWhile_line:
  "line_break \<notin> set line \<Longrightarrow> takeWhile (\<lambda>c. c \<noteq> line_break) (line @ line_break # rest) = line"
  by (subst takeWhile_append2) auto

lemma read_message_line:
  assumes "line_break \<notin> set line" and "loads line = Some (JObj payload)"
  shows "buffer @ concat chunks = line @ line_break # rest \<Longrightarrow> \<forall>c \<in> set chunks. c \<noteq> [] \<Longrightarrow>
    length (buffer @ concat chunks) \<le> MAX_MESSAGE_BYTES \<Longrightarrow>
    \<exists>b cs. read_message loads buffer chunks = Inr (Some payload, b, cs) \<and> b @ concat cs = rest \<and>
      (\<forall>c \<in> set cs. c \<noteq> [])"
proof (induction chunks arbitrary: buffer)
  case Nil
  then have "takeWhile (\<lambda>c. c \<noteq> line_break) buffer = line" "line_break \<in> set buffer"
    using takeWhile_line [OF assms(1)] by auto
  with Nil assms(2) show ?case by (subst read_message.simps) simp
next
  case (Cons chunk chunks)
  show ?case
  proof (cases "line_break \<in> set buffer")
    case True
    then obtain xs ys where b: "buffer = xs @ line_break # ys" "line_break \<notin> set xs" by (auto dest: split_list_first)
    have "takeWhile (\<lambda>c. c \<noteq> line_break) (buffer @ concat (chunk # chunks)) = xs"
      using takeWhile_line [OF b(2), of "ys @ concat (chunk # chunks)"] by (simp add: b(1))
    moreover have "takeWhile (\<lambda>c. c \<noteq> line_break) (buffer @ concat (chunk # chunks)) = line"
      unfolding Cons.prems(1) by (rule takeWhile_line [OF assms(1)])
    ultimately have xs: "xs = line" by simp
    then have "takeWhile (\<lambda>c. c \<noteq> line_break) buffer = line"
      using takeWhile_line [OF b(2), of ys] by (simp add: b(1))
    then show ?thesis using True assms(2) Cons.prems(1,2) by (subst read_message.simps) (simp add: b(1) xs)
  next
    case False
    have "\<exists>b cs. read_message loads (buffer @ chunk) chunks = Inr (Some payload, b, cs) \<and> b @ concat cs = rest \<and>
      (\<forall>c \<in> set cs. c \<noteq> [])"
      using Cons.prems by (intro Cons.IH) auto
    moreover have "length (buffer @ chunk) \<le> length (buffer @ concat (chunk # chunks))" by simp
    with Cons.prems(2,3) have "chunk \<noteq> []" "\<not> MAX_MESSAGE_BYTES < length (buffer @ chunk)"
      by (simp, linarith)
    ultimately show ?thesis using False by (subst read_message.simps) simp
  qed
qed

section \<open>Properties\<close>



text \<open>C27: Every published row is accounted for: in every reachable state no instrument was ever
  dropped, and for each client the rows published since its snapshot are those delivered, those
  reported as coalesced, those pending and those coalesced since the last message.\<close>

theorem live_rows_accounted:
  assumes "publisher_init ds host port n hb token = Inr p0" and "publisher_start sockets pid now p0 = Inr (p, e)"
    and "live_reach p q"
  shows "lp_dropped q = 0 \<and> length (lp_latest q) \<le> lp_max_instruments q \<and>
    (\<forall>c \<in> set (lp_clients q). cs_dropped c = 0 \<and>
      (\<exists>s bs. read_stream ds (cs_sent c) = Inr (s, bs) \<and> bs \<noteq> [] \<and>
        lp_source_rows q - lb_source_rows (hd bs) =
          accounted bs + int (length (cs_pending c)) + cs_coalesced c))"
proof -
  have ok: "live_ok q" using live_reach_ok [OF assms(3)] start_ok(1) [OF assms(1,2)] by blast
  have ds: "lp_dataset_id q = ds"
    using live_reach_dataset [OF assms(3)] start_ok(2) [OF assms(1,2)] by simp
  have "client_ok q c" if "c \<in> set (lp_clients q)" for c
    using ok that by (simp add: live_ok_def list_all_iff)
  moreover have "latest_ok q" using ok by (simp add: live_ok_def)
  ultimately show ?thesis unfolding client_ok_def latest_ok_def ds by fastforce
qed


text \<open>Message framing does not depend on how the socket cuts the bytes: when the buffered and the
  arriving bytes start with the line of an encoded message (and stay below the safety bound), the
  reader returns that message and leaves exactly the bytes after it.\<close>

theorem framing_chunk_independent:
  assumes "line_break \<notin> set line" and "loads line = Some (JObj payload)"
    and "buffer @ concat chunks = line @ line_break # rest" and "\<forall>c \<in> set chunks. c \<noteq> []"
    and "length (buffer @ concat chunks) \<le> MAX_MESSAGE_BYTES"
  shows "\<exists>b cs. read_message loads buffer chunks = Inr (Some payload, b, cs) \<and> b @ concat cs = rest"
  using read_message_line [of line loads payload buffer chunks rest, OF assms] by blast

theorem framing_chunk_independent_witness:
  "\<exists>b cs. read_message (\<lambda>raw. if raw = ''ab'' then Some (JObj []) else None) ''a'' [[CHR ''b''], [line_break, CHR ''c'']] =
     Inr (Some [], b, cs) \<and> b @ concat cs = ''c''"
  by (rule framing_chunk_independent [where line = "''ab''"]) (simp_all add: line_break_def MAX_MESSAGE_BYTES_def)

text \<open>A running publisher with one client and one published row.\<close>

definition example_publisher :: publisher where
  "example_publisher =
     \<lparr>lp_dataset_id = ''run-1'', lp_host = ''127.0.0.1'', lp_max_instruments = 10, lp_token = ''tok'',
      lp_source_rows = 0, lp_source_sequence = 0, lp_coalesced = 0, lp_dropped = 0, lp_latest = [],
      lp_clients = [], lp_started = False, lp_closed = False, lp_descriptor = None\<rparr>"

definition example_endpoint :: live_endpoint where
  "example_endpoint =
     \<lparr>le_schema_version = ''1.0.0'', le_dataset_id = ''run-1'', le_host = ''127.0.0.1'', le_port = 5000,
      le_token = ''tok'', le_producer_pid = 7, le_published_at = Aware 0 0\<rparr>"

definition example_running :: publisher where
  "example_running =
     example_publisher\<lparr>lp_started := True, lp_descriptor := Some (endpoint_to_dict example_endpoint)\<rparr>"

lemma example_started:
  "publisher_init ''run-1'' ''127.0.0.1'' 0 10 1 ''tok'' = Inr example_publisher"
  "publisher_start [5000] 7 (Aware 0 0) example_publisher = Inr (example_running, example_endpoint)"
  by (simp_all add: publisher_init_def localhost_def example_publisher_def publisher_start_def
      endpoint_post_init_def LIVE_STREAM_SCHEMA_VERSION_def example_running_def example_endpoint_def)

lemma example_live:
  obtains q where "live_reach example_running q" and "length (lp_clients q) = 1"
    and "cs_event (lp_clients q ! 0)" and "lp_source_rows q = 1"
proof -
  obtain p1 where p1: "client_join example_running (JObj [(''token'', JStr ''tok''), (''dataset_id'', JStr ''run-1'')]) = Inr p1"
    by (simp add: client_join_def get_field_def example_running_def example_publisher_def Let_def)
  obtain p2 where p2: "publish_row p1 example_row = Inr p2" "length (lp_clients p2) = 1"
      "cs_event (lp_clients p2 ! 0)" "lp_source_rows p2 = 1"
    using p1
    by (auto simp: client_join_def get_field_def example_running_def example_publisher_def Let_def publish_row_def
        example_row_def client_offer_def client_send_def)
  have "live_reach example_running p2"
    unfolding live_reach_def
    using step_join [OF p1] step_publish [OF example_row_ok p2(1)] by (meson rtranclp.simps)
  with p2(2-4) that show thesis by blast
qed



theorem live_rows_accounted_witness:
  "\<exists>q. live_reach example_running q \<and> lp_source_rows q = 1 \<and> lp_dropped q = 0"
proof -
  obtain q where q: "live_reach example_running q" "lp_source_rows q = 1" using example_live by metis
  from live_rows_accounted [OF example_started q(1)] q show ?thesis by blast
qed

end
