(* ===== verification/Instruments.thy ===== *)
theory Instruments
  imports Prelude
begin

text \<open>
  \<open>data/src/shaurya/contracts/instruments.py\<close>: the broker-neutral identity of a listed
  instrument, its canonical text, the Dhan and Kotak mappings and the reader of Dhan's security
  master. A \<open>date\<close> is a calendar date (year, month, day), a finite \<open>Decimal\<close> is \<open>Dec c e\<close>,
  the number \<open>c * 10 ^ e\<close>. A master is the header and the complete records the \<open>csv\<close> module
  reads; \<open>datetime.fromisoformat(text).date()\<close> and \<open>Decimal(text)\<close> are parameters of the reader.
\<close>

section \<open>Calendar dates\<close>

record cdate =
  cd_year :: nat
  cd_month :: nat
  cd_day :: nat

text \<open>\<open>date.isoformat()\<close>.\<close>

definition cd_isoformat :: "cdate \<Rightarrow> string" where
  "cd_isoformat d =
     join_with ''-'' [zero_pad 4 (cd_year d), zero_pad 2 (cd_month d), zero_pad 2 (cd_day d)]"

lemma cd_isoformat_inj: "cd_isoformat a = cd_isoformat b \<longleftrightarrow> a = b"
proof
  assume eq: "cd_isoformat a = cd_isoformat b"
  let ?l = "\<lambda>d. map (\<lambda>(w, n). zero_pad w n) [(4, cd_year d), (2, cd_month d), (2, cd_day d)]"
  have free: "p \<in> set (?l d) \<Longrightarrow> CHR ''-'' \<notin> set p" for p d
    using digits_free [OF zero_pad_digits, of "CHR ''-''"] by (auto simp: is_digit_def)
  have "join_with ''-'' (?l a) = join_with ''-'' (?l b) \<longleftrightarrow> ?l a = ?l b"
    by (rule join_with_eq_iff) (simp_all add: free)
  moreover have "join_with ''-'' (?l a) = join_with ''-'' (?l b)"
    using eq unfolding cd_isoformat_def by simp
  ultimately have "?l a = ?l b" by blast
  then have "map digits_value (?l a) = map digits_value (?l b)" by simp
  then show "a = b" by (cases a; cases b) simp
qed simp

section \<open>Decimals\<close>

datatype decimal = Dec (dec_coeff: int) (dec_exp: int)

definition pow10 :: "int \<Rightarrow> rat" where
  "pow10 e = (if 0 \<le> e then 10 ^ nat e else 1 / 10 ^ nat (- e))"

definition dec_value :: "decimal \<Rightarrow> rat" where
  "dec_value d = of_int (dec_coeff d) * pow10 (dec_exp d)"

lemma pow10_pos [simp]: "0 < pow10 e"
  by (simp add: pow10_def)

lemma pow10_Suc: "pow10 (e + 1) = 10 * pow10 e"
proof (cases "0 \<le> e")
  case True
  then have "nat (e + 1) = Suc (nat e)" by simp
  with True show ?thesis by (simp add: pow10_def)
next
  case False
  then have "nat (- e) = Suc (nat (- (e + 1)))" by simp
  with False show ?thesis by (simp add: pow10_def)
qed

text \<open>\<open>ROUND_HALF_EVEN\<close> of \<open>n / d\<close>, and the rounding to the 28 digits of the default context.\<close>

definition div_half_even :: "nat \<Rightarrow> nat \<Rightarrow> nat" where
  "div_half_even n d =
     (let q = n div d; r = n mod d
      in if 2 * r < d \<or> 2 * r = d \<and> even q then q else q + 1)"

definition context_digits :: nat where
  "context_digits = 28"

definition dec_fix :: "nat \<Rightarrow> int \<Rightarrow> nat \<times> int" where
  "dec_fix c e =
     (let k = length (dec_digits c) - context_digits in
      if k = 0 then (c, e)
      else let q = div_half_even c (10 ^ k)
           in if q = 10 ^ context_digits then (10 ^ (context_digits - 1), e + int k + 1)
              else (q, e + int k))"

fun strip_zeros :: "nat \<Rightarrow> int \<Rightarrow> nat \<times> int" where
  "strip_zeros c e =
     (if c = 0 then (0, 0)
      else if c mod 10 = 0 then strip_zeros (c div 10) (e + 1) else (c, e))"

declare strip_zeros.simps [simp del]

text \<open>\<open>format(value.normalize(), "f")\<close>.\<close>

definition positional :: "nat \<Rightarrow> int \<Rightarrow> string" where
  "positional c e =
     (let s = dec_digits c; k = nat (- e) in
      if 0 \<le> e then s @ replicate (nat e) CHR ''0''
      else if k < length s then take (length s - k) s @ ''.'' @ drop (length s - k) s
      else ''0.'' @ replicate (k - length s) CHR ''0'' @ s)"

definition format_normalized :: "decimal \<Rightarrow> string" where
  "format_normalized d =
     (case dec_fix (nat \<bar>dec_coeff d\<bar>) (dec_exp d) of
        (c, e) \<Rightarrow> (case strip_zeros c e of
          (c', e') \<Rightarrow> (if dec_coeff d < 0 then ''-'' else []) @ positional c' e'))"

text \<open>The number a positional text writes.\<close>

definition text_value :: "string \<Rightarrow> rat" where
  "text_value t =
     (case split_on CHR ''.'' t of
        [i, f] \<Rightarrow> of_nat (digits_value (i @ f)) / 10 ^ length f
      | _ \<Rightarrow> of_nat (digits_value t))"

lemma dec_digits_dotless: "CHR ''.'' \<notin> set (dec_digits n)"
  by (rule digits_free [OF dec_digits_digits]) (simp add: is_digit_def)

lemma positional_value: "text_value (positional c e) = of_nat c * pow10 e"
proof -
  define s where "s = dec_digits c"
  define k where "k = nat (- e)"
  have dot: "CHR ''.'' \<notin> set s" by (simp add: s_def dec_digits_dotless)
  have dots: "CHR ''.'' \<notin> set (take n s)" "CHR ''.'' \<notin> set (drop n s)" for n
    using dot by (auto dest: in_set_takeD in_set_dropD)
  have val: "digits_value s = c" by (simp add: s_def)
  consider "0 \<le> e" | "e < 0" "k < length s" | "e < 0" "length s \<le> k" by linarith
  then show ?thesis
  proof cases
    case 1
    have "CHR ''.'' \<notin> set (s @ replicate (nat e) CHR ''0'')" using dot by simp
    with 1 show ?thesis
      by (simp add: positional_def Let_def text_value_def split_on_free digits_value_shift val
          pow10_def flip: s_def)
  next
    case 2
    let ?n = "length s - k"
    have "split_on CHR ''.'' (take ?n s @ CHR ''.'' # drop ?n s) = [take ?n s, drop ?n s]"
      by (simp add: split_on_append_sep split_on_free dots)
    with 2 show ?thesis
      by (simp add: positional_def Let_def text_value_def val pow10_def flip: s_def k_def)
  next
    case 3
    have "split_on CHR ''.'' (CHR ''0'' # CHR ''.'' # replicate (k - length s) CHR ''0'' @ s) =
        [''0'', replicate (k - length s) CHR ''0'' @ s]"
      using dot split_on_append_sep [of "CHR ''.''" "''0''"] by (simp add: split_on_free)
    moreover have "digits_value (CHR ''0'' # replicate (k - length s) CHR ''0'' @ s) = c"
      using digits_value_zeros [of "Suc (k - length s)" s] val by simp
    ultimately show ?thesis
      using 3 by (simp add: positional_def Let_def text_value_def pow10_def flip: s_def k_def)
  qed
qed

lemma strip_zeros_value:
  "of_nat (fst (strip_zeros c e)) * pow10 (snd (strip_zeros c e)) = of_nat c * pow10 e"
proof (induction c e rule: strip_zeros.induct)
  case (1 c e)
  show ?case
  proof (cases "c \<noteq> 0 \<and> c mod 10 = 0")
    case True
    then have "(of_nat c :: rat) = 10 * of_nat (c div 10)"
      by (metis add.right_neutral mult_div_mod_eq of_nat_mult of_nat_numeral)
    with 1 True show ?thesis by (simp add: strip_zeros.simps [of c e] pow10_Suc)
  qed (auto simp: strip_zeros.simps [of c e])
qed

definition context_exact :: "decimal \<Rightarrow> bool" where
  "context_exact d \<longleftrightarrow> length (dec_digits (nat \<bar>dec_coeff d\<bar>)) \<le> context_digits"

lemma format_normalized_value:
  assumes "context_exact d" and "0 \<le> dec_coeff d"
  shows "text_value (format_normalized d) = dec_value d"
proof -
  have "dec_fix (nat \<bar>dec_coeff d\<bar>) (dec_exp d) = (nat (dec_coeff d), dec_exp d)"
    using assms by (simp add: dec_fix_def context_exact_def)
  then show ?thesis
    using assms(2) strip_zeros_value [of "nat (dec_coeff d)" "dec_exp d"]
    by (simp add: format_normalized_def positional_value dec_value_def case_prod_beta)
qed

section \<open>Instrument identity\<close>

datatype segment_code = IDX_I | NSE_EQ | NSE_FNO

fun segment_str :: "segment_code \<Rightarrow> string" where
  "segment_str IDX_I = ''IDX_I''"
| "segment_str NSE_EQ = ''NSE_EQ''"
| "segment_str NSE_FNO = ''NSE_FNO''"

datatype instrument_kind = INDEX | EQUITY | FUTURE | OPTION

fun kind_str :: "instrument_kind \<Rightarrow> string" where
  "kind_str INDEX = ''index''"
| "kind_str EQUITY = ''equity''"
| "kind_str FUTURE = ''future''"
| "kind_str OPTION = ''option''"

datatype option_type = CALL | PUT

fun option_str :: "option_type \<Rightarrow> string" where
  "option_str CALL = ''CE''"
| "option_str PUT = ''PE''"

lemma segment_str_inj [simp]: "segment_str s = segment_str s' \<longleftrightarrow> s = s'"
  by (cases s; cases s'; simp)

lemma kind_str_inj [simp]: "kind_str k = kind_str k' \<longleftrightarrow> k = k'"
  by (cases k; cases k'; simp)

lemma option_str_inj [simp]: "option_str t = option_str t' \<longleftrightarrow> t = t'"
  by (cases t; cases t'; simp)

record instrument =
  in_exchange :: string
  in_segment :: segment_code
  in_underlying :: string
  in_kind :: instrument_kind
  in_expiry :: "cdate option"
  in_strike :: "decimal option"
  in_option_type :: "option_type option"

definition instrument_checks :: "instrument \<Rightarrow> (bool \<times> exn) list" where
  "instrument_checks i =
    [(in_exchange i = [] \<or> in_underlying i = [], ValueError ''exchange and underlying are required''),
     ((in_kind i = FUTURE \<or> in_kind i = OPTION) \<and> in_expiry i = None,
      ValueError ''derivative instruments require expiry''),
     (in_kind i = OPTION \<and>
        (\<not> (case in_strike i of None \<Rightarrow> False | Some k \<Rightarrow> 0 < dec_value k) \<or> in_option_type i = None),
      ValueError ''options require positive strike and option_type''),
     (in_kind i \<noteq> OPTION \<and> (in_strike i \<noteq> None \<or> in_option_type i \<noteq> None),
      ValueError ''strike and option_type are valid only for options'')]"

definition instrument_post_init :: "instrument \<Rightarrow> instrument result" where
  "instrument_post_init i =
     (case first_error (instrument_checks i) of Some e \<Rightarrow> Inl e | None \<Rightarrow> Inr i)"

definition canonical_parts :: "instrument \<Rightarrow> string list" where
  "canonical_parts i =
     [py_upper (in_exchange i), segment_str (in_segment i), py_upper (in_underlying i),
      kind_str (in_kind i)] @
     (case in_expiry i of None \<Rightarrow> [] | Some d \<Rightarrow> [cd_isoformat d]) @
     (case in_strike i of None \<Rightarrow> [] | Some k \<Rightarrow> [format_normalized k]) @
     (case in_option_type i of None \<Rightarrow> [] | Some t \<Rightarrow> [option_str t])"

definition canonical :: "instrument \<Rightarrow> string" where
  "canonical i = join_with '':'' (canonical_parts i)"

section \<open>Broker mappings\<close>

text \<open>\<open>str.isdigit\<close> also accepts the Latin-1 superscripts, which \<open>int\<close> then refuses.\<close>

definition py_isdigit :: "string \<Rightarrow> bool" where
  "py_isdigit s \<longleftrightarrow>
     s \<noteq> [] \<and> list_all (\<lambda>c. is_digit c \<or> of_char c \<in> {178, 179, 185 :: nat}) s"

definition py_int_of_digits :: "string \<Rightarrow> int result" where
  "py_int_of_digits s =
     (if list_all is_digit s then Inr (int (digits_value s))
      else Inl (ValueError ''invalid literal for int() with base 10''))"

definition positive_digits :: "string \<Rightarrow> bool result" where
  "positive_digits s =
     (if \<not> py_isdigit s then Inr False
      else bind_result (py_int_of_digits s) (\<lambda>n. Inr (0 < n)))"

record dhan_mapping =
  dm_instrument :: instrument
  dm_security_id :: string
  dm_exchange_segment :: segment_code
  dm_trading_symbol :: string
  dm_lot_size :: "int option"
  dm_tick_size_paise :: "decimal option"
  dm_as_of_date :: cdate
  dm_source :: string

definition dhan_mapping_post_init :: "dhan_mapping \<Rightarrow> dhan_mapping result" where
  "dhan_mapping_post_init m =
     bind_result (positive_digits (dm_security_id m)) (\<lambda>positive.
       if \<not> positive then Inl (ValueError ''Dhan security_id must be a positive integer string'')
       else if dm_exchange_segment m \<noteq> in_segment (dm_instrument m)
       then Inl (ValueError ''mapping segment must match internal instrument segment'')
       else if dm_trading_symbol m = [] then Inl (ValueError ''trading_symbol is required'')
       else Inr m)"

record kotak_mapping =
  km_instrument :: instrument
  km_instrument_token :: string
  km_exchange_segment :: string
  km_trading_symbol :: string
  km_as_of_date :: cdate
  km_source :: string

definition kotak_mapping_post_init :: "kotak_mapping \<Rightarrow> kotak_mapping result" where
  "kotak_mapping_post_init m =
     (if py_strip (km_instrument_token m) = [] then Inl (ValueError ''Kotak instrument_token is required'')
      else if py_strip (km_exchange_segment m) = [] \<or> py_strip (km_trading_symbol m) = []
      then Inl (ValueError ''Kotak exchange segment and trading symbol are required'')
      else Inr m)"

section \<open>Reading Dhan's security master\<close>

type_synonym csv_row = "(string \<times> string) list"

text \<open>\<open>row.get(key, "").strip()\<close>.\<close>

definition column :: "csv_row \<Rightarrow> string \<Rightarrow> string" where
  "column row k = py_strip (case map_of row k of None \<Rightarrow> [] | Some v \<Rightarrow> v)"

record text_parsers =
  tp_date :: "string \<Rightarrow> cdate result"
  tp_decimal :: "string \<Rightarrow> decimal result"

definition parse_date :: "text_parsers \<Rightarrow> string \<Rightarrow> cdate option result" where
  "parse_date tp raw =
     (let text = py_strip raw in
      if text = [] then Inr None else bind_result (tp_date tp text) (\<lambda>d. Inr (Some d)))"

definition parse_decimal :: "text_parsers \<Rightarrow> string \<Rightarrow> decimal option result" where
  "parse_decimal tp raw =
     (let text = py_strip raw in
      if text = [] then Inr None
      else bind_result (tp_decimal tp text) (\<lambda>v. Inr (if 0 \<le> dec_value v then Some v else None)))"

definition int_size :: "text_parsers \<Rightarrow> string \<Rightarrow> int option result" where
  "int_size tp raw =
     bind_result (parse_decimal tp raw) (\<lambda>v. Inr (map_option (\<lambda>d. \<lfloor>dec_value d\<rfloor>) v))"

definition row_underlying :: "csv_row \<Rightarrow> string" where
  "row_underlying row =
     (let symbol = column row ''SM_SYMBOL_NAME''; trading = column row ''SEM_TRADING_SYMBOL'';
          custom = column row ''SEM_CUSTOM_SYMBOL''
      in if symbol \<noteq> [] then symbol
         else if CHR ''-'' \<in> set trading then takeWhile (\<lambda>c. c \<noteq> CHR ''-'') trading
         else if custom \<noteq> [] then takeWhile (\<lambda>c. \<not> py_isspace c) custom
         else trading)"

definition row_segment_kind :: "csv_row \<Rightarrow> (segment_code \<times> instrument_kind) option" where
  "row_segment_kind row =
     (let instrument_name = py_upper (column row ''SEM_INSTRUMENT_NAME'');
          segment_code = py_upper (column row ''SEM_SEGMENT'')
      in if prefix ''OPT'' instrument_name then Some (NSE_FNO, OPTION)
         else if prefix ''FUT'' instrument_name then Some (NSE_FNO, FUTURE)
         else if instrument_name \<in> {''INDEX'', ''IDX''} \<or> segment_code = ''I'' then Some (IDX_I, INDEX)
         else if segment_code = ''E'' \<or> instrument_name \<in> {''EQUITY'', ''EQ''} then Some (NSE_EQ, EQUITY)
         else None)"

definition row_identity :: "text_parsers \<Rightarrow> csv_row \<Rightarrow> instrument option result" where
  "row_identity tp row =
     (case row_segment_kind row of
        None \<Rightarrow> Inr None
      | Some (segment, kind) \<Rightarrow>
          bind_result (parse_date tp (column row ''SEM_EXPIRY_DATE'')) (\<lambda>expiry.
          bind_result (parse_decimal tp (column row ''SEM_STRIKE_PRICE'')) (\<lambda>strike.
          let option_raw = py_upper (column row ''SEM_OPTION_TYPE'');
              option_type = (if option_raw = ''CE'' then Some CALL
                             else if option_raw = ''PE'' then Some PUT else None)
          in bind_result (instrument_post_init
               \<lparr>in_exchange = ''NSE'', in_segment = segment, in_underlying = row_underlying row,
                in_kind = kind, in_expiry = expiry,
                in_strike = (if kind \<noteq> OPTION then None else strike),
                in_option_type = (if kind \<noteq> OPTION then None else option_type)\<rparr>)
               (\<lambda>i. Inr (Some i)))))"

text \<open>One turn of the reader's loop: \<open>None\<close> is \<open>continue\<close>.\<close>

definition dhan_row_mapping ::
    "text_parsers \<Rightarrow> cdate \<Rightarrow> string \<Rightarrow> csv_row \<Rightarrow> dhan_mapping option result" where
  "dhan_row_mapping tp as_of path row =
     (if py_upper (column row ''SEM_EXM_EXCH_ID'') \<noteq> ''NSE'' then Inr None
      else bind_result (row_identity tp row) (\<lambda>identity.
        case identity of
          None \<Rightarrow> Inr None
        | Some i \<Rightarrow>
            (let security_id = column row ''SEM_SMST_SECURITY_ID'' in
             bind_result (positive_digits security_id) (\<lambda>positive.
             if \<not> positive then Inr None
             else bind_result (int_size tp (column row ''SEM_LOT_UNITS'')) (\<lambda>lot.
             bind_result (parse_decimal tp (column row ''SEM_TICK_SIZE'')) (\<lambda>tick.
             bind_result (dhan_mapping_post_init
               \<lparr>dm_instrument = i, dm_security_id = security_id, dm_exchange_segment = in_segment i,
                dm_trading_symbol = column row ''SEM_TRADING_SYMBOL'', dm_lot_size = lot,
                dm_tick_size_paise = tick, dm_as_of_date = as_of, dm_source = path\<rparr>)
               (\<lambda>m. Inr (Some m))))))))"

definition REQUIRED_COLUMNS :: "string list" where
  "REQUIRED_COLUMNS =
     [''SEM_EXM_EXCH_ID'', ''SEM_SEGMENT'', ''SEM_SMST_SECURITY_ID'', ''SEM_INSTRUMENT_NAME'',
      ''SEM_TRADING_SYMBOL'', ''SEM_EXPIRY_DATE'', ''SEM_STRIKE_PRICE'', ''SEM_OPTION_TYPE'']"

record dhan_master =
  ma_path :: string
  ma_as_of_date :: cdate
  ma_header :: "string list"
  ma_records :: "csv_row list"

fun keep_some :: "'a option list \<Rightarrow> 'a list" where
  "keep_some [] = []"
| "keep_some (None # xs) = keep_some xs"
| "keep_some (Some x # xs) = x # keep_some xs"

text \<open>\<open>tuple(master.mappings())\<close>.\<close>

definition dhan_mappings :: "text_parsers \<Rightarrow> dhan_master \<Rightarrow> dhan_mapping list result" where
  "dhan_mappings tp ma =
     (if \<not> set REQUIRED_COLUMNS \<subseteq> set (ma_header ma)
      then Inl (ValueError ''Dhan master is missing columns'')
      else bind_result (map_result (dhan_row_mapping tp (ma_as_of_date ma) (ma_path ma)) (ma_records ma))
             (\<lambda>ms. Inr (keep_some ms)))"

definition segment_of_str :: "string \<Rightarrow> segment_code result" where
  "segment_of_str v =
     (case find (\<lambda>s. v = segment_str s) [IDX_I, NSE_EQ, NSE_FNO] of
        None \<Rightarrow> Inl (ValueError ''not a valid ExchangeSegment'') | Some s \<Rightarrow> Inr s)"

definition kind_of_str :: "string \<Rightarrow> instrument_kind result" where
  "kind_of_str v =
     (case find (\<lambda>k. v = kind_str k) [INDEX, EQUITY, FUTURE, OPTION] of
        None \<Rightarrow> Inl (ValueError ''not a valid InstrumentKind'') | Some k \<Rightarrow> Inr k)"

definition optional_code :: "(string \<Rightarrow> 'a result) \<Rightarrow> string option \<Rightarrow> 'a option result" where
  "optional_code f v =
     (case v of None \<Rightarrow> Inr None | Some t \<Rightarrow> bind_result (f t) (\<lambda>x. Inr (Some x)))"

definition wanted_mapping ::
    "string \<Rightarrow> segment_code option \<Rightarrow> instrument_kind option \<Rightarrow> dhan_mapping \<Rightarrow> bool" where
  "wanted_mapping wanted segment kind m \<longleftrightarrow>
     dm_security_id m = wanted \<and> opt_ok (\<lambda>s. dm_exchange_segment m = s) segment \<and>
     opt_ok (\<lambda>k. in_kind (dm_instrument m) = k) kind"

definition find_by_security_id ::
    "text_parsers \<Rightarrow> dhan_master \<Rightarrow> string \<Rightarrow> string option \<Rightarrow> string option \<Rightarrow> dhan_mapping result" where
  "find_by_security_id tp ma wanted exchange_segment kind_text =
     bind_result (optional_code segment_of_str exchange_segment) (\<lambda>segment.
     bind_result (optional_code kind_of_str kind_text) (\<lambda>kind.
     bind_result (dhan_mappings tp ma) (\<lambda>ms.
       case filter (wanted_mapping wanted segment kind) ms of
         [] \<Rightarrow> Inl (KeyError ''Dhan security_id was not found'')
       | [m] \<Rightarrow> Inr m
       | _ \<Rightarrow> Inl (ValueError ''Dhan security_id is ambiguous; pass exchange_segment or instrument_kind''))))"

section \<open>The canonical text identifies the instrument\<close>

definition colon_free :: "instrument \<Rightarrow> bool" where
  "colon_free i \<longleftrightarrow> CHR '':'' \<notin> set (in_exchange i) \<and> CHR '':'' \<notin> set (in_underlying i)"

definition strike_exact :: "instrument \<Rightarrow> bool" where
  "strike_exact i = opt_ok context_exact (in_strike i)"

definition same_listing :: "instrument \<Rightarrow> instrument \<Rightarrow> bool" where
  "same_listing a b \<longleftrightarrow>
     py_upper (in_exchange a) = py_upper (in_exchange b) \<and> in_segment a = in_segment b \<and>
     py_upper (in_underlying a) = py_upper (in_underlying b) \<and> in_kind a = in_kind b \<and>
     in_expiry a = in_expiry b \<and>
     map_option dec_value (in_strike a) = map_option dec_value (in_strike b) \<and>
     in_option_type a = in_option_type b"

lemma py_upper_char_colon [simp]: "py_upper_char c = CHR '':'' \<longleftrightarrow> c = CHR '':''"
proof (cases "97 \<le> (of_char c :: nat) \<and> (of_char c :: nat) \<le> 122")
  case True
  define n where "n = (of_char c :: nat)"
  have n: "97 \<le> n" "n \<le> 122" using True by (simp_all only: n_def)
  then have "n - 32 < 256" and "n - 32 \<noteq> 58" by linarith+
  then have "(n - 32) mod 256 = n - 32" and "n - 32 \<noteq> 58" by simp_all
  then have "(of_char (py_upper_char c) :: nat) \<noteq> of_char CHR '':''"
    using True by (simp add: py_upper_char_def Let_def n_def)
  then have "py_upper_char c \<noteq> CHR '':''" by metis
  moreover have "c \<noteq> CHR '':''" using True by auto
  ultimately show ?thesis by simp
qed (auto simp: py_upper_char_def Let_def)

lemma py_upper_colon: "CHR '':'' \<notin> set s \<Longrightarrow> CHR '':'' \<notin> set (py_upper s)"
  by (auto simp: py_upper_def dest: sym)

lemma positional_colon: "CHR '':'' \<notin> set (positional c e)"
proof -
  have "CHR '':'' \<notin> set (dec_digits c)"
    by (rule digits_free [OF dec_digits_digits]) (simp add: is_digit_def)
  then show ?thesis by (auto simp: positional_def Let_def dest: in_set_takeD in_set_dropD)
qed

lemma format_normalized_colon: "CHR '':'' \<notin> set (format_normalized d)"
  by (simp add: format_normalized_def positional_colon case_prod_beta)

lemma cd_isoformat_colon: "CHR '':'' \<notin> set (cd_isoformat d)"
  using digits_free [OF zero_pad_digits, of "CHR '':''"] by (simp add: cd_isoformat_def is_digit_def)

lemma canonical_parts_colon: "colon_free i \<Longrightarrow> p \<in> set (canonical_parts i) \<Longrightarrow> CHR '':'' \<notin> set p"
proof -
  assume i: "colon_free i" and p: "p \<in> set (canonical_parts i)"
  have s: "CHR '':'' \<notin> set (segment_str s)" for s by (cases s) simp_all
  have k: "CHR '':'' \<notin> set (kind_str k)" for k by (cases k) simp_all
  have t: "CHR '':'' \<notin> set (option_str t)" for t by (cases t) simp_all
  show ?thesis
    using i p s k t format_normalized_colon cd_isoformat_colon
    unfolding canonical_parts_def colon_free_def
    by (auto simp: py_upper_colon split: option.splits)
qed

text \<open>Trailing zeros stripped, the digits and the exponent of a positive number are unique.\<close>

lemma strip_zeros_last: "0 < c \<Longrightarrow> 0 < fst (strip_zeros c e) \<and> fst (strip_zeros c e) mod 10 \<noteq> 0"
proof (induction c e rule: strip_zeros.induct)
  case (1 c e)
  show ?case
  proof (cases "c mod 10 = 0")
    case True
    then have "0 < c div 10" using "1.prems" by (simp add: div_greater_zero_iff) presburger
    with 1 True show ?thesis by (simp add: strip_zeros.simps [of c e])
  qed (use "1.prems" in \<open>simp add: strip_zeros.simps [of c e]\<close>)
qed

lemma pow10_shift: "pow10 (e + int k) = 10 ^ k * pow10 e"
proof (induction k)
  case (Suc k)
  have "pow10 (e + int (Suc k)) = pow10 ((e + int k) + 1)" by (simp add: algebra_simps)
  also have "\<dots> = 10 * pow10 (e + int k)" by (rule pow10_Suc)
  finally show ?case by (simp add: Suc)
qed simp

lemma stripped_unique_le:
  assumes eq: "of_nat c * pow10 e = of_nat d * pow10 f" and last: "c mod 10 \<noteq> 0" and le: "e \<le> f"
  shows "c = d \<and> e = f"
proof -
  obtain k where k: "f = e + int k" using le zle_iff_zadd by blast
  have "(of_nat c :: rat) * pow10 e = of_nat (d * 10 ^ k) * pow10 e"
    using eq by (simp add: k pow10_shift)
  moreover have "pow10 e \<noteq> 0" using pow10_pos [of e] by linarith
  ultimately have "c = d * 10 ^ k" by (metis mult_right_cancel of_nat_eq_iff)
  with last have "k = 0" by (cases k) auto
  with \<open>c = d * 10 ^ k\<close> k show ?thesis by simp
qed

lemma stripped_unique:
  assumes "of_nat c * pow10 e = of_nat d * pow10 f" and "c mod 10 \<noteq> 0" and "d mod 10 \<noteq> 0"
  shows "c = d \<and> e = f"
  using stripped_unique_le [OF assms(1,2)] stripped_unique_le [OF assms(1) [symmetric] assms(3)]
  by linarith

lemma dec_value_pos_iff: "0 < dec_value d \<longleftrightarrow> 0 < dec_coeff d"
proof -
  have "\<not> pow10 (dec_exp d) < 0" using pow10_pos [of "dec_exp d"] by linarith
  then show ?thesis by (simp add: dec_value_def zero_less_mult_iff)
qed

lemma format_normalized_cong:
  assumes "context_exact d" and "context_exact d'" and "0 < dec_value d"
    and eq: "dec_value d = dec_value d'"
  shows "format_normalized d = format_normalized d'"
proof -
  have pos: "0 < dec_coeff d" "0 < dec_coeff d'" using assms by (simp_all flip: dec_value_pos_iff)
  have exact: "dec_fix (nat \<bar>dec_coeff x\<bar>) (dec_exp x) = (nat (dec_coeff x), dec_exp x)"
    if "context_exact x" "0 < dec_coeff x" for x
    using that by (simp add: dec_fix_def context_exact_def)
  let ?s = "\<lambda>x. strip_zeros (nat (dec_coeff x)) (dec_exp x)"
  have val: "of_nat (fst (?s x)) * pow10 (snd (?s x)) = dec_value x" if "0 < dec_coeff x" for x
    using that strip_zeros_value [of "nat (dec_coeff x)" "dec_exp x"] by (simp add: dec_value_def)
  have nz: "fst (?s x) mod 10 \<noteq> 0" if "0 < dec_coeff x" for x
    using that strip_zeros_last [of "nat (dec_coeff x)" "dec_exp x"] by simp
  have "fst (?s d) = fst (?s d') \<and> snd (?s d) = snd (?s d')"
    by (rule stripped_unique) (use val pos eq nz in simp_all)
  then have "?s d = ?s d'" by (simp add: prod_eq_iff)
  then show ?thesis
    using pos exact [OF assms(1) pos(1)] exact [OF assms(2) pos(2)] by (simp add: format_normalized_def)
qed

lemma format_normalized_eq:
  assumes "context_exact d" and "context_exact d'" and "0 < dec_value d" and "0 < dec_value d'"
  shows "format_normalized d = format_normalized d' \<longleftrightarrow> dec_value d = dec_value d'"
  using assms format_normalized_cong [of d d'] format_normalized_value [of d] format_normalized_value [of d']
  by (metis dec_value_pos_iff less_imp_le)

lemma instrument_post_init_iff:
  "instrument_post_init i = Inr j \<longleftrightarrow>
     j = i \<and> in_exchange i \<noteq> [] \<and> in_underlying i \<noteq> [] \<and>
     (in_kind i = FUTURE \<longrightarrow> in_expiry i \<noteq> None) \<and>
     (in_kind i = OPTION \<longrightarrow>
        in_expiry i \<noteq> None \<and> (\<exists>k. in_strike i = Some k \<and> 0 < dec_value k) \<and> in_option_type i \<noteq> None) \<and>
     (in_kind i \<noteq> OPTION \<longrightarrow> in_strike i = None \<and> in_option_type i = None)"
  by (cases "in_kind i"; cases "in_strike i")
    (auto simp: instrument_post_init_def instrument_checks_def)

lemma canonical_parts_eq:
  assumes "instrument_post_init a = Inr a" and "instrument_post_init b = Inr b"
    and "strike_exact a" and "strike_exact b"
  shows "canonical_parts a = canonical_parts b \<longleftrightarrow> same_listing a b"
proof (cases "in_kind a = in_kind b")
  case True
  note ok = assms(1,2) [unfolded instrument_post_init_iff]
  show ?thesis
  proof (cases "in_kind a = OPTION")
    case opt_a: True
    obtain d k t where a: "in_expiry a = Some d" "in_strike a = Some k" "0 < dec_value k" "in_option_type a = Some t"
      using ok(1) opt_a by auto
    obtain d' k' t' where b: "in_expiry b = Some d'" "in_strike b = Some k'" "0 < dec_value k'" "in_option_type b = Some t'"
      using ok(2) opt_a True by auto
    have "format_normalized k = format_normalized k' \<longleftrightarrow> dec_value k = dec_value k'"
      by (rule format_normalized_eq) (use a b assms(3,4) in \<open>simp_all add: strike_exact_def\<close>)
    then show ?thesis
      using True by (simp add: canonical_parts_def same_listing_def a b cd_isoformat_inj)
  next
    case False
    with True ok have "in_strike a = None" "in_option_type a = None" "in_strike b = None" "in_option_type b = None"
      by auto
    with True show ?thesis
      by (cases "in_expiry a"; cases "in_expiry b")
        (simp_all add: canonical_parts_def same_listing_def cd_isoformat_inj)
  qed
qed (simp add: canonical_parts_def same_listing_def)


definition example_option :: "decimal \<Rightarrow> instrument" where
  "example_option k =
     \<lparr>in_exchange = ''NSE'', in_segment = NSE_FNO, in_underlying = ''Nifty'', in_kind = OPTION,
      in_expiry = Some \<lparr>cd_year = 2026, cd_month = 8, cd_day = 27\<rparr>, in_strike = Some k,
      in_option_type = Some CALL\<rparr>"


section \<open>What the reader yields\<close>

lemma dhan_mapping_post_init_iff:
  "dhan_mapping_post_init m = Inr m' \<longleftrightarrow>
     m' = m \<and> positive_digits (dm_security_id m) = Inr True \<and>
     dm_exchange_segment m = in_segment (dm_instrument m) \<and> dm_trading_symbol m \<noteq> []"
  by (cases "positive_digits (dm_security_id m)") (auto simp: dhan_mapping_post_init_def)

lemma positive_digits_iff:
  "positive_digits s = Inr True \<longleftrightarrow> list_all is_digit s \<and> 0 < digits_value s"
proof -
  have "list_all is_digit s \<Longrightarrow> s \<noteq> [] \<Longrightarrow> py_isdigit s"
    unfolding py_isdigit_def list_all_iff by blast
  then show ?thesis
    by (cases "s = []") (auto simp: positive_digits_def py_int_of_digits_def py_isdigit_def)
qed

text \<open>The shape of a mapping of the master: a valid instrument of the exchange NSE whose segment
  its kind fixes, under a positive numeric security identifier.\<close>

definition segment_of_kind :: "instrument_kind \<Rightarrow> segment_code" where
  "segment_of_kind k = (case k of INDEX \<Rightarrow> IDX_I | EQUITY \<Rightarrow> NSE_EQ | FUTURE \<Rightarrow> NSE_FNO | OPTION \<Rightarrow> NSE_FNO)"

definition mapping_typed :: "dhan_mapping \<Rightarrow> bool" where
  "mapping_typed m \<longleftrightarrow>
     instrument_post_init (dm_instrument m) = Inr (dm_instrument m) \<and>
     in_exchange (dm_instrument m) = ''NSE'' \<and>
     dm_exchange_segment m = segment_of_kind (in_kind (dm_instrument m)) \<and>
     in_segment (dm_instrument m) = dm_exchange_segment m \<and>
     list_all is_digit (dm_security_id m) \<and> 0 < digits_value (dm_security_id m) \<and>
     dm_trading_symbol m \<noteq> [] \<and>
     opt_ok (\<lambda>n. 0 \<le> n) (dm_lot_size m) \<and> opt_ok (\<lambda>t. 0 \<le> dec_value t) (dm_tick_size_paise m)"

lemma row_identity_typed:
  assumes "row_identity tp row = Inr (Some i)"
  shows "instrument_post_init i = Inr i \<and> in_exchange i = ''NSE'' \<and>
      in_segment i = segment_of_kind (in_kind i)"
proof (cases "row_segment_kind row")
  case (Some sk)
  obtain segment kind where sk: "sk = (segment, kind)" by (cases sk)
  have kind: "segment = segment_of_kind kind"
    using Some unfolding sk row_segment_kind_def Let_def
    by (auto simp: segment_of_kind_def split: if_splits)
  obtain j where j: "instrument_post_init j = Inr i" "in_exchange j = ''NSE''" "in_segment j = segment"
      "in_kind j = kind"
    using assms unfolding row_identity_def Some sk option.case prod.case Let_def bind_result_Inr
    by force
  have "j = i" using j(1) by (simp add: instrument_post_init_iff)
  with j kind show ?thesis by simp
qed (use assms in \<open>simp add: row_identity_def\<close>)

lemma parse_decimal_nonneg:
  "parse_decimal tp raw = Inr v \<Longrightarrow> opt_ok (\<lambda>d. 0 \<le> dec_value d) v"
  by (auto simp: parse_decimal_def Let_def bind_result_Inr split: if_splits)

lemma int_size_nonneg: "int_size tp raw = Inr v \<Longrightarrow> opt_ok (\<lambda>n. 0 \<le> n) v"
proof -
  assume "int_size tp raw = Inr v"
  then obtain d where d: "parse_decimal tp raw = Inr d" "v = map_option (\<lambda>x. \<lfloor>dec_value x\<rfloor>) d"
    unfolding int_size_def bind_result_Inr by blast
  show ?thesis using parse_decimal_nonneg [OF d(1)] d(2) by (cases d) simp_all
qed

lemma dhan_row_mapping_typed:
  assumes "dhan_row_mapping tp as_of path row = Inr (Some m)"
  shows "mapping_typed m \<and> dm_as_of_date m = as_of \<and> dm_source m = path"
proof -
  have nse: "py_upper (column row ''SEM_EXM_EXCH_ID'') = ''NSE''"
    using assms by (rule contrapos_pp) (simp add: dhan_row_mapping_def)
  obtain i where i: "row_identity tp row = Inr (Some i)"
    using assms nse unfolding dhan_row_mapping_def
    by (auto simp: bind_result_Inr split: option.splits)
  note row = assms [unfolded dhan_row_mapping_def, simplified nse i bind_result_simps option.case Let_def, simplified]
  obtain positive where p: "positive_digits (column row ''SEM_SMST_SECURITY_ID'') = Inr positive"
    using row unfolding bind_result_Inr by blast
  have positive using row p by (cases positive) simp_all
  with row p obtain lot tick m0 where
      lot: "int_size tp (column row ''SEM_LOT_UNITS'') = Inr lot" and
      tick: "parse_decimal tp (column row ''SEM_TICK_SIZE'') = Inr tick" and
      m0: "dhan_mapping_post_init m0 = Inr m" "dm_instrument m0 = i" "dm_lot_size m0 = lot"
        "dm_tick_size_paise m0 = tick" "dm_as_of_date m0 = as_of" "dm_source m0 = path"
    by (auto simp: bind_result_Inr)
  have "m = m0" using m0(1) by (simp add: dhan_mapping_post_init_iff)
  with m0 row_identity_typed [OF i] int_size_nonneg [OF lot] parse_decimal_nonneg [OF tick]
  show ?thesis
    by (simp add: mapping_typed_def dhan_mapping_post_init_iff positive_digits_iff)
qed

lemma set_keep_some [simp]: "x \<in> set (keep_some xs) \<longleftrightarrow> Some x \<in> set xs"
  by (induction xs rule: keep_some.induct) auto

text \<open>C39: every mapping the reader yields is well-typed, whatever the file holds and whatever the
  date and number parsers return: its instrument passes the identity validation, is of exchange
  NSE and lies in the segment its kind fixes, its security identifier is a positive decimal
  numeral, its sizes are not negative and it carries the date and path of the master.\<close>

theorem dhan_mappings_typed:
  assumes "dhan_mappings tp ma = Inr ms"
  shows "\<forall>m \<in> set ms. mapping_typed m \<and> dm_as_of_date m = ma_as_of_date ma \<and> dm_source m = ma_path ma"
proof
  fix m assume m: "m \<in> set ms"
  obtain os where os: "map_result (dhan_row_mapping tp (ma_as_of_date ma) (ma_path ma)) (ma_records ma) = Inr os"
      "ms = keep_some os"
    using assms by (auto simp: dhan_mappings_def bind_result_Inr split: if_splits)
  have "Some m \<in> set os" using m os(2) by simp
  then obtain row where "dhan_row_mapping tp (ma_as_of_date ma) (ma_path ma) row = Inr (Some m)"
    using os(1) unfolding map_result_Inr list_all2_conv_all_nth in_set_conv_nth by metis
  then show "mapping_typed m \<and> dm_as_of_date m = ma_as_of_date ma \<and> dm_source m = ma_path ma"
    by (rule dhan_row_mapping_typed)
qed

definition example_parsers :: text_parsers where
  "example_parsers =
     \<lparr>tp_date = (\<lambda>s. if s = ''2026-08-27'' then Inr \<lparr>cd_year = 2026, cd_month = 8, cd_day = 27\<rparr>
                     else Inl (ValueError ''Invalid isoformat string'')),
      tp_decimal = (\<lambda>s. if s \<noteq> [] \<and> list_all is_digit s then Inr (Dec (int (digits_value s)) 0)
                        else Inl (InvalidOperation ''ConversionSyntax''))\<rparr>"

definition example_record :: "string \<Rightarrow> string \<Rightarrow> string \<Rightarrow> csv_row" where
  "example_record name segment ident =
     [(''SEM_EXM_EXCH_ID'', ''NSE''), (''SEM_SEGMENT'', segment), (''SEM_SMST_SECURITY_ID'', ident),
      (''SEM_INSTRUMENT_NAME'', name), (''SEM_TRADING_SYMBOL'', ''NIFTY-Aug2026-FUT''),
      (''SEM_EXPIRY_DATE'', if segment = ''D'' then ''2026-08-27'' else []),
      (''SEM_STRIKE_PRICE'', []), (''SEM_OPTION_TYPE'', ''XX''), (''SEM_LOT_UNITS'', ''65''),
      (''SEM_TICK_SIZE'', ''10'')]"

definition example_master :: dhan_master where
  "example_master =
     \<lparr>ma_path = ''master.csv'', ma_as_of_date = \<lparr>cd_year = 2026, cd_month = 8, cd_day = 3\<rparr>,
      ma_header = REQUIRED_COLUMNS @ [''SEM_LOT_UNITS'', ''SEM_TICK_SIZE''],
      ma_records = [example_record ''INDEX'' ''I'' ''13'', example_record ''FUTIDX'' ''D'' ''13'',
                    example_record ''FUTCUR'' ''D'' ''77'', example_record ''BOND'' ''X'' ''5'',
                    example_record ''FUTIDX'' ''D'' ''0'']\<rparr>"

definition example_mapping :: "segment_code \<Rightarrow> instrument_kind \<Rightarrow> string \<Rightarrow> dhan_mapping" where
  "example_mapping segment kind ident =
     \<lparr>dm_instrument =
        \<lparr>in_exchange = ''NSE'', in_segment = segment, in_underlying = ''NIFTY'', in_kind = kind,
         in_expiry = (if kind = FUTURE then Some \<lparr>cd_year = 2026, cd_month = 8, cd_day = 27\<rparr> else None),
         in_strike = None, in_option_type = None\<rparr>,
      dm_security_id = ident, dm_exchange_segment = segment, dm_trading_symbol = ''NIFTY-Aug2026-FUT'',
      dm_lot_size = Some 65, dm_tick_size_paise = Some (Dec 10 0),
      dm_as_of_date = \<lparr>cd_year = 2026, cd_month = 8, cd_day = 3\<rparr>, dm_source = ''master.csv''\<rparr>"

lemma example_mappings:
  "dhan_mappings example_parsers example_master =
     Inr [example_mapping IDX_I INDEX ''13'', example_mapping NSE_FNO FUTURE ''13'',
          example_mapping NSE_FNO FUTURE ''77'']"
  by code_simp

theorem dhan_mappings_typed_witness:
  "mapping_typed (example_mapping NSE_FNO FUTURE ''77'')"
  using dhan_mappings_typed [OF example_mappings] by simp

section \<open>Looking an identifier up\<close>

lemma find_by_security_id_Inr:
  assumes "dhan_mappings tp ma = Inr ms"
  shows "find_by_security_id tp ma wanted (map_option segment_str s) (map_option kind_str k) = Inr m \<longleftrightarrow>
    filter (wanted_mapping wanted s k) ms = [m]"
proof -
  have seg: "optional_code segment_of_str (map_option segment_str s) = Inr s"
    by (cases s) (auto simp: optional_code_def segment_of_str_def intro: segment_code.exhaust)
  have kind: "optional_code kind_of_str (map_option kind_str k) = Inr k"
    by (cases k) (auto simp: optional_code_def kind_of_str_def intro: instrument_kind.exhaust)
  show ?thesis
    by (simp add: find_by_security_id_def seg kind assms split: list.split)
qed

text \<open>A look-up by security identifier is exact. It returns a mapping exactly when that mapping
  is the only one, counted with repetition, that carries the identifier and passes the filters;
  and what a look-up without filters returns, every filter the mapping itself passes returns
  too.\<close>

theorem find_by_security_id_exact:
  assumes "dhan_mappings tp ma = Inr ms"
  shows "(find_by_security_id tp ma wanted (map_option segment_str s) (map_option kind_str k) = Inr m \<longleftrightarrow>
      wanted_mapping wanted s k m \<and> count_list (map (wanted_mapping wanted s k) ms) True = 1 \<and> m \<in> set ms) \<and>
    (find_by_security_id tp ma wanted None None = Inr m \<longrightarrow> wanted_mapping wanted s k m \<longrightarrow>
      find_by_security_id tp ma wanted (map_option segment_str s) (map_option kind_str k) = Inr m)"
proof
  have len: "count_list (map P ms) True = length (filter P ms)" for P :: "dhan_mapping \<Rightarrow> bool"
    by (induction ms) simp_all
  have unit: "filter P ms = [m] \<longleftrightarrow> P m \<and> length (filter P ms) = 1 \<and> m \<in> set ms" for P :: "dhan_mapping \<Rightarrow> bool"
  proof
    assume r: "P m \<and> length (filter P ms) = 1 \<and> m \<in> set ms"
    then obtain y where y: "filter P ms = [y]" by (auto simp: length_Suc_conv)
    moreover have "m \<in> set (filter P ms)" using r by simp
    ultimately show "filter P ms = [m]" by simp
  next
    assume l: "filter P ms = [m]"
    then have "m \<in> set (filter P ms)" by simp
    then have "P m" "m \<in> set ms" unfolding set_filter by blast+
    with l show "P m \<and> length (filter P ms) = 1 \<and> m \<in> set ms" by simp
  qed
  show "find_by_security_id tp ma wanted (map_option segment_str s) (map_option kind_str k) = Inr m \<longleftrightarrow>
      wanted_mapping wanted s k m \<and> count_list (map (wanted_mapping wanted s k) ms) True = 1 \<and> m \<in> set ms"
    unfolding find_by_security_id_Inr [OF assms] len by (rule unit)
  have none: "find_by_security_id tp ma wanted None None = Inr m \<longleftrightarrow> filter (wanted_mapping wanted None None) ms = [m]"
    using find_by_security_id_Inr [OF assms, of wanted None None] by simp
  show "find_by_security_id tp ma wanted None None = Inr m \<longrightarrow> wanted_mapping wanted s k m \<longrightarrow>
      find_by_security_id tp ma wanted (map_option segment_str s) (map_option kind_str k) = Inr m"
  proof (intro impI)
    assume all: "find_by_security_id tp ma wanted None None = Inr m" and m: "wanted_mapping wanted s k m"
    have "filter (wanted_mapping wanted s k) ms =
        filter (wanted_mapping wanted s k) (filter (wanted_mapping wanted None None) ms)"
      by (auto simp: wanted_mapping_def intro!: filter_cong)
    also have "\<dots> = [m]" using all m unfolding none by simp
    finally show "find_by_security_id tp ma wanted (map_option segment_str s) (map_option kind_str k) = Inr m"
      unfolding find_by_security_id_Inr [OF assms] .
  qed
qed

theorem find_by_security_id_exact_witness:
  "find_by_security_id example_parsers example_master ''13'' None None \<noteq> Inr (example_mapping NSE_FNO FUTURE ''13'') \<and>
   find_by_security_id example_parsers example_master ''13'' (Some ''NSE_FNO'') None = Inr (example_mapping NSE_FNO FUTURE ''13'') \<and>
   find_by_security_id example_parsers example_master ''77'' (Some ''NSE_FNO'') (Some ''future'') = Inr (example_mapping NSE_FNO FUTURE ''77'')"
proof (intro conjI)
  note x = find_by_security_id_exact [OF example_mappings]
  show "find_by_security_id example_parsers example_master ''13'' None None \<noteq> Inr (example_mapping NSE_FNO FUTURE ''13'')"
    using x [of "''13''" None None "example_mapping NSE_FNO FUTURE ''13''"]
    by (simp add: wanted_mapping_def example_mapping_def)
  show "find_by_security_id example_parsers example_master ''13'' (Some ''NSE_FNO'') None = Inr (example_mapping NSE_FNO FUTURE ''13'')"
    using x [of "''13''" "Some NSE_FNO" None "example_mapping NSE_FNO FUTURE ''13''"]
    by (simp add: wanted_mapping_def example_mapping_def)
  show "find_by_security_id example_parsers example_master ''77'' (Some ''NSE_FNO'') (Some ''future'') = Inr (example_mapping NSE_FNO FUTURE ''77'')"
    using x [of "''77''" "Some NSE_FNO" "Some FUTURE" "example_mapping NSE_FNO FUTURE ''77''"]
    by (simp add: wanted_mapping_def example_mapping_def)
qed

end
