(* ===== verification/Dhan_Packets.thy ===== *)
theory Dhan_Packets
  imports Tape_Contract Instruments "HOL-Library.Word"
begin

text \<open>
  The wire formats of \<open>data/src/shaurya/data/dhan_stream.py\<close>: \<open>struct\<close> unpacking of little-endian
  packets, the standard feed (ticker, 5-level depth, quote, open interest, full) and the deep feed,
  whose messages concatenate framed side packets. Bytes are 8-bit words; an IEEE float that is
  not finite keeps its own constructor, because the code tests \<open>math.isfinite\<close>.
\<close>

section \<open>Struct formats\<close>

type_synonym bytes = "8 word list"

datatype field_format = U8 | U16 | S16 | U32 | S32 | F32 | F64 | Raw nat

datatype field_value = VInt int | VFloat fval | VBytes bytes

fun field_size :: "field_format \<Rightarrow> nat" where
  "field_size U8 = 1"
| "field_size U16 = 2"
| "field_size S16 = 2"
| "field_size U32 = 4"
| "field_size S32 = 4"
| "field_size F32 = 4"
| "field_size F64 = 8"
| "field_size (Raw n) = n"

definition struct_size :: "field_format list \<Rightarrow> nat" where
  "struct_size fs = sum_list (map field_size fs)"

text \<open>Little-endian unsigned and two's complement integers.\<close>

fun le_nat :: "bytes \<Rightarrow> nat" where
  "le_nat [] = 0"
| "le_nat (b # bs) = unat b + 256 * le_nat bs"

definition le_signed :: "bytes \<Rightarrow> int" where
  "le_signed bs =
     (let n = int (le_nat bs); m = 256 ^ length bs in if 2 * n < m then n else n - m)"

lemma le_nat_less: "le_nat bs < 256 ^ length bs"
proof (induction bs)
  case (Cons b bs)
  have "unat b < 2 ^ LENGTH(8)" by (rule unsigned_less)
  with Cons show ?case by simp
qed simp

definition pow2 :: "int \<Rightarrow> rat" where
  "pow2 k = (if 0 \<le> k then 2 ^ nat k else 1 / 2 ^ nat (- k))"

lemma pow2_pos [simp]: "0 < pow2 k"
  by (simp add: pow2_def)

text \<open>IEEE 754 interchange formats with \<open>ew\<close> exponent and \<open>mw\<close> fraction bits.\<close>

definition ieee_value :: "nat \<Rightarrow> nat \<Rightarrow> nat \<Rightarrow> fval" where
  "ieee_value ew mw n =
     (let f = n mod 2 ^ mw; e = n div 2 ^ mw mod 2 ^ ew; negative = (n div 2 ^ (mw + ew) mod 2 = 1);
          bias = 2 ^ (ew - 1) - 1; s = (if negative then - 1 else 1)
      in if e = 2 ^ ew - 1 then (if f = 0 then Infinite negative else NaN)
         else if e = 0 then Finite (s * of_nat f * pow2 (1 - bias - int mw))
         else Finite (s * of_nat (2 ^ mw + f) * pow2 (int e - bias - int mw)))"

fun field_decode :: "field_format \<Rightarrow> bytes \<Rightarrow> field_value" where
  "field_decode U8 bs = VInt (int (le_nat bs))"
| "field_decode U16 bs = VInt (int (le_nat bs))"
| "field_decode S16 bs = VInt (le_signed bs)"
| "field_decode U32 bs = VInt (int (le_nat bs))"
| "field_decode S32 bs = VInt (le_signed bs)"
| "field_decode F32 bs = VFloat (ieee_value 8 23 (le_nat bs))"
| "field_decode F64 bs = VFloat (ieee_value 11 52 (le_nat bs))"
| "field_decode (Raw n) bs = VBytes bs"

fun struct_unpack :: "field_format list \<Rightarrow> bytes \<Rightarrow> field_value list" where
  "struct_unpack [] bs = []"
| "struct_unpack (f # fs) bs =
     field_decode f (take (field_size f) bs) # struct_unpack fs (drop (field_size f) bs)"

text \<open>\<open>values[n]\<close> at a position whose format fixes the kind of the value.\<close>

definition int_at :: "field_value list \<Rightarrow> nat \<Rightarrow> int" where
  "int_at vs n = (case vs ! n of VInt i \<Rightarrow> i | _ \<Rightarrow> 0)"

definition float_at :: "field_value list \<Rightarrow> nat \<Rightarrow> fval" where
  "float_at vs n = (case vs ! n of VFloat x \<Rightarrow> x | _ \<Rightarrow> NaN)"

definition bytes_at :: "field_value list \<Rightarrow> nat \<Rightarrow> bytes" where
  "bytes_at vs n = (case vs ! n of VBytes b \<Rightarrow> b | _ \<Rightarrow> [])"

definition STANDARD_STRUCTS :: "(nat \<times> field_format list) list" where
  "STANDARD_STRUCTS =
    [(2, [U8, U16, U8, U32, F32, U32]),
     (3, [U8, U16, U8, U32, F32, Raw 100]),
     (4, [U8, U16, U8, U32, F32, U16, U32, F32, U32, U32, U32, F32, F32, F32, F32]),
     (5, [U8, U16, U8, U32, U32]),
     (6, [U8, U16, U8, U32, F32, U32]),
     (7, [U8, U16, U8, U32]),
     (8, [U8, U16, U8, U32, F32, U16, U32, F32, U32, U32, U32, U32, U32, U32, F32, F32, F32, F32, Raw 100])]"

definition DISCONNECT_STRUCT :: "field_format list" where
  "DISCONNECT_STRUCT = [U8, U16, U8, U32, U16]"

definition FIVE_LEVEL_STRUCT :: "field_format list" where
  "FIVE_LEVEL_STRUCT = [U32, U32, U16, U16, F32, F32]"

definition DEEP_HEADER :: "field_format list" where
  "DEEP_HEADER = [S16, U8, U8, S32, U32]"

definition DEEP_LEVEL :: "field_format list" where
  "DEEP_LEVEL = [F64, U32, U32]"

lemma struct_sizes [simp]:
  "struct_size FIVE_LEVEL_STRUCT = 20" "struct_size DEEP_HEADER = 12" "struct_size DEEP_LEVEL = 16"
  "struct_size DISCONNECT_STRUCT = 10"
  by (simp_all add: struct_size_def FIVE_LEVEL_STRUCT_def DEEP_HEADER_def DEEP_LEVEL_def DISCONNECT_STRUCT_def)

section \<open>Packets\<close>

record market_packet =
  mp_response_code :: nat
  mp_event_type :: string
  mp_exchange_segment_code :: int
  mp_security_id :: int
  mp_raw_size :: nat
  mp_exchange_timestamp :: "datetime option"
  mp_last_price :: "fval option"
  mp_last_quantity :: "int option"
  mp_cumulative_volume :: "int option"
  mp_open_interest :: "int option"
  mp_bids :: "depth_level list"
  mp_asks :: "depth_level list"
  mp_source_sequence :: "int option"

record deep_packet =
  dp_response_code :: int
  dp_exchange_segment_code :: int
  dp_security_id :: int
  dp_side :: string
  dp_levels :: "depth_level list"
  dp_raw_size :: nat
  dp_source_sequence :: "int option"

record disconnect_packet =
  dc_reason_code :: int
  dc_raw_size :: nat

datatype standard_message = Market market_packet | Dropped disconnect_packet

datatype deep_message = Deep deep_packet | DeepDropped disconnect_packet

definition exchange_time :: "int \<Rightarrow> datetime option" where
  "exchange_time epoch_seconds =
     (if epoch_seconds \<le> 0 then None else Some (Aware (epoch_seconds * 1000000) 0))"

text \<open>A level is kept when its price is finite and positive.\<close>

definition level_of :: "fval \<Rightarrow> int \<Rightarrow> int \<Rightarrow> depth_level option result" where
  "level_of price quantity orders =
     (case price of
        Finite p \<Rightarrow>
          if 0 < p
          then bind_result
                 (depth_level_post_init \<lparr>dl_price = p, dl_quantity = quantity, dl_orders = orders\<rparr>)
                 (\<lambda>l. Inr (Some l))
          else Inr None
      | _ \<Rightarrow> Inr None)"

definition levels_of :: "(fval \<times> int \<times> int) list \<Rightarrow> depth_level list result" where
  "levels_of xs =
     bind_result (map_result (\<lambda>(p, q, n). level_of p q n) xs) (\<lambda>ls. Inr (keep_some ls))"

text \<open>\<open>raw[offset : offset + size]\<close>.\<close>

definition byte_slice :: "bytes \<Rightarrow> nat \<Rightarrow> nat \<Rightarrow> bytes" where
  "byte_slice data offset n = take n (drop offset data)"

definition five_level_books :: "bytes \<Rightarrow> (depth_level list \<times> depth_level list) result" where
  "five_level_books raw =
     (if length raw \<noteq> struct_size FIVE_LEVEL_STRUCT * 5
      then Inl (DhanProtocolError ''Dhan 5-level block has an invalid length'')
      else
        (let rows = map (\<lambda>i. struct_unpack FIVE_LEVEL_STRUCT
                           (byte_slice raw (i * struct_size FIVE_LEVEL_STRUCT) (struct_size FIVE_LEVEL_STRUCT)))
                      [0..<5]
         in bind_result (levels_of (map (\<lambda>v. (float_at v 4, int_at v 0, int_at v 2)) rows)) (\<lambda>bids.
            bind_result (levels_of (map (\<lambda>v. (float_at v 5, int_at v 1, int_at v 3)) rows)) (\<lambda>asks.
            Inr (sort_descending dl_price bids, sort_key dl_price asks)))))"

definition market_base :: "nat \<Rightarrow> string \<Rightarrow> int \<Rightarrow> int \<Rightarrow> nat \<Rightarrow> market_packet" where
  "market_base code event segment ident raw_size =
     \<lparr>mp_response_code = code, mp_event_type = event, mp_exchange_segment_code = segment,
      mp_security_id = ident, mp_raw_size = raw_size, mp_exchange_timestamp = None,
      mp_last_price = None, mp_last_quantity = None, mp_cumulative_volume = None,
      mp_open_interest = None, mp_bids = [], mp_asks = [], mp_source_sequence = None\<rparr>"

definition standard_market :: "nat \<Rightarrow> field_value list \<Rightarrow> nat \<Rightarrow> market_packet result" where
  "standard_market response_code vs raw_size =
    (let segment = int_at vs 2; security_id = (if response_code \<noteq> 7 then int_at vs 3 else 0);
         base = (\<lambda>event. market_base response_code event segment security_id raw_size)
     in if response_code = 2
        then Inr ((base ''ticker'')\<lparr>mp_last_price := Some (float_at vs 4),
                                   mp_exchange_timestamp := exchange_time (int_at vs 5)\<rparr>)
        else if response_code = 3
        then bind_result (five_level_books (bytes_at vs 5)) (\<lambda>(bids, asks).
             Inr ((base ''depth5'')\<lparr>mp_last_price := Some (float_at vs 4), mp_bids := bids, mp_asks := asks\<rparr>))
        else if response_code = 4
        then Inr ((base ''quote'')\<lparr>mp_last_price := Some (float_at vs 4),
                                  mp_last_quantity := Some (int_at vs 5),
                                  mp_exchange_timestamp := exchange_time (int_at vs 6),
                                  mp_cumulative_volume := Some (int_at vs 8)\<rparr>)
        else if response_code = 5
        then Inr ((base ''open_interest'')\<lparr>mp_open_interest := Some (int_at vs 4)\<rparr>)
        else if response_code = 6 then Inr (base ''previous_close'')
        else if response_code = 7 then Inr (base ''market_status'')
        else if response_code = 8
        then bind_result (five_level_books (bytes_at vs 18)) (\<lambda>(bids, asks).
             Inr ((base ''full'')\<lparr>mp_last_price := Some (float_at vs 4),
                                 mp_last_quantity := Some (int_at vs 5),
                                 mp_exchange_timestamp := exchange_time (int_at vs 6),
                                 mp_cumulative_volume := Some (int_at vs 8),
                                 mp_open_interest := Some (int_at vs 11),
                                 mp_bids := bids, mp_asks := asks\<rparr>))
        else Inl (AssertionError ''unreachable standard response code''))"

definition parse_standard_packet :: "bytes \<Rightarrow> standard_message option result" where
  "parse_standard_packet data =
    (case data of
       [] \<Rightarrow> Inl (DhanProtocolError ''empty Dhan standard-feed packet'')
     | first # _ \<Rightarrow>
        (let response_code = unat first in
         if response_code = 50
         then if length data < 10 then Inl (DhanProtocolError ''truncated Dhan disconnect packet'')
              else Inr (Some (Dropped
                     \<lparr>dc_reason_code = int_at (struct_unpack DISCONNECT_STRUCT (byte_slice data 0 10)) 4,
                      dc_raw_size = length data\<rparr>))
         else
         case map_of STANDARD_STRUCTS response_code of
           None \<Rightarrow> Inr None
         | Some fmt \<Rightarrow>
             if length data < struct_size fmt
             then Inl (DhanProtocolError ''truncated Dhan response code'')
             else bind_result
                    (standard_market response_code
                      (struct_unpack fmt (byte_slice data 0 (struct_size fmt))) (length data))
                    (\<lambda>p. Inr (Some (Market p)))))"

section \<open>The deep feed\<close>

text \<open>The side packet of one framed message.\<close>

definition deep_side :: "int \<Rightarrow> string" where
  "deep_side response_code = (if response_code = 41 then ''bid'' else ''ask'')"

definition deep_count :: "nat \<Rightarrow> nat \<Rightarrow> int \<Rightarrow> nat" where
  "deep_count depth_levels message_length row_count =
     (let available = (message_length - struct_size DEEP_HEADER) div struct_size DEEP_LEVEL;
          expected = min depth_levels (if row_count \<noteq> 0 then nat row_count else depth_levels)
      in min available expected)"

definition deep_levels :: "bytes \<Rightarrow> nat \<Rightarrow> depth_level list result" where
  "deep_levels message count =
     levels_of (map (\<lambda>i. let v = struct_unpack DEEP_LEVEL
                             (byte_slice message (struct_size DEEP_HEADER + i * struct_size DEEP_LEVEL)
                               (struct_size DEEP_LEVEL))
                         in (float_at v 0, int_at v 1, int_at v 2)) [0..<count])"

definition sort_levels :: "string \<Rightarrow> depth_level list \<Rightarrow> depth_level list" where
  "sort_levels side levels =
     (if side = ''bid'' then sort_descending dl_price levels else sort_key dl_price levels)"

definition deep_body :: "nat \<Rightarrow> field_value list \<Rightarrow> bytes \<Rightarrow> deep_message list result" where
  "deep_body depth_levels header message =
     (let response_code = int_at header 1; row_count = int_at header 4; raw_size = length message in
      if response_code = 50
      then Inr [DeepDropped \<lparr>dc_reason_code = row_count, dc_raw_size = raw_size\<rparr>]
      else if response_code = 41 \<or> response_code = 51
      then bind_result (deep_levels message (deep_count depth_levels raw_size row_count)) (\<lambda>levels.
             Inr [Deep \<lparr>dp_response_code = response_code, dp_exchange_segment_code = int_at header 2,
                        dp_security_id = int_at header 3, dp_side = deep_side response_code,
                        dp_levels = sort_levels (deep_side response_code) levels,
                        dp_raw_size = raw_size, dp_source_sequence = None\<rparr>])
      else Inr [])"

text \<open>The frame that starts at \<open>offset\<close>: its header and its bytes.\<close>

definition deep_frame :: "bytes \<Rightarrow> nat \<Rightarrow> (field_value list \<times> bytes) result" where
  "deep_frame data offset =
     (if length data - offset < struct_size DEEP_HEADER
      then Inl (DhanProtocolError ''truncated Dhan deep-feed header'')
      else
        (let header = struct_unpack DEEP_HEADER (byte_slice data offset (struct_size DEEP_HEADER));
             message_length = int_at header 0
         in if message_length < int (struct_size DEEP_HEADER) \<or> int offset + message_length > int (length data)
            then Inl (DhanProtocolError ''invalid Dhan deep-feed message length'')
            else Inr (header, byte_slice data offset (nat message_length))))"

lemma deep_frame_Inr:
  "deep_frame data offset = Inr (header, message) \<longleftrightarrow>
     12 \<le> length data - offset \<and> 12 \<le> int_at header 0 \<and> int offset + int_at header 0 \<le> int (length data) \<and>
     header = struct_unpack DEEP_HEADER (byte_slice data offset 12) \<and>
     message = byte_slice data offset (nat (int_at header 0))"
  unfolding deep_frame_def Let_def struct_sizes by auto

lemma deep_frame_length:
  "deep_frame data offset = Inr (header, message) \<Longrightarrow>
     12 \<le> length message \<and> offset + length message \<le> length data"
  by (auto simp: deep_frame_def Let_def byte_slice_def split: if_splits)

function deep_loop :: "nat \<Rightarrow> bytes \<Rightarrow> nat \<Rightarrow> deep_message list result" where
  "deep_loop depth_levels data offset =
     (if offset < length data
      then case deep_frame data offset of
             Inl e \<Rightarrow> Inl e
           | Inr (header, message) \<Rightarrow>
               bind_result (deep_body depth_levels header message) (\<lambda>ps.
               bind_result (deep_loop depth_levels data (offset + length message)) (\<lambda>qs.
               Inr (ps @ qs)))
      else Inr [])"
  by pat_completeness auto
termination
  by (relation "measure (\<lambda>(depth_levels, data, offset). length data - offset)")
    (auto dest!: deep_frame_length)

declare deep_loop.simps [simp del]

definition parse_deep_packets :: "nat \<Rightarrow> bytes \<Rightarrow> deep_message list result" where
  "parse_deep_packets depth_levels data =
     (if depth_levels \<noteq> 20 \<and> depth_levels \<noteq> 200
      then Inl (ValueError ''Dhan deep-feed parsing only supports depth_levels of 20 (DAT-02) or 200 (DAT-10)'')
      else deep_loop depth_levels data 0)"

section \<open>Levels\<close>

lemma level_of_total:
  "0 \<le> q \<Longrightarrow> 0 \<le> n \<Longrightarrow> \<exists>l. level_of p q n = Inr l \<and> opt_ok depth_level_ok l"
  by (cases p) (simp_all add: level_of_def depth_level_post_init_def depth_level_ok_iff)

lemma length_keep_some: "length (keep_some xs) \<le> length xs"
  by (induction xs rule: keep_some.induct) simp_all

lemma levels_of_total:
  assumes "\<forall>(p, q, n) \<in> set xs. 0 \<le> q \<and> 0 \<le> n"
  shows "\<exists>ls. levels_of xs = Inr ls \<and> list_all depth_level_ok ls \<and> length ls \<le> length xs"
proof -
  have "\<exists>os. map_result (\<lambda>(p, q, n). level_of p q n) xs = Inr os \<and>
      list_all (opt_ok depth_level_ok) os \<and> length os = length xs"
    using assms
  proof (induction xs)
    case (Cons x xs)
    obtain p q n where x: "x = (p, q, n)" by (cases x)
    obtain l where "level_of p q n = Inr l" "opt_ok depth_level_ok l"
      using level_of_total [of q n p] Cons.prems x by auto
    moreover obtain os where "map_result (\<lambda>(p, q, n). level_of p q n) xs = Inr os"
        "list_all (opt_ok depth_level_ok) os" "length os = length xs"
      using Cons by auto
    ultimately show ?case by (simp add: x)
  qed simp
  then obtain os where os: "map_result (\<lambda>(p, q, n). level_of p q n) xs = Inr os"
      "list_all (opt_ok depth_level_ok) os" "length os = length xs" by blast
  have "list_all depth_level_ok (keep_some os)"
    using os(2) by (induction os rule: keep_some.induct) simp_all
  then show ?thesis
    using os length_keep_some [of os] by (simp add: levels_of_def)
qed

text \<open>A side of a book is ordered from its best price outwards.\<close>

definition book_side :: "string \<Rightarrow> nat \<Rightarrow> depth_level list \<Rightarrow> bool" where
  "book_side side bound ls \<longleftrightarrow>
     list_all depth_level_ok ls \<and> length ls \<le> bound \<and>
     sorted_wrt (\<lambda>a b. if side = ''bid'' then dl_price b \<le> dl_price a else dl_price a \<le> dl_price b) ls"

lemma sort_levels_book_side:
  assumes "list_all depth_level_ok ls" and "length ls \<le> n"
  shows "book_side side n (sort_levels side ls)"
proof -
  have "sorted_wrt (\<lambda>a b. key a \<le> key b) (sort_key key xs)" for key :: "depth_level \<Rightarrow> rat" and xs
    using sorted_sort_key [of key xs] by (simp add: sorted_map)
  then show ?thesis
    using assms
    by (simp add: book_side_def sort_levels_def sort_descending_def sorted_wrt_rev list_all_iff)
qed

lemma five_level_books_total:
  assumes "length raw = 100"
  shows "\<exists>bids asks. five_level_books raw = Inr (bids, asks) \<and>
    book_side ''bid'' 5 bids \<and> book_side ''ask'' 5 asks"
proof -
  define rows where "rows = map (\<lambda>i. struct_unpack FIVE_LEVEL_STRUCT
      (byte_slice raw (i * struct_size FIVE_LEVEL_STRUCT) (struct_size FIVE_LEVEL_STRUCT))) [0..<5]"
  have nonneg: "0 \<le> int_at v 0 \<and> 0 \<le> int_at v 1 \<and> 0 \<le> int_at v 2 \<and> 0 \<le> int_at v 3"
    if "v \<in> set rows" for v
    using that by (auto simp: rows_def FIVE_LEVEL_STRUCT_def int_at_def)
  obtain bids where bids: "levels_of (map (\<lambda>v. (float_at v 4, int_at v 0, int_at v 2)) rows) = Inr bids"
      "list_all depth_level_ok bids" "length bids \<le> 5"
    using levels_of_total [of "map (\<lambda>v. (float_at v 4, int_at v 0, int_at v 2)) rows"] nonneg
    by (auto simp: rows_def)
  obtain asks where asks: "levels_of (map (\<lambda>v. (float_at v 5, int_at v 1, int_at v 3)) rows) = Inr asks"
      "list_all depth_level_ok asks" "length asks \<le> 5"
    using levels_of_total [of "map (\<lambda>v. (float_at v 5, int_at v 1, int_at v 3)) rows"] nonneg
    by (auto simp: rows_def)
  have "five_level_books raw = Inr (sort_levels ''bid'' bids, sort_levels ''ask'' asks)"
    using assms bids(1) asks(1)
    unfolding five_level_books_def Let_def rows_def [symmetric] by (simp add: sort_levels_def)
  with sort_levels_book_side [OF bids(2,3)] sort_levels_book_side [OF asks(2,3)] show ?thesis by blast
qed

section \<open>Framing of the deep feed\<close>

lemma byte_slice_append:
  "offset + n \<le> length xs \<Longrightarrow> byte_slice (xs @ ys) offset n = byte_slice xs offset n"
  by (simp add: byte_slice_def)

lemma byte_slice_shift: "byte_slice (pre @ xs) (length pre + offset) n = byte_slice xs offset n"
  by (simp add: byte_slice_def)

lemma deep_frame_shift: "deep_frame (pre @ xs) (length pre + offset) = deep_frame xs offset"
  by (simp add: deep_frame_def byte_slice_shift Let_def)

lemma deep_frame_append:
  assumes "deep_frame xs offset = Inr (header, message)"
  shows "deep_frame (xs @ ys) offset = Inr (header, message)"
proof -
  let ?h = "struct_unpack DEEP_HEADER (byte_slice xs offset 12)"
  have x: "12 \<le> length xs - offset" "12 \<le> int_at ?h 0" "int offset + int_at ?h 0 \<le> int (length xs)"
      "header = ?h" "message = byte_slice xs offset (nat (int_at ?h 0))"
    using assms by (auto simp: deep_frame_def Let_def split: if_splits)
  have h: "byte_slice (xs @ ys) offset 12 = byte_slice xs offset 12"
    by (rule byte_slice_append) (use x(1) in arith)
  have m: "byte_slice (xs @ ys) offset (nat (int_at ?h 0)) = message"
    unfolding x(5) by (rule byte_slice_append) (use x(2,3) in arith)
  show ?thesis
    using x(1-4) unfolding deep_frame_def Let_def struct_sizes h m by simp
qed

lemma deep_loop_shift: "deep_loop d (pre @ xs) (length pre + offset) = deep_loop d xs offset"
proof (induction d xs offset rule: deep_loop.induct)
  case (1 d xs offset)
  show ?case
  proof (cases "offset < length xs")
    case True
    show ?thesis
    proof (cases "deep_frame xs offset")
      case (Inr hm)
      obtain h m where hm: "hm = (h, m)" by (cases hm)
      show ?thesis
        unfolding deep_loop.simps [of d "pre @ xs" "length pre + offset"] deep_loop.simps [of d xs offset]
        using True Inr hm "1.IH" [OF True Inr [unfolded hm] refl]
        by (cases "deep_body d h m") (simp_all add: deep_frame_shift add.assoc)
    qed (use True in \<open>simp add: deep_loop.simps deep_frame_shift\<close>)
  qed (simp add: deep_loop.simps)
qed

lemma deep_loop_append:
  "deep_loop d xs offset = Inr ps \<Longrightarrow> offset \<le> length xs \<Longrightarrow>
     deep_loop d (xs @ ys) offset = bind_result (deep_loop d ys 0) (\<lambda>qs. Inr (ps @ qs))"
proof (induction d xs offset arbitrary: ps rule: deep_loop.induct)
  case (1 d xs offset)
  show ?case
  proof (cases "offset < length xs")
    case True
    obtain h m where hm: "deep_frame xs offset = Inr (h, m)"
      using "1.prems"(1) True by (cases "deep_frame xs offset") (auto simp: deep_loop.simps [of d xs])
    obtain as bs where body: "deep_body d h m = Inr as"
        "deep_loop d xs (offset + length m) = Inr bs" "ps = as @ bs"
      using "1.prems"(1) True hm by (auto simp: deep_loop.simps [of d xs] bind_result_Inr)
    have "offset + length m \<le> length xs" using deep_frame_length [OF hm] by simp
    from "1.IH" [OF True hm refl body(2) this]
    show ?thesis
      using True body(1,3) deep_frame_append [OF hm, of ys]
      by (cases "deep_loop d ys 0") (simp_all add: deep_loop.simps [of d "xs @ ys" offset])
  next
    case False
    then have "offset = length xs" "ps = []" using "1.prems" by (simp_all add: deep_loop.simps)
    then show ?thesis
      using deep_loop_shift [of d xs ys 0] by (cases "deep_loop d ys 0") simp_all
  qed
qed

text \<open>A single frame: the bytes whose header announces exactly their number.\<close>

definition one_frame :: "bytes \<Rightarrow> bool" where
  "one_frame m \<longleftrightarrow> (case deep_frame m 0 of Inl e \<Rightarrow> False | Inr (header, message) \<Rightarrow> message = m)"

lemma one_frameE:
  assumes "one_frame m"
  obtains header where "deep_frame m 0 = Inr (header, m)" "12 \<le> length m"
proof -
  obtain header where "deep_frame m 0 = Inr (header, m)"
    using assms by (auto simp: one_frame_def split: sum.splits)
  moreover from deep_frame_length [OF this] have "12 \<le> length m" by simp
  ultimately show ?thesis by (rule that)
qed

lemma deep_loop_frame:
  assumes "deep_frame m 0 = Inr (header, m)"
  shows "deep_loop d m 0 = deep_body d header m"
proof -
  have "0 < length m" using deep_frame_length [OF assms] by linarith
  moreover have "deep_loop d m (length m) = Inr []" by (simp add: deep_loop.simps)
  ultimately show ?thesis
    using assms by (cases "deep_body d header m") (simp_all add: deep_loop.simps [of d m 0])
qed

text \<open>A frame cut short is refused.\<close>

lemma deep_loop_truncated:
  assumes "one_frame m" and "0 < k" and "k < length m"
  shows "\<exists>e. deep_loop d (take k m) 0 = Inl e"
proof -
  obtain header where frame: "deep_frame m 0 = Inr (header, m)" by (rule one_frameE [OF assms(1)])
  let ?h = "struct_unpack DEEP_HEADER (byte_slice m 0 12)"
  have len: "int_at ?h 0 = int (length m)"
  proof -
    have x: "12 \<le> int_at ?h 0 \<and> int_at ?h 0 \<le> int (length m) \<and> byte_slice m 0 (nat (int_at ?h 0)) = m"
      using frame unfolding deep_frame_Inr by auto
    then have "length (byte_slice m 0 (nat (int_at ?h 0))) = length m" by (simp only:)
    with x show ?thesis by (simp add: byte_slice_def) arith
  qed
  have "\<exists>e. deep_frame (take k m) 0 = Inl e"
  proof (cases "k < 12")
    case False
    then have "byte_slice (take k m) 0 12 = byte_slice m 0 12"
      using assms(3) by (simp add: byte_slice_def min_def)
    then show ?thesis
      using False assms(3) len by (simp add: deep_frame_def Let_def min_def)
  qed (use assms in \<open>simp add: deep_frame_def\<close>)
  then show ?thesis using assms(2,3) by (auto simp: deep_loop.simps [of d "take k m" 0])
qed

definition deep_size :: "deep_message \<Rightarrow> nat" where
  "deep_size p = (case p of Deep p \<Rightarrow> dp_raw_size p | DeepDropped c \<Rightarrow> dc_raw_size c)"

definition deep_ok :: "nat \<Rightarrow> deep_message \<Rightarrow> bool" where
  "deep_ok d p =
     (case p of
        Deep p \<Rightarrow> 12 \<le> dp_raw_size p \<and>
          book_side (dp_side p) (min d ((dp_raw_size p - 12) div 16)) (dp_levels p) \<and>
          dp_side p = deep_side (dp_response_code p) \<and> dp_response_code p \<in> {41, 51} \<and>
          dp_source_sequence p = None
      | DeepDropped c \<Rightarrow> 12 \<le> dc_raw_size c \<and> 0 \<le> dc_reason_code c)"

lemma deep_body_total:
  assumes "deep_frame data offset = Inr (header, message)"
  shows "\<exists>ps. deep_body d header message = Inr ps \<and> length ps \<le> 1 \<and>
    (\<forall>p \<in> set ps. deep_ok d p \<and> deep_size p = length message)"
proof -
  have row_count: "0 \<le> int_at header 4"
    using assms by (auto simp: deep_frame_def Let_def DEEP_HEADER_def int_at_def split: if_splits)
  define n where "n = deep_count d (length message) (int_at header 4)"
  have "\<exists>ls. deep_levels message n = Inr ls \<and> list_all depth_level_ok ls \<and> length ls \<le> n"
  proof -
    let ?v = "\<lambda>i. struct_unpack DEEP_LEVEL
        (byte_slice message (struct_size DEEP_HEADER + i * struct_size DEEP_LEVEL) (struct_size DEEP_LEVEL))"
    have "0 \<le> int_at (?v i) 1 \<and> 0 \<le> int_at (?v i) 2" for i
      by (simp add: DEEP_LEVEL_def int_at_def)
    then show ?thesis
      unfolding deep_levels_def Let_def
      using levels_of_total [of "map (\<lambda>i. (float_at (?v i) 0, int_at (?v i) 1, int_at (?v i) 2)) [0..<n]"]
      by simp
  qed
  then obtain ls where ls: "deep_levels message n = Inr ls" "list_all depth_level_ok ls" "length ls \<le> n"
    by blast
  have "n \<le> min d ((length message - 12) div 16)"
    by (simp add: n_def deep_count_def Let_def min_def)
  then have side: "book_side s (min d ((length message - 12) div 16)) (sort_levels s ls)" for s
    using ls by (intro sort_levels_book_side) simp_all
  show ?thesis
    using side ls(1) row_count deep_frame_length [OF assms]
    by (simp add: deep_body_def Let_def n_def deep_ok_def deep_size_def)
qed

section \<open>Properties\<close>

text \<open>C28: the deep-feed parser reads a message frame by frame. The message made of any single
  frames gives the packets of each frame, in their order and nothing else, and a message that
  stops inside a further frame is refused as a whole.\<close>

theorem deep_messages_compose:
  assumes "list_all one_frame ms" and "d = 20 \<or> d = 200"
  shows "\<exists>pss. list_all2 (\<lambda>m ps. parse_deep_packets d m = Inr ps \<and> length ps \<le> 1) ms pss \<and>
      parse_deep_packets d (concat ms) = Inr (concat pss) \<and>
      (\<forall>m k. one_frame m \<and> 0 < k \<and> k < length m \<longrightarrow>
         (\<exists>e. parse_deep_packets d (concat ms @ take k m) = Inl e))"
proof -
  have parse: "parse_deep_packets d data = deep_loop d data 0" for data
    using assms(2) by (auto simp: parse_deep_packets_def)
  have "\<exists>pss. list_all2 (\<lambda>m ps. deep_loop d m 0 = Inr ps \<and> length ps \<le> 1) ms pss \<and>
      deep_loop d (concat ms) 0 = Inr (concat pss)"
    using assms(1)
  proof (induction ms)
    case Nil
    show ?case by (simp add: deep_loop.simps)
  next
    case (Cons m ms)
    obtain header where frame: "deep_frame m 0 = Inr (header, m)" using Cons.prems by (auto elim: one_frameE)
    obtain ps where ps: "deep_body d header m = Inr ps" "length ps \<le> 1"
      using deep_body_total [OF frame] by blast
    then have one: "deep_loop d m 0 = Inr ps" by (simp add: deep_loop_frame [OF frame])
    obtain pss where "list_all2 (\<lambda>m ps. deep_loop d m 0 = Inr ps \<and> length ps \<le> 1) ms pss"
        "deep_loop d (concat ms) 0 = Inr (concat pss)"
      using Cons by auto
    with one ps(2) deep_loop_append [OF one, of "concat ms"] show ?case
      by (intro exI [of _ "ps # pss"]) simp
  qed
  then obtain pss where pss: "list_all2 (\<lambda>m ps. deep_loop d m 0 = Inr ps \<and> length ps \<le> 1) ms pss"
      "deep_loop d (concat ms) 0 = Inr (concat pss)" by blast
  have "\<exists>e. deep_loop d (concat ms @ take k m) 0 = Inl e" if "one_frame m" "0 < k" "k < length m" for m k
    using deep_loop_truncated [OF that, of d] deep_loop_append [OF pss(2), of "take k m"] by auto
  with pss show ?thesis unfolding parse by blast
qed

lemma deep_loop_ok:
  "deep_loop d data offset = Inr ps \<Longrightarrow>
     sum_list (map deep_size ps) \<le> length data - offset \<and> list_all (deep_ok d) ps"
proof (induction d data offset arbitrary: ps rule: deep_loop.induct)
  case (1 d data offset)
  show ?case
  proof (cases "offset < length data")
    case True
    obtain h m where hm: "deep_frame data offset = Inr (h, m)"
      using "1.prems" True by (cases "deep_frame data offset") (auto simp: deep_loop.simps [of d data])
    obtain as bs where body: "deep_body d h m = Inr as"
        "deep_loop d data (offset + length m) = Inr bs" "ps = as @ bs"
      using "1.prems" True hm by (auto simp: deep_loop.simps [of d data] bind_result_Inr)
    note len = deep_frame_length [OF hm]
    have short: "length as \<le> 1" and each: "\<forall>p \<in> set as. deep_ok d p \<and> deep_size p = length m"
      using deep_body_total [OF hm, of d] body(1) by auto
    have "sum_list (map deep_size as) \<le> length m"
      using short each by (cases "as") simp_all
    with "1.IH" [OF True hm refl body(2)] body(3) len each show ?thesis
      by (auto simp: list_all_iff)
  qed (use "1.prems" in \<open>simp add: deep_loop.simps\<close>)
qed

text \<open>What the deep-feed parser returns is within its bounds. Parsing always ends; the sizes of
  the packets add up to no more than the message; a side packet has at least its header, no
  more levels than the depth asked for and than its bytes can hold, all with a positive price
  and non-negative counts, bids descending and asks ascending.\<close>

theorem deep_packets_bounded:
  assumes "parse_deep_packets d data = Inr ps"
  shows "(d = 20 \<or> d = 200) \<and> sum_list (map deep_size ps) \<le> length data \<and> list_all (deep_ok d) ps"
  using assms deep_loop_ok [of d data 0 ps] by (auto simp: parse_deep_packets_def split: if_splits)

text \<open>A bid frame of instrument 53001 with one level, and a disconnect frame with reason 805.\<close>

definition example_frame :: bytes where
  "example_frame =
     [28, 0, 41, 2, 9, 207, 0, 0, 1, 0, 0, 0,
      0, 0, 0, 0, 32, 237, 215, 64, 65, 0, 0, 0, 3, 0, 0, 0]"

definition example_drop_frame :: bytes where
  "example_drop_frame = [12, 0, 50, 0, 0, 0, 0, 0, 37, 3, 0, 0]"

definition example_deep :: deep_packet where
  "example_deep =
     \<lparr>dp_response_code = 41, dp_exchange_segment_code = 2, dp_security_id = 53001, dp_side = ''bid'',
      dp_levels = [\<lparr>dl_price = 49001 / 2, dl_quantity = 65, dl_orders = 3\<rparr>], dp_raw_size = 28,
      dp_source_sequence = None\<rparr>"

definition example_drop :: disconnect_packet where
  "example_drop = \<lparr>dc_reason_code = 805, dc_raw_size = 12\<rparr>"

lemmas packet_simps =
  deep_frame_def deep_loop.simps byte_slice_def struct_size_def DEEP_HEADER_def DEEP_LEVEL_def
  int_at_def float_at_def le_signed_def deep_body_def deep_levels_def deep_count_def deep_side_def
  levels_of_def level_of_def ieee_value_def pow2_def depth_level_post_init_def sort_levels_def
  sort_descending_def

lemma example_frame_one: "one_frame example_frame"
  by (simp add: one_frame_def example_frame_def packet_simps)

lemma example_drop_frame_one: "one_frame example_drop_frame"
  by (simp add: one_frame_def example_drop_frame_def packet_simps)

lemma example_frame_parse: "parse_deep_packets 20 example_frame = Inr [Deep example_deep]"
  by (simp add: parse_deep_packets_def example_frame_def packet_simps example_deep_def upt_rec)

lemma example_drop_parse: "parse_deep_packets 20 example_drop_frame = Inr [DeepDropped example_drop]"
  by (simp add: parse_deep_packets_def example_drop_frame_def packet_simps example_drop_def)

theorem deep_messages_compose_witness:
  "parse_deep_packets 20 (example_frame @ example_drop_frame) = Inr [Deep example_deep, DeepDropped example_drop] \<and>
   (\<exists>e. parse_deep_packets 20 (example_frame @ example_drop_frame @ take 5 example_frame) = Inl e)"
proof -
  have ms: "list_all one_frame [example_frame, example_drop_frame]"
    by (simp add: example_frame_one example_drop_frame_one)
  obtain pss where pss:
      "list_all2 (\<lambda>m ps. parse_deep_packets 20 m = Inr ps \<and> length ps \<le> 1) [example_frame, example_drop_frame] pss"
      "parse_deep_packets 20 (concat [example_frame, example_drop_frame]) = Inr (concat pss)"
      "\<forall>m k. one_frame m \<and> 0 < k \<and> k < length m \<longrightarrow>
         (\<exists>e. parse_deep_packets 20 (concat [example_frame, example_drop_frame] @ take k m) = Inl e)"
    using deep_messages_compose [OF ms, of 20] by auto
  have "pss = [[Deep example_deep], [DeepDropped example_drop]]"
    using pss(1) by (auto simp: list_all2_Cons1 example_frame_parse example_drop_parse)
  moreover have "5 < length example_frame" by (simp add: example_frame_def)
  ultimately show ?thesis
    using pss(2) pss(3) [rule_format, of example_frame 5] example_frame_one by simp
qed

theorem deep_packets_bounded_witness:
  "deep_size (Deep example_deep) \<le> length example_frame \<and> deep_ok 20 (Deep example_deep)"
  using deep_packets_bounded [OF example_frame_parse] by simp

section \<open>The standard feed\<close>

text \<open>The bytes the first byte of a packet calls for.\<close>

definition standard_need :: "bytes \<Rightarrow> nat" where
  "standard_need data =
     (case data of
        [] \<Rightarrow> 1
      | first # _ \<Rightarrow>
          if unat first = 50 then struct_size DISCONNECT_STRUCT
          else case map_of STANDARD_STRUCTS (unat first) of None \<Rightarrow> 0 | Some fmt \<Rightarrow> struct_size fmt)"

definition market_ok :: "market_packet \<Rightarrow> bool" where
  "market_ok p \<longleftrightarrow>
     mp_event_type p \<in> set [''ticker'', ''depth5'', ''quote'', ''open_interest'', ''previous_close'',
       ''market_status'', ''full''] \<and>
     book_side ''bid'' 5 (mp_bids p) \<and> book_side ''ask'' 5 (mp_asks p) \<and>
     (mp_bids p \<noteq> [] \<or> mp_asks p \<noteq> [] \<longrightarrow> mp_event_type p \<in> {''depth5'', ''full''}) \<and>
     opt_ok (\<lambda>t. is_aware t \<and> 0 < instant t) (mp_exchange_timestamp p) \<and>
     opt_ok (\<lambda>n. 0 \<le> n) (mp_last_quantity p) \<and> opt_ok (\<lambda>n. 0 \<le> n) (mp_cumulative_volume p) \<and>
     opt_ok (\<lambda>n. 0 \<le> n) (mp_open_interest p) \<and> 0 \<le> mp_security_id p \<and>
     (mp_event_type p = ''market_status'' \<longrightarrow> mp_security_id p = 0) \<and> mp_source_sequence p = None"

lemma standard_market_total:
  assumes "map_of STANDARD_STRUCTS code = Some fmt" and "struct_size fmt \<le> length data"
  shows "\<exists>p. standard_market code (struct_unpack fmt (byte_slice data 0 (struct_size fmt))) n = Inr p \<and>
    market_ok p \<and> mp_raw_size p = n"
proof -
  define vs where "vs = struct_unpack fmt (byte_slice data 0 (struct_size fmt))"
  consider "code = 2" "fmt = [U8, U16, U8, U32, F32, U32]"
    | "code = 3" "fmt = [U8, U16, U8, U32, F32, Raw 100]"
    | "code = 4" "fmt = [U8, U16, U8, U32, F32, U16, U32, F32, U32, U32, U32, F32, F32, F32, F32]"
    | "code = 5" "fmt = [U8, U16, U8, U32, U32]"
    | "code = 6" "fmt = [U8, U16, U8, U32, F32, U32]"
    | "code = 7" "fmt = [U8, U16, U8, U32]"
    | "code = 8" "fmt = [U8, U16, U8, U32, F32, U16, U32, F32, U32, U32, U32, U32, U32, U32, F32, F32, F32, F32, Raw 100]"
    using assms(1) by (auto simp: STANDARD_STRUCTS_def split: if_splits)
  note cases = this
  have none: "book_side s 5 []" for s by (simp add: book_side_def)
  have time: "opt_ok (\<lambda>t. is_aware t \<and> 0 < instant t) (exchange_time n)" for n
    by (simp add: exchange_time_def)
  note plain = standard_market_def Let_def market_base_def market_ok_def none time vs_def int_at_def
  have "\<exists>p. standard_market code vs n = Inr p \<and> market_ok p \<and> mp_raw_size p = n"
    using cases
  proof cases
    case 2
    have "length (bytes_at vs 5) = 100"
      using assms(2) 2 by (simp add: vs_def bytes_at_def byte_slice_def struct_size_def)
    from five_level_books_total [OF this] obtain bids asks where
      "five_level_books (bytes_at vs 5) = Inr (bids, asks)" "book_side ''bid'' 5 bids" "book_side ''ask'' 5 asks"
      by blast
    moreover have "0 \<le> int_at vs 3" using 2 by (simp add: vs_def int_at_def)
    ultimately show ?thesis using 2
      by (simp add: standard_market_def Let_def market_base_def market_ok_def)
  next
    case 7
    have "length (bytes_at vs 18) = 100"
      using assms(2) 7 by (simp add: vs_def bytes_at_def byte_slice_def struct_size_def)
    from five_level_books_total [OF this] obtain bids asks where
      "five_level_books (bytes_at vs 18) = Inr (bids, asks)" "book_side ''bid'' 5 bids" "book_side ''ask'' 5 asks"
      by blast
    moreover have "0 \<le> int_at vs 3" "0 \<le> int_at vs 5" "0 \<le> int_at vs 8" "0 \<le> int_at vs 11"
      using 7 by (simp_all add: vs_def int_at_def)
    ultimately show ?thesis using 7
      by (simp add: standard_market_def Let_def market_base_def market_ok_def time)
  qed (simp_all add: plain)
  then show ?thesis by (simp add: vs_def)
qed

text \<open>The standard-feed parser is total but for short packets. It raises exactly when the packet
  is shorter than its first byte calls for; every market packet it returns carries the size of
  the message, an aware exchange time if any, non-negative counts, and books of at most five
  valid levels in price order, which only the 5-level and full packets have.\<close>

theorem standard_packet_total:
  "((\<exists>e. parse_standard_packet data = Inl e) \<longleftrightarrow> length data < standard_need data) \<and>
   (\<forall>p. parse_standard_packet data = Inr (Some (Market p)) \<longrightarrow> market_ok p \<and> mp_raw_size p = length data)"
proof (cases data)
  case (Cons first rest)
  show ?thesis
  proof (cases "unat first = 50 \<or> map_of STANDARD_STRUCTS (unat first) = None")
    case False
    then obtain fmt where fmt: "map_of STANDARD_STRUCTS (unat first) = Some fmt" by auto
    show ?thesis
    proof (cases "length data < struct_size fmt")
      case False
      from standard_market_total [OF fmt, of data "length data"] False obtain p where
        "standard_market (unat first) (struct_unpack fmt (byte_slice data 0 (struct_size fmt))) (length data) = Inr p"
        "market_ok p" "mp_raw_size p = length data" by auto
      with False \<open>\<not> (unat first = 50 \<or> _)\<close> fmt show ?thesis
        by (simp add: parse_standard_packet_def standard_need_def Let_def Cons)
    qed (use False fmt in \<open>simp add: parse_standard_packet_def standard_need_def Cons\<close>)
  qed (auto simp: parse_standard_packet_def standard_need_def Cons Let_def)
qed (simp add: parse_standard_packet_def standard_need_def)

text \<open>A ticker of instrument 53001 at 24500.5.\<close>

definition example_ticker_bytes :: bytes where
  "example_ticker_bytes = [2, 16, 0, 2, 9, 207, 0, 0, 0, 105, 191, 70, 224, 171, 114, 106]"

definition example_ticker :: market_packet where
  "example_ticker =
     (market_base 2 ''ticker'' 2 53001 16)\<lparr>mp_last_price := Some (Finite (49001 / 2)),
       mp_exchange_timestamp := Some (Aware 1785900000000000 0)\<rparr>"

lemma example_ticker_parse: "parse_standard_packet example_ticker_bytes = Inr (Some (Market example_ticker))"
  by (simp add: parse_standard_packet_def example_ticker_bytes_def example_ticker_def packet_simps
      STANDARD_STRUCTS_def standard_market_def exchange_time_def market_base_def)

theorem standard_packet_total_witness:
  "market_ok example_ticker \<and> (\<exists>e. parse_standard_packet (take 7 example_ticker_bytes) = Inl e)"
  using standard_packet_total [of example_ticker_bytes] standard_packet_total [of "take 7 example_ticker_bytes"]
  by (simp add: example_ticker_parse)
    (simp add: example_ticker_bytes_def standard_need_def STANDARD_STRUCTS_def struct_size_def)

end
