(* ===== verification/Dhan_Stream.thy ===== *)
theory Dhan_Stream
  imports Dhan_Packets Trade_Direction
begin

text \<open>
  \<open>data/src/shaurya/data/dhan_stream.py\<close>: the supervised live stream of one capture. The record
  \<open>stream\<close> is the state of \<open>DhanLiveStream\<close> with the rows its sink received; a handler returns
  the new state and the exception it raised, because state written before a raise stays written.
  The clock readings, the jitter of \<open>random.uniform\<close> and the bytes of a message are arguments. The
  receive sequence is the stream's own counter (no external one is injected), and a packet whose
  last price is infinite or not a number, for which the row model has no value, ends the modelled
  part with an \<open>InvalidOperation\<close>.
\<close>

section \<open>Counters\<close>

type_synonym counter = "(string \<times> int) list"

definition count_of :: "counter \<Rightarrow> string \<Rightarrow> int" where
  "count_of d k = (case map_of d k of None \<Rightarrow> 0 | Some n \<Rightarrow> n)"

text \<open>\<open>d[k] += n\<close> on a \<open>defaultdict(int)\<close>.\<close>

definition bump :: "counter \<Rightarrow> string \<Rightarrow> int \<Rightarrow> counter" where
  "bump d k n = AList.update k (count_of d k + n) d"

record stream_metrics =
  sm_started_monotonic :: rat
  sm_websocket_messages :: counter
  sm_source_packets :: counter
  sm_raw_bytes :: counter
  sm_message_sizes :: "(string \<times> int list) list"
  sm_rows :: int
  sm_connections :: counter
  sm_reconnect_attempts :: counter
  sm_reconnect_error_types :: counter
  sm_reconnect_close_codes :: counter
  sm_disconnect_reason_codes :: counter
  sm_heartbeats_sent :: counter
  sm_heartbeats_ok :: counter
  sm_heartbeat_timeouts :: counter
  sm_quality_counts :: counter
  sm_first_packet_monotonic :: "rat option"
  sm_last_packet_monotonic :: "rat option"

definition metrics_init :: "rat \<Rightarrow> stream_metrics" where
  "metrics_init now =
     \<lparr>sm_started_monotonic = now, sm_websocket_messages = [], sm_source_packets = [], sm_raw_bytes = [],
      sm_message_sizes = [], sm_rows = 0, sm_connections = [], sm_reconnect_attempts = [],
      sm_reconnect_error_types = [], sm_reconnect_close_codes = [], sm_disconnect_reason_codes = [],
      sm_heartbeats_sent = [], sm_heartbeats_ok = [], sm_heartbeat_timeouts = [],
      sm_quality_counts = [], sm_first_packet_monotonic = None, sm_last_packet_monotonic = None\<rparr>"

definition record_websocket_message :: "stream_metrics \<Rightarrow> string \<Rightarrow> nat \<Rightarrow> stream_metrics" where
  "record_websocket_message m channel n =
     m\<lparr>sm_websocket_messages := bump (sm_websocket_messages m) channel 1,
       sm_raw_bytes := bump (sm_raw_bytes m) channel (int n)\<rparr>"

definition record_source_packet :: "stream_metrics \<Rightarrow> rat \<Rightarrow> string \<Rightarrow> nat \<Rightarrow> stream_metrics" where
  "record_source_packet m now channel n =
     m\<lparr>sm_first_packet_monotonic :=
         (case sm_first_packet_monotonic m of None \<Rightarrow> Some now | Some t \<Rightarrow> Some t),
       sm_last_packet_monotonic := Some now,
       sm_source_packets := bump (sm_source_packets m) channel 1,
       sm_message_sizes :=
         AList.update channel
           ((case map_of (sm_message_sizes m) channel of None \<Rightarrow> [] | Some ns \<Rightarrow> ns) @ [int n])
           (sm_message_sizes m)\<rparr>"

definition record_row :: "stream_metrics \<Rightarrow> tape_row \<Rightarrow> stream_metrics" where
  "record_row m r =
     m\<lparr>sm_rows := sm_rows m + 1,
       sm_quality_counts := foldl (\<lambda>d f. bump d (flag_str f) 1) (sm_quality_counts m) (tr_quality_flags r)\<rparr>"

record size_summary =
  zs_min :: "int option"
  zs_mean :: "rat option"
  zs_p50 :: "int option"
  zs_p95 :: "int option"
  zs_max :: "int option"

definition percentile :: "int list \<Rightarrow> rat \<Rightarrow> int" where
  "percentile ordered proportion =
     ordered ! nat (max 0 (\<lceil>proportion * of_nat (length ordered)\<rceil> - 1))"

definition size_stats :: "int list \<Rightarrow> size_summary" where
  "size_stats vs =
     (if vs = [] then \<lparr>zs_min = None, zs_mean = None, zs_p50 = None, zs_p95 = None, zs_max = None\<rparr>
      else let ordered = sort vs in
        \<lparr>zs_min = Some (ordered ! 0), zs_mean = Some (of_int (sum_list ordered) / of_nat (length ordered)),
         zs_p50 = Some (percentile ordered (1 / 2)), zs_p95 = Some (percentile ordered (95 / 100)),
         zs_max = Some (last ordered)\<rparr>)"

section \<open>Configuration\<close>

record stream_config =
  sc_enable_standard_feed :: bool
  sc_enable_20_level_depth :: bool
  sc_enable_200_level_depth :: bool
  sc_heartbeat_interval_seconds :: rat
  sc_heartbeat_timeout_seconds :: rat
  sc_reconnect_initial_seconds :: rat
  sc_reconnect_max_seconds :: rat
  sc_open_timeout_seconds :: rat
  sc_stale_quote_after_seconds :: rat
  sc_trade_quote_freshness_seconds :: rat
  sc_depth20_instruments_per_socket_limit :: int
  sc_channel_start_stagger_seconds :: rat

definition stream_config_checks :: "stream_config \<Rightarrow> (bool \<times> exn) list" where
  "stream_config_checks c =
    [(\<not> sc_enable_standard_feed c \<and> \<not> sc_enable_20_level_depth c \<and> \<not> sc_enable_200_level_depth c,
      ValueError ''at least one Dhan stream channel must be enabled''),
     (Min (set [sc_heartbeat_interval_seconds c, sc_heartbeat_timeout_seconds c,
        sc_reconnect_initial_seconds c, sc_reconnect_max_seconds c, sc_open_timeout_seconds c,
        sc_stale_quote_after_seconds c, sc_trade_quote_freshness_seconds c]) \<le> 0,
      ValueError ''stream timeouts and reconnect delays must be positive''),
     (sc_depth20_instruments_per_socket_limit c < 1,
      ValueError ''depth20 instrument limit must be positive''),
     (sc_channel_start_stagger_seconds c < 0,
      ValueError ''channel start stagger must be non-negative'')]"

definition stream_config_post_init :: "stream_config \<Rightarrow> stream_config result" where
  "stream_config_post_init c =
     (case first_error (stream_config_checks c) of Some e \<Rightarrow> Inl e | None \<Rightarrow> Inr c)"

definition default_config :: stream_config where
  "default_config =
     \<lparr>sc_enable_standard_feed = True, sc_enable_20_level_depth = True, sc_enable_200_level_depth = False,
      sc_heartbeat_interval_seconds = 10, sc_heartbeat_timeout_seconds = 5,
      sc_reconnect_initial_seconds = 1 / 2, sc_reconnect_max_seconds = 30,
      sc_open_timeout_seconds = 10, sc_stale_quote_after_seconds = 5,
      sc_trade_quote_freshness_seconds = 1, sc_depth20_instruments_per_socket_limit = 50,
      sc_channel_start_stagger_seconds = 0\<rparr>"

section \<open>The stream\<close>

fun SEGMENT_CODE :: "segment_code \<Rightarrow> int" where
  "SEGMENT_CODE IDX_I = 0"
| "SEGMENT_CODE NSE_EQ = 1"
| "SEGMENT_CODE NSE_FNO = 2"

type_synonym book_id = "string \<times> int \<times> int"

record stream =
  st_instruments :: "dhan_mapping list"
  st_run_id :: string
  st_config :: stream_config
  st_metrics :: stream_metrics
  st_connection_id :: string
  st_mappings :: "((int \<times> int) \<times> dhan_mapping) list"
  st_receive_sequence :: int
  st_classifier :: classifier
  st_epochs :: counter
  st_ever_connected :: "string list"
  st_pending_flags :: "(string \<times> quality_flag list) list"
  st_books :: "(book_id \<times> (string \<times> depth_level list) list) list"
  st_latest_standard :: "((int \<times> int) \<times> market_packet) list"
  st_side_received_at :: "((string \<times> int \<times> int \<times> string) \<times> datetime) list"
  st_last_exchange_ts :: "(book_id \<times> datetime) list"
  st_sequences :: counter
  st_rows :: "tape_row list"

definition mapping_key :: "dhan_mapping \<Rightarrow> int \<times> int" where
  "mapping_key m = (SEGMENT_CODE (dm_exchange_segment m), int (digits_value (dm_security_id m)))"

definition stream_init ::
    "dhan_mapping list \<Rightarrow> string \<Rightarrow> stream_config \<Rightarrow> stream_metrics \<Rightarrow> string \<Rightarrow> stream result" where
  "stream_init instruments run_id config metrics connection_id =
     (if instruments = [] then Inl (ValueError ''at least one instrument mapping is required'')
      else if py_strip connection_id = [] then Inl (ValueError ''connection_id is required'')
      else bind_result (classifier_init (sc_trade_quote_freshness_seconds config)) (\<lambda>c.
        Inr \<lparr>st_instruments = instruments, st_run_id = run_id, st_config = config, st_metrics = metrics,
             st_connection_id = connection_id,
             st_mappings = foldl (\<lambda>d m. AList.update (mapping_key m) m d) [] instruments,
             st_receive_sequence = 0, st_classifier = c, st_epochs = [], st_ever_connected = [],
             st_pending_flags = [], st_books = [], st_latest_standard = [], st_side_received_at = [],
             st_last_exchange_ts = [], st_sequences = [], st_rows = []\<rparr>))"

text \<open>\<open>DhanLiveStream.run\<close> up to the start of the channel tasks: the channels, in start order.\<close>

definition deep_instruments :: "dhan_mapping list \<Rightarrow> dhan_mapping list" where
  "deep_instruments ms = filter (\<lambda>m. dm_exchange_segment m = NSE_EQ \<or> dm_exchange_segment m = NSE_FNO) ms"

definition DEPTH200_ELIGIBLE_KINDS :: "instrument_kind list" where
  "DEPTH200_ELIGIBLE_KINDS = [EQUITY, FUTURE]"

definition depth200_ineligible :: "dhan_mapping list \<Rightarrow> dhan_mapping list" where
  "depth200_ineligible ms = filter (\<lambda>m. in_kind (dm_instrument m) \<notin> set DEPTH200_ELIGIBLE_KINDS) ms"

definition run_checks :: "stream \<Rightarrow> (bool \<times> exn) list" where
  "run_checks s =
    (let c = st_config s; deep = deep_instruments (st_instruments s) in
    [(sc_enable_20_level_depth c \<and> deep = [],
      ValueError ''20-level depth requires an NSE_EQ or NSE_FNO instrument''),
     (sc_enable_20_level_depth c \<and> sc_depth20_instruments_per_socket_limit c < int (length deep),
      ValueError ''20-level depth permits one subscription message per socket''),
     (sc_enable_200_level_depth c \<and> deep = [],
      ValueError ''200-level depth requires an NSE_EQ or NSE_FNO instrument''),
     (sc_enable_200_level_depth c \<and> depth200_ineligible deep \<noteq> [],
      ValueError ''200-level depth is restricted to futures and equity books (D33)''),
     (sc_enable_200_level_depth c \<and> 1 < length deep,
      ValueError ''200-level depth allows exactly one instrument per subscription'')])"

definition run_channels :: "stream \<Rightarrow> string list result" where
  "run_channels s =
     (case first_error (run_checks s) of
        Some e \<Rightarrow> Inl e
      | None \<Rightarrow>
          Inr ((if sc_enable_standard_feed (st_config s) then [''standard''] else []) @
               (if sc_enable_20_level_depth (st_config s) then [''depth20''] else []) @
               (if sc_enable_200_level_depth (st_config s) then [''depth200''] else [])))"

section \<open>Subscribing\<close>

definition STANDARD_URL :: string where "STANDARD_URL = ''wss://api-feed.dhan.co''"
definition DEPTH20_URL :: string where "DEPTH20_URL = ''wss://depth-api-feed.dhan.co/twentydepth''"
definition DEPTH200_URL :: string where "DEPTH200_URL = ''wss://full-depth-api.dhan.co/''"

definition stream_url :: "string \<Rightarrow> string \<Rightarrow> string \<Rightarrow> string" where
  "stream_url access_token client_id channel =
     (let base = (if channel = ''standard'' then STANDARD_URL
                  else if channel = ''depth20'' then DEPTH20_URL else DEPTH200_URL);
          version = (if channel = ''standard'' then ''?version=2&'' else ''?'')
      in base @ version @ ''token='' @ access_token @ ''&clientId='' @ client_id @ ''&authType=2'')"

definition subscribe_item :: "dhan_mapping \<Rightarrow> jobj" where
  "subscribe_item m =
     [(''ExchangeSegment'', JStr (segment_str (dm_exchange_segment m))),
      (''SecurityId'', JStr (dm_security_id m))]"

definition subscribe_batch :: "int \<Rightarrow> jobj list \<Rightarrow> jobj" where
  "subscribe_batch code batch =
     [(''RequestCode'', JInt code), (''InstrumentCount'', JInt (int (length batch))),
      (''InstrumentList'', JList (map JObj batch))]"

function chunks :: "nat \<Rightarrow> 'a list \<Rightarrow> 'a list list" where
  "chunks n xs = (if n = 0 \<or> xs = [] then [] else take n xs # chunks n (drop n xs))"
  by pat_completeness auto
termination by (relation "measure (\<lambda>(n, xs). length xs)") auto

declare chunks.simps [simp del]

text \<open>The messages \<open>_subscribe\<close> sends; \<open>IndexError\<close> is \<open>deep_instruments[0]\<close> of an empty list.\<close>

definition subscribe_messages :: "stream \<Rightarrow> string \<Rightarrow> jobj list result" where
  "subscribe_messages s channel =
     (if channel = ''standard''
      then Inr (map (subscribe_batch 21) (chunks 100 (map subscribe_item (st_instruments s))))
      else
        (let deep = deep_instruments (st_instruments s) in
         if channel = ''depth200''
         then (case deep of
                 [] \<Rightarrow> Inl (IndexError ''list index out of range'')
               | m # _ \<Rightarrow> Inr [(''RequestCode'', JInt 23) # subscribe_item m])
         else Inr [subscribe_batch 23 (map subscribe_item deep)]))"

section \<open>Connections\<close>

definition pending_of :: "stream \<Rightarrow> string \<Rightarrow> quality_flag list" where
  "pending_of s channel = (case map_of (st_pending_flags s) channel of None \<Rightarrow> [] | Some fs \<Rightarrow> fs)"

definition add_pending :: "stream \<Rightarrow> string \<Rightarrow> quality_flag list \<Rightarrow> stream" where
  "add_pending s channel fs =
     s\<lparr>st_pending_flags := AList.update channel (pending_of s channel @ fs) (st_pending_flags s)\<rparr>"

text \<open>\<open>SequenceGapDetector.reset\<close>.\<close>

definition reset_sequences :: "counter \<Rightarrow> string \<Rightarrow> counter" where
  "reset_sequences d key_prefix = filter (\<lambda>(k, n). \<not> prefix key_prefix k) d"

definition DEEP_CHANNELS :: "string list" where
  "DEEP_CHANNELS = [''depth20'', ''depth200'']"

definition forget_books :: "stream \<Rightarrow> string \<Rightarrow> stream" where
  "forget_books s channel =
     s\<lparr>st_books := filter (\<lambda>(k, b). fst k \<noteq> channel) (st_books s),
       st_side_received_at := filter (\<lambda>(k, t). fst k \<noteq> channel) (st_side_received_at s)\<rparr>"

text \<open>\<open>_connection_once\<close> from the completed handshake to the start of the receive and heartbeat
  tasks.\<close>

definition stream_connected :: "stream \<Rightarrow> string \<Rightarrow> stream" where
  "stream_connected s channel =
    (let s' = s\<lparr>st_ever_connected := List.insert channel (st_ever_connected s),
               st_epochs := bump (st_epochs s) channel 1,
               st_metrics := (st_metrics s)\<lparr>sm_connections := bump (sm_connections (st_metrics s)) channel 1\<rparr>\<rparr>
     in if channel \<in> set (st_ever_connected s)
        then let s'' = (add_pending s' channel [RECONNECTED, CONNECTION_GAP])
                         \<lparr>st_sequences := reset_sequences (st_sequences s') (channel @ '':'')\<rparr>
             in if channel \<in> set DEEP_CHANNELS then forget_books s'' channel else s''
        else s')"

text \<open>What an exception tells the supervisor: its class, the HTTP status of a refused handshake and
  the close code of the peer. \<open>is_fatal\<close> is \<open>DhanFatalStreamError\<close>.\<close>

record stream_error =
  se_type_name :: string
  se_is_fatal :: bool
  se_is_heartbeat_timeout :: bool
  se_status_code :: "int option"
  se_close_code :: "int option"

datatype supervision = Retry stream rat | Fatal exn

text \<open>The \<open>except\<close> clauses of one turn of \<open>_supervise\<close>: the state, the delay it sleeps for before
  jitter is \<open>backoff_now\<close>, and the delay of the next turn.\<close>

definition backoff_now :: "stream \<Rightarrow> string \<Rightarrow> int \<Rightarrow> rat \<Rightarrow> rat" where
  "backoff_now s channel connections_before delay =
     (if connections_before < count_of (sm_connections (st_metrics s)) channel
      then sc_reconnect_initial_seconds (st_config s) else delay)"

definition next_delay :: "stream \<Rightarrow> rat \<Rightarrow> rat" where
  "next_delay s delay = min (delay * 2) (sc_reconnect_max_seconds (st_config s))"

definition jittered_delay :: "rat \<Rightarrow> rat \<Rightarrow> rat" where
  "jittered_delay u delay = delay * (8 / 10) + (delay * (12 / 10) - delay * (8 / 10)) * u"

definition failure_metrics :: "stream_metrics \<Rightarrow> string \<Rightarrow> stream_error \<Rightarrow> stream_metrics" where
  "failure_metrics m channel e =
     m\<lparr>sm_reconnect_attempts := bump (sm_reconnect_attempts m) channel 1,
       sm_reconnect_error_types :=
         bump (sm_reconnect_error_types m) (channel @ '':'' @ se_type_name e) 1,
       sm_reconnect_close_codes :=
         (case se_close_code e of
            None \<Rightarrow> sm_reconnect_close_codes m
          | Some code \<Rightarrow> bump (sm_reconnect_close_codes m) (channel @ '':'' @ dec_int code) 1),
       sm_heartbeat_timeouts :=
         (if se_is_heartbeat_timeout e then bump (sm_heartbeat_timeouts m) channel 1
          else sm_heartbeat_timeouts m)\<rparr>"

definition supervise_failure ::
    "stream \<Rightarrow> string \<Rightarrow> int \<Rightarrow> rat \<Rightarrow> stream_error \<Rightarrow> supervision" where
  "supervise_failure s channel connections_before delay e =
     (if se_is_fatal e then Fatal (DhanFatalStreamError ''rejected'')
      else if se_status_code e = Some 401 \<or> se_status_code e = Some 403
      then Fatal (DhanFatalStreamError ''authentication failed'')
      else Retry
        (add_pending (s\<lparr>st_metrics := failure_metrics (st_metrics s) channel e\<rparr>) channel
           ([CONNECTION_GAP] @ (if se_is_heartbeat_timeout e then [HEARTBEAT_TIMEOUT] else [])))
        (next_delay s (backoff_now s channel connections_before delay)))"

text \<open>Consecutive turns of \<open>_supervise\<close> in which no handshake completes.\<close>

fun failed_turns :: "stream \<Rightarrow> string \<Rightarrow> rat \<Rightarrow> stream_error list \<Rightarrow> supervision" where
  "failed_turns s channel delay [] = Retry s delay"
| "failed_turns s channel delay (e # es) =
     (case supervise_failure s channel (count_of (sm_connections (st_metrics s)) channel) delay e of
        Fatal x \<Rightarrow> Fatal x
      | Retry s' delay' \<Rightarrow> failed_turns s' channel delay' es)"

text \<open>One turn of the heartbeat loop; \<open>answered\<close> says the pong came in time.\<close>

definition heartbeat :: "stream \<Rightarrow> string \<Rightarrow> bool \<Rightarrow> stream \<times> exn option" where
  "heartbeat s channel answered =
     (let m = (st_metrics s)\<lparr>sm_heartbeats_sent := bump (sm_heartbeats_sent (st_metrics s)) channel 1\<rparr>
      in if answered
         then (s\<lparr>st_metrics := m\<lparr>sm_heartbeats_ok := bump (sm_heartbeats_ok m) channel 1\<rparr>\<rparr>, None)
         else (s\<lparr>st_metrics := m\<rparr>, Some (HeartbeatTimeout ''heartbeat timed out'')))"

definition FATAL_REASONS :: "int list" where
  "FATAL_REASONS = [805, 806, 807, 808, 809]"

definition raise_disconnect :: "stream \<Rightarrow> string \<Rightarrow> disconnect_packet \<Rightarrow> stream \<times> exn option" where
  "raise_disconnect s channel p =
     (s\<lparr>st_metrics := (st_metrics s)\<lparr>sm_disconnect_reason_codes :=
          bump (sm_disconnect_reason_codes (st_metrics s))
            (channel @ '':'' @ dec_int (dc_reason_code p)) 1\<rparr>\<rparr>,
      Some (if dc_reason_code p \<in> set FATAL_REASONS
            then DhanFatalStreamError ''rejected the stream''
            else ConnectionError ''disconnected''))"

section \<open>Emitting rows\<close>

text \<open>\<open>SequenceGapDetector.observe\<close>.\<close>

definition observe_sequence :: "counter \<Rightarrow> string \<Rightarrow> int option \<Rightarrow> counter \<times> quality_flag list" where
  "observe_sequence d key source_sequence =
     (case source_sequence of
        None \<Rightarrow> (d, [SOURCE_SEQUENCE_UNAVAILABLE])
      | Some n \<Rightarrow>
          (AList.update key n d,
           case map_of d key of
             None \<Rightarrow> []
           | Some previous \<Rightarrow>
               if n = previous + 1 then []
               else if n = previous then [DUPLICATE_SEQUENCE]
               else if n < previous then [SEQUENCE_REGRESSION] else [SEQUENCE_GAP]))"

definition book_flags :: "depth_level list \<Rightarrow> depth_level list \<Rightarrow> quality_flag list" where
  "book_flags bids asks =
     (if bids = [] \<or> asks = [] then [PARTIAL_BOOK] else []) @
     (if \<not> successively (\<lambda>a b. dl_price b < dl_price a) bids then [INVALID_DEPTH] else []) @
     (if \<not> successively (\<lambda>a b. dl_price a < dl_price b) asks then [INVALID_DEPTH] else []) @
     (case (bids, asks) of
        (b # _, a # _) \<Rightarrow> if dl_price a \<le> dl_price b then [CROSSED_BOOK] else []
      | _ \<Rightarrow> [])"

definition stream_flags ::
    "stream \<Rightarrow> string \<Rightarrow> int \<Rightarrow> int \<Rightarrow> int option \<Rightarrow> datetime option \<Rightarrow> depth_level list \<Rightarrow>
     depth_level list \<Rightarrow> stream \<times> quality_flag list" where
  "stream_flags s channel segment security_id source_sequence exchange_ts bids asks =
    (let key = channel @ '':'' @ dec_int segment @ '':'' @ dec_int security_id;
         timestamp_key = (channel, segment, security_id);
         (sequences, flags) = observe_sequence (st_sequences s) key source_sequence;
         s' = s\<lparr>st_sequences := sequences,
               st_pending_flags := AList.update channel [] (st_pending_flags s)\<rparr>;
         pending = pending_of s channel;
         (s'', clock) =
           (case exchange_ts of
              None \<Rightarrow> (s', [EXCHANGE_TIMESTAMP_MISSING])
            | Some t \<Rightarrow>
                (s'\<lparr>st_last_exchange_ts := AList.update timestamp_key t (st_last_exchange_ts s')\<rparr>,
                 case map_of (st_last_exchange_ts s') timestamp_key of
                   None \<Rightarrow> []
                 | Some prior \<Rightarrow> if instant t < instant prior then [EXCHANGE_TIME_REGRESSION] else []))
     in (s'', flags @ pending @ clock @ book_flags bids asks))"

definition row_price :: "fval option \<Rightarrow> rat option result" where
  "row_price v =
     (case v of
        None \<Rightarrow> Inr None
      | Some (Finite p) \<Rightarrow> Inr (Some p)
      | Some _ \<Rightarrow> Inl (InvalidOperation ''last price is not a finite number''))"

text \<open>The fields every emitted row shares; the classification fields are absent.\<close>

definition dhan_row :: "stream \<Rightarrow> string \<Rightarrow> string \<Rightarrow> dhan_mapping \<Rightarrow> datetime \<Rightarrow> nat \<Rightarrow> tape_row" where
  "dhan_row s channel event_type m received_at raw_size =
     \<lparr>tr_run_id = st_run_id s, tr_receive_sequence = st_receive_sequence s,
      tr_connection_epoch = count_of (st_epochs s) channel, tr_source = ''dhan'',
      tr_event_type = event_type, tr_instrument_id = canonical (dm_instrument m),
      tr_broker_security_id = dm_security_id m,
      tr_exchange_segment = segment_str (dm_exchange_segment m), tr_receive_ts = received_at,
      tr_raw_message_size_bytes = int raw_size, tr_connection_id = st_connection_id s,
      tr_exchange_ts = None, tr_source_sequence = None, tr_update_side = None, tr_last_price = None,
      tr_last_quantity = None, tr_cumulative_volume = None, tr_cumulative_volume_increment = None,
      tr_open_interest = None, tr_trade_quote_bid = None, tr_trade_quote_ask = None,
      tr_trade_quote_channel = None, tr_trade_quote_bid_receive_ts = None,
      tr_trade_quote_ask_receive_ts = None, tr_trade_quote_receive_ts = None,
      tr_trade_quote_age_ms = None, tr_trade_quote_freshness_bound_ms = None, tr_trade_side = None,
      tr_trade_classifier_version = None, tr_trade_alignment_version = None,
      tr_trade_classification_degraded = None, tr_trade_classification_reason = None,
      tr_trade_coalesced = None, tr_bids = [], tr_asks = [], tr_quality_flags = []\<rparr>"

definition find_mapping :: "stream \<Rightarrow> int \<Rightarrow> int \<Rightarrow> dhan_mapping result" where
  "find_mapping s segment security_id =
     (case map_of (st_mappings s) (segment, security_id) of
        None \<Rightarrow> Inl (DhanProtocolError ''Dhan emitted unsubscribed instrument'')
      | Some m \<Rightarrow> Inr m)"

text \<open>\<open>_next_sequence\<close> of the stream's own counter.\<close>

definition take_sequence :: "stream \<Rightarrow> stream" where
  "take_sequence s = s\<lparr>st_receive_sequence := st_receive_sequence s + 1\<rparr>"

text \<open>Constructing the row, classifying it and passing it on.\<close>

definition emit_row :: "stream \<Rightarrow> tape_row result \<Rightarrow> stream \<times> exn option" where
  "emit_row s built =
     (case bind_result built tape_row_post_init of
        Inl e \<Rightarrow> (s, Some e)
      | Inr row \<Rightarrow>
          (case process (st_classifier s) row of
             (c, Inl e) \<Rightarrow> (s\<lparr>st_classifier := c\<rparr>, Some e)
           | (c, Inr classified) \<Rightarrow>
               (s\<lparr>st_classifier := c, st_rows := st_rows s @ [classified],
                 st_metrics := record_row (st_metrics s) classified\<rparr>, None)))"

definition emit_standard :: "stream \<Rightarrow> market_packet \<Rightarrow> datetime \<Rightarrow> stream \<times> exn option" where
  "emit_standard s p received_at =
    (case find_mapping s (mp_exchange_segment_code p) (mp_security_id p) of
       Inl e \<Rightarrow> (s, Some e)
     | Inr m \<Rightarrow>
         (let key = (mp_exchange_segment_code p, mp_security_id p);
              s1 = (if mp_event_type p \<in> set [''full'', ''quote'', ''ticker'', ''depth5'']
                    then s\<lparr>st_latest_standard := AList.update key p (st_latest_standard s)\<rparr> else s);
              (s2, flags) = stream_flags s1 ''standard'' (mp_exchange_segment_code p) (mp_security_id p)
                              (mp_source_sequence p) (mp_exchange_timestamp p) (mp_bids p) (mp_asks p);
              s3 = take_sequence s2
          in emit_row s3
               (bind_result (row_price (mp_last_price p)) (\<lambda>price.
                Inr ((dhan_row s3 ''standard'' (mp_event_type p) m received_at (mp_raw_size p))
                  \<lparr>tr_source_sequence := mp_source_sequence p, tr_exchange_ts := mp_exchange_timestamp p,
                   tr_update_side := (if mp_bids p \<noteq> [] \<and> mp_asks p \<noteq> [] then Some ''both'' else None),
                   tr_last_price := price, tr_last_quantity := mp_last_quantity p,
                   tr_cumulative_volume := mp_cumulative_volume p,
                   tr_open_interest := mp_open_interest p, tr_bids := mp_bids p, tr_asks := mp_asks p,
                   tr_quality_flags := flags\<rparr>)))))"

definition book_of :: "stream \<Rightarrow> book_id \<Rightarrow> (string \<times> depth_level list) list" where
  "book_of s k = (case map_of (st_books s) k of None \<Rightarrow> [] | Some b \<Rightarrow> b)"

definition side_levels :: "stream \<Rightarrow> book_id \<Rightarrow> string \<Rightarrow> depth_level list" where
  "side_levels s k side = (case map_of (book_of s k) side of None \<Rightarrow> [] | Some ls \<Rightarrow> ls)"

definition store_side :: "stream \<Rightarrow> string \<Rightarrow> deep_packet \<Rightarrow> datetime \<Rightarrow> stream" where
  "store_side s channel p received_at =
     (let k = (channel, dp_exchange_segment_code p, dp_security_id p) in
      s\<lparr>st_books := AList.update k (AList.update (dp_side p) (dp_levels p) (book_of s k)) (st_books s),
        st_side_received_at :=
          AList.update (channel, dp_exchange_segment_code p, dp_security_id p, dp_side p) received_at
            (st_side_received_at s)\<rparr>)"

definition stale_flags :: "stream \<Rightarrow> string \<Rightarrow> deep_packet \<Rightarrow> datetime \<Rightarrow> quality_flag list" where
  "stale_flags s channel p received_at =
     (let other_side = (if dp_side p = ''bid'' then ''ask'' else ''bid'') in
      case map_of (st_side_received_at s)
             (channel, dp_exchange_segment_code p, dp_security_id p, other_side) of
        None \<Rightarrow> []
      | Some t \<Rightarrow>
          if sc_stale_quote_after_seconds (st_config s)
               < of_int (instant received_at - instant t) / 1000000
          then [STALE_QUOTE] else [])"

definition emit_deep :: "stream \<Rightarrow> string \<Rightarrow> deep_packet \<Rightarrow> datetime \<Rightarrow> stream \<times> exn option" where
  "emit_deep s channel p received_at =
    (case find_mapping s (dp_exchange_segment_code p) (dp_security_id p) of
       Inl e \<Rightarrow> (s, Some e)
     | Inr m \<Rightarrow>
         (let k = (channel, dp_exchange_segment_code p, dp_security_id p);
              s1 = store_side s channel p received_at;
              bids = side_levels s1 k ''bid'';
              asks = side_levels s1 k ''ask'';
              latest = map_of (st_latest_standard s1) (dp_exchange_segment_code p, dp_security_id p);
              (s2, flags) = stream_flags s1 channel (dp_exchange_segment_code p) (dp_security_id p)
                              (dp_source_sequence p) None bids asks;
              s3 = take_sequence s2
          in emit_row s3
               (bind_result (row_price (Option.bind latest mp_last_price)) (\<lambda>price.
                Inr ((dhan_row s3 channel channel m received_at (dp_raw_size p))
                  \<lparr>tr_source_sequence := dp_source_sequence p, tr_update_side := Some (dp_side p),
                   tr_last_price := price,
                   tr_cumulative_volume := Option.bind latest mp_cumulative_volume,
                   tr_open_interest := Option.bind latest mp_open_interest,
                   tr_bids := bids, tr_asks := asks,
                   tr_quality_flags := flags @ stale_flags s2 channel p received_at\<rparr>)))))"

section \<open>Receiving\<close>

definition note_packet :: "stream \<Rightarrow> rat \<Rightarrow> string \<Rightarrow> nat \<Rightarrow> stream" where
  "note_packet s now channel n = s\<lparr>st_metrics := record_source_packet (st_metrics s) now channel n\<rparr>"

definition deep_packet_step ::
    "stream \<Rightarrow> rat \<Rightarrow> string \<Rightarrow> datetime \<Rightarrow> deep_message \<Rightarrow> stream \<times> exn option" where
  "deep_packet_step s now channel received_at p =
     (case p of
        Deep p \<Rightarrow> emit_deep (note_packet s now channel (dp_raw_size p)) channel p received_at
      | DeepDropped c \<Rightarrow> raise_disconnect (note_packet s now channel (dc_raw_size c)) channel c)"

fun deep_packets_step ::
    "stream \<Rightarrow> rat \<Rightarrow> string \<Rightarrow> datetime \<Rightarrow> deep_message list \<Rightarrow> stream \<times> exn option" where
  "deep_packets_step s now channel received_at [] = (s, None)"
| "deep_packets_step s now channel received_at (p # ps) =
     (case deep_packet_step s now channel received_at p of
        (s', Some e) \<Rightarrow> (s', Some e)
      | (s', None) \<Rightarrow> deep_packets_step s' now channel received_at ps)"

datatype wire_message = Binary bytes | Text string

text \<open>One turn of \<open>_receive_loop\<close>.\<close>

definition receive_message ::
    "stream \<Rightarrow> string \<Rightarrow> rat \<Rightarrow> datetime \<Rightarrow> wire_message \<Rightarrow> stream \<times> exn option" where
  "receive_message s channel now received_at message =
    (case message of
       Text t \<Rightarrow> (s, Some (DhanProtocolError ''emitted a non-binary message''))
     | Binary data \<Rightarrow>
         (let s1 = s\<lparr>st_metrics := record_websocket_message (st_metrics s) channel (length data)\<rparr> in
          if channel = ''standard''
          then (case parse_standard_packet data of
                  Inl e \<Rightarrow> (s1, Some e)
                | Inr None \<Rightarrow> (s1, None)
                | Inr (Some (Dropped c)) \<Rightarrow> raise_disconnect (note_packet s1 now channel (dc_raw_size c)) channel c
                | Inr (Some (Market p)) \<Rightarrow>
                    (let s2 = note_packet s1 now channel (mp_raw_size p) in
                     if mp_security_id p = 0 then (s2, None) else emit_standard s2 p received_at))
          else (case parse_deep_packets (if channel = ''depth200'' then 200 else 20) data of
                  Inl e \<Rightarrow> (s1, Some e)
                | Inr ps \<Rightarrow> deep_packets_step s1 now channel received_at ps)))"

end
