(* ===== verification/Stream_Runs.thy ===== *)
theory Stream_Runs
  imports Dhan_Stream Append_Log
begin

text \<open>
  Runs of the live stream: the events of \<open>stream_step\<close> are a completed handshake, a received
  message, a heartbeat and a failure handled by the supervisor. The invariants say which rows reach
  the sink (valid, in strictly increasing receive order), that the books in memory are those of the
  current connection, and where the reconnect marks go; \<open>append_log\<close> is interpreted on the rows.
\<close>

section \<open>What the stream asks of its row classifier\<close>

locale row_processor =
  fixes run :: "'c \<Rightarrow> tape_row \<Rightarrow> 'c \<times> tape_row result"
    and inv :: "'c \<Rightarrow> bool"
  assumes run_keeps: "inv c \<Longrightarrow> tape_row_ok r \<Longrightarrow> inv (fst (run c r))"
    and run_sound: "inv c \<Longrightarrow> tape_row_ok r \<Longrightarrow> snd (run c r) = Inr r' \<Longrightarrow> tape_row_ok r' \<and> only_enriched r r'"
    and run_depth: "tr_event_type r \<in> set DEPTH_CHANNELS \<Longrightarrow> snd (run c r) = Inr r"
begin

lemma run_cases:
  assumes "inv c" and "tape_row_ok r"
  obtains (refused) c' e where "run c r = (c', Inl e)" "inv c'" "tr_event_type r \<notin> set DEPTH_CHANNELS"
  | (passed) c' r' where "run c r = (c', Inr r')" "inv c'" "tape_row_ok r'" "only_enriched r r'"
      "tr_event_type r \<in> set DEPTH_CHANNELS \<Longrightarrow> r' = r"
proof -
  obtain c' x where x: "run c r = (c', x)" by (cases "run c r")
  have inv: "inv c'" using run_keeps [OF assms] x by simp
  show thesis
  proof (cases x)
    case (Inl e)
    have "tr_event_type r \<notin> set DEPTH_CHANNELS" using run_depth [of r c] x Inl by auto
    then show thesis using refused x Inl inv by blast
  next
    case (Inr r')
    have "tape_row_ok r' \<and> only_enriched r r'" using run_sound [OF assms, of r'] x Inr by simp
    moreover have "tr_event_type r \<in> set DEPTH_CHANNELS \<Longrightarrow> r' = r" using run_depth [of r c] x Inr by simp
    ultimately show thesis using passed x Inr inv by blast
  qed
qed

end

definition classifier_ok :: "classifier \<Rightarrow> bool" where
  "classifier_ok c \<longleftrightarrow> (\<exists>b h. 0 < b \<and> list_all tape_row_ok h \<and> tracks b h c)"

interpretation direction: row_processor process classifier_ok
proof
  fix c r assume ok: "classifier_ok c" "tape_row_ok r"
  then obtain b h where h: "0 < b" "list_all tape_row_ok h" "tracks b h c" unfolding classifier_ok_def by blast
  have "tracks b (r # h) (fst (process c r))" by (rule process_tracks [OF h(3)])
  moreover have "list_all tape_row_ok (r # h)" using h(2) ok(2) by simp
  ultimately show "classifier_ok (fst (process c r))" unfolding classifier_ok_def using h(1) by blast
  fix r' assume "snd (process c r) = Inr r'"
  then have "reference_process b h r = Inr r'" by (simp add: process_reference [OF h(3)])
  with reference_process_sound [OF h(1,2) ok(2)] show "tape_row_ok r' \<and> only_enriched r r'" by simp
next
  fix r :: tape_row and c assume "tr_event_type r \<in> set DEPTH_CHANNELS"
  then show "snd (process c r) = Inr r" by (simp add: process_def)
qed

lemma classifier_init_ok: "classifier_init q = Inr c \<Longrightarrow> classifier_ok c"
  using classifier_init_tracks [of q c] unfolding classifier_ok_def
  by (intro exI [of _ "q * 1000"] exI [of _ "[]"]) simp

lemma only_enriched_fields:
  assumes "only_enriched r r'"
  shows "tr_receive_sequence r' = tr_receive_sequence r" and "tr_event_type r' = tr_event_type r"
    and "tr_connection_epoch r' = tr_connection_epoch r" and "tr_source r' = tr_source r"
proof -
  have eq: "unclassified_frame r' = unclassified_frame r" using assms by (simp add: only_enriched_def)
  from arg_cong [OF eq, of tr_receive_sequence] arg_cong [OF eq, of tr_event_type]
    arg_cong [OF eq, of tr_connection_epoch] arg_cong [OF eq, of tr_source]
  show "tr_receive_sequence r' = tr_receive_sequence r" and "tr_event_type r' = tr_event_type r"
    and "tr_connection_epoch r' = tr_connection_epoch r" and "tr_source r' = tr_source r"
    by (simp_all add: unclassified_frame_def)
qed

section \<open>Events\<close>

datatype stream_event =
    Connected string
  | Received string rat datetime wire_message
  | Beat string bool
  | Failed string int rat stream_error

text \<open>A message whose last price, if any, is a finite number.\<close>

definition finite_message :: "string \<Rightarrow> wire_message \<Rightarrow> bool" where
  "finite_message channel message \<longleftrightarrow>
     (case message of
        Text t \<Rightarrow> True
      | Binary data \<Rightarrow>
          (case parse_standard_packet data of
             Inr (Some (Market p)) \<Rightarrow>
               channel = ''standard'' \<longrightarrow> (case row_price (mp_last_price p) of Inl e \<Rightarrow> False | Inr v \<Rightarrow> True)
           | _ \<Rightarrow> True))"

definition CHANNELS :: "string list" where
  "CHANNELS = ''standard'' # DEEP_CHANNELS"

text \<open>The events that can come next: only a channel of the stream connects or receives, nothing is
  received before its first handshake, and \<open>datetime.now(UTC)\<close> is aware.\<close>

definition stream_enabled :: "stream \<Rightarrow> stream_event \<Rightarrow> bool" where
  "stream_enabled s e =
     (case e of
        Connected channel \<Rightarrow> channel \<in> set CHANNELS
      | Received channel now t message \<Rightarrow>
          channel \<in> set CHANNELS \<and> channel \<in> set (st_ever_connected s) \<and> is_aware t \<and>
          finite_message channel message
      | Beat channel answered \<Rightarrow> True
      | Failed channel before delay e \<Rightarrow> True)"

fun stream_effect :: "stream \<Rightarrow> stream_event \<Rightarrow> stream" where
  "stream_effect s (Connected channel) = stream_connected s channel"
| "stream_effect s (Received channel now t message) = fst (receive_message s channel now t message)"
| "stream_effect s (Beat channel answered) = fst (heartbeat s channel answered)"
| "stream_effect s (Failed channel before delay e) =
     (case supervise_failure s channel before delay e of Retry s' d \<Rightarrow> s' | Fatal x \<Rightarrow> s)"

definition stream_step :: "stream \<Rightarrow> stream_event \<Rightarrow> stream result" where
  "stream_step s e =
     (if stream_enabled s e then Inr (stream_effect s e) else Inl (RuntimeError ''event not enabled''))"

section \<open>Dictionaries of counters\<close>

lemma count_of_bump [simp]: "count_of (bump d k n) k' = count_of d k' + (if k' = k then n else 0)"
  by (simp add: count_of_def bump_def dict_simps)

lemma pending_of_add [simp]:
  "pending_of (add_pending s ch fs) ch' = pending_of s ch' @ (if ch' = ch then fs else [])"
  by (simp add: pending_of_def add_pending_def dict_simps)

lemma map_of_filter_keys: "map_of (filter (\<lambda>(k, v). P k) d) k = (if P k then map_of d k else None)"
  by (induction d) auto

lemma side_levels_forget [simp]:
  "side_levels (forget_books s ch) k side = (if fst k = ch then [] else side_levels s k side)"
  by (simp add: side_levels_def book_of_def forget_books_def map_of_filter_keys)

lemma side_levels_store:
  "side_levels (store_side s ch p t) k side =
     (if k = (ch, dp_exchange_segment_code p, dp_security_id p) \<and> side = dp_side p then dp_levels p
      else side_levels s k side)"
  by (simp add: side_levels_def book_of_def store_side_def Let_def dict_simps)

section \<open>The invariant of the rows\<close>

definition mapping_ok :: "(int \<times> int) \<Rightarrow> dhan_mapping \<Rightarrow> bool" where
  "mapping_ok k m \<longleftrightarrow>
     mapping_key m = k \<and> list_all is_digit (dm_security_id m) \<and> 0 < digits_value (dm_security_id m)"

definition static_ok :: "stream \<Rightarrow> bool" where
  "static_ok s \<longleftrightarrow> st_run_id s \<noteq> [] \<and> py_strip (st_connection_id s) \<noteq> [] \<and>
     (\<forall>k m. map_of (st_mappings s) k = Some m \<longrightarrow> mapping_ok k m)"

definition epochs_ok :: "stream \<Rightarrow> bool" where
  "epochs_ok s \<longleftrightarrow> (\<forall>ch. (if ch \<in> set (st_ever_connected s) then 1 \<le> count_of (st_epochs s) ch
                                 else count_of (st_epochs s) ch = 0))"

definition rows_ok :: "stream \<Rightarrow> bool" where
  "rows_ok s \<longleftrightarrow>
     0 \<le> st_receive_sequence s \<and> classifier_ok (st_classifier s) \<and> list_all tape_row_ok (st_rows s) \<and>
     list_all (\<lambda>r. tr_source r = ''dhan'') (st_rows s) \<and>
     sorted_wrt (<) (map tr_receive_sequence (st_rows s)) \<and>
     list_all (\<lambda>r. tr_receive_sequence r \<le> st_receive_sequence s) (st_rows s)"

definition books_ok :: "stream \<Rightarrow> bool" where
  "books_ok s \<longleftrightarrow> (\<forall>k side. list_all depth_level_ok (side_levels s k side))"

definition prices_ok :: "stream \<Rightarrow> bool" where
  "prices_ok s \<longleftrightarrow> (\<forall>k p. map_of (st_latest_standard s) k = Some p \<longrightarrow> (\<exists>v. row_price (mp_last_price p) = Inr v))"

definition stream_ok :: "stream \<Rightarrow> bool" where
  "stream_ok s \<longleftrightarrow> static_ok s \<and> epochs_ok s \<and> rows_ok s \<and> books_ok s \<and> prices_ok s"

lemma canonical_nonempty [simp]: "canonical i \<noteq> []"
  by (simp add: canonical_def canonical_parts_def)

text \<open>A row the handlers build passes the row checks.\<close>

lemma mapping_ok_id: "mapping_ok k m \<Longrightarrow> dm_security_id m \<noteq> []"
  by (auto simp: mapping_ok_def)

lemma dhan_row_checks:
  assumes "static_ok s" and "1 \<le> st_receive_sequence s" and "1 \<le> count_of (st_epochs s) ch"
    and "mapping_ok k m" and "is_aware t" and "opt_ok is_aware ets"
    and "us \<in> {None, Some ''bid'', Some ''ask'', Some ''both''}"
  shows "first_error (tape_row_checks ((dhan_row s ch et m t n)\<lparr>tr_source_sequence := None,
      tr_exchange_ts := ets, tr_update_side := us, tr_last_price := lp, tr_last_quantity := lq,
      tr_cumulative_volume := cv, tr_open_interest := oi, tr_bids := bids, tr_asks := asks,
      tr_quality_flags := fs\<rparr>)) = None"
  using assms mapping_ok_id [OF assms(4)]
  by (auto simp: tape_row_checks_def dhan_row_def static_ok_def classification_presence_def
      quote_presence_def)

lemma emit_row_cases:
  assumes "classifier_ok (st_classifier s)" and "first_error (tape_row_checks r) = None"
    and "list_all depth_level_ok (tr_bids r)" and "list_all depth_level_ok (tr_asks r)"
  obtains (refused) c e where "emit_row s (Inr r) = (s\<lparr>st_classifier := c\<rparr>, Some e)" "classifier_ok c"
      "tr_event_type r \<notin> set DEPTH_CHANNELS"
  | (passed) c r' where "emit_row s (Inr r) = (s\<lparr>st_classifier := c, st_rows := st_rows s @ [r'],
        st_metrics := record_row (st_metrics s) r'\<rparr>, None)" "classifier_ok c" "tape_row_ok r'"
      "only_enriched (r\<lparr>tr_quality_flags := sorted_set (tr_quality_flags r)\<rparr>) r'"
      "tr_event_type r \<in> set DEPTH_CHANNELS \<Longrightarrow> r' = r\<lparr>tr_quality_flags := sorted_set (tr_quality_flags r)\<rparr>"
proof -
  let ?r = "r\<lparr>tr_quality_flags := sorted_set (tr_quality_flags r)\<rparr>"
  have built: "tape_row_post_init r = Inr ?r" using assms(2) by (simp add: tape_row_post_init_Inr)
  have ok: "tape_row_ok ?r" by (rule tape_row_post_init_ok [OF built assms(3,4)])
  show thesis
  proof (cases rule: direction.run_cases [OF assms(1) ok])
    case 1
    then show thesis using refused built by (simp add: emit_row_def)
  next
    case 2
    then show thesis using passed built by (simp add: emit_row_def)
  qed
qed

section \<open>Packets and the state they leave\<close>

definition deep_packet_ok :: "deep_packet \<Rightarrow> bool" where
  "deep_packet_ok p \<longleftrightarrow>
     list_all depth_level_ok (dp_levels p) \<and> dp_side p \<in> {''bid'', ''ask''} \<and> dp_source_sequence p = None"

definition market_packet_ok :: "market_packet \<Rightarrow> bool" where
  "market_packet_ok p \<longleftrightarrow>
     list_all depth_level_ok (mp_bids p) \<and> list_all depth_level_ok (mp_asks p) \<and>
     opt_ok is_aware (mp_exchange_timestamp p) \<and> mp_event_type p \<notin> set DEEP_CHANNELS \<and>
     mp_source_sequence p = None \<and> (\<exists>v. row_price (mp_last_price p) = Inr v)"

text \<open>The fields of the state the book and mark invariants read.\<close>

lemma observe_sequence_None [simp]: "observe_sequence d k None = (d, [SOURCE_SEQUENCE_UNAVAILABLE])"
  by (simp add: observe_sequence_def)

lemma book_flags_marks [simp]:
  "RECONNECTED \<notin> set (book_flags bids asks)" "CONNECTION_GAP \<notin> set (book_flags bids asks)"
  by (simp_all add: book_flags_def split: list.split)

lemma stale_flags_marks [simp]:
  "RECONNECTED \<notin> set (stale_flags s ch p t)" "CONNECTION_GAP \<notin> set (stale_flags s ch p t)"
  by (simp_all add: stale_flags_def Let_def split: option.split)

text \<open>A deep packet of a subscribed instrument yields one row, and changes the state like this.\<close>

lemma emit_deep_row:
  assumes ok: "stream_ok s" and m: "map_of (st_mappings s) (dp_exchange_segment_code p, dp_security_id p) = Some m"
    and p: "deep_packet_ok p" and t: "is_aware t" and ch: "ch \<in> set DEEP_CHANNELS" "ch \<in> set (st_ever_connected s)"
  obtains c r mm where
    "emit_deep s ch p t =
       ((store_side s ch p t)\<lparr>st_pending_flags := AList.update ch [] (st_pending_flags s),
          st_receive_sequence := st_receive_sequence s + 1, st_classifier := c,
          st_rows := st_rows s @ [r], st_metrics := mm\<rparr>, None)"
    and "classifier_ok c" and "tape_row_ok r" and "tr_source r = ''dhan''" and "tr_event_type r = ch"
    and "tr_receive_sequence r = st_receive_sequence s + 1"
    and "tr_connection_epoch r = count_of (st_epochs s) ch"
    and "tr_broker_security_id r = dm_security_id m"
    and "tr_exchange_segment r = segment_str (dm_exchange_segment m)"
    and "tr_update_side r = Some (dp_side p)"
    and "tr_bids r = side_levels (store_side s ch p t) (ch, dp_exchange_segment_code p, dp_security_id p) ''bid''"
    and "tr_asks r = side_levels (store_side s ch p t) (ch, dp_exchange_segment_code p, dp_security_id p) ''ask''"
    and "RECONNECTED \<in> set (tr_quality_flags r) \<longleftrightarrow> RECONNECTED \<in> set (pending_of s ch)"
    and "CONNECTION_GAP \<in> set (tr_quality_flags r) \<longleftrightarrow> CONNECTION_GAP \<in> set (pending_of s ch)"
proof -
  define k where "k = (ch, dp_exchange_segment_code p, dp_security_id p)"
  define s1 where "s1 = store_side s ch p t"
  define bids where "bids = side_levels s1 k ''bid''"
  define asks where "asks = side_levels s1 k ''ask''"
  define latest where "latest = map_of (st_latest_standard s1) (dp_exchange_segment_code p, dp_security_id p)"
  define s2 where "s2 = s1\<lparr>st_pending_flags := AList.update ch [] (st_pending_flags s1)\<rparr>"
  define flags where "flags = SOURCE_SEQUENCE_UNAVAILABLE # pending_of s1 ch @ EXCHANGE_TIMESTAMP_MISSING # book_flags bids asks"
  define s3 where "s3 = take_sequence s2"
  note parts = ok [unfolded stream_ok_def static_ok_def epochs_ok_def rows_ok_def books_ok_def prices_ok_def]
  have "stream_flags s1 ch (dp_exchange_segment_code p) (dp_security_id p) (dp_source_sequence p) None bids asks = (s2, flags)"
    using p by (simp add: stream_flags_def deep_packet_ok_def Let_def s2_def flags_def)
  note flags_eq = this
  have s1_fields: "st_latest_standard s1 = st_latest_standard s" "st_epochs s1 = st_epochs s"
    "st_receive_sequence s1 = st_receive_sequence s" "st_classifier s1 = st_classifier s"
    "st_pending_flags s1 = st_pending_flags s" "st_rows s1 = st_rows s" "st_metrics s1 = st_metrics s"
    "st_mappings s1 = st_mappings s" "st_run_id s1 = st_run_id s" "st_connection_id s1 = st_connection_id s"
    by (simp_all add: s1_def store_side_def Let_def)
  obtain price where price: "row_price (Option.bind latest mp_last_price) = Inr price"
  proof (cases latest)
    case None
    then show ?thesis using that by (simp add: row_price_def)
  next
    case (Some q)
    then show ?thesis using that parts unfolding latest_def s1_fields by (metis bind.bind_lunit)
  qed
  define row where "row = (dhan_row s3 ch ch m t (dp_raw_size p))
      \<lparr>tr_source_sequence := None, tr_exchange_ts := None, tr_update_side := Some (dp_side p), tr_last_price := price,
       tr_last_quantity := None,
       tr_cumulative_volume := Option.bind latest mp_cumulative_volume,
       tr_open_interest := Option.bind latest mp_open_interest, tr_bids := bids, tr_asks := asks,
       tr_quality_flags := flags @ stale_flags s2 ch p t\<rparr>"
  have s3_fields: "st_epochs s3 = st_epochs s" "st_receive_sequence s3 = st_receive_sequence s + 1"
    "st_classifier s3 = st_classifier s" "static_ok s3 = static_ok s"
    by (simp_all add: s3_def s2_def take_sequence_def s1_fields static_ok_def)
  have emit: "emit_deep s ch p t = emit_row s3 (Inr row)"
    unfolding emit_deep_def find_mapping_def m option.case sum.case Let_def
    unfolding k_def [symmetric] s1_def [symmetric] bids_def [symmetric] asks_def [symmetric]
      latest_def [symmetric] flags_eq prod.case s3_def [symmetric] price bind_result_simps row_def
    using p by (simp add: deep_packet_ok_def dhan_row_def)
  have books: "list_all depth_level_ok (side_levels s k' x)" for k' x
    using ok unfolding stream_ok_def books_ok_def by blast
  then have "list_all depth_level_ok (side_levels s1 k' x)" for k' x
    using p by (simp add: s1_def side_levels_store deep_packet_ok_def)
  then have levels: "list_all depth_level_ok bids" "list_all depth_level_ok asks"
    by (simp_all add: bids_def asks_def)
  have mok: "mapping_ok (dp_exchange_segment_code p, dp_security_id p) m" using parts m by blast
  have "1 \<le> count_of (st_epochs s3) ch" using parts ch(2) by (simp add: s3_fields)
  moreover have "1 \<le> st_receive_sequence s3" using parts by (simp add: s3_fields)
  moreover have "Some (dp_side p) \<in> {None, Some ''bid'', Some ''ask'', Some ''both''}"
    using p by (auto simp: deep_packet_ok_def)
  ultimately have checks: "first_error (tape_row_checks row) = None"
    unfolding row_def using ok t
    by (intro dhan_row_checks [OF _ _ _ mok]) (simp_all add: stream_ok_def s3_fields)
  have depth: "tr_event_type row \<in> set DEPTH_CHANNELS"
    using ch(1) by (auto simp: row_def dhan_row_def DEEP_CHANNELS_def DEPTH_CHANNELS_def)
  let ?r = "row\<lparr>tr_quality_flags := sorted_set (tr_quality_flags row)\<rparr>"
  have cls: "classifier_ok (st_classifier s3)" using parts by (simp add: s3_fields)
  show thesis
  proof (cases rule: emit_row_cases [OF cls checks])
    case (4 c r')
    have r': "r' = ?r" by (rule 4(5) [OF depth])
    have upd: "s3\<lparr>st_classifier := c, st_rows := st_rows s3 @ [r'], st_metrics := record_row (st_metrics s3) r'\<rparr> =
        s1\<lparr>st_pending_flags := AList.update ch [] (st_pending_flags s),
          st_receive_sequence := st_receive_sequence s + 1, st_classifier := c,
          st_rows := st_rows s @ [?r], st_metrics := record_row (st_metrics s3) r'\<rparr>"
      by (simp add: s3_def s2_def take_sequence_def s1_fields r')
    have pend: "pending_of s1 ch = pending_of s ch" by (simp add: pending_of_def s1_fields)
    show thesis
      by (rule that [where c = c and r = ?r and mm = "record_row (st_metrics s3) r'"])
        (use 4 upd in \<open>simp_all add: emit r' s1_def [symmetric] k_def [symmetric] bids_def [symmetric]
          asks_def [symmetric] row_def dhan_row_def s3_fields flags_def pend\<close>)
  qed (use depth levels in \<open>simp_all add: row_def\<close>)
qed

lemma row_price_latest:
  assumes "prices_ok s" and "\<exists>v. row_price (mp_last_price p) = Inr v"
  shows "map_of (AList.update key p (st_latest_standard s)) k = Some q \<Longrightarrow> \<exists>v. row_price (mp_last_price q) = Inr v"
  using assms unfolding prices_ok_def by (cases k; cases "k = key") (auto simp: dict_simps)

text \<open>A standard packet yields at most one row.\<close>

lemma emit_standard_row:
  assumes ok: "stream_ok s"
    and m: "map_of (st_mappings s) (mp_exchange_segment_code p, mp_security_id p) = Some m"
    and p: "market_packet_ok p" and t: "is_aware t" and ch: "''standard'' \<in> set (st_ever_connected s)"
  obtains L X c mm rs e where
    "emit_standard s p t =
       (s\<lparr>st_latest_standard := L, st_last_exchange_ts := X,
          st_pending_flags := AList.update ''standard'' [] (st_pending_flags s),
          st_receive_sequence := st_receive_sequence s + 1, st_classifier := c,
          st_rows := st_rows s @ rs, st_metrics := mm\<rparr>, e)"
    and "\<forall>k q. map_of L k = Some q \<longrightarrow> (\<exists>v. row_price (mp_last_price q) = Inr v)"
    and "classifier_ok c" and "length rs \<le> 1"
    and "\<forall>r \<in> set rs. tape_row_ok r \<and> tr_source r = ''dhan'' \<and> tr_event_type r \<notin> set DEEP_CHANNELS \<and>
           tr_receive_sequence r = st_receive_sequence s + 1"
proof -
  define s1 where "s1 = (if mp_event_type p \<in> set [''full'', ''quote'', ''ticker'', ''depth5'']
      then s\<lparr>st_latest_standard := AList.update (mp_exchange_segment_code p, mp_security_id p) p (st_latest_standard s)\<rparr>
      else s)"
  note parts = ok [unfolded stream_ok_def static_ok_def epochs_ok_def rows_ok_def]
  have latest: "\<exists>v. row_price (mp_last_price q) = Inr v" if "map_of (st_latest_standard s1) k = Some q" for k q
  proof (cases "mp_event_type p \<in> set [''full'', ''quote'', ''ticker'', ''depth5'']")
    case True
    have "prices_ok s" "\<exists>v. row_price (mp_last_price p) = Inr v"
      using ok p by (simp_all add: stream_ok_def market_packet_ok_def)
    note all = row_price_latest [OF this]
    have "st_latest_standard s1 = AList.update (mp_exchange_segment_code p, mp_security_id p) p (st_latest_standard s)"
      using True by (simp only: s1_def if_True) simp
    with that all show ?thesis by metis
  next
    case False
    with that ok show ?thesis unfolding s1_def stream_ok_def prices_ok_def by (simp only: if_False)
  qed
  have s1: "s1 = s\<lparr>st_latest_standard := st_latest_standard s1\<rparr>" by (simp add: s1_def)
  obtain s2 flags where flags: "stream_flags s1 ''standard'' (mp_exchange_segment_code p) (mp_security_id p)
      (mp_source_sequence p) (mp_exchange_timestamp p) (mp_bids p) (mp_asks p) = (s2, flags)" by fastforce
  define X where "X = st_last_exchange_ts s2"
  have "s2 = s1\<lparr>st_last_exchange_ts := st_last_exchange_ts s2,
      st_pending_flags := AList.update ''standard'' [] (st_pending_flags s1)\<rparr>"
    using flags p
    by (cases "mp_exchange_timestamp p"; cases s1)
      (auto simp: stream_flags_def market_packet_ok_def Let_def)
  then have X: "s2 = s1\<lparr>st_last_exchange_ts := X,
      st_pending_flags := AList.update ''standard'' [] (st_pending_flags s1)\<rparr>" by (simp only: X_def)
  define s3 where "s3 = take_sequence s2"
  have s3: "s3 = s\<lparr>st_latest_standard := st_latest_standard s1, st_last_exchange_ts := X,
      st_pending_flags := AList.update ''standard'' [] (st_pending_flags s),
      st_receive_sequence := st_receive_sequence s + 1\<rparr>"
    unfolding s3_def X take_sequence_def by (subst (1 2 3) s1) simp
  obtain price where price: "row_price (mp_last_price p) = Inr price" using p by (auto simp: market_packet_ok_def)
  define row where "row = (dhan_row s3 ''standard'' (mp_event_type p) m t (mp_raw_size p))
      \<lparr>tr_source_sequence := None, tr_exchange_ts := mp_exchange_timestamp p,
       tr_update_side := (if mp_bids p \<noteq> [] \<and> mp_asks p \<noteq> [] then Some ''both'' else None),
       tr_last_price := price, tr_last_quantity := mp_last_quantity p,
       tr_cumulative_volume := mp_cumulative_volume p,
       tr_open_interest := mp_open_interest p, tr_bids := mp_bids p, tr_asks := mp_asks p,
       tr_quality_flags := flags\<rparr>"
  have emit: "emit_standard s p t = emit_row s3 (Inr row)"
    unfolding emit_standard_def find_mapping_def m option.case sum.case Let_def
    unfolding s1_def [symmetric] flags prod.case s3_def [symmetric] price bind_result_simps row_def
    using p by (simp add: market_packet_ok_def)
  have mok: "mapping_ok (mp_exchange_segment_code p, mp_security_id p) m" using parts m by blast
  have epoch: "1 \<le> count_of (st_epochs s) ''standard''" using parts ch by metis
  have "static_ok s3" using ok unfolding stream_ok_def static_ok_def s3 by simp
  moreover have "1 \<le> st_receive_sequence s3" "1 \<le> count_of (st_epochs s3) ''standard''"
    using parts epoch by (simp_all add: s3)
  ultimately have checks: "first_error (tape_row_checks row) = None"
    unfolding row_def using p t
    by (intro dhan_row_checks [OF _ _ _ mok]) (simp_all add: market_packet_ok_def)
  have cls: "classifier_ok (st_classifier s3)" using parts by (simp add: s3)
  have levels: "list_all depth_level_ok (tr_bids row)" "list_all depth_level_ok (tr_asks row)"
    using p by (simp_all add: row_def market_packet_ok_def)
  show thesis
  proof (cases rule: emit_row_cases [OF cls checks levels])
    case (1 c e)
    show thesis
      by (rule that [where L = "st_latest_standard s1" and X = X and c = c and rs = "[]" and e = "Some e"
            and mm = "st_metrics s"])
        (use 1 latest in \<open>simp_all add: emit s3\<close>)
  next
    case (2 c r')
    have r': "tr_receive_sequence r' = st_receive_sequence s + 1" "tr_source r' = ''dhan''"
        "tr_event_type r' = mp_event_type p"
      using only_enriched_fields [OF 2(4)] by (simp_all add: row_def dhan_row_def s3)
    show thesis
      by (rule that [where L = "st_latest_standard s1" and X = X and c = c and rs = "[r']" and e = None
            and mm = "record_row (st_metrics s3) r'"])
        (use 2 latest r' p in \<open>simp_all add: emit s3 market_packet_ok_def\<close>)
  qed
qed

section \<open>Books of the current connection and reconnect marks\<close>

text \<open>The rows of a depth channel in one connection epoch, and the book they describe.\<close>

definition channel_rows :: "stream \<Rightarrow> string \<Rightarrow> int \<Rightarrow> tape_row list" where
  "channel_rows s ch n = filter (\<lambda>r. tr_event_type r = ch \<and> tr_connection_epoch r = n) (st_rows s)"

definition of_instrument :: "dhan_mapping \<Rightarrow> tape_row \<Rightarrow> bool" where
  "of_instrument m r \<longleftrightarrow>
     tr_broker_security_id r = dm_security_id m \<and> tr_exchange_segment r = segment_str (dm_exchange_segment m)"

definition row_side :: "string \<Rightarrow> tape_row \<Rightarrow> depth_level list" where
  "row_side side r = (if side = ''bid'' then tr_bids r else tr_asks r)"

definition book_from_rows :: "tape_row list \<Rightarrow> dhan_mapping \<Rightarrow> string \<Rightarrow> depth_level list" where
  "book_from_rows rs m side =
     (case find (of_instrument m) (rev rs) of None \<Rightarrow> [] | Some r \<Rightarrow> row_side side r)"

definition view_ok :: "stream \<Rightarrow> string \<Rightarrow> bool" where
  "view_ok s ch \<longleftrightarrow>
     (\<forall>seg sid m side. map_of (st_mappings s) (seg, sid) = Some m \<longrightarrow> side \<in> {''bid'', ''ask''} \<longrightarrow>
        side_levels s (ch, seg, sid) side =
          book_from_rows (channel_rows s ch (count_of (st_epochs s) ch)) m side)"

fun first_marked :: "int \<Rightarrow> tape_row list \<Rightarrow> bool" where
  "first_marked n [] = True"
| "first_marked n (r # later) \<longleftrightarrow>
     (RECONNECTED \<in> set (tr_quality_flags r) \<longleftrightarrow> 2 \<le> n) \<and>
     (2 \<le> n \<longrightarrow> CONNECTION_GAP \<in> set (tr_quality_flags r)) \<and>
     (\<forall>x \<in> set later. RECONNECTED \<notin> set (tr_quality_flags x))"

definition marks_ok :: "stream \<Rightarrow> string \<Rightarrow> bool" where
  "marks_ok s ch \<longleftrightarrow>
     (\<forall>r \<in> set (st_rows s). tr_event_type r = ch \<longrightarrow>
        1 \<le> tr_connection_epoch r \<and> tr_connection_epoch r \<le> count_of (st_epochs s) ch) \<and>
     (RECONNECTED \<in> set (pending_of s ch) \<longleftrightarrow>
        2 \<le> count_of (st_epochs s) ch \<and> channel_rows s ch (count_of (st_epochs s) ch) = []) \<and>
     (RECONNECTED \<in> set (pending_of s ch) \<longrightarrow> CONNECTION_GAP \<in> set (pending_of s ch)) \<and>
     (\<forall>n. first_marked n (channel_rows s ch n))"

definition stream_inv :: "stream \<Rightarrow> bool" where
  "stream_inv s \<longleftrightarrow> stream_ok s \<and> (\<forall>ch \<in> set DEEP_CHANNELS. view_ok s ch \<and> marks_ok s ch)"

lemma first_marked_snoc:
  "first_marked n rs \<Longrightarrow> rs = [] \<longrightarrow> (RECONNECTED \<in> set (tr_quality_flags r) \<longleftrightarrow> 2 \<le> n) \<and>
     (2 \<le> n \<longrightarrow> CONNECTION_GAP \<in> set (tr_quality_flags r)) \<Longrightarrow>
   rs \<noteq> [] \<longrightarrow> RECONNECTED \<notin> set (tr_quality_flags r) \<Longrightarrow> first_marked n (rs @ [r])"
  by (cases rs) auto

lemma channel_rows_other:
  "st_rows s' = st_rows s @ rs \<Longrightarrow> \<forall>r \<in> set rs. tr_event_type r \<noteq> ch \<Longrightarrow> channel_rows s' ch n = channel_rows s ch n"
  by (auto simp: channel_rows_def filter_empty_conv)

text \<open>Whatever leaves the books, the epochs and the marks of a depth channel alone keeps its two
  invariants.\<close>

definition same_channel :: "string \<Rightarrow> stream \<Rightarrow> stream \<Rightarrow> bool" where
  "same_channel ch s s' \<longleftrightarrow>
     st_mappings s' = st_mappings s \<and> count_of (st_epochs s') ch = count_of (st_epochs s) ch \<and>
     (\<forall>seg sid side. side_levels s' (ch, seg, sid) side = side_levels s (ch, seg, sid) side) \<and>
     (RECONNECTED \<in> set (pending_of s' ch) \<longleftrightarrow> RECONNECTED \<in> set (pending_of s ch)) \<and>
     (CONNECTION_GAP \<in> set (pending_of s ch) \<longrightarrow> CONNECTION_GAP \<in> set (pending_of s' ch)) \<and>
     (\<exists>rs. st_rows s' = st_rows s @ rs \<and> (\<forall>r \<in> set rs. tr_event_type r \<noteq> ch))"

lemma same_channel_keeps:
  assumes "same_channel ch s s'" and "view_ok s ch" and "marks_ok s ch"
  shows "view_ok s' ch \<and> marks_ok s' ch"
proof -
  obtain rs where rs: "st_rows s' = st_rows s @ rs" "\<forall>r \<in> set rs. tr_event_type r \<noteq> ch"
    using assms(1) unfolding same_channel_def by blast
  note rows = channel_rows_other [OF rs]
  have "view_ok s' ch"
    using assms(1,2) unfolding view_ok_def same_channel_def rows by simp
  moreover have "marks_ok s' ch"
    using assms(1,3) rs unfolding marks_ok_def same_channel_def rows by auto
  ultimately show ?thesis ..
qed

lemma find_append_last: "find P (rev (xs @ [x])) = (if P x then Some x else find P (rev xs))"
  by simp

lemma deep_step_keeps:
  assumes inv: "stream_inv s" and m: "map_of (st_mappings s) (dp_exchange_segment_code p, dp_security_id p) = Some m"
    and p: "deep_packet_ok p" and t: "is_aware t" and ch: "ch \<in> set DEEP_CHANNELS" "ch \<in> set (st_ever_connected s)"
  shows "snd (emit_deep s ch p t) = None \<and> stream_inv (fst (emit_deep s ch p t)) \<and>
    (\<exists>r. st_rows (fst (emit_deep s ch p t)) = st_rows s @ [r]) \<and>
    st_ever_connected (fst (emit_deep s ch p t)) = st_ever_connected s"
proof -
  have ok: "stream_ok s" using inv by (simp add: stream_inv_def)
  define k where "k = (ch, dp_exchange_segment_code p, dp_security_id p)"
  define s1 where "s1 = store_side s ch p t"
  obtain c r mm where e: "emit_deep s ch p t =
       (s1\<lparr>st_pending_flags := AList.update ch [] (st_pending_flags s),
          st_receive_sequence := st_receive_sequence s + 1, st_classifier := c,
          st_rows := st_rows s @ [r], st_metrics := mm\<rparr>, None)"
    and r: "classifier_ok c" "tape_row_ok r" "tr_source r = ''dhan''" "tr_event_type r = ch"
      "tr_receive_sequence r = st_receive_sequence s + 1"
      "tr_connection_epoch r = count_of (st_epochs s) ch"
      "tr_broker_security_id r = dm_security_id m"
      "tr_exchange_segment r = segment_str (dm_exchange_segment m)"
      "tr_bids r = side_levels s1 k ''bid''" "tr_asks r = side_levels s1 k ''ask''"
      "RECONNECTED \<in> set (tr_quality_flags r) \<longleftrightarrow> RECONNECTED \<in> set (pending_of s ch)"
      "CONNECTION_GAP \<in> set (tr_quality_flags r) \<longleftrightarrow> CONNECTION_GAP \<in> set (pending_of s ch)"
    unfolding s1_def k_def by (rule emit_deep_row [OF ok m p t ch]) blast
  define s' where "s' = fst (emit_deep s ch p t)"
  have s': "s' = s1\<lparr>st_pending_flags := AList.update ch [] (st_pending_flags s),
          st_receive_sequence := st_receive_sequence s + 1, st_classifier := c,
          st_rows := st_rows s @ [r], st_metrics := mm\<rparr>"
    by (simp add: s'_def e)
  have fields: "st_mappings s' = st_mappings s" "st_epochs s' = st_epochs s" "st_ever_connected s' = st_ever_connected s"
    "st_run_id s' = st_run_id s" "st_connection_id s' = st_connection_id s" "st_latest_standard s' = st_latest_standard s"
    "st_rows s' = st_rows s @ [r]" "st_receive_sequence s' = st_receive_sequence s + 1" "st_classifier s' = c"
    by (simp_all add: s' s1_def store_side_def Let_def)
  have levels: "side_levels s' k' side = side_levels s1 k' side" for k' side
    by (simp add: s' side_levels_def book_of_def)
  have pend: "pending_of s' x = (if x = ch then [] else pending_of s x)" for x
    by (simp add: s' pending_of_def dict_simps)
  note parts = ok [unfolded stream_ok_def]
  have books: "list_all depth_level_ok (side_levels s k' x)" for k' x
    using parts unfolding books_ok_def by blast
  have "rows_ok s'"
    using parts r(1-5) unfolding rows_ok_def fields by (auto simp: sorted_wrt_append list_all_iff)
  moreover have "books_ok s'"
    using books p unfolding books_ok_def levels by (simp add: s1_def side_levels_store deep_packet_ok_def)
  ultimately have ok': "stream_ok s'"
    using parts unfolding stream_ok_def static_ok_def epochs_ok_def prices_ok_def fields by blast
  have mk: "mapping_ok (seg, sid) m'" if "map_of (st_mappings s) (seg, sid) = Some m'" for seg sid m'
    using parts that unfolding static_ok_def by blast
  have own: "of_instrument m' r \<longleftrightarrow> (seg, sid) = (dp_exchange_segment_code p, dp_security_id p)"
    if m': "map_of (st_mappings s) (seg, sid) = Some m'" for seg sid m'
  proof
    assume "of_instrument m' r"
    then have "mapping_key m' = mapping_key m" by (simp add: of_instrument_def r mapping_key_def)
    with mk [OF m'] mk [OF m] show "(seg, sid) = (dp_exchange_segment_code p, dp_security_id p)"
      by (simp add: mapping_ok_def)
  next
    assume "(seg, sid) = (dp_exchange_segment_code p, dp_security_id p)"
    with m m' have "m' = m" by simp
    then show "of_instrument m' r" by (simp add: of_instrument_def r)
  qed
  have rows: "channel_rows s' ch n = channel_rows s ch n @ (if n = count_of (st_epochs s) ch then [r] else [])" for n
    by (simp add: channel_rows_def fields r)
  have view: "view_ok s ch" and marks: "marks_ok s ch" using inv ch(1) by (simp_all add: stream_inv_def)
  have "view_ok s' ch"
    unfolding view_ok_def fields rows
  proof (intro allI impI)
    fix seg sid m' side
    assume m': "map_of (st_mappings s) (seg, sid) = Some m'" and side: "side \<in> {''bid'', ''ask''}"
    have old: "side_levels s (ch, seg, sid) side = book_from_rows (channel_rows s ch (count_of (st_epochs s) ch)) m' side"
      using view m' side unfolding view_ok_def by blast
    show "side_levels s' (ch, seg, sid) side = book_from_rows (channel_rows s ch (count_of (st_epochs s) ch) @
        (if count_of (st_epochs s) ch = count_of (st_epochs s) ch then [r] else [])) m' side"
    proof (cases "(seg, sid) = (dp_exchange_segment_code p, dp_security_id p)")
      case True
      then have "side_levels s' (ch, seg, sid) side = row_side side r"
        using side by (auto simp: levels k_def row_side_def r)
      moreover have "of_instrument m' r" using own [OF m'] True by simp
      ultimately show ?thesis by (simp add: book_from_rows_def)
    next
      case False
      then have "side_levels s' (ch, seg, sid) side = side_levels s (ch, seg, sid) side"
        by (auto simp: levels s1_def side_levels_store)
      moreover have "\<not> of_instrument m' r" using own [OF m'] False by simp
      ultimately show ?thesis using old by (simp add: book_from_rows_def)
    qed
  qed
  moreover have "marks_ok s' ch"
  proof -
    have pre: "first_marked n (channel_rows s ch n)" for n using marks unfolding marks_ok_def by blast
    have rec: "RECONNECTED \<in> set (pending_of s ch) \<longleftrightarrow>
        2 \<le> count_of (st_epochs s) ch \<and> channel_rows s ch (count_of (st_epochs s) ch) = []"
      and gap: "RECONNECTED \<in> set (pending_of s ch) \<longrightarrow> CONNECTION_GAP \<in> set (pending_of s ch)"
      using marks unfolding marks_ok_def by blast+
    have "first_marked n (channel_rows s' ch n)" for n
    proof (cases "n = count_of (st_epochs s) ch")
      case True
      have "first_marked n (channel_rows s ch n @ [r])"
        by (rule first_marked_snoc [OF pre]) (use rec gap r(11,12) True in auto)
      with True show ?thesis by (simp add: rows)
    qed (simp add: rows pre)
    moreover have "1 \<le> count_of (st_epochs s) ch"
      using parts ch(2) unfolding epochs_ok_def by metis
    ultimately show ?thesis
      using marks unfolding marks_ok_def fields by (auto simp: pend rows r)
  qed
  moreover have "view_ok s' ch' \<and> marks_ok s' ch'" if "ch' \<in> set DEEP_CHANNELS" "ch' \<noteq> ch" for ch'
  proof (rule same_channel_keeps)
    show "same_channel ch' s s'"
      using that(2) r(4) unfolding same_channel_def fields pend
      by (auto simp: levels s1_def side_levels_store)
  qed (use inv that(1) in \<open>simp_all add: stream_inv_def\<close>)
  ultimately have "stream_inv s'" using ok' unfolding stream_inv_def by metis
  with fields(3) show ?thesis by (simp add: s'_def e)
qed

section \<open>Every step keeps the invariant\<close>

lemma metrics_keep [simp]: "stream_inv (s\<lparr>st_metrics := m\<rparr>) = stream_inv s"
  by (simp add: stream_inv_def stream_ok_def static_ok_def epochs_ok_def rows_ok_def books_ok_def
      prices_ok_def view_ok_def marks_ok_def side_levels_def book_of_def pending_of_def channel_rows_def)

lemma standard_not_deep: "''standard'' \<notin> set DEEP_CHANNELS"
  by (simp add: DEEP_CHANNELS_def)

lemma standard_step_keeps:
  assumes inv: "stream_inv s" and p: "market_packet_ok p" and t: "is_aware t"
    and ch: "''standard'' \<in> set (st_ever_connected s)"
  shows "stream_inv (fst (emit_standard s p t)) \<and> (\<exists>rs. st_rows (fst (emit_standard s p t)) = st_rows s @ rs)"
proof (cases "map_of (st_mappings s) (mp_exchange_segment_code p, mp_security_id p)")
  case None
  then show ?thesis using inv by (simp add: emit_standard_def find_mapping_def)
next
  case (Some m)
  have ok: "stream_ok s" using inv by (simp add: stream_inv_def)
  obtain L X c mm rs e where s': "emit_standard s p t =
       (s\<lparr>st_latest_standard := L, st_last_exchange_ts := X,
          st_pending_flags := AList.update ''standard'' [] (st_pending_flags s),
          st_receive_sequence := st_receive_sequence s + 1, st_classifier := c,
          st_rows := st_rows s @ rs, st_metrics := mm\<rparr>, e)"
    and L: "\<forall>k q. map_of L k = Some q \<longrightarrow> (\<exists>v. row_price (mp_last_price q) = Inr v)"
    and c: "classifier_ok c" and rs: "length rs \<le> 1"
      "\<forall>r \<in> set rs. tape_row_ok r \<and> tr_source r = ''dhan'' \<and> tr_event_type r \<notin> set DEEP_CHANNELS \<and>
           tr_receive_sequence r = st_receive_sequence s + 1"
    by (rule emit_standard_row [OF ok Some p t ch]) blast
  define s'' where "s'' = fst (emit_standard s p t)"
  have fields: "st_mappings s'' = st_mappings s" "st_epochs s'' = st_epochs s" "st_ever_connected s'' = st_ever_connected s"
    "st_run_id s'' = st_run_id s" "st_connection_id s'' = st_connection_id s" "st_latest_standard s'' = L"
    "st_rows s'' = st_rows s @ rs" "st_receive_sequence s'' = st_receive_sequence s + 1" "st_classifier s'' = c"
    by (simp_all add: s''_def s')
  have levels: "side_levels s'' k side = side_levels s k side" for k side
    by (simp add: s''_def s' side_levels_def book_of_def)
  have pend: "pending_of s'' x = (if x = ''standard'' then [] else pending_of s x)" for x
    by (simp add: s''_def s' pending_of_def dict_simps)
  note parts = ok [unfolded stream_ok_def]
  have "rows_ok s''"
    using parts rs c unfolding rows_ok_def fields
    by (cases rs) (auto simp: sorted_wrt_append list_all_iff)
  then have ok': "stream_ok s''"
    using parts L unfolding stream_ok_def static_ok_def epochs_ok_def prices_ok_def books_ok_def fields levels by blast
  have "view_ok s'' x \<and> marks_ok s'' x" if "x \<in> set DEEP_CHANNELS" for x
  proof (rule same_channel_keeps)
    show "same_channel x s s''"
      using that rs(2) standard_not_deep unfolding same_channel_def fields pend by (auto simp: levels)
  qed (use inv that in \<open>simp_all add: stream_inv_def\<close>)
  then show ?thesis
    using ok' fields(7) unfolding stream_inv_def s''_def by blast
qed

lemma pending_step_keeps:
  assumes inv: "stream_inv s" and fs: "RECONNECTED \<notin> set fs"
  shows "stream_inv (add_pending s ch fs)"
proof -
  define s' where "s' = add_pending s ch fs"
  have fields: "st_mappings s' = st_mappings s" "st_epochs s' = st_epochs s" "st_ever_connected s' = st_ever_connected s"
    "st_run_id s' = st_run_id s" "st_connection_id s' = st_connection_id s" "st_latest_standard s' = st_latest_standard s"
    "st_rows s' = st_rows s" "st_receive_sequence s' = st_receive_sequence s" "st_classifier s' = st_classifier s"
    by (simp_all add: s'_def add_pending_def)
  have levels: "side_levels s' k side = side_levels s k side" for k side
    by (simp add: s'_def add_pending_def side_levels_def book_of_def)
  have "stream_ok s'"
    using inv unfolding stream_inv_def stream_ok_def static_ok_def epochs_ok_def rows_ok_def prices_ok_def
      books_ok_def fields levels by blast
  moreover have "view_ok s' x \<and> marks_ok s' x" if "x \<in> set DEEP_CHANNELS" for x
  proof (rule same_channel_keeps)
    show "same_channel x s s'"
      unfolding same_channel_def fields levels using fs by (simp add: s'_def)
  qed (use inv that in \<open>simp_all add: stream_inv_def\<close>)
  ultimately show ?thesis unfolding stream_inv_def s'_def by blast
qed

lemma connect_step_keeps:
  assumes inv: "stream_inv s"
  shows "stream_inv (stream_connected s ch) \<and> st_rows (stream_connected s ch) = st_rows s"
proof -
  define s' where "s' = stream_connected s ch"
  have fields: "st_mappings s' = st_mappings s" "st_epochs s' = bump (st_epochs s) ch 1"
    "st_ever_connected s' = List.insert ch (st_ever_connected s)"
    "st_run_id s' = st_run_id s" "st_connection_id s' = st_connection_id s" "st_latest_standard s' = st_latest_standard s"
    "st_rows s' = st_rows s" "st_receive_sequence s' = st_receive_sequence s" "st_classifier s' = st_classifier s"
    by (simp_all add: s'_def stream_connected_def Let_def add_pending_def forget_books_def)
  have frame: "side_levels (u\<lparr>st_sequences := q\<rparr>) k side = side_levels u k side"
    "side_levels (u\<lparr>st_ever_connected := a, st_epochs := b, st_metrics := m\<rparr>) k side = side_levels u k side"
    "side_levels (u\<lparr>st_epochs := b, st_metrics := m\<rparr>) k side = side_levels u k side"
    "side_levels (u\<lparr>st_ever_connected := a\<rparr>) k side = side_levels u k side"
    "side_levels (add_pending u x fs) k side = side_levels u k side" for u q k side a b m x fs
    by (simp_all add: side_levels_def book_of_def add_pending_def)
  have levels: "side_levels s' k side =
      (if ch \<in> set (st_ever_connected s) \<and> ch \<in> set DEEP_CHANNELS \<and> fst k = ch then [] else side_levels s k side)" for k side
    by (simp add: s'_def stream_connected_def Let_def frame)
  have pframe: "pending_of (forget_books u x) y = pending_of u y" "pending_of (u\<lparr>st_sequences := q\<rparr>) y = pending_of u y"
    "pending_of (u\<lparr>st_epochs := b, st_metrics := m\<rparr>) y = pending_of u y"
    "pending_of (u\<lparr>st_ever_connected := a\<rparr>) y = pending_of u y"
    "pending_of (u\<lparr>st_ever_connected := a, st_epochs := b, st_metrics := m\<rparr>) y = pending_of u y" for u x y q a b m
    by (simp_all add: pending_of_def forget_books_def)
  have pend: "pending_of s' x = pending_of s x @
      (if x = ch \<and> ch \<in> set (st_ever_connected s) then [RECONNECTED, CONNECTION_GAP] else [])" for x
    by (simp add: s'_def stream_connected_def Let_def pframe)
  have epochs: "count_of (st_epochs s') x = count_of (st_epochs s) x + (if x = ch then 1 else 0)" for x
    by (simp add: fields)
  have ok: "stream_ok s" using inv by (simp add: stream_inv_def)
  have ep: "if x \<in> set (st_ever_connected s) then 1 \<le> count_of (st_epochs s) x
      else count_of (st_epochs s) x = 0" for x
    using ok unfolding stream_ok_def epochs_ok_def by blast
  have "epochs_ok s'"
    unfolding epochs_ok_def epochs fields(3)
  proof
    fix x
    show "if x \<in> set (List.insert ch (st_ever_connected s))
        then 1 \<le> count_of (st_epochs s) x + (if x = ch then 1 else 0)
        else count_of (st_epochs s) x + (if x = ch then 1 else 0) = 0"
      using ep [of x] by (cases "x = ch"; cases "x \<in> set (st_ever_connected s)") simp_all
  qed
  moreover have "books_ok s'"
    using ok unfolding stream_ok_def books_ok_def levels by simp
  ultimately have ok': "stream_ok s'"
    using ok unfolding stream_ok_def static_ok_def rows_ok_def prices_ok_def fields by blast
  have "view_ok s' x \<and> marks_ok s' x" if x: "x \<in> set DEEP_CHANNELS" for x
  proof (cases "x = ch")
    case False
    show ?thesis
    proof (rule same_channel_keeps)
      show "same_channel x s s'"
        unfolding same_channel_def epochs levels pend using False by (simp add: fields)
    qed (use inv x in \<open>simp_all add: stream_inv_def\<close>)
  next
    case True
    have view: "view_ok s ch" and marks: "marks_ok s ch" using inv x True by (simp_all add: stream_inv_def)
    have rows: "channel_rows s' ch n = channel_rows s ch n" for n
      by (simp add: channel_rows_def fields)
    have old: "1 \<le> tr_connection_epoch r \<and> tr_connection_epoch r \<le> count_of (st_epochs s) ch"
      if "r \<in> set (st_rows s)" "tr_event_type r = ch" for r
      using marks that unfolding marks_ok_def by blast
    have none: "channel_rows s ch (count_of (st_epochs s) ch + 1) = []"
      using old by (fastforce simp: channel_rows_def filter_empty_conv)
    have empty: "book_from_rows [] m side = []" for m side by (simp add: book_from_rows_def)
    have "view_ok s' ch"
    proof (cases "ch \<in> set (st_ever_connected s)")
      case True
      then show ?thesis
        unfolding view_ok_def epochs rows levels using x \<open>x = ch\<close> none by (simp add: empty)
    next
      case False
      then have "count_of (st_epochs s) ch = 0" using ep [of ch] by simp
      moreover have "channel_rows s ch 0 = []"
        using old by (fastforce simp: channel_rows_def filter_empty_conv)
      ultimately show ?thesis
        using view none False unfolding view_ok_def epochs rows levels by (simp add: fields)
    qed
    moreover have "marks_ok s' ch"
    proof (cases "ch \<in> set (st_ever_connected s)")
      case True
      then have "1 \<le> count_of (st_epochs s) ch" using ep [of ch] by simp
      with True show ?thesis
        using marks none old unfolding marks_ok_def epochs rows pend fields by fastforce
    next
      case False
      then have "count_of (st_epochs s) ch = 0" using ep [of ch] by simp
      with False show ?thesis
        using marks none old unfolding marks_ok_def epochs rows pend fields by fastforce
    qed
    ultimately show ?thesis using True by simp
  qed
  with ok' fields(7) show ?thesis unfolding stream_inv_def s'_def by blast
qed

lemma parse_standard_market:
  assumes "parse_standard_packet data = Inr (Some (Market p))"
  shows "market_ok p"
proof -
  obtain first rest where data: "data = first # rest"
    using assms by (cases data) (simp_all add: parse_standard_packet_def)
  have code: "unat first \<noteq> 50"
    using assms by (auto simp: parse_standard_packet_def data Let_def split: if_splits)
  then obtain fmt where fmt: "map_of STANDARD_STRUCTS (unat first) = Some fmt" "struct_size fmt \<le> length data"
    using assms by (auto simp: parse_standard_packet_def data Let_def split: option.splits if_splits)
  from standard_market_total [OF fmt, of "length data"] obtain q where q:
    "standard_market (unat first) (struct_unpack fmt (byte_slice data 0 (struct_size fmt))) (length data) = Inr q"
    "market_ok q" by blast
  have "parse_standard_packet data = Inr (Some (Market q))"
    using code fmt q(1) unfolding data by (simp add: parse_standard_packet_def)
  with assms q(2) show ?thesis by simp
qed

lemma market_ok_packet: "market_ok p \<Longrightarrow> \<exists>v. row_price (mp_last_price p) = Inr v \<Longrightarrow> market_packet_ok p"
  unfolding market_ok_def market_packet_ok_def book_side_def DEEP_CHANNELS_def
  by (cases "mp_exchange_timestamp p") auto

lemma deep_ok_packet: "deep_ok d (Deep p) \<Longrightarrow> deep_packet_ok p"
  by (auto simp: deep_ok_def deep_packet_ok_def book_side_def deep_side_def)

lemma note_packet_keeps [simp]:
  "stream_inv (note_packet s now ch n) = stream_inv s"
  "st_rows (note_packet s now ch n) = st_rows s"
  "st_ever_connected (note_packet s now ch n) = st_ever_connected s"
  by (simp_all add: note_packet_def)

lemma raise_disconnect_keeps [simp]:
  "stream_inv (fst (raise_disconnect s ch c)) = stream_inv s"
  "st_rows (fst (raise_disconnect s ch c)) = st_rows s"
  by (simp_all add: raise_disconnect_def)

lemma deep_packet_keeps:
  assumes "stream_inv s" and "deep_ok d q" and "is_aware t" and "ch \<in> set DEEP_CHANNELS"
    and "ch \<in> set (st_ever_connected s)"
  shows "stream_inv (fst (deep_packet_step s now ch t q)) \<and>
    (\<exists>rs. st_rows (fst (deep_packet_step s now ch t q)) = st_rows s @ rs) \<and>
    st_ever_connected (fst (deep_packet_step s now ch t q)) = st_ever_connected s"
proof (cases q)
  case (Deep p)
  let ?s = "note_packet s now ch (dp_raw_size p)"
  have step: "deep_packet_step s now ch t q = emit_deep ?s ch p t" by (simp add: deep_packet_step_def Deep)
  have inv: "stream_inv ?s" using assms(1) by simp
  show ?thesis
  proof (cases "map_of (st_mappings ?s) (dp_exchange_segment_code p, dp_security_id p)")
    case None
    then have "emit_deep ?s ch p t = (?s, Some (DhanProtocolError ''Dhan emitted unsubscribed instrument''))"
      by (simp add: emit_deep_def find_mapping_def)
    then show ?thesis using inv by (simp add: step)
  next
    case (Some m)
    have "ch \<in> set (st_ever_connected ?s)" using assms(5) by simp
    from deep_step_keeps [OF inv Some deep_ok_packet [OF assms(2) [unfolded Deep]] assms(3,4) this]
    show ?thesis unfolding step by auto
  qed
next
  case (DeepDropped c)
  then show ?thesis using assms(1) by (simp add: deep_packet_step_def) (simp add: raise_disconnect_def)
qed

lemma deep_packets_keep:
  "stream_inv s \<Longrightarrow> list_all (deep_ok d) ps \<Longrightarrow> is_aware t \<Longrightarrow> ch \<in> set DEEP_CHANNELS \<Longrightarrow>
     ch \<in> set (st_ever_connected s) \<Longrightarrow>
   stream_inv (fst (deep_packets_step s now ch t ps)) \<and>
     (\<exists>rs. st_rows (fst (deep_packets_step s now ch t ps)) = st_rows s @ rs)"
proof (induction ps arbitrary: s)
  case (Cons q ps)
  obtain s1 e where s1: "deep_packet_step s now ch t q = (s1, e)" by fastforce
  have q: "deep_ok d q" and ps: "list_all (deep_ok d) ps" using Cons.prems(2) by simp_all
  obtain rs where one: "stream_inv s1" "st_rows s1 = st_rows s @ rs" "st_ever_connected s1 = st_ever_connected s"
    using deep_packet_keeps [OF Cons.prems(1) q Cons.prems(3-5), of now] unfolding s1 by auto
  show ?case
  proof (cases e)
    case None
    from Cons.IH [OF one(1) ps Cons.prems(3,4)] one(3) Cons.prems(5)
    show ?thesis by (auto simp: s1 None one(2))
  qed (simp add: s1 one)
qed simp

lemma receive_keeps:
  assumes inv: "stream_inv s" and en: "stream_enabled s (Received ch now t message)"
  shows "stream_inv (fst (receive_message s ch now t message)) \<and>
    (\<exists>rs. st_rows (fst (receive_message s ch now t message)) = st_rows s @ rs)"
proof (cases message)
  case (Binary data)
  have en: "ch \<in> set CHANNELS" "ch \<in> set (st_ever_connected s)" "is_aware t" "finite_message ch (Binary data)"
    using en Binary by (simp_all add: stream_enabled_def)
  define s1 where "s1 = s\<lparr>st_metrics := record_websocket_message (st_metrics s) ch (length data)\<rparr>"
  have s1: "stream_inv s1" "st_rows s1 = st_rows s" "st_ever_connected s1 = st_ever_connected s"
    using inv by (simp_all add: s1_def)
  show ?thesis
  proof (cases "ch = ''standard''")
    case True
    show ?thesis
    proof (cases "parse_standard_packet data")
      case (Inr x)
      show ?thesis
      proof (cases x)
        case (Some y)
        show ?thesis
        proof (cases y)
          case (Market p)
          have parse: "parse_standard_packet data = Inr (Some (Market p))" using Inr Some Market by simp
          have "\<exists>v. row_price (mp_last_price p) = Inr v"
            using en(4) True by (auto simp: finite_message_def parse split: sum.splits)
          with parse_standard_market [OF parse] have p: "market_packet_ok p" by (rule market_ok_packet)
          let ?s = "note_packet s1 now ch (mp_raw_size p)"
          have "stream_inv ?s" "''standard'' \<in> set (st_ever_connected ?s)" using s1 en(2) True by simp_all
          from standard_step_keeps [OF this(1) p en(3) this(2)] have
            "stream_inv (fst (emit_standard ?s p t)) \<and> (\<exists>rs. st_rows (fst (emit_standard ?s p t)) = st_rows s @ rs)"
            using s1 by simp
          moreover have "receive_message s ch now t message =
              (if mp_security_id p = 0 then (?s, None) else emit_standard ?s p t)"
            by (simp add: Binary receive_message_def Let_def True parse s1_def)
          ultimately show ?thesis using s1 True by simp
        next
          case (Dropped c)
          then have "receive_message s ch now t message = raise_disconnect (note_packet s1 now ch (dc_raw_size c)) ch c"
            by (simp add: Binary receive_message_def Let_def True Inr Some s1_def)
          then show ?thesis using s1 by simp
        qed
      qed (use inv in \<open>simp add: Binary receive_message_def Let_def True Inr\<close>)
    qed (use inv in \<open>simp add: Binary receive_message_def Let_def True\<close>)
  next
    case False
    define d where "d = (if ch = ''depth200'' then 200 else 20 :: nat)"
    show ?thesis
    proof (cases "parse_deep_packets d data")
      case (Inr ps)
      have "list_all (deep_ok d) ps"
        using Inr deep_loop_ok [of d data 0 ps] by (auto simp: parse_deep_packets_def split: if_splits)
      moreover have "ch \<in> set DEEP_CHANNELS" using en(1) False by (simp add: CHANNELS_def)
      moreover have "ch \<in> set (st_ever_connected s1)" using s1(3) en(2) by simp
      ultimately have "stream_inv (fst (deep_packets_step s1 now ch t ps)) \<and>
          (\<exists>rs. st_rows (fst (deep_packets_step s1 now ch t ps)) = st_rows s @ rs)"
        using deep_packets_keep [OF s1(1) _ en(3), of d ps ch now] s1(2) by simp
      moreover have "receive_message s ch now t message = deep_packets_step s1 now ch t ps"
        using False Inr by (simp add: Binary receive_message_def Let_def d_def s1_def split: if_splits)
      ultimately show ?thesis by simp
    next
      case (Inl e)
      then have "receive_message s ch now t message = (s1, Some e)"
        using False by (simp add: Binary receive_message_def Let_def d_def s1_def split: if_splits)
      then show ?thesis using s1 by simp
    qed
  qed
qed (use inv in \<open>simp add: receive_message_def\<close>)

lemma stream_step_keeps:
  assumes inv: "stream_inv s" and step: "stream_step s e = Inr s'"
  shows "stream_inv s' \<and> (\<exists>rs. st_rows s' = st_rows s @ rs)"
proof -
  have en: "stream_enabled s e" and s': "s' = stream_effect s e"
    using step by (simp_all add: stream_step_def split: if_splits)
  show ?thesis
  proof (cases e)
    case (Connected ch)
    then show ?thesis using connect_step_keeps [OF inv, of ch] by (simp add: s')
  next
    case (Received ch now t message)
    then show ?thesis using receive_keeps [OF inv] en by (simp add: s')
  next
    case (Beat ch answered)
    then show ?thesis using inv by (cases answered) (simp_all add: s' heartbeat_def Let_def)
  next
    case (Failed ch before delay x)
    have "stream_inv (add_pending (s\<lparr>st_metrics := m\<rparr>) ch ([CONNECTION_GAP] @ (if b then [HEARTBEAT_TIMEOUT] else [])))" for m b
      by (rule pending_step_keeps) (use inv in simp_all)
    moreover have "st_rows (add_pending (s\<lparr>st_metrics := m\<rparr>) ch fs) = st_rows s" for m fs
      by (simp add: add_pending_def)
    ultimately show ?thesis using inv by (simp add: s' Failed supervise_failure_def)
  qed
qed

text \<open>The rows a stream has passed on are an append-only log.\<close>

interpretation stream_log: append_log st_rows stream_step "\<lambda>e. True" stream_inv
  by unfold_locales (use stream_step_keeps in \<open>auto simp: prefix_def\<close>)

section \<open>Streams start in the invariant\<close>

lemma foldl_mappings:
  assumes "\<And>k m. map_of d k = Some m \<Longrightarrow> mapping_ok k m" and "\<forall>m \<in> set ms. dhan_mapping_post_init m = Inr m"
  shows "map_of (foldl (\<lambda>d m. AList.update (mapping_key m) m d) d ms) k = Some m \<Longrightarrow> mapping_ok k m"
  using assms
proof (induction ms arbitrary: d)
  case (Cons x ms)
  have x: "mapping_ok (mapping_key x) x"
    using Cons.prems(3) by (simp add: mapping_ok_def dhan_mapping_post_init_iff positive_digits_iff)
  show ?case
  proof (rule Cons.IH)
    show "map_of (foldl (\<lambda>d m. AList.update (mapping_key m) m d) (AList.update (mapping_key x) x d) ms) k = Some m"
      using Cons.prems(1) by simp
    show "mapping_ok k m" if "map_of (AList.update (mapping_key x) x d) k = Some m" for k m
      using that Cons.prems(2) x by (simp add: dict_simps split: if_splits)
  qed (use Cons.prems(3) in simp)
qed simp

lemma stream_init_inv:
  assumes init: "stream_init ms run_id config metrics cid = Inr s" and "run_id \<noteq> []"
    and ms: "\<forall>m \<in> set ms. dhan_mapping_post_init m = Inr m"
  shows "stream_inv s \<and> st_rows s = [] \<and> st_receive_sequence s = 0 \<and> st_ever_connected s = []"
proof -
  obtain c where cid: "py_strip cid \<noteq> []" and c: "classifier_init (sc_trade_quote_freshness_seconds config) = Inr c"
    and s: "s = \<lparr>st_instruments = ms, st_run_id = run_id, st_config = config, st_metrics = metrics,
             st_connection_id = cid,
             st_mappings = foldl (\<lambda>d m. AList.update (mapping_key m) m d) [] ms,
             st_receive_sequence = 0, st_classifier = c, st_epochs = [], st_ever_connected = [],
             st_pending_flags = [], st_books = [], st_latest_standard = [], st_side_received_at = [],
             st_last_exchange_ts = [], st_sequences = [], st_rows = []\<rparr>"
    using init by (auto simp: stream_init_def bind_result_Inr split: if_splits)
  have "static_ok s"
    using cid assms(2) foldl_mappings [OF _ ms, of "[]"] unfolding static_ok_def s by simp
  moreover have "epochs_ok s" "rows_ok s" "books_ok s" "prices_ok s"
    using classifier_init_ok [OF c]
    by (simp_all add: s epochs_ok_def rows_ok_def books_ok_def prices_ok_def count_of_def side_levels_def book_of_def)
  moreover have "view_ok s ch \<and> marks_ok s ch" for ch
    by (simp add: s view_ok_def marks_ok_def channel_rows_def count_of_def pending_of_def side_levels_def
        book_of_def book_from_rows_def)
  ultimately show ?thesis by (simp add: stream_inv_def stream_ok_def s)
qed

lemma stream_run_inv:
  assumes "stream_init ms run_id config metrics cid = Inr s" and "run_id \<noteq> []"
    and "\<forall>m \<in> set ms. dhan_mapping_post_init m = Inr m" and "fold_result stream_step s es = Inr s'"
  shows "stream_inv s'"
proof -
  have "stream_inv s" using stream_init_inv [OF assms(1-3)] by simp
  then show ?thesis by (rule stream_log.run_inv [OF _ _ assms(4)]) (simp add: list_all_iff)
qed

section \<open>Properties\<close>


text \<open>C4: a deep row shows the book of its own connection. When a side packet of a subscribed
  instrument arrives on a connected depth channel, exactly one row is passed on; the side of the
  packet has the packet's levels, and the other side is the one the latest row of the same
  instrument on this channel had within the current connection epoch, empty if there is none: no
  level of an earlier connection survives a reconnect.\<close>

theorem deep_rows_current_book:
  assumes "stream_init ms run_id config metrics cid = Inr s" and "run_id \<noteq> []"
    and "\<forall>m \<in> set ms. dhan_mapping_post_init m = Inr m" and "fold_result stream_step s es = Inr s'"
    and "ch \<in> set DEEP_CHANNELS" and "ch \<in> set (st_ever_connected s')" and "deep_packet_ok p" and "is_aware t"
    and "map_of (st_mappings s') (dp_exchange_segment_code p, dp_security_id p) = Some m"
    and "side \<in> {''bid'', ''ask''}"
  shows "\<exists>r. st_rows (fst (emit_deep s' ch p t)) = st_rows s' @ [r] \<and> snd (emit_deep s' ch p t) = None \<and>
    tr_event_type r = ch \<and> of_instrument m r \<and> tr_connection_epoch r = count_of (st_epochs s') ch \<and>
    row_side side r =
      (if side = dp_side p then dp_levels p
       else book_from_rows (channel_rows s' ch (tr_connection_epoch r)) m side)"
proof -
  have inv: "stream_inv s'" by (rule stream_run_inv [OF assms(1-4)])
  then have ok: "stream_ok s'" and view: "view_ok s' ch" using assms(5) by (simp_all add: stream_inv_def)
  let ?k = "(ch, dp_exchange_segment_code p, dp_security_id p)"
  obtain c r mm where e: "emit_deep s' ch p t =
       ((store_side s' ch p t)\<lparr>st_pending_flags := AList.update ch [] (st_pending_flags s'),
          st_receive_sequence := st_receive_sequence s' + 1, st_classifier := c,
          st_rows := st_rows s' @ [r], st_metrics := mm\<rparr>, None)"
    and r: "tr_event_type r = ch" "tr_connection_epoch r = count_of (st_epochs s') ch"
      "tr_broker_security_id r = dm_security_id m"
      "tr_exchange_segment r = segment_str (dm_exchange_segment m)"
      "tr_bids r = side_levels (store_side s' ch p t) ?k ''bid''"
      "tr_asks r = side_levels (store_side s' ch p t) ?k ''ask''"
    by (rule emit_deep_row [OF ok assms(9,7,8,5,6)]) blast
  have "row_side side r = side_levels (store_side s' ch p t) ?k side"
    using assms(10) by (auto simp: row_side_def r)
  moreover have "side_levels s' ?k side = book_from_rows (channel_rows s' ch (count_of (st_epochs s') ch)) m side"
    using view assms(9,10) unfolding view_ok_def by blast
  ultimately show ?thesis
    using r by (intro exI [of _ r]) (simp add: e of_instrument_def side_levels_store)
qed

text \<open>Reconnects are marked once. Among the rows of a depth channel in one connection epoch, the
  first one carries the reconnect mark exactly when the epoch is not the first, then together with
  the connection gap, and no later row of the epoch carries it; epochs run from one to the
  channel's current epoch.\<close>

theorem reconnect_marks_first_row:
  assumes "stream_init ms run_id config metrics cid = Inr s" and "run_id \<noteq> []"
    and "\<forall>m \<in> set ms. dhan_mapping_post_init m = Inr m" and "fold_result stream_step s es = Inr s'"
    and "ch \<in> set DEEP_CHANNELS"
  shows "(\<forall>n. first_marked n (channel_rows s' ch n)) \<and>
    (\<forall>r \<in> set (st_rows s'). tr_event_type r = ch \<longrightarrow>
       1 \<le> tr_connection_epoch r \<and> tr_connection_epoch r \<le> count_of (st_epochs s') ch)"
  using stream_run_inv [OF assms(1-4)] assms(5) unfolding stream_inv_def marks_ok_def by blast

section \<open>Backoff\<close>

definition retriable :: "stream_error \<Rightarrow> bool" where
  "retriable e \<longleftrightarrow> \<not> se_is_fatal e \<and> se_status_code e \<notin> {Some 401, Some 403}"

lemma config_positive:
  assumes "stream_config_post_init c = Inr c'"
  shows "0 < sc_reconnect_initial_seconds c \<and> 0 < sc_reconnect_max_seconds c"
proof -
  have "first_error (stream_config_checks c) = None"
    using assms by (auto simp: stream_config_post_init_def split: option.splits)
  then have "\<not> Min (set [sc_heartbeat_interval_seconds c, sc_heartbeat_timeout_seconds c,
      sc_reconnect_initial_seconds c, sc_reconnect_max_seconds c, sc_open_timeout_seconds c,
      sc_stale_quote_after_seconds c, sc_trade_quote_freshness_seconds c]) \<le> 0"
    unfolding first_error_None stream_config_checks_def list.set ball_simps prod.case by (elim conjE)
  then show ?thesis unfolding not_le by (subst (asm) Min_gr_iff) simp_all
qed

definition turns_delay :: "stream \<Rightarrow> nat \<Rightarrow> rat" where
  "turns_delay s n =
     (if n = 0 then sc_reconnect_initial_seconds (st_config s)
      else min (sc_reconnect_initial_seconds (st_config s) * 2 ^ n) (sc_reconnect_max_seconds (st_config s)))"

lemma failure_retry:
  assumes "retriable e"
  shows "\<exists>s'. supervise_failure s ch before delay e = Retry s' (next_delay s (backoff_now s ch before delay)) \<and>
    st_config s' = st_config s \<and> CONNECTION_GAP \<in> set (pending_of s' ch) \<and>
    count_of (sm_connections (st_metrics s')) ch = count_of (sm_connections (st_metrics s)) ch \<and>
    count_of (sm_reconnect_attempts (st_metrics s')) ch = count_of (sm_reconnect_attempts (st_metrics s)) ch + 1"
  using assms
  by (auto simp: retriable_def supervise_failure_def failure_metrics_def)
    (simp_all add: add_pending_def)

lemma next_turns_delay:
  "stream_config_post_init (st_config s) = Inr c' \<Longrightarrow> next_delay s (turns_delay s n) = turns_delay s (Suc n)"
  using config_positive [of "st_config s" c'] by (simp add: next_delay_def turns_delay_def min_def)

lemma failed_turns_delay:
  "stream_config_post_init (st_config s) = Inr c' \<Longrightarrow> list_all retriable es \<Longrightarrow>
   \<exists>s'. failed_turns s ch (turns_delay s n) es = Retry s' (turns_delay s (n + length es)) \<and>
     st_config s' = st_config s \<and>
     count_of (sm_reconnect_attempts (st_metrics s')) ch =
       count_of (sm_reconnect_attempts (st_metrics s)) ch + int (length es) \<and>
     (es \<noteq> [] \<longrightarrow> CONNECTION_GAP \<in> set (pending_of s' ch))"
proof (induction es arbitrary: s n)
  case (Cons e es)
  let ?n = "count_of (sm_connections (st_metrics s)) ch"
  have e: "retriable e" and es: "list_all retriable es" using Cons.prems(2) by simp_all
  obtain s1 where s1: "supervise_failure s ch ?n (turns_delay s n) e =
        Retry s1 (next_delay s (backoff_now s ch ?n (turns_delay s n)))"
      "st_config s1 = st_config s" "CONNECTION_GAP \<in> set (pending_of s1 ch)"
      "count_of (sm_reconnect_attempts (st_metrics s1)) ch = count_of (sm_reconnect_attempts (st_metrics s)) ch + 1"
    using failure_retry [OF e, of s ch ?n "turns_delay s n"] by blast
  have d: "next_delay s (backoff_now s ch ?n (turns_delay s n)) = turns_delay s1 (Suc n)"
    using next_turns_delay [OF Cons.prems(1)] s1(2) by (simp add: backoff_now_def) (simp add: turns_delay_def)
  have cfg: "stream_config_post_init (st_config s1) = Inr c'" using Cons.prems(1) s1(2) by simp
  obtain s' where s': "failed_turns s1 ch (turns_delay s1 (Suc n)) es = Retry s' (turns_delay s1 (Suc n + length es))"
      "st_config s' = st_config s1"
      "count_of (sm_reconnect_attempts (st_metrics s')) ch = count_of (sm_reconnect_attempts (st_metrics s1)) ch + int (length es)"
      "es \<noteq> [] \<longrightarrow> CONNECTION_GAP \<in> set (pending_of s' ch)"
    using Cons.IH [OF cfg es, of "Suc n"] by blast
  have "turns_delay s1 k = turns_delay s k" for k using s1(2) by (simp add: turns_delay_def)
  moreover have "CONNECTION_GAP \<in> set (pending_of s' ch)"
    using s' s1(3) by (cases es) (auto simp: turns_delay_def)
  ultimately show ?case using s1 s' d by (intro exI [of _ s']) simp
qed simp

text \<open>The reconnect backoff. After any number of failures that may be retried and in which no
  handshake completed, the next delay is the initial delay doubled once per failure and capped by
  the maximum, every failure is counted and leaves the connection gap pending; the time slept
  stays within a fifth of the delay; a failure after a completed handshake starts again from the
  initial delay; and a fatal rejection or a refused authentication is never retried.\<close>

theorem reconnect_backoff:
  assumes "stream_config_post_init (st_config s) = Inr c'"
  shows "(list_all retriable es \<longrightarrow>
      (\<exists>s'. failed_turns s ch (sc_reconnect_initial_seconds (st_config s)) es = Retry s' (turns_delay s (length es)) \<and>
        count_of (sm_reconnect_attempts (st_metrics s')) ch =
          count_of (sm_reconnect_attempts (st_metrics s)) ch + int (length es) \<and>
        (es \<noteq> [] \<longrightarrow> CONNECTION_GAP \<in> set (pending_of s' ch)))) \<and>
    0 < turns_delay s n \<and> turns_delay s (Suc n) \<le> sc_reconnect_max_seconds (st_config s) \<and>
    (0 \<le> u \<and> u \<le> 1 \<longrightarrow> \<bar>jittered_delay u (turns_delay s n) - turns_delay s n\<bar> \<le> turns_delay s n / 5) \<and>
    (before < count_of (sm_connections (st_metrics s)) ch \<longrightarrow>
       backoff_now s ch before delay = sc_reconnect_initial_seconds (st_config s)) \<and>
    (\<not> retriable e \<longleftrightarrow> (\<exists>x. supervise_failure s ch before delay e = Fatal x))"
proof (intro conjI impI)
  assume es: "list_all retriable es"
  have "turns_delay s 0 = sc_reconnect_initial_seconds (st_config s)" by (simp add: turns_delay_def)
  with failed_turns_delay [OF assms es, of ch 0] show "\<exists>s'. failed_turns s ch (sc_reconnect_initial_seconds (st_config s)) es =
        Retry s' (turns_delay s (length es)) \<and>
      count_of (sm_reconnect_attempts (st_metrics s')) ch =
        count_of (sm_reconnect_attempts (st_metrics s)) ch + int (length es) \<and>
      (es \<noteq> [] \<longrightarrow> CONNECTION_GAP \<in> set (pending_of s' ch))" by auto
next
  show pos: "0 < turns_delay s n" using config_positive [OF assms] by (simp add: turns_delay_def)
  assume u: "0 \<le> u \<and> u \<le> 1"
  have eq: "jittered_delay u d - d = (d / 5) * (2 * u - 1)" for d by (simp add: jittered_delay_def field_simps)
  have "\<bar>(turns_delay s n / 5) * (2 * u - 1)\<bar> = (turns_delay s n / 5) * \<bar>2 * u - 1\<bar>"
    using pos by (simp add: abs_mult)
  also have "\<dots> \<le> (turns_delay s n / 5) * 1"
    by (rule mult_left_mono) (use u pos in \<open>simp_all add: abs_le_iff\<close>)
  finally show "\<bar>jittered_delay u (turns_delay s n) - turns_delay s n\<bar> \<le> turns_delay s n / 5" by (simp add: eq)
next
  show "turns_delay s (Suc n) \<le> sc_reconnect_max_seconds (st_config s)" by (simp add: turns_delay_def)
  assume "before < count_of (sm_connections (st_metrics s)) ch"
  then show "backoff_now s ch before delay = sc_reconnect_initial_seconds (st_config s)" by (simp add: backoff_now_def)
next
  show "\<not> retriable e \<longleftrightarrow> (\<exists>x. supervise_failure s ch before delay e = Fatal x)"
    by (auto simp: retriable_def supervise_failure_def)
qed

section \<open>Subscriptions\<close>

lemma chunks_concat: "0 < n \<Longrightarrow> concat (chunks n xs) = xs \<and> (\<forall>c \<in> set (chunks n xs). c \<noteq> [] \<and> length c \<le> n)"
proof (induction n xs rule: chunks.induct)
  case (1 n xs)
  show ?case
  proof (cases "xs = []")
    case False
    with 1 have "concat (chunks n (drop n xs)) = drop n xs \<and>
        (\<forall>c \<in> set (chunks n (drop n xs)). c \<noteq> [] \<and> length c \<le> n)" by simp
    with False "1.prems" show ?thesis by (simp add: chunks.simps [of n xs])
  qed (simp add: chunks.simps)
qed

text \<open>The channels a run starts can be subscribed within the broker's limits. When \<open>run\<close> accepts
  its configuration, every started channel's subscription is built without error: the standard
  channel covers every instrument once, in order, in batches of at most 100; the 20-level channel
  sends one message with the depth instruments, at most the configured number; the 200-level
  channel is started for exactly one depth instrument, a future or an equity, and its flat message
  names that one.\<close>

theorem run_subscribes_within_limits:
  assumes "run_channels s = Inr chs"
  shows "(\<forall>ch \<in> set chs. \<exists>ms. subscribe_messages s ch = Inr ms) \<and>
    (''standard'' \<in> set chs \<longrightarrow>
       (\<exists>bs. concat bs = map subscribe_item (st_instruments s) \<and> (\<forall>b \<in> set bs. b \<noteq> [] \<and> length b \<le> 100) \<and>
          subscribe_messages s ''standard'' = Inr (map (subscribe_batch 21) bs))) \<and>
    (''depth20'' \<in> set chs \<longrightarrow>
       (let deep = deep_instruments (st_instruments s)
        in deep \<noteq> [] \<and> int (length deep) \<le> sc_depth20_instruments_per_socket_limit (st_config s) \<and>
           subscribe_messages s ''depth20'' = Inr [subscribe_batch 23 (map subscribe_item deep)])) \<and>
    (''depth200'' \<in> set chs \<longrightarrow>
       (\<exists>m. deep_instruments (st_instruments s) = [m] \<and> in_kind (dm_instrument m) \<in> {EQUITY, FUTURE} \<and>
          subscribe_messages s ''depth200'' = Inr [(''RequestCode'', JInt 23) # subscribe_item m]))"
proof -
  define c where "c = st_config s"
  define deep where "deep = deep_instruments (st_instruments s)"
  have none: "first_error (run_checks s) = None"
    using assms by (auto simp: run_channels_def split: option.splits)
  have chs: "chs = (if sc_enable_standard_feed c then [''standard''] else []) @
      (if sc_enable_20_level_depth c then [''depth20''] else []) @
      (if sc_enable_200_level_depth c then [''depth200''] else [])"
    using assms none by (simp add: run_channels_def c_def)
  have d20: "sc_enable_20_level_depth c \<Longrightarrow>
      deep \<noteq> [] \<and> int (length deep) \<le> sc_depth20_instruments_per_socket_limit c"
    and d200: "sc_enable_200_level_depth c \<Longrightarrow> deep \<noteq> [] \<and> depth200_ineligible deep = [] \<and> length deep \<le> 1"
    using none by (auto simp: run_checks_def Let_def c_def deep_def split: if_splits)
  have std: "\<exists>bs. concat bs = map subscribe_item (st_instruments s) \<and> (\<forall>b \<in> set bs. b \<noteq> [] \<and> length b \<le> 100) \<and>
      subscribe_messages s ''standard'' = Inr (map (subscribe_batch 21) bs)"
    using chunks_concat [of 100 "map subscribe_item (st_instruments s)"]
    by (intro exI [of _ "chunks 100 (map subscribe_item (st_instruments s))"]) (simp add: subscribe_messages_def)
  have m20: "subscribe_messages s ''depth20'' = Inr [subscribe_batch 23 (map subscribe_item deep)]"
    by (simp add: subscribe_messages_def deep_def)
  have m200: "\<exists>m. deep = [m] \<and> in_kind (dm_instrument m) \<in> {EQUITY, FUTURE} \<and>
      subscribe_messages s ''depth200'' = Inr [(''RequestCode'', JInt 23) # subscribe_item m]"
    if on: "sc_enable_200_level_depth c"
  proof -
    have lim: "deep \<noteq> []" "depth200_ineligible deep = []" "length deep \<le> 1" using d200 [OF on] by simp_all
    then obtain m where m: "deep = [m]" by (cases deep) auto
    moreover have "in_kind (dm_instrument m) \<in> {EQUITY, FUTURE}"
      using lim(2) m by (auto simp: depth200_ineligible_def DEPTH200_ELIGIBLE_KINDS_def split: if_splits)
    ultimately show ?thesis by (simp add: subscribe_messages_def flip: deep_def)
  qed
  have "\<exists>ms. subscribe_messages s ch = Inr ms" if "ch \<in> set chs" for ch
    using that std m20 m200 by (auto simp: chs split: if_splits)
  moreover have "''depth20'' \<in> set chs \<Longrightarrow> sc_enable_20_level_depth c" "''depth200'' \<in> set chs \<Longrightarrow> sc_enable_200_level_depth c"
    by (auto simp: chs split: if_splits)
  ultimately show ?thesis
    using std m20 m200 d20 unfolding c_def [symmetric] deep_def [symmetric] Let_def by blast
qed

section \<open>An example run\<close>

definition example_equity :: "string \<Rightarrow> string \<Rightarrow> dhan_mapping" where
  "example_equity name ident =
     \<lparr>dm_instrument =
        \<lparr>in_exchange = ''NSE'', in_segment = NSE_EQ, in_underlying = name, in_kind = EQUITY,
         in_expiry = None, in_strike = None, in_option_type = None\<rparr>,
      dm_security_id = ident, dm_exchange_segment = NSE_EQ, dm_trading_symbol = name,
      dm_lot_size = None, dm_tick_size_paise = None,
      dm_as_of_date = \<lparr>cd_year = 1, cd_month = 8, cd_day = 3\<rparr>, dm_source = ''m''\<rparr>"

definition example_equities :: "dhan_mapping list" where
  "example_equities = [example_equity ''AAA'' ''1'', example_equity ''BBB'' ''2'']"

definition example_stream :: stream where
  "example_stream =
     \<lparr>st_instruments = example_equities, st_run_id = ''run-1'', st_config = default_config,
      st_metrics = metrics_init 0, st_connection_id = ''primary'',
      st_mappings = [((1, 1), example_equity ''AAA'' ''1''), ((1, 2), example_equity ''BBB'' ''2'')],
      st_receive_sequence = 0,
      st_classifier = \<lparr>cl_bound_ms = 1000, cl_side_times = [], cl_quotes = [], cl_trades = []\<rparr>,
      st_epochs = [], st_ever_connected = [], st_pending_flags = [], st_books = [],
      st_latest_standard = [], st_side_received_at = [], st_last_exchange_ts = [],
      st_sequences = [], st_rows = []\<rparr>"

lemma example_stream_init:
  "stream_init example_equities ''run-1'' default_config (metrics_init 0) ''primary'' = Inr example_stream"
  by code_simp

lemma example_equities_ok: "\<forall>m \<in> set example_equities. dhan_mapping_post_init m = Inr m"
  by (simp add: example_equities_def example_equity_def dhan_mapping_post_init_iff positive_digits_iff
      is_digit_def digits_value_def digit_value_def)

definition example_side :: "int \<Rightarrow> string \<Rightarrow> rat \<Rightarrow> deep_packet" where
  "example_side ident side price =
     \<lparr>dp_response_code = (if side = ''bid'' then 41 else 51), dp_exchange_segment_code = 1,
      dp_security_id = ident, dp_side = side,
      dp_levels = [\<lparr>dl_price = price, dl_quantity = 65, dl_orders = 3\<rparr>], dp_raw_size = 28,
      dp_source_sequence = None\<rparr>"

definition example_quote :: "int \<Rightarrow> rat \<Rightarrow> int \<Rightarrow> market_packet" where
  "example_quote ident price volume =
     (market_base 4 ''quote'' 1 ident 50)\<lparr>mp_last_price := Some (Finite price),
       mp_last_quantity := Some 10, mp_cumulative_volume := Some volume\<rparr>"

definition stale_run :: stream where
  "stale_run =
     (let clock = (\<lambda>ms. Aware (ms * 1000) 0);
          s = stream_connected (stream_connected example_stream ''standard'') ''depth20'';
          s = fst (emit_deep s ''depth20'' (example_side 1 ''bid'' 100) (clock 1));
          s = fst (emit_deep s ''depth20'' (example_side 2 ''bid'' 50) (clock 2));
          s = fst (emit_deep s ''depth20'' (example_side 2 ''ask'' 52) (clock 3));
          s = fst (emit_standard s (example_quote 2 51 100) (clock 4));
          s = stream_connected s ''depth20'';
          s = fst (emit_deep s ''depth20'' (example_side 1 ''bid'' 101) (clock 5))
      in fst (emit_standard s (example_quote 2 52 110) (clock 6)))"

text \<open>The reconnect mark travels on one row only, so the classifier forgets the quote of that row's
  instrument and no other: here the second instrument has no depth row in the current connection,
  yet its next print is classified against its quote of the previous connection, not degraded.
  The class documentation promises that no post-reconnect stale state is eligible.\<close>

theorem reconnect_keeps_stale_quote:
  "count_of (st_epochs stale_run) ''depth20'' = 2 \<and>
   map tr_broker_security_id (channel_rows stale_run ''depth20'' 2) = [''1''] \<and>
   (let r = last (st_rows stale_run)
    in tr_broker_security_id r = ''2'' \<and> tr_trade_quote_bid r = Some 50 \<and> tr_trade_quote_ask r = Some 52 \<and>
       tr_trade_classification_degraded r = Some False \<and> tr_trade_side r = Some BUY)"
  by code_simp

text \<open>Two connections of the 20-level channel, each with one bid frame of the first instrument.\<close>

definition example_bid_frame :: bytes where
  "example_bid_frame =
     [28, 0, 41, 1, 1, 0, 0, 0, 1, 0, 0, 0,
      0, 0, 0, 0, 0, 32, 89, 64, 65, 0, 0, 0, 3, 0, 0, 0]"

definition example_events :: "stream_event list" where
  "example_events =
     [Connected ''depth20'', Received ''depth20'' 1 (Aware 1000 0) (Binary example_bid_frame),
      Connected ''depth20'', Received ''depth20'' 2 (Aware 2000 0) (Binary example_bid_frame)]"

definition received_bid :: "stream \<Rightarrow> rat \<Rightarrow> datetime \<Rightarrow> stream" where
  "received_bid s now t =
     fst (emit_deep (note_packet
            (s\<lparr>st_metrics := record_websocket_message (st_metrics s) ''depth20'' 28\<rparr>) now ''depth20'' 28)
          ''depth20'' (example_side 1 ''bid'' (201 / 2)) t)"

lemma example_bid_parse:
  "parse_deep_packets 20 example_bid_frame = Inr [Deep (example_side 1 ''bid'' (201 / 2))]"
  by (simp add: parse_deep_packets_def example_bid_frame_def packet_simps example_side_def upt_rec)

lemma receive_bid:
  "fst (receive_message s ''depth20'' now t (Binary example_bid_frame)) = received_bid s now t"
proof -
  have "length example_bid_frame = 28" "dp_raw_size (example_side 1 ''bid'' (201 / 2)) = 28"
    by (simp_all add: example_bid_frame_def example_side_def)
  then show ?thesis
    by (simp add: receive_message_def Let_def example_bid_parse deep_packet_step_def received_bid_def
        split: prod.split option.split)
qed

lemma two_connections_run:
  "fold_result stream_step example_stream example_events =
     Inr (received_bid (stream_connected (received_bid (stream_connected example_stream ''depth20'') 1
       (Aware 1000 0)) ''depth20'') 2 (Aware 2000 0))"
proof -
  have parse: "finite_message ''depth20'' m" for m
    by (simp add: finite_message_def split: wire_message.split sum.split option.split standard_message.split)
  have ever: "''depth20'' \<in> set (st_ever_connected (stream_connected s ''depth20''))" for s
    by (simp add: stream_connected_def Let_def add_pending_def forget_books_def)
  have ch: "''depth20'' \<in> set CHANNELS" by (simp add: CHANNELS_def DEEP_CHANNELS_def)
  show ?thesis
    by (simp add: example_events_def stream_step_def stream_enabled_def receive_bid parse ever ch)
qed

lemma two_connections_rows:
  "map (\<lambda>r. (tr_connection_epoch r, tr_receive_sequence r, RECONNECTED \<in> set (tr_quality_flags r)))
     (st_rows (received_bid (stream_connected (received_bid (stream_connected example_stream ''depth20'') 1
       (Aware 1000 0)) ''depth20'') 2 (Aware 2000 0))) = [(1, 1, False), (2, 2, True)]"
  by code_simp

section \<open>Witnesses\<close>


theorem reconnect_marks_first_row_witness:
  "\<exists>s r. fold_result stream_step example_stream example_events = Inr s \<and> channel_rows s ''depth20'' 2 = [r] \<and>
     RECONNECTED \<in> set (tr_quality_flags r) \<and> CONNECTION_GAP \<in> set (tr_quality_flags r)"
proof -
  define s where "s = received_bid (stream_connected (received_bid (stream_connected example_stream ''depth20'') 1
       (Aware 1000 0)) ''depth20'') 2 (Aware 2000 0)"
  have "map tr_receive_sequence (channel_rows s ''depth20'' 2) = [2]" unfolding s_def by code_simp
  then obtain r where r: "channel_rows s ''depth20'' 2 = [r]" by auto
  have "first_marked 2 (channel_rows s ''depth20'' 2)"
    using reconnect_marks_first_row [OF example_stream_init _ example_equities_ok two_connections_run, of "''depth20''"]
    by (simp add: s_def DEEP_CHANNELS_def)
  then show ?thesis using r two_connections_run by (simp add: s_def)
qed

theorem deep_rows_current_book_witness:
  "\<exists>r. st_rows (fst (emit_deep (stream_connected example_stream ''depth20'') ''depth20'' (example_side 1 ''bid'' 100)
        (Aware 1000 0))) = [r] \<and> tr_asks r = [] \<and> tr_bids r = dp_levels (example_side 1 ''bid'' 100)"
proof -
  let ?s = "stream_connected example_stream ''depth20''"
  have run: "fold_result stream_step example_stream [Connected ''depth20''] = Inr ?s"
    by (simp add: stream_step_def stream_enabled_def CHANNELS_def DEEP_CHANNELS_def)
  have ch: "''depth20'' \<in> set DEEP_CHANNELS" "''depth20'' \<in> set (st_ever_connected ?s)"
    by (code_simp, code_simp)
  have p: "deep_packet_ok (example_side 1 ''bid'' 100)" by code_simp
  have m: "map_of (st_mappings ?s) (dp_exchange_segment_code (example_side 1 ''bid'' 100),
      dp_security_id (example_side 1 ''bid'' 100)) = Some (example_equity ''AAA'' ''1'')"
    by code_simp
  have rows: "st_rows ?s = []" by code_simp
  have none: "channel_rows ?s ''depth20'' n = []" for n by (simp add: channel_rows_def rows)
  note claim = deep_rows_current_book [OF example_stream_init _ example_equities_ok run ch p _ m, of "Aware 1000 0"]
  obtain r where r: "st_rows (fst (emit_deep ?s ''depth20'' (example_side 1 ''bid'' 100) (Aware 1000 0))) = [r]"
      "row_side ''ask'' r = []"
    using claim [of "''ask''"] by (auto simp: rows none book_from_rows_def example_side_def)
  have "row_side ''bid'' r = dp_levels (example_side 1 ''bid'' 100)"
    using claim [of "''bid''"] r(1) by (auto simp: rows example_side_def)
  with r show ?thesis by (simp add: row_side_def)
qed

definition example_failure :: stream_error where
  "example_failure =
     \<lparr>se_type_name = ''ConnectionClosedError'', se_is_fatal = False, se_is_heartbeat_timeout = False,
      se_status_code = None, se_close_code = Some 1006\<rparr>"

theorem reconnect_backoff_witness:
  "\<exists>s. failed_turns example_stream ''depth20'' (1 / 2) (replicate 3 example_failure) = Retry s 4"
proof -
  have config: "stream_config_post_init (st_config example_stream) = Inr default_config"
    by (simp add: example_stream_def stream_config_post_init_def stream_config_checks_def default_config_def)
  have "list_all retriable (replicate 3 example_failure)"
    by (simp add: list_all_iff retriable_def example_failure_def)
  moreover have "turns_delay example_stream 3 = 4" "sc_reconnect_initial_seconds (st_config example_stream) = 1 / 2"
    by (simp_all add: turns_delay_def example_stream_def default_config_def)
  moreover have "list_all retriable (replicate 3 example_failure) \<longrightarrow>
      (\<exists>s'. failed_turns example_stream ''depth20'' (sc_reconnect_initial_seconds (st_config example_stream))
        (replicate 3 example_failure) = Retry s' (turns_delay example_stream (length (replicate 3 example_failure))))"
    using reconnect_backoff [OF config, of "replicate 3 example_failure" "''depth20''" 0 0 0 0 example_failure] by blast
  ultimately show ?thesis by (simp only: length_replicate)
qed

theorem run_subscribes_within_limits_witness:
  "run_channels example_stream = Inr [''standard'', ''depth20''] \<and>
   subscribe_messages example_stream ''depth20'' =
     Inr [subscribe_batch 23 (map subscribe_item example_equities)]"
proof -
  have chs: "run_channels example_stream = Inr [''standard'', ''depth20'']"
    by (simp add: run_channels_def run_checks_def example_stream_def default_config_def example_equities_def
        deep_instruments_def example_equity_def)
  have "deep_instruments (st_instruments example_stream) = example_equities"
    by (simp add: example_stream_def example_equities_def deep_instruments_def example_equity_def)
  with chs run_subscribes_within_limits [OF chs] show ?thesis by (simp add: Let_def)
qed

end
