(* ===== verification/Json_Text.thy ===== *)
theory Json_Text
  imports Prelude
begin

text \<open>
  The JSON text of \<open>research/src/shaurya/research/contracts.py\<close>: \<open>canonical_json\<close> is
  \<open>json.dumps(_jsonable(value), sort_keys=True, separators=(",", ":"), allow_nan=False)\<close>, and the
  ledger reads it back with \<open>json.loads\<close>. A \<open>json\<close> value is what \<open>_jsonable\<close> returns: an object is
  an association list in insertion order with string keys, a date or path is already the string it
  writes. Strings are over the characters 0 to 255, so a \<open>\\u\<close> escape beyond them is refused. The
  text of a finite float (\<open>float.__repr__\<close>) and the float a numeral denotes are the parameter \<open>fl\<close>;
  the infinities and the not-a-number are \<open>JsNonFinite\<close>.
\<close>

section \<open>Values\<close>

datatype json =
    JsNull
  | JsBool bool
  | JsInt int
  | JsFloat rat
  | JsNonFinite string
  | JsStr string
  | JsArray "json list"
  | JsObject "(string \<times> json) list"

record float_codec =
  fc_repr :: "rat \<Rightarrow> string"
  fc_value :: "string \<Rightarrow> rat option"

definition map_values :: "('a \<Rightarrow> 'b) \<Rightarrow> ('k \<times> 'a) list \<Rightarrow> ('k \<times> 'b) list" where
  "map_values f = map (\<lambda>(k, v). (k, f v))"

lemma map_values_cong [fundef_cong]:
  "ps = qs \<Longrightarrow> (\<And>k v. (k, v) \<in> set qs \<Longrightarrow> f v = g v) \<Longrightarrow> map_values f ps = map_values g qs"
  by (auto simp: map_values_def)

lemma map_values_simps [simp]:
  "map_values f [] = []" "map_values f ((k, v) # ps) = (k, f v) # map_values f ps"
  "map fst (map_values f ps) = map fst ps" "length (map_values f ps) = length ps"
  "map_values f ps = [] \<longleftrightarrow> ps = []"
  by (induction ps) (auto simp: map_values_def)

lemma map_values_twice [simp]: "map_values f (map_values g ps) = map_values (\<lambda>v. f (g v)) ps"
  by (auto simp: map_values_def)

lemma insort_key_values [simp]:
  "insort_key fst (k, f v) (map_values f ps) = map_values f (insort_key fst (k, v) ps)"
  by (induction ps) auto

lemma sort_key_values [simp]: "sort_key fst (map_values f ps) = map_values f (sort_key fst ps)"
  by (induction ps) auto

text \<open>What \<open>sort_keys\<close> does to a value: the keys of every object in ascending order.\<close>

fun canonical_value :: "json \<Rightarrow> json" where
  "canonical_value (JsArray vs) = JsArray (map canonical_value vs)"
| "canonical_value (JsObject ps) =
     JsObject (sort_key fst (map_values canonical_value ps))"
| "canonical_value v = v"

section \<open>Writing\<close>

definition hex_digit :: "nat \<Rightarrow> char" where
  "hex_digit n = (if n < 10 then char_of (48 + n) else char_of (87 + n))"

definition json_escape :: "char \<Rightarrow> string" where
  "json_escape c =
     (if c = CHR 0x22 then [CHR 0x5C, c]
      else if c = CHR 0x5C then [CHR 0x5C, c]
      else if c = CHR 0x0A then [CHR 0x5C, CHR ''n'']
      else if c = CHR 0x0D then [CHR 0x5C, CHR ''r'']
      else if c = CHR 0x09 then [CHR 0x5C, CHR ''t'']
      else if c = CHR 0x0C then [CHR 0x5C, CHR ''f'']
      else if c = CHR 0x08 then [CHR 0x5C, CHR ''b'']
      else let n = (of_char c :: nat) in
        if 32 \<le> n \<and> n \<le> 126 then [c]
        else [CHR 0x5C, CHR ''u'', CHR ''0'', CHR ''0'', hex_digit (n div 16), hex_digit (n mod 16)])"

definition json_quote :: "string \<Rightarrow> string" where
  "json_quote s = [CHR 0x22] @ concat (map json_escape s) @ [CHR 0x22]"

fun json_member :: "string \<times> string \<Rightarrow> string" where
  "json_member (k, t) = json_quote k @ '':'' @ t"

text \<open>The compact encoding of a value without non-finite floats.\<close>

fun json_text :: "float_codec \<Rightarrow> json \<Rightarrow> string" where
  "json_text fl JsNull = ''null''"
| "json_text fl (JsBool b) = (if b then ''true'' else ''false'')"
| "json_text fl (JsInt n) = dec_int n"
| "json_text fl (JsFloat x) = fc_repr fl x"
| "json_text fl (JsNonFinite s) = s"
| "json_text fl (JsStr s) = json_quote s"
| "json_text fl (JsArray vs) = ''['' @ join_with '','' (map (json_text fl) vs) @ '']''"
| "json_text fl (JsObject ps) =
     ''{'' @ join_with '',''
       (map json_member (sort_key fst (map_values (json_text fl) ps))) @ ''}''"

fun json_finite :: "json \<Rightarrow> bool" where
  "json_finite (JsNonFinite s) = False"
| "json_finite (JsArray vs) = list_all json_finite vs"
| "json_finite (JsObject ps) = list_all (\<lambda>(k, v). json_finite v) ps"
| "json_finite v = True"

definition canonical_json :: "float_codec \<Rightarrow> json \<Rightarrow> string result" where
  "canonical_json fl v =
     (if json_finite v then Inr (json_text fl v)
      else Inl (ValueError ''Out of range float values are not JSON compliant''))"

section \<open>Reading\<close>

definition json_space :: "char \<Rightarrow> bool" where
  "json_space c \<longleftrightarrow> c \<in> {CHR 0x20, CHR 0x09, CHR 0x0A, CHR 0x0D}"

abbreviation skip_space :: "string \<Rightarrow> string" where
  "skip_space \<equiv> dropWhile json_space"

definition hex_value :: "char \<Rightarrow> nat option" where
  "hex_value c =
     (let n = (of_char c :: nat) in
      if 48 \<le> n \<and> n \<le> 57 then Some (n - 48)
      else if 97 \<le> n \<and> n \<le> 102 then Some (n - 87)
      else if 65 \<le> n \<and> n \<le> 70 then Some (n - 55)
      else None)"

definition json_unescape :: "char \<Rightarrow> char option" where
  "json_unescape e =
     (if e = CHR 0x22 \<or> e = CHR 0x5C \<or> e = CHR ''/'' then Some e
      else if e = CHR ''n'' then Some (CHR 0x0A)
      else if e = CHR ''r'' then Some (CHR 0x0D)
      else if e = CHR ''t'' then Some (CHR 0x09)
      else if e = CHR ''f'' then Some (CHR 0x0C)
      else if e = CHR ''b'' then Some (CHR 0x08)
      else None)"

definition unicode_escape :: "char \<Rightarrow> char \<Rightarrow> char \<Rightarrow> char \<Rightarrow> char option" where
  "unicode_escape a b c d =
     (case (hex_value a, hex_value b, hex_value c, hex_value d) of
        (Some w, Some x, Some y, Some z) \<Rightarrow>
          (let n = 4096 * w + 256 * x + 16 * y + z in if n < 256 then Some (char_of n) else None)
      | _ \<Rightarrow> None)"

text \<open>\<open>scanstring\<close>: the string up to its closing quote, and what follows.\<close>

fun scan_string :: "string \<Rightarrow> (string \<times> string) option" where
  "scan_string [] = None"
| "scan_string (c # r) =
     (if c = CHR 0x22 then Some ([], r)
      else if c = CHR 0x5C then
        (case r of
           [] \<Rightarrow> None
         | e # r \<Rightarrow>
             if e = CHR ''u'' then
               (case r of
                  a # b # c # d # r \<Rightarrow>
                    (case unicode_escape a b c d of
                       None \<Rightarrow> None
                     | Some x \<Rightarrow> map_option (apfst ((#) x)) (scan_string r))
                | _ \<Rightarrow> None)
             else
               (case json_unescape e of
                  None \<Rightarrow> None
                | Some x \<Rightarrow> map_option (apfst ((#) x)) (scan_string r)))
      else if (of_char c :: nat) < 32 then None
      else map_option (apfst ((#) c)) (scan_string r))"

text \<open>\<open>NUMBER_RE\<close>: an integer part, and the fraction and the exponent when there are any.\<close>

definition scan_sign :: "string \<Rightarrow> string \<Rightarrow> string \<times> string" where
  "scan_sign signs s =
     (case s of [] \<Rightarrow> ([], []) | c # t \<Rightarrow> if c \<in> set signs then ([c], t) else ([], s))"

definition scan_int :: "string \<Rightarrow> (string \<times> string) option" where
  "scan_int s =
     (case scan_sign ''-'' s of (sign, t) \<Rightarrow>
        (case t of
           [] \<Rightarrow> None
         | c # u \<Rightarrow>
             if c = CHR ''0'' then Some (sign @ [c], u)
             else if is_digit c then Some (sign @ takeWhile is_digit t, dropWhile is_digit t)
             else None))"

definition scan_frac :: "string \<Rightarrow> string \<times> string" where
  "scan_frac s =
     (case s of
        [] \<Rightarrow> ([], [])
      | c # t \<Rightarrow>
          if c = CHR ''.'' \<and> takeWhile is_digit t \<noteq> []
          then (c # takeWhile is_digit t, dropWhile is_digit t) else ([], s))"

definition scan_exp :: "string \<Rightarrow> string \<times> string" where
  "scan_exp s =
     (case s of
        [] \<Rightarrow> ([], [])
      | c # t \<Rightarrow>
          (case scan_sign ''+-'' t of (sign, u) \<Rightarrow>
             if c \<in> set ''eE'' \<and> takeWhile is_digit u \<noteq> []
             then (c # sign @ takeWhile is_digit u, dropWhile is_digit u) else ([], s)))"

definition scan_number :: "string \<Rightarrow> (string \<times> string \<times> string \<times> string) option" where
  "scan_number s =
     (case scan_int s of
        None \<Rightarrow> None
      | Some (i, s1) \<Rightarrow>
          (case scan_frac s1 of (f, s2) \<Rightarrow> (case scan_exp s2 of (e, s3) \<Rightarrow> Some (i, f, e, s3))))"

definition int_value :: "string \<Rightarrow> int" where
  "int_value s =
     (case scan_sign ''-'' s of (sign, t) \<Rightarrow>
        if sign = [] then int (digits_value t) else - int (digits_value t))"

definition float_json :: "float_codec \<Rightarrow> string \<Rightarrow> json" where
  "float_json fl w =
     (case fc_value fl w of
        Some x \<Rightarrow> JsFloat x
      | None \<Rightarrow> JsNonFinite (if fst (scan_sign ''-'' w) = [] then ''Infinity'' else ''-Infinity''))"

definition scan_value_number :: "float_codec \<Rightarrow> string \<Rightarrow> (json \<times> string) option" where
  "scan_value_number fl s =
     (case scan_number s of
        None \<Rightarrow> None
      | Some (i, f, e, r) \<Rightarrow>
          Some (if f = [] \<and> e = [] then JsInt (int_value i) else float_json fl (i @ f @ e), r))"

definition scan_word :: "string \<Rightarrow> json \<Rightarrow> string \<Rightarrow> (json \<times> string) option" where
  "scan_word w v s = (if take (length w) s = w then Some (v, drop (length w) s) else None)"

text \<open>\<open>scan_once\<close> on the values that are neither arrays nor objects.\<close>

definition scan_atom :: "float_codec \<Rightarrow> string \<Rightarrow> (json \<times> string) option" where
  "scan_atom fl s =
     (case s of
        [] \<Rightarrow> None
      | c # r \<Rightarrow>
          if c = CHR 0x22 then map_option (apfst JsStr) (scan_string r)
          else if c = CHR ''n'' then scan_word ''null'' JsNull s
          else if c = CHR ''t'' then scan_word ''true'' (JsBool True) s
          else if c = CHR ''f'' then scan_word ''false'' (JsBool False) s
          else if c = CHR ''N'' then scan_word ''NaN'' (JsNonFinite ''NaN'') s
          else if c = CHR ''I'' then scan_word ''Infinity'' (JsNonFinite ''Infinity'') s
          else if take 9 s = ''-Infinity'' then scan_word ''-Infinity'' (JsNonFinite ''-Infinity'') s
          else scan_value_number fl s)"

text \<open>\<open>dict(pairs)\<close>: a later pair overwrites an earlier one of the same key in place.\<close>

definition dict_of :: "(string \<times> 'v) list \<Rightarrow> (string \<times> 'v) list" where
  "dict_of ps = foldl (\<lambda>d (k, v). AList.update k v d) [] ps"

text \<open>
  \<open>scan_once\<close>, \<open>JSONArray\<close> and \<open>JSONObject\<close>. \<open>parse_items\<close> starts at an element of a non-empty array
  and \<open>parse_members\<close> at the opening quote of a key. Every call takes one unit of fuel;
  \<open>parse_enough_fuel\<close> shows that the fuel \<open>json_loads\<close> gives never runs out.
\<close>

fun parse_value :: "float_codec \<Rightarrow> nat \<Rightarrow> string \<Rightarrow> (json \<times> string) option"
  and parse_items :: "float_codec \<Rightarrow> nat \<Rightarrow> string \<Rightarrow> (json list \<times> string) option"
  and parse_members :: "float_codec \<Rightarrow> nat \<Rightarrow> string \<Rightarrow> ((string \<times> json) list \<times> string) option"
where
  "parse_value fl 0 s = None"
| "parse_value fl (Suc n) s =
     (case s of
        [] \<Rightarrow> None
      | c # r \<Rightarrow>
          if c = CHR ''['' then
            (case skip_space r of
               [] \<Rightarrow> None
             | d # r' \<Rightarrow>
                 if d = CHR '']'' then Some (JsArray [], r')
                 else map_option (apfst JsArray) (parse_items fl n (d # r')))
          else if c = CHR ''{'' then
            (case skip_space r of
               [] \<Rightarrow> None
             | d # r' \<Rightarrow>
                 if d = CHR ''}'' then Some (JsObject [], r')
                 else map_option (apfst (\<lambda>ps. JsObject (dict_of ps))) (parse_members fl n (d # r')))
          else scan_atom fl s)"
| "parse_items fl 0 s = None"
| "parse_items fl (Suc n) s =
     (case parse_value fl n s of
        None \<Rightarrow> None
      | Some (v, r) \<Rightarrow>
          (case skip_space r of
             [] \<Rightarrow> None
           | d # r' \<Rightarrow>
               if d = CHR '']'' then Some ([v], r')
               else if d = CHR '','' then
                 map_option (apfst ((#) v)) (parse_items fl n (skip_space r'))
               else None))"
| "parse_members fl 0 s = None"
| "parse_members fl (Suc n) s =
     (case s of
        [] \<Rightarrow> None
      | q # r \<Rightarrow>
          if q \<noteq> CHR 0x22 then None
          else
            (case scan_string r of
               None \<Rightarrow> None
             | Some (k, r1) \<Rightarrow>
                 (case skip_space r1 of
                    [] \<Rightarrow> None
                  | d # r2 \<Rightarrow>
                      if d \<noteq> CHR '':'' then None
                      else
                        (case parse_value fl n (skip_space r2) of
                           None \<Rightarrow> None
                         | Some (v, r3) \<Rightarrow>
                             (case skip_space r3 of
                                [] \<Rightarrow> None
                              | d # r4 \<Rightarrow>
                                  if d = CHR ''}'' then Some ([(k, v)], r4)
                                  else if d = CHR '','' then
                                    map_option (apfst ((#) (k, v)))
                                      (parse_members fl n (skip_space r4))
                                  else None)))))"

definition json_loads :: "float_codec \<Rightarrow> string \<Rightarrow> json result" where
  "json_loads fl s =
     (case parse_value fl (2 * length s + 2) (skip_space s) of
        Some (v, r) \<Rightarrow>
          if skip_space r = [] then Inr v else Inl (ValueError ''Extra data'')
      | None \<Rightarrow> Inl (ValueError ''Expecting value''))"


section \<open>Strings\<close>

lemma hex_value_digit [simp]: "n < 16 \<Longrightarrow> hex_value (hex_digit n) = Some n"
  by (cases "n < 10") (auto simp: hex_digit_def hex_value_def Let_def)

lemma unicode_escape_char [simp]:
  "unicode_escape CHR ''0'' CHR ''0'' (hex_digit (of_char c div 16)) (hex_digit (of_char c mod 16)) = Some c"
proof -
  have zero: "hex_value CHR ''0'' = Some 0" by (simp add: hex_value_def)
  have "(of_char c :: nat) < 256" by (rule nat_of_char_less_256)
  then have "(of_char c :: nat) div 16 < 16" by (intro less_mult_imp_div_less) simp
  then show ?thesis by (simp add: unicode_escape_def zero)
qed

lemma scan_string_escape:
  "scan_string (json_escape c @ r) = map_option (apfst ((#) c)) (scan_string r)"
proof (cases "c \<in> {CHR 0x22, CHR 0x5C, CHR 0x0A, CHR 0x0D, CHR 0x09, CHR 0x0C, CHR 0x08}")
  case True
  then show ?thesis by (auto simp: json_escape_def json_unescape_def)
next
  case False
  then show ?thesis by (simp add: json_escape_def Let_def)
qed

lemma scan_string_quote [simp]:
  "scan_string (concat (map json_escape s) @ CHR 0x22 # r) = Some (s, r)"
  by (induction s) (simp_all add: scan_string_escape)

definition printable :: "char \<Rightarrow> bool" where
  "printable c \<longleftrightarrow> (let n = (of_char c :: nat) in 32 \<le> n \<and> n \<le> 126)"

lemma hex_digit_printable: "n < 16 \<Longrightarrow> printable (hex_digit n)"
  by (cases "n < 10") (auto simp: hex_digit_def printable_def Let_def)

lemma json_escape_printable: "list_all printable (json_escape c)"
proof (cases "c \<in> {CHR 0x22, CHR 0x5C, CHR 0x0A, CHR 0x0D, CHR 0x09, CHR 0x0C, CHR 0x08}")
  case True
  then show ?thesis by (auto simp: json_escape_def printable_def)
next
  case False
  have "(of_char c :: nat) < 256" by (rule nat_of_char_less_256)
  then have "(of_char c :: nat) div 16 < 16" by (intro less_mult_imp_div_less) simp
  then have "printable (hex_digit (of_char c div 16))" "printable (hex_digit (of_char c mod 16))"
    by (auto intro: hex_digit_printable)
  moreover have "printable CHR ''0''" "printable CHR ''u''" "printable CHR 0x5C"
    by (simp_all add: printable_def)
  ultimately show ?thesis using False by (simp add: json_escape_def Let_def printable_def)
qed

lemma json_quote_printable: "list_all printable (json_quote s)"
proof -
  have "list_all printable (concat (map json_escape s))"
    by (induction s) (simp_all add: json_escape_printable)
  then show ?thesis by (simp add: json_quote_def printable_def)
qed

section \<open>Numbers\<close>

definition number_char :: "char \<Rightarrow> bool" where
  "number_char c \<longleftrightarrow> is_digit c \<or> c \<in> set ''+-.eE''"

definition number_stop :: "string \<Rightarrow> bool" where
  "number_stop r \<longleftrightarrow> (case r of [] \<Rightarrow> True | c # _ \<Rightarrow> \<not> number_char c)"

lemma number_stop_simps [simp]:
  "number_stop []"
  "number_stop (CHR '','' # r)" "number_stop (CHR '']'' # r)" "number_stop (CHR ''}'' # r)"
  by (simp_all add: number_stop_def number_char_def is_digit_def)

lemma zero_digit [simp]: "is_digit CHR ''0''"
  by (simp add: is_digit_def)

lemma number_stop_Cons:
  "number_stop (c # v) \<Longrightarrow>
     \<not> is_digit c \<and> c \<noteq> CHR ''+'' \<and> c \<noteq> CHR ''-'' \<and> c \<noteq> CHR ''.'' \<and> c \<noteq> CHR ''e'' \<and> c \<noteq> CHR ''E'' \<and> c \<noteq> CHR ''0''"
  using zero_digit by (cases "c = CHR ''0''") (auto simp: number_stop_def number_char_def)

lemma digits_stop:
  assumes "number_stop r"
  shows "takeWhile is_digit (t @ r) = takeWhile is_digit t"
    and "dropWhile is_digit (t @ r) = dropWhile is_digit t @ r"
proof -
  have "takeWhile is_digit r = []" "dropWhile is_digit r = r"
    using assms by (cases r; simp add: number_stop_Cons)+
  then show "takeWhile is_digit (t @ r) = takeWhile is_digit t"
      "dropWhile is_digit (t @ r) = dropWhile is_digit t @ r"
    by (induction t) simp_all
qed

lemma scan_sign_stop:
  assumes "number_stop r" and "set signs \<subseteq> set ''+-''"
  shows "scan_sign signs (t @ r) = apsnd (\<lambda>u. u @ r) (scan_sign signs t)"
proof (cases t)
  case Nil
  show ?thesis
  proof (cases r)
    case (Cons c v)
    then have "c \<notin> set signs" using number_stop_Cons [of c v] assms by auto
    with Nil Cons show ?thesis by (simp add: scan_sign_def)
  qed (simp add: Nil scan_sign_def)
qed (simp add: scan_sign_def)

lemma scan_int_stop:
  assumes "number_stop r"
  shows "scan_int (t @ r) = map_option (apsnd (\<lambda>u. u @ r)) (scan_int t)"
proof -
  obtain sign u where sign: "scan_sign ''-'' t = (sign, u)" by fastforce
  have sign': "scan_sign ''-'' (t @ r) = (sign, u @ r)"
    using scan_sign_stop [OF assms, of "''-''" t] sign by simp
  show ?thesis
  proof (cases u)
    case Nil
    have empty: "scan_int t = None" using sign Nil by (simp add: scan_int_def)
    show ?thesis
    proof (cases r)
      case (Cons c v)
      then have "c \<noteq> CHR ''0'' \<and> \<not> is_digit c" using assms number_stop_Cons by blast
      with sign' Cons Nil empty show ?thesis by (simp add: scan_int_def)
    qed (use empty in simp)
  next
    case (Cons c v)
    then show ?thesis
      using sign sign' by (simp add: scan_int_def digits_stop [OF assms])
  qed
qed

lemma scan_frac_stop:
  assumes "number_stop r"
  shows "scan_frac (t @ r) = apsnd (\<lambda>u. u @ r) (scan_frac t)"
proof (cases t)
  case Nil
  with assms show ?thesis by (cases r) (simp_all add: scan_frac_def number_stop_Cons)
next
  case (Cons c u)
  then show ?thesis using digits_stop [OF assms, of u] by (simp add: scan_frac_def)
qed

lemma scan_exp_stop:
  assumes "number_stop r"
  shows "scan_exp (t @ r) = apsnd (\<lambda>u. u @ r) (scan_exp t)"
proof (cases t)
  case Nil
  with assms show ?thesis
    by (cases r) (simp_all add: scan_exp_def number_stop_Cons split: prod.split)
next
  case (Cons c u)
  obtain sign v where "scan_sign ''+-'' u = (sign, v)" by fastforce
  with Cons scan_sign_stop [OF assms, of "''+-''" u] digits_stop [OF assms, of v]
  show ?thesis by (simp add: scan_exp_def)
qed

lemma scan_number_stop:
  assumes "number_stop r" and "scan_number t = Some (i, f, e, u)"
  shows "scan_number (t @ r) = Some (i, f, e, u @ r)"
  using assms(2) unfolding scan_number_def scan_int_stop [OF assms(1)]
  by (auto simp: scan_frac_stop [OF assms(1)] scan_exp_stop [OF assms(1)]
        split: option.splits prod.splits)

lemma scan_sign_eq: "scan_sign signs s = (sign, t) \<Longrightarrow> s = sign @ t \<and> set sign \<subseteq> set signs"
  by (cases s) (auto simp: scan_sign_def split: if_splits)

lemma takeWhile_number_chars: "set (takeWhile is_digit s) \<subseteq> {c. number_char c}"
  using set_takeWhileD [of _ is_digit s] by (auto simp: number_char_def)

lemma scan_int_eq:
  assumes "scan_int s = Some (i, t)"
  shows "s = i @ t" and "set i \<subseteq> {c. number_char c}" and "i \<noteq> []"
proof -
  obtain sign u where sign: "scan_sign ''-'' s = (sign, u)" by fastforce
  note eq = scan_sign_eq [OF sign]
  obtain c v where u: "u = c # v" using assms sign by (cases u) (auto simp: scan_int_def)
  have sign_chars: "set sign \<subseteq> {c. number_char c}" using eq by (auto simp: number_char_def)
  have "s = i @ t \<and> set i \<subseteq> {c. number_char c} \<and> i \<noteq> []"
  proof (cases "c = CHR ''0''")
    case True
    with assms sign u have "i = sign @ [c]" "t = v" by (auto simp: scan_int_def)
    with eq u sign_chars True show ?thesis by (simp add: number_char_def)
  next
    case False
    with assms sign u have "is_digit c" "i = sign @ takeWhile is_digit u" "t = dropWhile is_digit u"
      by (auto simp: scan_int_def split: if_splits)
    with eq u sign_chars takeWhile_number_chars [of u] show ?thesis by simp
  qed
  then show "s = i @ t" "set i \<subseteq> {c. number_char c}" "i \<noteq> []" by simp_all
qed

lemma scan_frac_eq:
  assumes "scan_frac s = (f, t)"
  shows "s = f @ t" and "set f \<subseteq> {c. number_char c}"
proof -
  have dot: "number_char CHR ''.''" by (simp add: number_char_def)
  show "s = f @ t" "set f \<subseteq> {c. number_char c}"
  proof (atomize (full), cases s)
    case (Cons c u)
    show "s = f @ t \<and> set f \<subseteq> {c. number_char c}"
      using assms Cons takeWhile_number_chars [of u] dot by (simp add: scan_frac_def split: if_splits) auto
  qed (use assms in \<open>simp add: scan_frac_def\<close>)
qed

lemma scan_exp_eq:
  assumes "scan_exp s = (e, t)"
  shows "s = e @ t" and "set e \<subseteq> {c. number_char c}"
proof -
  have chars: "set ''+-eE'' \<subseteq> {c. number_char c}" by (simp add: number_char_def)
  show "s = e @ t" "set e \<subseteq> {c. number_char c}"
  proof (atomize (full), cases s)
    case (Cons c u)
    obtain sign v where sign: "scan_sign ''+-'' u = (sign, v)" by fastforce
    from scan_sign_eq [OF sign] have "u = sign @ v" "set sign \<subseteq> {c. number_char c}"
      using chars by auto
    with assms Cons sign takeWhile_number_chars [of v] chars
    show "s = e @ t \<and> set e \<subseteq> {c. number_char c}"
      by (auto simp: scan_exp_def split: if_splits)
  qed (use assms in \<open>simp add: scan_exp_def\<close>)
qed

lemma scan_number_eq:
  assumes "scan_number s = Some (i, f, e, t)"
  shows "s = i @ f @ e @ t" and "set (i @ f @ e) \<subseteq> {c. number_char c}" and "i \<noteq> []"
proof -
  from assms obtain s1 s2 where parts: "scan_int s = Some (i, s1)" "scan_frac s1 = (f, s2)"
      "scan_exp s2 = (e, t)"
    by (auto simp: scan_number_def split: option.splits prod.splits)
  note int = scan_int_eq [OF parts(1)] and frac = scan_frac_eq [OF parts(2)]
    and exp = scan_exp_eq [OF parts(3)]
  show "s = i @ f @ e @ t" using int(1) frac(1) exp(1) by simp
  show "set (i @ f @ e) \<subseteq> {c. number_char c}" using int(2) frac(2) exp(2) by simp
  show "i \<noteq> []" by (rule int(3))
qed

lemma dec_digits_Cons_zero: "dec_digits n = CHR ''0'' # u \<Longrightarrow> u = []"
proof (induction n arbitrary: u rule: dec_digits.induct)
  case (1 n)
  show ?case
  proof (cases "n < 10")
    case True
    with "1.prems" show ?thesis by (simp add: dec_digits.simps [of n])
  next
    case False
    then have split: "dec_digits n = dec_digits (n div 10) @ [char_of (48 + n mod 10)]"
      by (simp add: dec_digits.simps [of n])
    obtain c v where top: "dec_digits (n div 10) = c # v"
      by (cases "dec_digits (n div 10)") (auto simp: dec_digits.simps [of "n div 10"] split: if_splits)
    with "1.prems" split have "c = CHR ''0''" by simp
    with top False "1.IH" have "dec_digits (n div 10) = ''0''" by simp
    then have "n div 10 = 0" using digits_value_dec_digits [of "n div 10"]
      by (simp add: digits_value_def digit_value_def)
    with False show ?thesis by simp
  qed
qed

lemma dec_digits_Cons: obtains c u where "dec_digits n = c # u" "is_digit c"
proof (cases "dec_digits n")
  case Nil
  then show ?thesis by (simp add: dec_digits.simps [of n] split: if_splits)
next
  case (Cons c u)
  with dec_digits_digits [of n] that show ?thesis by simp
qed

lemma takeWhile_digits: "list_all is_digit s \<Longrightarrow> takeWhile is_digit s = s \<and> dropWhile is_digit s = []"
  by (induction s) simp_all

lemma scan_int_digits:
  assumes "scan_sign ''-'' s = (sign, dec_digits n)"
  shows "scan_int s = Some (sign @ dec_digits n, [])"
proof -
  obtain c u where d: "dec_digits n = c # u" "is_digit c" by (rule dec_digits_Cons)
  note all = takeWhile_digits [OF dec_digits_digits [of n]]
  show ?thesis
  proof (cases "c = CHR ''0''")
    case True
    with d dec_digits_Cons_zero have "u = []" by simp
    with assms d True show ?thesis by (simp add: scan_int_def)
  next
    case False
    with assms d all show ?thesis by (simp add: scan_int_def)
  qed
qed

lemma dec_int_sign: "scan_sign ''-'' (dec_int n) = (if n < 0 then ''-'' else [], dec_digits (nat \<bar>n\<bar>))"
proof -
  obtain c u where d: "dec_digits (nat \<bar>n\<bar>) = c # u" "is_digit c" by (rule dec_digits_Cons)
  have "\<not> is_digit CHR ''-''" by (simp add: is_digit_def)
  with d(2) have "c \<noteq> CHR ''-''" by auto
  with d(1) show ?thesis by (simp add: dec_int_def scan_sign_def)
qed

lemma scan_number_dec_int: "scan_number (dec_int n) = Some (dec_int n, [], [], [])"
  using scan_int_digits [OF dec_int_sign [of n]]
  by (simp add: scan_number_def scan_frac_def scan_exp_def dec_int_def)

lemma int_value_dec_int [simp]: "int_value (dec_int n) = n"
  by (simp add: int_value_def dec_int_sign)

text \<open>The texts a float may have: a numeral with a fraction or an exponent that denotes it.\<close>

definition float_ok :: "float_codec \<Rightarrow> rat \<Rightarrow> bool" where
  "float_ok fl x \<longleftrightarrow>
     (case scan_number (fc_repr fl x) of
        Some (i, f, e, r) \<Rightarrow> r = [] \<and> (f \<noteq> [] \<or> e \<noteq> []) \<and> fc_value fl (fc_repr fl x) = Some x
      | None \<Rightarrow> False)"

lemma float_okE:
  assumes "float_ok fl x"
  obtains i f e where "scan_number (fc_repr fl x) = Some (i, f, e, [])" "f \<noteq> [] \<or> e \<noteq> []"
    "fc_value fl (fc_repr fl x) = Some x" "fc_repr fl x = i @ f @ e"
  using assms scan_number_eq(1) unfolding float_ok_def
  by (fastforce split: option.splits)

lemma scan_float:
  assumes "float_ok fl x" and "number_stop r"
  shows "scan_value_number fl (fc_repr fl x @ r) = Some (JsFloat x, r)"
  using assms(1)
proof (rule float_okE)
  fix i f e
  assume f: "scan_number (fc_repr fl x) = Some (i, f, e, [])" "f \<noteq> [] \<or> e \<noteq> []"
    "fc_value fl (fc_repr fl x) = Some x" "fc_repr fl x = i @ f @ e"
  from scan_number_stop [OF assms(2) f(1)]
  have "scan_number (fc_repr fl x @ r) = Some (i, f, e, r)" by simp
  with f(2,3) f(4) [symmetric] show ?thesis
    by (auto simp: scan_value_number_def float_json_def)
qed

lemma scan_dec_int:
  "number_stop r \<Longrightarrow> scan_value_number fl (dec_int n @ r) = Some (JsInt n, r)"
  using scan_number_stop [OF _ scan_number_dec_int] by (simp add: scan_value_number_def)

lemma number_text_printable: "set w \<subseteq> {c. number_char c} \<Longrightarrow> list_all printable w"
proof -
  assume w: "set w \<subseteq> {c. number_char c}"
  have "printable c" if "number_char c" for c
    using that by (auto simp: number_char_def printable_def is_digit_def Let_def)
  with w show ?thesis by (auto simp: list_all_iff)
qed

lemma dec_int_printable: "list_all printable (dec_int n)"
  using scan_number_eq(2) [OF scan_number_dec_int [of n]] by (intro number_text_printable) simp

lemma float_printable: "float_ok fl x \<Longrightarrow> list_all printable (fc_repr fl x)"
proof (erule float_okE)
  fix i f e
  assume f: "scan_number (fc_repr fl x) = Some (i, f, e, [])" "fc_repr fl x = i @ f @ e"
  from number_text_printable [OF scan_number_eq(2) [OF f(1)]]
  show "list_all printable (fc_repr fl x)" unfolding f(2) .
qed

section \<open>Key order\<close>

lemma sort_key_twice [simp]: "sort_key f (sort_key f xs) = sort_key f xs"
  by (rule sort_key_id_if_sorted) simp

text \<open>The values a dict can hold: distinct keys in every object, floats that have a text.\<close>

fun json_ok :: "float_codec \<Rightarrow> json \<Rightarrow> bool" where
  "json_ok fl (JsFloat x) = float_ok fl x"
| "json_ok fl (JsNonFinite s) = False"
| "json_ok fl (JsArray vs) = list_all (json_ok fl) vs"
| "json_ok fl (JsObject ps) = (distinct (map fst ps) \<and> list_all (\<lambda>(k, v). json_ok fl v) ps)"
| "json_ok fl v = True"

lemma pair_member: "(k, v) \<in> set ps \<Longrightarrow> \<exists>p \<in> set ps. v \<in> Basic_BNFs.snds p"
  by (force simp: snds.simps)

lemma json_text_canonical [simp]: "json_text fl (canonical_value v) = json_text fl v"
proof (induction v)
  case (JsArray vs)
  then have "map (json_text fl \<circ> canonical_value) vs = map (json_text fl) vs" by simp
  then show ?case by (simp only: canonical_value.simps json_text.simps map_map)
next
  case (JsObject ps)
  have "map_values (\<lambda>v. json_text fl (canonical_value v)) (sort_key fst ps) =
      map_values (json_text fl) (sort_key fst ps)"
    by (rule map_values_cong) (use JsObject pair_member in fastforce)+
  then show ?case by simp
qed simp_all

lemma canonical_idem [simp]: "canonical_value (canonical_value v) = canonical_value v"
proof (induction v)
  case (JsObject ps)
  have "map_values (\<lambda>v. canonical_value (canonical_value v)) (sort_key fst ps) =
      map_values canonical_value (sort_key fst ps)"
    by (rule map_values_cong) (use JsObject pair_member in fastforce)+
  then show ?case by simp
qed simp_all

lemma json_ok_canonical: "json_ok fl v \<Longrightarrow> json_ok fl (canonical_value v)"
proof (induction v)
  case (JsArray vs)
  then show ?case by (auto simp: list_all_iff)
next
  case (JsObject ps)
  have all: "json_ok fl (canonical_value v)" if "(k, v) \<in> set ps" for k v
    using JsObject that pair_member [OF that] by (auto simp: list_all_iff)
  have "distinct (map fst (sort_key fst ps))" using JsObject.prems by (simp add: distinct_map)
  moreover have "list_all (\<lambda>(k, v). json_ok fl v) (map_values canonical_value (sort_key fst ps))"
    using all by (auto simp: list_all_iff map_values_def)
  ultimately show ?case by simp
qed simp_all

lemma json_ok_finite: "json_ok fl v \<Longrightarrow> json_finite v"
proof (induction v)
  case (JsArray vs)
  then show ?case by (auto simp: list_all_iff)
next
  case (JsObject ps)
  then show ?case using pair_member by (fastforce simp: list_all_iff)
qed simp_all

lemma canonical_json_ok [simp]: "json_ok fl v \<Longrightarrow> canonical_json fl v = Inr (json_text fl v)"
  by (simp add: canonical_json_def json_ok_finite)

lemma punctuation_printable [simp]:
  "printable CHR '',''" "printable CHR '':''" "printable CHR ''[''" "printable CHR '']''"
  "printable CHR ''{''" "printable CHR ''}''"
  "list_all printable ''null''" "list_all printable ''true''" "list_all printable ''false''"
  by (simp_all add: printable_def)

lemma list_all_join:
  "list_all P sep \<Longrightarrow> (\<And>p. p \<in> set ps \<Longrightarrow> list_all P p) \<Longrightarrow> list_all P (join_with sep ps)"
  by (induction sep ps rule: join_with.induct) simp_all

lemma json_text_printable: "json_ok fl v \<Longrightarrow> list_all printable (json_text fl v)"
proof (induction v)
  case (JsArray vs)
  then have "list_all printable (join_with '','' (map (json_text fl) vs))"
    by (intro list_all_join) (auto simp: list_all_iff)
  then show ?case by simp
next
  case (JsObject ps)
  have all: "list_all printable (json_text fl v)" if "(k, v) \<in> set ps" for k v
    using JsObject that pair_member [OF that] by (auto simp: list_all_iff)
  have "list_all printable (join_with '','' (map json_member (map_values (json_text fl) (sort_key fst ps))))"
  proof (rule list_all_join)
    fix p
    assume "p \<in> set (map json_member (map_values (json_text fl) (sort_key fst ps)))"
    then obtain k v where "(k, v) \<in> set ps" "p = json_quote k @ '':'' @ json_text fl v"
      by (auto simp: map_values_def)
    with all show "list_all printable p" by (simp add: json_quote_printable)
  qed simp
  then show ?case by simp
next
  case JsNull
  show ?case by (simp only: json_text.simps punctuation_printable)
next
  case (JsBool b)
  show ?case by (simp only: json_text.simps punctuation_printable split: if_split) simp
qed (simp_all add: float_printable dec_int_printable json_quote_printable)

section \<open>Reading back what was written\<close>

lemma dict_of_distinct: "distinct (map fst ps) \<Longrightarrow> dict_of ps = ps"
proof -
  have "distinct (map fst (d @ ps)) \<Longrightarrow> foldl (\<lambda>d (k, v). AList.update k v d) d ps = d @ ps" for d
  proof (induction ps arbitrary: d)
    case (Cons p ps)
    obtain k v where p: "p = (k, v)" by fastforce
    have "k \<notin> fst ` set d" using Cons.prems p by auto
    then have "AList.update k v d = d @ [p]" using p by (simp add: update_append)
    then show ?case using Cons.IH [of "d @ [p]"] Cons.prems p by simp
  qed simp
  from this [of "[]"] show "distinct (map fst ps) \<Longrightarrow> ?thesis" by (simp add: dict_of_def)
qed

lemma number_head:
  assumes "scan_number w = Some (i, f, e, t)"
  obtains c r where "w = c # r" "c = CHR ''-'' \<or> is_digit c" "c = CHR ''-'' \<Longrightarrow> take 9 (w @ s) \<noteq> ''-Infinity''"
proof -
  obtain sign u where sign: "scan_sign ''-'' w = (sign, u)" by fastforce
  obtain s1 where int: "scan_int w = Some (i, s1)"
    using assms by (auto simp: scan_number_def split: option.splits prod.splits)
  obtain d v where u: "u = d # v" using int sign by (cases u) (auto simp: scan_int_def)
  have digit: "is_digit d" using int sign u by (auto simp: scan_int_def split: if_splits)
  then have "d \<noteq> CHR ''I''" by (auto simp: is_digit_def)
  show ?thesis
  proof (cases sign)
    case Nil
    with scan_sign_eq [OF sign] u have w: "w = d # v" by simp
    have "d \<noteq> CHR ''-''" using digit by (auto simp: is_digit_def)
    with w digit that show ?thesis by blast
  next
    case (Cons a b)
    with sign have "a = CHR ''-''" "b = []" by (auto simp: scan_sign_def split: list.splits if_splits)
    with scan_sign_eq [OF sign] u Cons have "w = CHR ''-'' # d # v" by simp
    with \<open>d \<noteq> CHR ''I''\<close> that show ?thesis by simp
  qed
qed

lemma not_digits: "\<not> is_digit CHR 0x22" "\<not> is_digit CHR ''n''" "\<not> is_digit CHR ''t''"
    "\<not> is_digit CHR ''f''" "\<not> is_digit CHR ''N''" "\<not> is_digit CHR ''I''" "\<not> is_digit CHR ''[''"
    "\<not> is_digit CHR ''{''" "\<not> is_digit CHR ''-''" "\<not> is_digit CHR 0x20" "\<not> is_digit CHR 0x09"
    "\<not> is_digit CHR 0x0A" "\<not> is_digit CHR 0x0D" "\<not> is_digit CHR '']''" "\<not> is_digit CHR ''}''"
  by (simp_all add: is_digit_def)

lemma scan_atom_number:
  assumes "scan_number w = Some (i, f, e, t)"
  shows "scan_atom fl (w @ r) = scan_value_number fl (w @ r)"
proof (rule number_head [OF assms, of r])
  fix c u
  assume w: "w = c # u" "c = CHR ''-'' \<or> is_digit c"
    and inf: "c = CHR ''-'' \<Longrightarrow> take 9 (w @ r) \<noteq> ''-Infinity''"
  have "take 9 (w @ r) \<noteq> ''-Infinity''"
    by (cases "c = CHR ''-''") (use inf w in \<open>auto simp: not_digits\<close>)
  moreover have "c \<noteq> CHR 0x22" "c \<noteq> CHR ''n''" "c \<noteq> CHR ''t''" "c \<noteq> CHR ''f''" "c \<noteq> CHR ''N''"
      "c \<noteq> CHR ''I''"
    using w(2) not_digits by auto
  ultimately show ?thesis
    unfolding w(1) append_Cons scan_atom_def list.case by (simp only: if_False)
qed

lemma join_with_head [simp]: "join_with sep ((c # p) # ps) = c # join_with sep (p # ps)"
  by (cases ps) simp_all

lemma json_text_head:
  assumes "json_ok fl v"
  obtains c r where "json_text fl v = c # r" "\<not> json_space c" "c \<noteq> CHR '']''" "c \<noteq> CHR ''}''"
proof -
  note found = that
  have number: thesis if w: "json_text fl v = w" "scan_number w = Some (i, f, e, t)" for w i f e t
  proof (rule number_head [OF w(2), of "[]"])
    fix c r
    assume c: "w = c # r" "c = CHR ''-'' \<or> is_digit c"
    then have "\<not> json_space c" "c \<noteq> CHR '']''" "c \<noteq> CHR ''}''"
      using not_digits by (auto simp: json_space_def)
    with c(1) w(1) found show thesis by blast
  qed
  show thesis
  proof (cases v)
    case (JsInt n)
    with number [OF _ scan_number_dec_int] show thesis by simp
  next
    case (JsFloat x)
    with assms obtain i f e where "scan_number (fc_repr fl x) = Some (i, f, e, [])"
      by (auto elim: float_okE)
    with number JsFloat show thesis by simp
  next
    case (JsBool b)
    with found show thesis by (cases b) (auto simp: json_space_def)
  qed (use assms found in \<open>auto simp: json_space_def json_quote_def split: if_splits\<close>)
qed

lemma skip_space_text [simp]:
  "json_ok fl v \<Longrightarrow> skip_space (json_text fl v @ r) = json_text fl v @ r"
  by (erule json_text_head [of fl v]) simp

definition reads_back :: "float_codec \<Rightarrow> json \<Rightarrow> bool" where
  "reads_back fl v \<longleftrightarrow> json_ok fl v \<and>
     (\<forall>n r. number_stop r \<longrightarrow> 2 * length (json_text fl v) < n \<longrightarrow>
        parse_value fl n (json_text fl v @ r) = Some (canonical_value v, r))"

lemma reads_backD:
  "reads_back fl v \<Longrightarrow> number_stop r \<Longrightarrow> 2 * length (json_text fl v) < n \<Longrightarrow>
     parse_value fl n (json_text fl v @ r) = Some (canonical_value v, r)"
  by (simp add: reads_back_def)

lemma reads_back_ok: "reads_back fl v \<Longrightarrow> json_ok fl v"
  by (simp add: reads_back_def)

lemma json_space_simps [simp]:
  "\<not> json_space CHR '',''" "\<not> json_space CHR '']''" "\<not> json_space CHR ''}''" "\<not> json_space CHR '':''"
  "\<not> json_space CHR 0x22"
  by (simp_all add: json_space_def)

lemma parse_items_text:
  assumes "vs \<noteq> []" and "\<And>v. v \<in> set vs \<Longrightarrow> reads_back fl v"
    and "2 * length (join_with '','' (map (json_text fl) vs)) + 2 \<le> n"
  shows "parse_items fl n (join_with '','' (map (json_text fl) vs) @ CHR '']'' # r) =
    Some (map canonical_value vs, r)"
  using assms
proof (induction vs arbitrary: n)
  case (Cons v vs)
  then obtain m where n: "n = Suc m" by (cases n) simp_all
  have v: "reads_back fl v" by (rule Cons.prems(2)) simp
  show ?case
  proof (cases vs)
    case Nil
    with Cons.prems(3) n reads_backD [OF v] show ?thesis by simp
  next
    case (Cons w ws)
    have "reads_back fl w" by (rule Cons.prems(2)) (simp add: Cons)
    then have w: "json_ok fl w" by (rule reads_back_ok)
    have skip: "skip_space (join_with '','' (map (json_text fl) vs) @ CHR '']'' # r) =
        join_with '','' (map (json_text fl) vs) @ CHR '']'' # r"
      unfolding Cons by (cases ws) (simp_all add: w)
    have "parse_items fl m (join_with '','' (map (json_text fl) vs) @ CHR '']'' # r) =
        Some (map canonical_value vs, r)"
      by (rule Cons.IH) (use Cons Cons.prems n in simp_all)
    with skip Cons.prems(3) n reads_backD [OF v] show ?thesis by (simp add: Cons)
  qed
qed simp

lemma parse_members_text:
  assumes "ps \<noteq> []" and "\<And>k v. (k, v) \<in> set ps \<Longrightarrow> reads_back fl v"
    and "2 * length (join_with '','' (map json_member (map_values (json_text fl) ps))) + 1 \<le> n"
  shows "parse_members fl n
      (join_with '','' (map json_member (map_values (json_text fl) ps)) @ CHR ''}'' # r) =
    Some (map_values canonical_value ps, r)"
  using assms
proof (induction ps arbitrary: n)
  case (Cons p ps)
  then obtain m where n: "n = Suc m" by (cases n) simp_all
  obtain k v where p: "p = (k, v)" by fastforce
  have v: "reads_back fl v" by (rule Cons.prems(2) [of k]) (simp add: p)
  have rest: "reads_back fl v" if "(k, v) \<in> set ps" for k v
    by (rule Cons.prems(2) [of k]) (simp add: that)
  note ok = reads_back_ok [OF v]
  show ?case
  proof (cases ps)
    case Nil
    with Cons.prems(3) n p ok reads_backD [OF v] show ?thesis by (simp add: json_quote_def)
  next
    case (Cons q qs)
    obtain k' v' where q: "q = (k', v')" by fastforce
    have skip: "skip_space (join_with '','' (map json_member (map_values (json_text fl) ps)) @ CHR ''}'' # r) =
        join_with '','' (map json_member (map_values (json_text fl) ps)) @ CHR ''}'' # r"
      unfolding Cons q by (simp add: json_quote_def)
    have "parse_members fl m
        (join_with '','' (map json_member (map_values (json_text fl) ps)) @ CHR ''}'' # r) =
        Some (map_values canonical_value ps, r)"
      by (rule Cons.IH) (use Cons rest Cons.prems(3) n p in \<open>simp_all add: q\<close>)
    with skip Cons.prems(3) n p ok reads_backD [OF v] show ?thesis
      by (simp add: Cons q json_quote_def)
  qed
qed simp

lemma parse_atom:
  assumes "scan_atom fl s = Some (v, r)" and "s = c # t" "c \<noteq> CHR ''[''" "c \<noteq> CHR ''{''"
  shows "0 < n \<Longrightarrow> parse_value fl n s = Some (v, r)"
  using assms by (cases n) simp_all

lemma parse_number:
  assumes "scan_number w = Some (i, f, e, t)" and "scan_value_number fl (w @ r) = Some (v, r)" and "0 < n"
  shows "parse_value fl n (w @ r) = Some (v, r)"
proof (rule number_head [OF assms(1), of "[]"])
  fix c u
  assume "w = c # u" "c = CHR ''-'' \<or> is_digit c"
  moreover then have "c \<noteq> CHR ''[''" "c \<noteq> CHR ''{''" using not_digits by auto
  ultimately show ?thesis
    using parse_atom [of fl "w @ r" v r c "u @ r" n] scan_atom_number [OF assms(1)] assms(2,3) by simp
qed

lemma reads_back_text: "json_ok fl v \<Longrightarrow> reads_back fl v"
proof (induction v)
  case (JsInt k)
  show ?case
    unfolding reads_back_def
    using parse_number [OF scan_number_dec_int scan_dec_int] by simp
next
  case (JsFloat x)
  then obtain i f e where "scan_number (fc_repr fl x) = Some (i, f, e, [])"
    by (auto elim: float_okE)
  with JsFloat show ?case
    unfolding reads_back_def using parse_number [OF _ scan_float] by simp
next
  case (JsStr s)
  show ?case unfolding reads_back_def
    by (auto simp: json_quote_def scan_atom_def intro!: parse_atom)
next
  case (JsArray vs)
  have all: "reads_back fl v" if "v \<in> set vs" for v
    using JsArray that by (auto simp: list_all_iff)
  show ?case unfolding reads_back_def
  proof (intro conjI allI impI)
    fix n r
    assume fuel: "2 * length (json_text fl (JsArray vs)) < n"
    then obtain m where n: "n = Suc m" by (cases n) simp_all
    show "parse_value fl n (json_text fl (JsArray vs) @ r) = Some (canonical_value (JsArray vs), r)"
    proof (cases vs)
      case (Cons v ws)
      with all [of v] have ok: "json_ok fl v" by (simp add: reads_back_ok)
      then obtain c t where head: "json_text fl v = c # t" "\<not> json_space c" "c \<noteq> CHR '']''"
        by (rule json_text_head)
      then obtain t' where start: "join_with '','' (map (json_text fl) vs) = c # t'"
        unfolding Cons by (cases ws) simp_all
      have "parse_items fl m (join_with '','' (map (json_text fl) vs) @ CHR '']'' # r) =
          Some (map canonical_value vs, r)"
        by (rule parse_items_text) (use all Cons fuel n in simp_all)
      with start head n show ?thesis by simp
    qed (use n in simp)
  qed (use JsArray in simp)
next
  case (JsObject ps)
  let ?qs = "sort_key fst ps"
  have all: "reads_back fl v" if "(k, v) \<in> set ?qs" for k v
    using JsObject pair_member [of k v ps] that by (auto simp: list_all_iff)
  show ?case unfolding reads_back_def
  proof (intro conjI allI impI)
    fix n r
    assume fuel: "2 * length (json_text fl (JsObject ps)) < n"
    then obtain m where n: "n = Suc m" by (cases n) simp_all
    show "parse_value fl n (json_text fl (JsObject ps) @ r) = Some (canonical_value (JsObject ps), r)"
    proof (cases "?qs")
      case Nil
      then show ?thesis using n by simp
    next
      case (Cons q qs)
      obtain k v where q: "q = (k, v)" by fastforce
      obtain t where start: "join_with '','' (map json_member (map_values (json_text fl) ?qs)) = CHR 0x22 # t"
        unfolding Cons q by (simp add: json_quote_def)
      have members: "parse_members fl m
          (join_with '','' (map json_member (map_values (json_text fl) ?qs)) @ CHR ''}'' # r) =
          Some (map_values canonical_value ?qs, r)"
        by (rule parse_members_text) (use all Cons fuel n in simp_all)
      have "distinct (map fst ps)" using JsObject.prems by simp
      then have "distinct (map fst ?qs)"
        by (simp add: distinct_map)
      then have "dict_of (map_values canonical_value ?qs) = map_values canonical_value ?qs"
        by (intro dict_of_distinct) simp
      with start members n show ?thesis by simp
    qed
  qed (use JsObject in simp)
qed (auto simp: reads_back_def scan_atom_def scan_word_def intro!: parse_atom)

section \<open>The fuel is enough\<close>

lemma skip_space_le: "skip_space s = d # r \<Longrightarrow> Suc (length r) \<le> length s"
  using length_dropWhile_le [of json_space s] by simp

lemma scan_string_shorter: "scan_string s = Some (k, r) \<Longrightarrow> length r < length s"
proof (induction s arbitrary: k rule: scan_string.induct)
  case (2 c s)
  then show ?case
    by (fastforce split: if_splits list.splits option.splits)
qed simp

lemma if_SomeE: "(if b then x else y) = Some z \<Longrightarrow> (x = Some z \<Longrightarrow> P) \<Longrightarrow> (y = Some z \<Longrightarrow> P) \<Longrightarrow> P"
  by (simp split: if_splits)

lemma scan_atom_shorter: "scan_atom fl s = Some (v, r) \<Longrightarrow> length r < length s"
proof -
  assume atom: "scan_atom fl s = Some (v, r)"
  then obtain c t where s: "s = c # t" by (cases s) (simp_all add: scan_atom_def)
  have word: "scan_word (a # w) x (c # t) = Some (v, r) \<Longrightarrow> length r < length (c # t)" for a w x
    by (auto simp: scan_word_def split: if_splits)
  have number: "scan_value_number fl (c # t) = Some (v, r) \<Longrightarrow> length r < length (c # t)"
  proof -
    assume "scan_value_number fl (c # t) = Some (v, r)"
    then obtain i f e where n: "scan_number (c # t) = Some (i, f, e, r)"
      by (auto simp: scan_value_number_def split: option.splits)
    from arg_cong [OF scan_number_eq(1) [OF n], of length] scan_number_eq(3) [OF n]
    show ?thesis by (cases i) simp_all
  qed
  have string: "map_option (apfst JsStr) (scan_string t) = Some (v, r) \<Longrightarrow> length r < length (c # t)"
    by (auto dest: scan_string_shorter)
  show ?thesis
    using atom unfolding s scan_atom_def list.case
    by (elim if_SomeE) (erule string word number)+
qed

lemma parse_shorter:
  "parse_value fl n s = Some (v, r) \<Longrightarrow> length r < length s"
  "parse_items fl n s = Some (vs, r) \<Longrightarrow> length r < length s"
  "parse_members fl n s = Some (ps, r) \<Longrightarrow> length r < length s"
proof (induction fl n s and fl n s and fl n s arbitrary: v r and vs r and ps r
    rule: parse_value_parse_items_parse_members.induct)
  case (2 fl n s)
  obtain c t where s: "s = c # t" using "2.prems" by (cases s) simp_all
  show ?case
  proof (cases "c = CHR ''['' \<or> c = CHR ''{''")
    case True
    then obtain d t' where t: "skip_space t = d # t'" using "2.prems" s
      by (cases "skip_space t") (auto simp del: dropWhile_eq_Nil_conv)
    from skip_space_le [OF t] "2.prems" "2.IH" True s t show ?thesis
      by (fastforce split: if_splits)
  next
    case False
    with "2.prems" s have "scan_atom fl s = Some (v, r)" by simp
    then show ?thesis by (rule scan_atom_shorter)
  qed
next
  case (4 fl n s)
  then obtain w t where w: "parse_value fl n s = Some (w, t)" by (auto split: option.splits)
  then obtain d t' where t: "skip_space t = d # t'" using "4.prems" by (cases "skip_space t") auto
  have short: "length (skip_space t') \<le> length t'" by (rule length_dropWhile_le)
  from "4.IH"(1) [OF w] skip_space_le [OF t] short "4.prems" "4.IH"(2) w t show ?case
    by (fastforce split: if_splits)
next
  case (6 fl n s)
  then obtain t where s: "s = CHR 0x22 # t" by (cases s) (auto split: if_splits)
  with "6.prems" obtain k t1 where k: "scan_string t = Some (k, t1)" by (auto split: option.splits)
  with "6.prems" s obtain t2 where t1: "skip_space t1 = CHR '':'' # t2"
    by (auto split: list.splits if_splits)
  with "6.prems" s k obtain w t3 where w: "parse_value fl n (skip_space t2) = Some (w, t3)"
    by (auto split: option.splits)
  with "6.prems" s k t1 obtain d t4 where t3: "skip_space t3 = d # t4"
    by (auto split: list.splits)
  have short: "length (skip_space t2) \<le> length t2" "length (skip_space t4) \<le> length t4"
    by (rule length_dropWhile_le)+
  have "length t3 < length (skip_space t2)"
    using "6.IH"(1) s k t1 w by auto
  with scan_string_shorter [OF k] skip_space_le [OF t1] skip_space_le [OF t3] short
  have less: "length (skip_space t4) < length s" "length t4 < length s" using s by simp_all
  show ?case
  proof (cases "d = CHR ''}''")
    case True
    with "6.prems" s k t1 w t3 less show ?thesis by auto
  next
    case False
    with "6.prems" s k t1 w t3 obtain qs where "parse_members fl n (skip_space t4) = Some (qs, r)"
      by (auto split: if_splits)
    with "6.IH"(2) s k t1 w t3 False "6.prems" less show ?thesis
      by (fastforce split: if_splits)
  qed
qed simp_all

lemma parse_more_fuel:
  "2 * length s < n \<Longrightarrow> parse_value fl (Suc n) s = parse_value fl n s"
  "2 * length s + 1 < n \<Longrightarrow> parse_items fl (Suc n) s = parse_items fl n s"
  "2 * length s < n \<Longrightarrow> parse_members fl (Suc n) s = parse_members fl n s"
proof (induction n arbitrary: s)
  case (Suc n)
  {
    case 1
    show ?case
    proof (cases s)
      case (Cons c t)
      have less: "parse_items fl (Suc n) (d # t') = parse_items fl n (d # t')"
          "parse_members fl (Suc n) (d # t') = parse_members fl n (d # t')"
        if "skip_space t = d # t'" for d t'
        by (rule Suc.IH(2) Suc.IH(3), use skip_space_le [OF that] 1 Cons in simp)+
      show ?thesis
      proof (cases "skip_space t")
        case (Cons d t')
        then show ?thesis
          unfolding \<open>s = c # t\<close> parse_value.simps(2) list.case by (simp only: less list.case)
      qed (simp add: \<open>s = c # t\<close> del: dropWhile_eq_Nil_conv)
    qed simp
  next
    case 2
    have same: "parse_value fl (Suc n) s = parse_value fl n s" by (rule Suc.IH(1)) (use 2 in simp)
    have less: "parse_items fl (Suc n) (skip_space t') = parse_items fl n (skip_space t')"
      if v: "parse_value fl n s = Some (v, t)" and t: "skip_space t = d # t'" for v t d t'
      by (rule Suc.IH(2)) (use parse_shorter(1) [OF v] skip_space_le [OF t]
        length_dropWhile_le [of json_space t'] 2 in simp)
    show ?case
    proof (cases "parse_value fl n s")
      case (Some p)
      obtain v t where p: "p = (v, t)" by fastforce
      show ?thesis
      proof (cases "skip_space t")
        case (Cons d t')
        then show ?thesis
          by (simp only: parse_items.simps(2) [of fl "Suc n" s] parse_items.simps(2) [of fl n s]
              same Some p option.case prod.case list.case less [OF Some [unfolded p] Cons])
      qed (simp only: parse_items.simps(2) [of fl "Suc n" s] parse_items.simps(2) [of fl n s]
          same Some p option.case prod.case list.case)
    qed (simp only: parse_items.simps(2) [of fl "Suc n" s] parse_items.simps(2) [of fl n s]
        same option.case)
  next
    case 3
    show ?case
    proof (cases s)
      case (Cons c t)
      have same: "parse_value fl (Suc n) (skip_space t2) = parse_value fl n (skip_space t2)"
        if k: "scan_string t = Some (k, t1)" and t1: "skip_space t1 = d # t2" for k t1 d t2
        by (rule Suc.IH(1)) (use scan_string_shorter [OF k] skip_space_le [OF t1]
          length_dropWhile_le [of json_space t2] 3 Cons in simp)
      have less: "parse_members fl (Suc n) (skip_space t4) = parse_members fl n (skip_space t4)"
        if k: "scan_string t = Some (k, t1)" and t1: "skip_space t1 = d # t2"
          and v: "parse_value fl n (skip_space t2) = Some (v, t3)" and t3: "skip_space t3 = d' # t4"
        for k t1 d t2 v t3 d' t4
        by (rule Suc.IH(3)) (use scan_string_shorter [OF k] skip_space_le [OF t1]
          length_dropWhile_le [of json_space t2] parse_shorter(1) [OF v] skip_space_le [OF t3]
          length_dropWhile_le [of json_space t4] 3 Cons in simp)
      note step = parse_members.simps(2) [of fl "Suc n" "c # t"] parse_members.simps(2) [of fl n "c # t"]
        Cons list.case option.case prod.case
      show ?thesis
      proof (cases "scan_string t")
        case None
        show ?thesis by (simp only: step None)
      next
        case string: (Some p)
        obtain k t1 where p: "p = (k, t1)" by fastforce
        note k = string [unfolded p]
        show ?thesis
        proof (cases "skip_space t1")
          case Nil
          show ?thesis by (simp only: step k Nil)
        next
          case t1: (Cons d t2)
          show ?thesis
          proof (cases "parse_value fl n (skip_space t2)")
            case None
            show ?thesis by (simp only: step k t1 same [OF k t1] None)
          next
            case parsed: (Some q)
            obtain v t3 where q: "q = (v, t3)" by fastforce
            note v = parsed [unfolded q]
            show ?thesis
            proof (cases "skip_space t3")
              case Nil
              show ?thesis by (simp only: step k t1 same [OF k t1] v Nil)
            next
              case t3: (Cons d' t4)
              show ?thesis by (simp only: step k t1 same [OF k t1] v t3 less [OF k t1 v t3])
            qed
          qed
        qed
      qed
    qed simp
  }
qed simp_all

lemma parse_enough_fuel:
  assumes "2 * length s < n" and "n \<le> m"
  shows "parse_value fl m s = parse_value fl n s"
  using assms(2)
proof (induction m rule: dec_induct)
  case (step m)
  with assms(1) have "2 * length s < m" by simp
  with parse_more_fuel(1) step.IH show ?case by simp
qed simp

declare parse_value.simps [simp del] parse_items.simps [simp del] parse_members.simps [simp del]

lemma json_loads_text: "json_ok fl v \<Longrightarrow> json_loads fl (json_text fl v) = Inr (canonical_value v)"
  using reads_backD [OF reads_back_text, of fl v "[]" "2 * length (json_text fl v) + 2"]
    skip_space_text [of fl v "[]"]
  by (simp add: json_loads_def)

text \<open>Surrounding white space, such as the newline that ends a line of a file, is no part of the
  value.\<close>

lemma json_loads_newline:
  assumes "json_ok fl v"
  shows "json_loads fl (json_text fl v @ [CHR 0x0A]) = Inr (canonical_value v)"
proof -
  have "number_stop [CHR 0x0A]" by (simp add: number_stop_def number_char_def is_digit_def)
  from reads_backD [OF reads_back_text [OF assms] this, of "2 * length (json_text fl v @ [CHR 0x0A]) + 2"]
    skip_space_text [OF assms, of "[CHR 0x0A]"]
  show ?thesis by (simp add: json_loads_def json_space_def)
qed


section \<open>Values that were read\<close>

text \<open>A float that \<open>float\<close> returns has a text that reads back.\<close>

definition float_codec_ok :: "float_codec \<Rightarrow> bool" where
  "float_codec_ok fl \<longleftrightarrow> (\<forall>w x. fc_value fl w = Some x \<longrightarrow> float_ok fl x)"

lemma set_update_le: "set (AList.update k v d) \<subseteq> insert (k, v) (set d)"
  by (induction d) auto

lemma dict_of_keys: "distinct (map fst (dict_of ps)) \<and> set (dict_of ps) \<subseteq> set ps"
proof -
  have "distinct (map fst d) \<Longrightarrow>
      distinct (map fst (foldl (\<lambda>d (k, v). AList.update k v d) d ps)) \<and>
      set (foldl (\<lambda>d (k, v). AList.update k v d) d ps) \<subseteq> set d \<union> set ps" for d
  proof (induction ps arbitrary: d)
    case (Cons p ps)
    obtain k v where p: "p = (k, v)" by fastforce
    have "distinct (map fst (AList.update k v d))" using Cons.prems by (rule distinct_update)
    from Cons.IH [OF this] show ?case using set_update_le [of k v d] p by auto
  qed simp
  from this [of "[]"] show ?thesis by (simp add: dict_of_def)
qed

lemma scan_atom_ok:
  assumes "float_codec_ok fl" and "scan_atom fl s = Some (v, r)" and "json_finite v"
  shows "json_ok fl v"
proof -
  obtain c t where s: "s = c # t" using assms(2) by (cases s) (simp_all add: scan_atom_def)
  have word: "scan_word w x (c # t) = Some (v, r) \<Longrightarrow> (json_finite x \<Longrightarrow> json_ok fl x) \<Longrightarrow> json_ok fl v"
    for w x using assms(3) by (auto simp: scan_word_def split: if_splits)
  have number: "scan_value_number fl (c # t) = Some (v, r) \<Longrightarrow> json_ok fl v"
    using assms(1,3) by (auto simp: scan_value_number_def float_json_def float_codec_ok_def
        split: option.splits if_splits)
  have string: "map_option (apfst JsStr) (scan_string t) = Some (v, r) \<Longrightarrow> json_ok fl v" by auto
  show ?thesis
    using assms(2) unfolding s scan_atom_def list.case
    by (elim if_SomeE) (erule string | erule number | (erule word, simp))+
qed

lemma parse_ok:
  assumes "float_codec_ok fl"
  shows "parse_value fl n s = Some (v, r) \<Longrightarrow> json_finite v \<Longrightarrow> json_ok fl v"
    and "parse_items fl n s = Some (vs, r) \<Longrightarrow> list_all json_finite vs \<Longrightarrow> list_all (json_ok fl) vs"
    and "parse_members fl n s = Some (ps, r) \<Longrightarrow>
      (\<And>k v. (k, v) \<in> set ps \<Longrightarrow> json_finite v \<Longrightarrow> json_ok fl v)"
  using assms
proof (induction fl n s and fl n s and fl n s arbitrary: v r and vs r and ps r
    rule: parse_value_parse_items_parse_members.induct)
  case (2 fl n s)
  obtain c t where s: "s = c # t" using "2.prems"(1) by (cases s) (simp_all add: parse_value.simps)
  show ?case
  proof (cases "c = CHR ''['' \<or> c = CHR ''{''")
    case True
    then obtain d t' where t: "skip_space t = d # t'" using "2.prems"(1) s
      by (cases "skip_space t") (auto simp: parse_value.simps simp del: dropWhile_eq_Nil_conv)
    show ?thesis
    proof (cases "c = CHR ''[''")
      case True
      then show ?thesis
        using "2.prems" "2.IH"(1) s t
        by (auto simp: parse_value.simps list_all_iff split: if_splits)
    next
      case False
      then have c: "c = CHR ''{''" using \<open>c = CHR ''['' \<or> c = CHR ''{''\<close> by simp
      show ?thesis
      proof (cases "d = CHR ''}''")
        case True
        then show ?thesis using "2.prems"(1) s t c by (auto simp: parse_value.simps)
      next
        case False
        then obtain ps where ps: "parse_members fl n (d # t') = Some (ps, r)" "v = JsObject (dict_of ps)"
          using "2.prems"(1) s t c by (auto simp: parse_value.simps)
        have "json_ok fl w" if "(k, w) \<in> set (dict_of ps)" for k w
        proof (rule "2.IH"(2) [OF s _ c t False ps(1)])
          show "c \<noteq> CHR ''[''" using c by simp
          show "(k, w) \<in> set ps" using that dict_of_keys [of ps] by blast
          show "json_finite w" using "2.prems"(2) that by (auto simp: ps(2) list_all_iff)
        qed (rule "2.prems"(3))
        then show ?thesis using dict_of_keys [of ps] by (auto simp: ps(2) list_all_iff)
      qed
    qed
  next
    case False
    with "2.prems"(1) s have "scan_atom fl s = Some (v, r)" by (simp add: parse_value.simps)
    then show ?thesis using scan_atom_ok "2.prems" by blast
  qed
next
  case (4 fl n s)
  then obtain w t where w: "parse_value fl n s = Some (w, t)" by (auto simp: parse_items.simps split: option.splits)
  then obtain d t' where t: "skip_space t = d # t'" using "4.prems"(1)
    by (cases "skip_space t") (auto simp: parse_items.simps simp del: dropWhile_eq_Nil_conv)
  show ?case
    using "4.prems" "4.IH" w t by (fastforce simp: parse_items.simps split: if_splits)
next
  case (6 fl n s)
  then obtain t where s: "s = CHR 0x22 # t" by (cases s) (auto simp: parse_members.simps split: if_splits)
  with "6.prems"(1) obtain k' t1 where k': "scan_string t = Some (k', t1)"
    by (auto simp: parse_members.simps split: option.splits)
  with "6.prems"(1) s obtain t2 where t1: "skip_space t1 = CHR '':'' # t2"
    by (auto simp: parse_members.simps split: list.splits if_splits)
  with "6.prems"(1) s k' obtain w t3 where w: "parse_value fl n (skip_space t2) = Some (w, t3)"
    by (auto simp: parse_members.simps split: option.splits)
  with "6.prems"(1) s k' t1 obtain d t4 where t3: "skip_space t3 = d # t4"
    by (auto simp: parse_members.simps split: list.splits)
  have head: "json_finite w \<Longrightarrow> json_ok fl w"
    using "6.IH"(1) s k' t1 w "6.prems"(4) by auto
  show ?case
  proof (cases "d = CHR ''}''")
    case True
    with "6.prems" s k' t1 w t3 head show ?thesis by (auto simp: parse_members.simps)
  next
    case False
    with "6.prems"(1) s k' t1 w t3 obtain qs where qs: "parse_members fl n (skip_space t4) = Some (qs, r)"
        "ps = (k', w) # qs" and d: "d = CHR '',''"
      by (auto simp: parse_members.simps split: if_splits)
    have "(k, v) \<in> set qs \<Longrightarrow> json_ok fl v"
      using "6.IH"(2) s k' t1 w t3 False d qs(1) "6.prems"(3,4) by fastforce
    with head "6.prems"(2,3) qs(2) show ?thesis by auto
  qed
qed (simp_all add: parse_value.simps parse_items.simps parse_members.simps)

lemma json_loads_ok:
  "float_codec_ok fl \<Longrightarrow> json_loads fl s = Inr v \<Longrightarrow> json_finite v \<Longrightarrow> json_ok fl v"
  by (auto simp: json_loads_def dest: parse_ok(1) split: option.splits if_splits)

lemma scan_atom_object: "scan_atom fl s \<noteq> Some (JsObject d, r)"
proof
  assume atom: "scan_atom fl s = Some (JsObject d, r)"
  then obtain c t where s: "s = c # t" by (cases s) (simp_all add: scan_atom_def)
  have word: "scan_word w x (c # t) = Some (JsObject d, r) \<Longrightarrow> x = JsObject d" for w x
    by (auto simp: scan_word_def split: if_splits)
  have number: "scan_value_number fl (c # t) = Some (JsObject d, r) \<Longrightarrow> False"
    by (auto simp: scan_value_number_def float_json_def split: option.splits if_splits)
  have string: "map_option (apfst JsStr) (scan_string t) = Some (JsObject d, r) \<Longrightarrow> False" by auto
  show False
    using atom unfolding s scan_atom_def list.case
    by (elim if_SomeE) (erule string | erule number | (drule word, simp))+
qed

lemma json_loads_keys: "json_loads fl s = Inr (JsObject d) \<Longrightarrow> distinct (map fst d)"
proof -
  assume "json_loads fl s = Inr (JsObject d)"
  then obtain r where "parse_value fl (Suc (2 * length s + 1)) (skip_space s) = Some (JsObject d, r)"
    by (auto simp: json_loads_def split: option.splits if_splits)
  then show ?thesis
    using scan_atom_object dict_of_keys by (fastforce simp: parse_value.simps split: list.splits if_splits)
qed

section \<open>Properties\<close>

text \<open>C10: canonical JSON is a faithful, canonical encoding. For values of any nesting whose objects have
  distinct keys and whose floats are finite, \<open>canonical_json\<close> succeeds with a text of printable ASCII
  characters only (so no line break), \<open>json.loads\<close> reads it back as the value with its keys in
  ascending order, and two values have the same text exactly when they differ in key order only.
\<close>

theorem canonical_json_roundtrip:
  assumes "json_ok fl v" and "json_ok fl w"
  shows "canonical_json fl v = Inr (json_text fl v) \<and>
    list_all printable (json_text fl v) \<and>
    json_loads fl (json_text fl v) = Inr (canonical_value v) \<and>
    (json_text fl v = json_text fl w \<longleftrightarrow> canonical_value v = canonical_value w)"
proof (intro conjI)
  show "canonical_json fl v = Inr (json_text fl v)" using assms(1) by simp
  show "list_all printable (json_text fl v)" by (rule json_text_printable [OF assms(1)])
  show "json_loads fl (json_text fl v) = Inr (canonical_value v)" by (rule json_loads_text [OF assms(1)])
  show "json_text fl v = json_text fl w \<longleftrightarrow> canonical_value v = canonical_value w"
  proof
    assume "json_text fl v = json_text fl w"
    with json_loads_text [OF assms(1)] json_loads_text [OF assms(2)]
    show "canonical_value v = canonical_value w" by simp
  next
    assume "canonical_value v = canonical_value w"
    then have "json_text fl (canonical_value v) = json_text fl (canonical_value w)" by simp
    then show "json_text fl v = json_text fl w" by simp
  qed
qed

text \<open>A codec for halves, and two dicts that differ in key order only.\<close>

definition example_floats :: float_codec where
  "example_floats = \<lparr>fc_repr = (\<lambda>x. if x = 1 / 2 then ''0.5'' else ''1e+16''),
     fc_value = (\<lambda>w. if w = ''0.5'' then Some (1 / 2) else Some 10000000000000000)\<rparr>"

definition example_json :: json where
  "example_json = JsObject [(''score'', JsFloat (1 / 2)),
     (''note'', JsStr [CHR ''a'', CHR 0x22, CHR 0x0A, CHR 0xE9]), (''ids'', JsArray [JsInt (-7), JsNull, JsBool True])]"

definition example_json_sorted :: json where
  "example_json_sorted = JsObject [
     (''ids'', JsArray [JsInt (-7), JsNull, JsBool True]),
     (''note'', JsStr [CHR ''a'', CHR 0x22, CHR 0x0A, CHR 0xE9]), (''score'', JsFloat (1 / 2))]"

lemma example_json_ok: "json_ok example_floats example_json" "json_ok example_floats example_json_sorted"
  by code_simp+

theorem canonical_json_roundtrip_witness:
  "json_text example_floats example_json = json_text example_floats example_json_sorted \<and>
   json_loads example_floats (json_text example_floats example_json) = Inr example_json_sorted"
proof -
  have "canonical_value example_json = example_json_sorted"
      "canonical_value example_json_sorted = example_json_sorted"
    by code_simp+
  with canonical_json_roundtrip [OF example_json_ok] show ?thesis by metis
qed

end
