(* ===== verification/Ledger.thy ===== *)
theory Ledger
  imports Json_Text Append_Log
begin

text \<open>
  \<open>research/src/shaurya/research/ledger.py\<close>: the append-only evidence ledger, one canonical JSON
  line per envelope, chained by digests, with a transaction journal beside the file. The disk is the
  content of the two files; every operation returns the list of durable states it passes through,
  oldest first, and its result, so that a crash is any state of the list. The exclusive file lock
  serialises the operations; permissions, directory syncs and the temporary file of an atomic
  creation are left out. \<open>dg\<close> is \<open>hashlib.sha256(text.encode()).hexdigest()\<close>, \<open>clock i\<close> the \<open>i\<close>-th
  reading of \<open>utc_iso_now\<close> within an append, \<open>fl\<close> the text of floats (theory \<open>Json_Text\<close>). A byte
  is a character; UTF-8 is decoded up to U+00FF and refused beyond it.
\<close>

section \<open>Values\<close>

definition canonical_sha256 :: "float_codec \<Rightarrow> (string \<Rightarrow> string) \<Rightarrow> json \<Rightarrow> string result" where
  "canonical_sha256 fl dg v = bind_result (canonical_json fl v) (\<lambda>t. Inr (dg t))"

text \<open>Python's \<open>==\<close> on the scalars: numbers compare by value, a not-a-number with nothing. Arrays and
  objects are only ever compared with a string, where the answer is \<open>False\<close>.\<close>

fun json_number :: "json \<Rightarrow> rat option" where
  "json_number (JsBool b) = Some (if b then 1 else 0)"
| "json_number (JsInt n) = Some (of_int n)"
| "json_number (JsFloat x) = Some x"
| "json_number _ = None"

definition json_eq :: "json \<Rightarrow> json \<Rightarrow> bool" where
  "json_eq a b =
     (case (json_number a, json_number b) of
        (Some x, Some y) \<Rightarrow> x = y
      | (None, None) \<Rightarrow> a = b \<and> a \<noteq> JsNonFinite ''NaN''
      | _ \<Rightarrow> False)"

fun json_hashable :: "json \<Rightarrow> bool" where
  "json_hashable (JsArray vs) = False"
| "json_hashable (JsObject ps) = False"
| "json_hashable _ = True"

text \<open>\<open>int(text)\<close> and \<open>int(value)\<close>.\<close>

definition py_int_text :: "string \<Rightarrow> int result" where
  "py_int_text s =
     (case scan_sign ''+-'' (py_strip s) of (sign, u) \<Rightarrow>
        let parts = split_on CHR ''_'' u in
        if list_all (\<lambda>p. p \<noteq> [] \<and> list_all is_digit p) parts
        then Inr (if sign = ''-'' then - int (digits_value (concat parts))
                  else int (digits_value (concat parts)))
        else Inl (ValueError ''invalid literal for int() with base 10''))"

fun json_int :: "json \<Rightarrow> int result" where
  "json_int (JsInt n) = Inr n"
| "json_int (JsBool b) = Inr (if b then 1 else 0)"
| "json_int (JsFloat x) = Inr (if 0 \<le> x then \<lfloor>x\<rfloor> else \<lceil>x\<rceil>)"
| "json_int (JsStr s) = py_int_text s"
| "json_int (JsNonFinite s) =
     (if s = ''NaN'' then Inl (ValueError ''cannot convert float NaN to integer'')
      else Inl (OverflowError ''cannot convert float infinity to integer''))"
| "json_int _ = Inl (TypeError ''int() argument'')"

section \<open>Bytes and lines\<close>

text \<open>\<open>bytes.hex\<close> and \<open>bytes.fromhex\<close>, which skips white space between the bytes.\<close>

definition to_hex :: "string \<Rightarrow> string" where
  "to_hex s = concat (map (\<lambda>c. [hex_digit (of_char c div 16), hex_digit (of_char c mod 16)]) s)"

definition ascii_space :: "char \<Rightarrow> bool" where
  "ascii_space c \<longleftrightarrow> (let n = (of_char c :: nat) in n = 32 \<or> 9 \<le> n \<and> n \<le> 13)"

fun from_hex :: "string \<Rightarrow> string option" where
  "from_hex [] = Some []"
| "from_hex (c # r) =
     (if ascii_space c then from_hex r
      else (case r of
              [] \<Rightarrow> None
            | d # r' \<Rightarrow>
                (case (hex_value c, hex_value d) of
                   (Some x, Some y) \<Rightarrow> map_option ((#) (char_of (16 * x + y))) (from_hex r')
                 | _ \<Rightarrow> None)))"

text \<open>\<open>bytes.fromhex(str(value))\<close>: the text of any value but a string or an integer holds a character
  that is no hexadecimal digit.\<close>

fun json_fromhex :: "json \<Rightarrow> string result" where
  "json_fromhex (JsStr s) =
     (case from_hex s of Some bs \<Rightarrow> Inr bs | None \<Rightarrow> Inl (ValueError ''non-hexadecimal number found''))"
| "json_fromhex (JsInt n) =
     (case from_hex (dec_int n) of
        Some bs \<Rightarrow> Inr bs | None \<Rightarrow> Inl (ValueError ''non-hexadecimal number found''))"
| "json_fromhex _ = Inl (ValueError ''non-hexadecimal number found'')"

text \<open>\<open>bytes.decode()\<close> and \<open>str.splitlines()\<close>.\<close>

fun utf8_decode :: "string \<Rightarrow> string result" where
  "utf8_decode [] = Inr []"
| "utf8_decode (c # r) =
     (let n = (of_char c :: nat) in
      if n < 128 then bind_result (utf8_decode r) (\<lambda>t. Inr (c # t))
      else (case r of
              [] \<Rightarrow> Inl (ValueError ''unexpected end of data'')
            | d # r' \<Rightarrow>
                (let m = (of_char d :: nat) in
                 if n \<in> {194, 195} \<and> 128 \<le> m \<and> m < 192
                 then bind_result (utf8_decode r') (\<lambda>t. Inr (char_of (64 * (n - 192) + (m - 128)) # t))
                 else Inl (ValueError ''invalid start byte''))))"

definition py_line_break :: "char \<Rightarrow> bool" where
  "py_line_break c \<longleftrightarrow> (of_char c :: nat) \<in> {10, 11, 12, 13, 28, 29, 30, 133}"

fun lines_after :: "string \<Rightarrow> string \<Rightarrow> string list" where
  "lines_after acc [] = (if acc = [] then [] else [rev acc])"
| "lines_after acc (c # r) =
     (if py_line_break c then
        rev acc #
          (case r of
             [] \<Rightarrow> []
           | d # r' \<Rightarrow> if c = CHR 0x0D \<and> d = CHR 0x0A then lines_after [] r' else lines_after [] (d # r'))
      else lines_after (c # acc) r)"

definition py_splitlines :: "string \<Rightarrow> string list" where
  "py_splitlines s = lines_after [] s"

section \<open>Envelopes\<close>

record ledger_envelope =
  le_sequence :: json
  le_recorded_at :: json
  le_event_id :: json
  le_event_type :: json
  le_event :: json
  le_previous_hash :: json
  le_event_hash :: json

definition envelope_fields :: "string list" where
  "envelope_fields = [''sequence'', ''recorded_at'', ''event_id'', ''event_type'', ''event'',
     ''previous_hash'', ''event_hash'']"

text \<open>\<open>LedgerEnvelope(**raw)\<close>.\<close>

fun envelope_of :: "json \<Rightarrow> ledger_envelope result" where
  "envelope_of (JsObject d) =
     (if set (map fst d) = set envelope_fields
      then let f = (\<lambda>k. the (map_of d k)) in
        Inr \<lparr>le_sequence = f ''sequence'', le_recorded_at = f ''recorded_at'',
             le_event_id = f ''event_id'', le_event_type = f ''event_type'', le_event = f ''event'',
             le_previous_hash = f ''previous_hash'', le_event_hash = f ''event_hash''\<rparr>
      else Inl (TypeError ''__init__() arguments''))"
| "envelope_of _ = Inl (TypeError ''argument after ** must be a mapping'')"

definition core_fields :: "json \<Rightarrow> json \<Rightarrow> json \<Rightarrow> json \<Rightarrow> json \<Rightarrow> json \<Rightarrow> (string \<times> json) list" where
  "core_fields sequence recorded_at event_id event_type event previous_hash =
     [(''sequence'', sequence), (''recorded_at'', recorded_at), (''event_id'', event_id),
      (''event_type'', event_type), (''event'', event), (''previous_hash'', previous_hash)]"

definition envelope_core :: "ledger_envelope \<Rightarrow> (string \<times> json) list" where
  "envelope_core e =
     core_fields (le_sequence e) (le_recorded_at e) (le_event_id e) (le_event_type e) (le_event e)
       (le_previous_hash e)"

text \<open>\<open>asdict(envelope)\<close>.\<close>

definition envelope_json :: "ledger_envelope \<Rightarrow> json" where
  "envelope_json e = JsObject (envelope_core e @ [(''event_hash'', le_event_hash e)])"

definition genesis_hash :: json where
  "genesis_hash = JsStr (replicate 64 CHR ''0'')"

section \<open>Decoding the file\<close>

definition verify_envelope ::
  "float_codec \<Rightarrow> (string \<Rightarrow> string) \<Rightarrow> int \<Rightarrow> json \<Rightarrow> ledger_envelope \<Rightarrow> exn option" where
  "verify_envelope fl dg expected previous e =
     (if \<not> json_eq (le_sequence e) (JsInt expected) \<or> \<not> json_eq (le_previous_hash e) previous
      then Some (ValueError ''ledger sequence/hash chain is invalid'')
      else (case canonical_sha256 fl dg (JsObject (envelope_core e)) of
              Inl x \<Rightarrow> Some x
            | Inr h \<Rightarrow>
                if json_eq (JsStr h) (le_event_hash e) then None
                else Some (ValueError ''ledger event content has been modified'')))"

fun decode_lines ::
  "float_codec \<Rightarrow> (string \<Rightarrow> string) \<Rightarrow> bool \<Rightarrow> int \<Rightarrow> json \<Rightarrow> json list \<Rightarrow> string list \<Rightarrow>
     ledger_envelope list result" where
  "decode_lines fl dg verify expected previous ids [] = Inr []"
| "decode_lines fl dg verify expected previous ids (line # lines) =
     (if line = [] then Inl (ValueError ''ledger contains a blank record'')
      else (case bind_result (json_loads fl line) envelope_of of
              Inl x \<Rightarrow> Inl (ValueError ''ledger contains an invalid record'')
            | Inr e \<Rightarrow>
                if \<not> json_hashable (le_event_id e) then Inl (TypeError ''unhashable type'')
                else if list_ex (json_eq (le_event_id e)) ids
                then Inl (ValueError ''ledger contains a duplicate event ID'')
                else (case (if verify then verify_envelope fl dg expected previous e else None) of
                        Some x \<Rightarrow> Inl x
                      | None \<Rightarrow>
                          bind_result
                            (decode_lines fl dg verify (expected + 1) (le_event_hash e)
                              (le_event_id e # ids) lines)
                            (\<lambda>es. Inr (e # es)))))"

definition decode_ledger ::
  "float_codec \<Rightarrow> (string \<Rightarrow> string) \<Rightarrow> bool \<Rightarrow> string \<Rightarrow> ledger_envelope list result" where
  "decode_ledger fl dg verify content =
     bind_result (utf8_decode content)
       (\<lambda>t. decode_lines fl dg verify 1 genesis_hash [] (py_splitlines t))"

section \<open>The disk and the recovery of a pending append\<close>

record ledger_disk =
  ld_file :: "string option"
  ld_journal :: "string option"

definition empty_disk :: ledger_disk where
  "empty_disk = \<lparr>ld_file = None, ld_journal = None\<rparr>"

type_synonym 'a disk_run = "ledger_disk list \<times> 'a result"

definition get_key :: "json \<Rightarrow> string \<Rightarrow> json result" where
  "get_key v k =
     (case v of
        JsObject d \<Rightarrow> (case map_of d k of Some x \<Rightarrow> Inr x | None \<Rightarrow> Inl (KeyError k))
      | _ \<Rightarrow> Inl (TypeError ''not subscriptable with a string''))"

text \<open>The fields of the journal; the handler turns every error but an overflow into \<open>corrupt\<close>.\<close>

definition journal_fields :: "float_codec \<Rightarrow> string \<Rightarrow> (int \<times> string \<times> json) result" where
  "journal_fields fl text =
     bind_result (utf8_decode text) (\<lambda>t.
     bind_result (json_loads fl t) (\<lambda>pending.
     bind_result (get_key pending ''start_offset'') (\<lambda>s.
     bind_result (json_int s) (\<lambda>start.
     bind_result (get_key pending ''encoded_hex'') (\<lambda>h.
     bind_result (json_fromhex h) (\<lambda>encoded.
       Inr (start, encoded,
         case get_key pending ''encoded_sha256'' of Inr x \<Rightarrow> x | Inl _ \<Rightarrow> JsNull)))))))"

definition read_journal :: "float_codec \<Rightarrow> string \<Rightarrow> (int \<times> string \<times> json) result" where
  "read_journal fl text =
     (case journal_fields fl text of
        Inl (OverflowError m) \<Rightarrow> Inl (OverflowError m)
      | Inl _ \<Rightarrow> Inl (ValueError ''ledger transaction journal is corrupt'')
      | Inr j \<Rightarrow> Inr j)"

definition recover_pending ::
  "float_codec \<Rightarrow> (string \<Rightarrow> string) \<Rightarrow> ledger_disk \<Rightarrow> string \<Rightarrow> ledger_disk disk_run" where
  "recover_pending fl dg d content =
     (case ld_journal d of
        None \<Rightarrow> ([d], Inr d)
      | Some text \<Rightarrow>
          (case read_journal fl text of
             Inl x \<Rightarrow> ([d], Inl x)
           | Inr (start, encoded, sha) \<Rightarrow>
               if \<not> json_eq (JsStr (dg (json_text fl (JsStr (to_hex encoded))))) sha
               then ([d], Inl (ValueError ''ledger transaction journal is corrupt''))
               else if start < 0 \<or> int (length content) < start
               then ([d], Inl (ValueError ''ledger transaction journal has an invalid offset''))
               else
                 let suffix = drop (nat start) content;
                     kept = (if suffix = encoded then d
                             else d\<lparr>ld_file := Some (take (nat start) content)\<rparr>);
                     clean = kept\<lparr>ld_journal := None\<rparr>
                 in if suffix \<noteq> encoded \<and> \<not> prefix suffix encoded
                    then ([d], Inl (ValueError ''ledger bytes conflict with the pending transaction''))
                    else ([d, kept, clean], Inr clean)))"

definition file_content :: "ledger_disk \<Rightarrow> string" where
  "file_content d = (case ld_file d of Some s \<Rightarrow> s | None \<Rightarrow> [])"

definition read_ledger ::
  "float_codec \<Rightarrow> (string \<Rightarrow> string) \<Rightarrow> bool \<Rightarrow> ledger_disk \<Rightarrow> ledger_envelope list disk_run" where
  "read_ledger fl dg verify d =
     (case ld_file d of
        None \<Rightarrow> ([d], Inr [])
      | Some content \<Rightarrow>
          (case recover_pending fl dg d content of
             (ds, Inl x) \<Rightarrow> (ds, Inl x)
           | (ds, Inr d') \<Rightarrow> (ds, decode_ledger fl dg verify (file_content d'))))"

text \<open>\<open>EvidenceLedger.events\<close>.\<close>

definition ledger_events ::
  "float_codec \<Rightarrow> (string \<Rightarrow> string) \<Rightarrow> string option \<Rightarrow> ledger_disk \<Rightarrow> json list disk_run" where
  "ledger_events fl dg event_type d =
     (case read_ledger fl dg True d of
        (ds, r) \<Rightarrow>
          (ds, bind_result r (\<lambda>es. Inr (map le_event
             (filter (\<lambda>e. case event_type of
                None \<Rightarrow> True | Some ty \<Rightarrow> json_eq (le_event_type e) (JsStr ty)) es)))))"

section \<open>Appending\<close>

text \<open>\<open>_ledger_payload\<close> and \<open>_identity\<close>; a dataclass event is the dict \<open>asdict\<close> makes of it.\<close>

definition ledger_payload :: "float_codec \<Rightarrow> json \<Rightarrow> (string \<times> json) list result" where
  "ledger_payload fl ev =
     (case ev of
        JsObject payload \<Rightarrow>
          bind_result (canonical_json fl (JsObject payload)) (\<lambda>t.
          bind_result (json_loads fl t) (\<lambda>_. Inr payload))
      | _ \<Rightarrow> Inl (TypeError ''ledger events must be mappings or dataclass instances''))"

definition event_identity ::
  "float_codec \<Rightarrow> (string \<Rightarrow> string) \<Rightarrow> string \<Rightarrow> (string \<times> json) list \<Rightarrow> string result" where
  "event_identity fl dg event_type payload =
     (let digest = bind_result
            (canonical_sha256 fl dg (JsObject [(''event_type'', JsStr event_type), (''event'', JsObject payload)]))
            (\<lambda>h. Inr (''event-'' @ take 32 h))
      in case map_of payload ''event_id'' of
           Some (JsStr explicit) \<Rightarrow> if explicit \<noteq> [] then Inr explicit else digest
         | _ \<Rightarrow> digest)"

record prepared_event =
  pe_type :: string
  pe_payload :: "(string \<times> json) list"
  pe_id :: string

definition prepare_event ::
  "float_codec \<Rightarrow> (string \<Rightarrow> string) \<Rightarrow> string \<times> json \<Rightarrow> prepared_event result" where
  "prepare_event fl dg = (\<lambda>(event_type, ev).
     if event_type = [] then Inl (ValueError ''event_type is required'')
     else bind_result (ledger_payload fl ev) (\<lambda>payload.
          bind_result (event_identity fl dg event_type payload) (\<lambda>i.
            Inr \<lparr>pe_type = event_type, pe_payload = payload, pe_id = i\<rparr>)))"

text \<open>The pass over the batch that refuses two different events under one ID.\<close>

definition propose ::
  "float_codec \<Rightarrow> (string \<times> prepared_event) list \<Rightarrow> prepared_event \<Rightarrow>
     (string \<times> prepared_event) list result" where
  "propose fl proposed p =
     (let conflict = (case map_of proposed (pe_id p) of
            None \<Rightarrow> Inr False
          | Some prior \<Rightarrow>
              if pe_type prior \<noteq> pe_type p then Inr True
              else bind_result (canonical_json fl (JsObject (pe_payload prior))) (\<lambda>a.
                   bind_result (canonical_json fl (JsObject (pe_payload p))) (\<lambda>b. Inr (a \<noteq> b))))
      in bind_result conflict (\<lambda>bad.
           if bad then Inl (ValueError ''batch contains a conflicting duplicate event ID'')
           else Inr (AList.update (pe_id p) p proposed)))"

record batch_state =
  bs_by_id :: "(json \<times> ledger_envelope) list"
  bs_returned :: "ledger_envelope list"
  bs_additions :: "ledger_envelope list"
  bs_previous :: json
  bs_sequence :: int

definition start_batch :: "ledger_envelope list \<Rightarrow> batch_state" where
  "start_batch existing =
     \<lparr>bs_by_id = map (\<lambda>e. (le_event_id e, e)) existing, bs_returned = [], bs_additions = [],
      bs_previous = (if existing = [] then genesis_hash else le_event_hash (last existing)),
      bs_sequence = int (length existing) + 1\<rparr>"

definition add_to_batch ::
  "float_codec \<Rightarrow> (string \<Rightarrow> string) \<Rightarrow> (nat \<Rightarrow> string) \<Rightarrow> batch_state \<Rightarrow> prepared_event \<Rightarrow>
     batch_state result" where
  "add_to_batch fl dg clock b p =
     (case map_of (bs_by_id b) (JsStr (pe_id p)) of
        Some e \<Rightarrow>
          bind_result
            (if \<not> json_eq (le_event_type e) (JsStr (pe_type p)) then Inr True
             else bind_result (canonical_json fl (le_event e)) (\<lambda>a.
                  bind_result (canonical_json fl (JsObject (pe_payload p))) (\<lambda>t. Inr (a \<noteq> t))))
            (\<lambda>bad.
              if bad then Inl (ValueError ''event ID conflicts with existing ledger evidence'')
              else Inr (b\<lparr>bs_returned := bs_returned b @ [e]\<rparr>))
      | None \<Rightarrow>
          let recorded = JsStr (clock (length (bs_additions b)));
              core = core_fields (JsInt (bs_sequence b)) recorded (JsStr (pe_id p))
                (JsStr (pe_type p)) (JsObject (pe_payload p)) (bs_previous b)
          in bind_result (canonical_sha256 fl dg (JsObject core)) (\<lambda>h.
               let e = \<lparr>le_sequence = JsInt (bs_sequence b), le_recorded_at = recorded,
                     le_event_id = JsStr (pe_id p), le_event_type = JsStr (pe_type p),
                     le_event = JsObject (pe_payload p), le_previous_hash = bs_previous b,
                     le_event_hash = JsStr h\<rparr>
               in Inr (b\<lparr>bs_by_id := AList.update (JsStr (pe_id p)) e (bs_by_id b),
                        bs_returned := bs_returned b @ [e], bs_additions := bs_additions b @ [e],
                        bs_previous := JsStr h, bs_sequence := bs_sequence b + 1\<rparr>)))"

definition encode_envelope :: "float_codec \<Rightarrow> ledger_envelope \<Rightarrow> string result" where
  "encode_envelope fl e = bind_result (canonical_json fl (envelope_json e)) (\<lambda>t. Inr (t @ [CHR 0x0A]))"

definition journal_text :: "float_codec \<Rightarrow> (string \<Rightarrow> string) \<Rightarrow> nat \<Rightarrow> string \<Rightarrow> string" where
  "journal_text fl dg start encoded =
     json_text fl (JsObject [(''start_offset'', JsInt (int start)),
       (''encoded_hex'', JsStr (to_hex encoded)),
       (''encoded_sha256'', JsStr (dg (json_text fl (JsStr (to_hex encoded)))))]) @ [CHR 0x0A]"

text \<open>\<open>_atomic_create_once\<close>.\<close>

definition atomic_create_once :: "string option \<Rightarrow> string \<Rightarrow> string option result" where
  "atomic_create_once old encoded =
     (case old of
        None \<Rightarrow> Inr (Some encoded)
      | Some content \<Rightarrow>
          if content \<noteq> encoded
          then Inl (ValueError ''content-addressed artifact conflicts with existing content'')
          else Inr old)"

text \<open>The write of a non-empty batch: the journal, then the bytes one by one, then the read-back and
  the removal of the journal.\<close>

definition write_additions ::
  "float_codec \<Rightarrow> (string \<Rightarrow> string) \<Rightarrow> ledger_disk \<Rightarrow> string \<Rightarrow> unit disk_run" where
  "write_additions fl dg d encoded =
     (let content = file_content d in
      case atomic_create_once (ld_journal d) (journal_text fl dg (length content) encoded) of
        Inl x \<Rightarrow> ([d], Inl x)
      | Inr journal \<Rightarrow>
          let journalled = d\<lparr>ld_journal := journal\<rparr>;
              writing = map (\<lambda>k. journalled\<lparr>ld_file := Some (content @ take k encoded)\<rparr>)
                [0..<Suc (length encoded)];
              written = journalled\<lparr>ld_file := Some (content @ encoded)\<rparr>
          in (case decode_ledger fl dg True (file_content written) of
                Inl x \<Rightarrow> (d # writing, Inl x)
              | Inr _ \<Rightarrow> (d # writing @ [written\<lparr>ld_journal := None\<rparr>], Inr ())))"

definition prepare_batch ::
  "float_codec \<Rightarrow> (string \<Rightarrow> string) \<Rightarrow> (string \<times> json) list \<Rightarrow> prepared_event list result" where
  "prepare_batch fl dg events =
     bind_result (map_result (prepare_event fl dg) events) (\<lambda>prepared.
     bind_result (fold_result (propose fl) [] prepared) (\<lambda>_. Inr prepared))"

definition append_locked ::
  "float_codec \<Rightarrow> (string \<Rightarrow> string) \<Rightarrow> (nat \<Rightarrow> string) \<Rightarrow> prepared_event list \<Rightarrow> ledger_disk \<Rightarrow>
     ledger_envelope list disk_run" where
  "append_locked fl dg clock prepared d =
     (case bind_result (decode_ledger fl dg True (file_content d))
             (\<lambda>existing. fold_result (add_to_batch fl dg clock) (start_batch existing) prepared) of
        Inl x \<Rightarrow> ([d], Inl x)
      | Inr b \<Rightarrow>
          if bs_additions b = [] then ([d], Inr (bs_returned b))
          else (case map_result (encode_envelope fl) (bs_additions b) of
                  Inl x \<Rightarrow> ([d], Inl x)
                | Inr lines \<Rightarrow>
                    (case write_additions fl dg d (concat lines) of
                       (ds, r) \<Rightarrow> (ds, bind_result r (\<lambda>_. Inr (bs_returned b))))))"

definition append_many ::
  "float_codec \<Rightarrow> (string \<Rightarrow> string) \<Rightarrow> (nat \<Rightarrow> string) \<Rightarrow> (string \<times> json) list \<Rightarrow> ledger_disk \<Rightarrow>
     ledger_envelope list disk_run" where
  "append_many fl dg clock events d =
     (case prepare_batch fl dg events of
        Inl x \<Rightarrow> ([d], Inl x)
      | Inr [] \<Rightarrow> ([d], Inr [])
      | Inr prepared \<Rightarrow>
          let opened = (case ld_file d of None \<Rightarrow> d\<lparr>ld_file := Some []\<rparr> | Some _ \<Rightarrow> d) in
          (case recover_pending fl dg opened (file_content opened) of
             (ds, Inl x) \<Rightarrow> (d # ds, Inl x)
           | (ds, Inr ready) \<Rightarrow>
               (case append_locked fl dg clock prepared ready of
                  (ds', r) \<Rightarrow> (d # ds @ ds', r))))"

definition append_one ::
  "float_codec \<Rightarrow> (string \<Rightarrow> string) \<Rightarrow> (nat \<Rightarrow> string) \<Rightarrow> string \<Rightarrow> json \<Rightarrow> ledger_disk \<Rightarrow>
     ledger_envelope disk_run" where
  "append_one fl dg clock event_type ev d =
     (case append_many fl dg clock [(event_type, ev)] d of
        (ds, r) \<Rightarrow> (ds, bind_result r (\<lambda>es. Inr (hd es))))"

section \<open>Bytes, lines and keys\<close>

lemma from_hex_to_hex [simp]: "from_hex (to_hex s) = Some s"
proof (induction s)
  case (Cons c s)
  have "(of_char c :: nat) < 256" by (rule nat_of_char_less_256)
  then have div: "(of_char c :: nat) div 16 < 16" by (intro less_mult_imp_div_less) simp
  have no_space: "\<not> ascii_space (hex_digit n)" if "n < 16" for n
    using that by (cases "n < 10") (auto simp: hex_digit_def ascii_space_def Let_def)
  show ?case using Cons div no_space [OF div] by (simp add: to_hex_def)
qed (simp add: to_hex_def)

lemma utf8_decode_ascii: "list_all (\<lambda>c. (of_char c :: nat) < 128) s \<Longrightarrow> utf8_decode s = Inr s"
  by (induction s) simp_all

definition line_text :: "char \<Rightarrow> bool" where
  "line_text c \<longleftrightarrow> printable c \<or> c = CHR 0x0A"

lemma utf8_decode_lines: "list_all line_text s \<Longrightarrow> utf8_decode s = Inr s"
  by (rule utf8_decode_ascii) (auto simp: list_all_iff line_text_def printable_def Let_def)

lemma printable_no_break: "printable c \<Longrightarrow> \<not> py_line_break c"
  by (auto simp: printable_def py_line_break_def Let_def)

lemma lines_after_line:
  "list_all printable l \<Longrightarrow> lines_after acc (l @ CHR 0x0A # r) = (rev acc @ l) # lines_after [] r"
proof (induction l arbitrary: acc)
  case Nil
  have "py_line_break CHR 0x0A" by (simp add: py_line_break_def)
  then show ?case by (cases r) simp_all
next
  case (Cons c l)
  then show ?case by (simp add: printable_no_break)
qed

lemma py_splitlines_lines:
  "(\<And>l. l \<in> set ls \<Longrightarrow> list_all printable l) \<Longrightarrow>
     py_splitlines (concat (map (\<lambda>l. l @ [CHR 0x0A]) ls)) = ls"
  unfolding py_splitlines_def by (induction ls) (simp_all add: lines_after_line)

lemma map_of_map_values: "map_of (map_values f ps) k = map_option f (map_of ps k)"
  by (induction ps) auto

lemma map_of_sort_key: "distinct (map fst ps) \<Longrightarrow> map_of (sort_key fst ps) = map_of ps"
  by (subst map_of_inject_set) (simp_all add: distinct_map)

lemma map_of_canonical:
  "distinct (map fst ps) \<Longrightarrow>
     map_of (sort_key fst (map_values canonical_value ps)) k = map_option canonical_value (map_of ps k)"
  by (subst map_of_sort_key) (simp_all add: map_of_map_values)

lemma json_eq_str [simp]:
  "json_eq (JsStr s) v \<longleftrightarrow> v = JsStr s" "json_eq v (JsStr s) \<longleftrightarrow> v = JsStr s"
  by (cases v; auto simp: json_eq_def)+

lemma json_eq_int [simp]: "json_eq (JsInt n) (JsInt m) \<longleftrightarrow> n = m"
  by (simp add: json_eq_def)

section \<open>Well-formed ledgers\<close>

definition is_str :: "json \<Rightarrow> bool" where
  "is_str v \<longleftrightarrow> (case v of JsStr s \<Rightarrow> True | _ \<Rightarrow> False)"

lemma is_strE: "is_str v \<Longrightarrow> (\<And>s. v = JsStr s \<Longrightarrow> P) \<Longrightarrow> P"
  by (cases v) (simp_all add: is_str_def)

lemma is_str_simps [simp]: "is_str (JsStr s)"
  by (simp add: is_str_def)

lemma is_str_facts: "is_str v \<Longrightarrow> json_ok fl v \<and> canonical_value v = v \<and> json_hashable v"
  by (erule is_strE) simp

definition envelope_ok ::
  "float_codec \<Rightarrow> (string \<Rightarrow> string) \<Rightarrow> int \<Rightarrow> json \<Rightarrow> ledger_envelope \<Rightarrow> bool" where
  "envelope_ok fl dg n previous e \<longleftrightarrow>
     le_sequence e = JsInt n \<and> is_str (le_recorded_at e) \<and> is_str (le_event_id e) \<and>
     is_str (le_event_type e) \<and> json_ok fl (le_event e) \<and>
     canonical_value (le_event e) = le_event e \<and> le_previous_hash e = previous \<and> is_str previous \<and>
     le_event_hash e = JsStr (dg (json_text fl (JsObject (envelope_core e))))"

fun chain_ok ::
  "float_codec \<Rightarrow> (string \<Rightarrow> string) \<Rightarrow> int \<Rightarrow> json \<Rightarrow> ledger_envelope list \<Rightarrow> bool" where
  "chain_ok fl dg n previous [] = True"
| "chain_ok fl dg n previous (e # es) =
     (envelope_ok fl dg n previous e \<and> chain_ok fl dg (n + 1) (le_event_hash e) es)"

definition ledger_ok :: "float_codec \<Rightarrow> (string \<Rightarrow> string) \<Rightarrow> ledger_envelope list \<Rightarrow> bool" where
  "ledger_ok fl dg es \<longleftrightarrow> chain_ok fl dg 1 genesis_hash es \<and> distinct (map le_event_id es)"

definition last_hash :: "json \<Rightarrow> ledger_envelope list \<Rightarrow> json" where
  "last_hash previous es = (if es = [] then previous else le_event_hash (last es))"

lemma chain_ok_append:
  "chain_ok fl dg n previous (es @ fs) \<longleftrightarrow>
     chain_ok fl dg n previous es \<and> chain_ok fl dg (n + int (length es)) (last_hash previous es) fs"
  by (induction es arbitrary: n previous) (auto simp: last_hash_def add_ac)

lemma chain_ok_member:
  "chain_ok fl dg n previous es \<Longrightarrow> e \<in> set es \<Longrightarrow> \<exists>n previous. envelope_ok fl dg n previous e"
  by (induction es arbitrary: n previous) auto

lemma envelope_ok_facts:
  assumes "envelope_ok fl dg n previous e"
  shows "le_sequence e = JsInt n" "is_str (le_recorded_at e)" "is_str (le_event_id e)"
    "is_str (le_event_type e)" "json_ok fl (le_event e)" "canonical_value (le_event e) = le_event e"
    "le_previous_hash e = previous" "is_str previous"
    "le_event_hash e = JsStr (dg (json_text fl (JsObject (envelope_core e))))"
  using assms unfolding envelope_ok_def by blast+

lemma envelope_fields_distinct:
  "distinct (map fst (envelope_core e @ [(''event_hash'', h)]))" "distinct (map fst (envelope_core e))"
  by (simp_all add: envelope_core_def core_fields_def)

lemma envelope_json_ok:
  assumes "envelope_ok fl dg n previous e"
  shows "json_ok fl (JsObject (envelope_core e))" and "json_ok fl (envelope_json e)"
proof -
  note f = envelope_ok_facts [OF assms]
  note s = is_str_facts [OF f(2), of fl] is_str_facts [OF f(3), of fl] is_str_facts [OF f(4), of fl]
    is_str_facts [OF f(8), of fl]
  have core: "list_all (\<lambda>(k, v). json_ok fl v) (envelope_core e)"
    unfolding envelope_core_def core_fields_def using f s by simp
  then show "json_ok fl (JsObject (envelope_core e))" using envelope_fields_distinct(2) by simp
  show "json_ok fl (envelope_json e)"
    unfolding envelope_json_def json_ok.simps list_all_append
    using core envelope_fields_distinct(1) f(9) by simp
qed

lemma envelope_back:
  assumes "envelope_ok fl dg n previous e"
  shows "bind_result (json_loads fl (json_text fl (envelope_json e))) envelope_of = Inr e"
proof -
  note f = envelope_ok_facts [OF assms]
  note s = is_str_facts [OF f(2)] is_str_facts [OF f(3)] is_str_facts [OF f(4)] is_str_facts [OF f(8)]
  let ?ps = "envelope_core e @ [(''event_hash'', le_event_hash e)]"
  have keys: "set (map fst (sort_key fst (map_values canonical_value ?ps))) = set envelope_fields"
    by (simp add: envelope_core_def core_fields_def envelope_fields_def insort_key_def
        flip: set_map) (auto simp: envelope_core_def core_fields_def envelope_fields_def)
  have look: "map_of (sort_key fst (map_values canonical_value ?ps)) k = map_option canonical_value (map_of ?ps k)"
    for k by (rule map_of_canonical) (rule envelope_fields_distinct)
  have "envelope_of (canonical_value (envelope_json e)) = Inr e"
    unfolding envelope_json_def canonical_value.simps envelope_of.simps Let_def look
    using keys f s by (simp add: envelope_core_def core_fields_def)
  then show ?thesis using json_loads_text [OF envelope_json_ok(2) [OF assms]] by simp
qed

section \<open>Decoding a well-formed file\<close>

definition envelope_line :: "float_codec \<Rightarrow> ledger_envelope \<Rightarrow> string" where
  "envelope_line fl e = json_text fl (envelope_json e)"

definition file_text :: "float_codec \<Rightarrow> ledger_envelope list \<Rightarrow> string" where
  "file_text fl es = concat (map (\<lambda>e. envelope_line fl e @ [CHR 0x0A]) es)"

lemma file_text_simps [simp]:
  "file_text fl [] = []" "file_text fl (es @ fs) = file_text fl es @ file_text fl fs"
  "file_text fl es = [] \<longleftrightarrow> es = []"
  by (simp_all add: file_text_def)

lemma envelope_line_printable:
  "envelope_ok fl dg n previous e \<Longrightarrow> list_all printable (envelope_line fl e)"
  unfolding envelope_line_def by (rule json_text_printable [OF envelope_json_ok(2)])

lemma envelope_line_not_Nil: "envelope_line fl e \<noteq> []"
  by (simp add: envelope_line_def envelope_json_def)

lemma decode_chain:
  assumes "chain_ok fl dg n previous es" and "distinct (map le_event_id es)"
    and "\<And>e. e \<in> set es \<Longrightarrow> le_event_id e \<notin> set ids"
  shows "decode_lines fl dg verify n previous ids (map (envelope_line fl) es) = Inr es"
  using assms
proof (induction es arbitrary: n previous ids)
  case (Cons e es)
  have ok: "envelope_ok fl dg n previous e" using Cons.prems(1) by simp
  note f = envelope_ok_facts [OF ok]
  obtain i where i: "le_event_id e = JsStr i" using f(3) by (rule is_strE)
  obtain p where p: "previous = JsStr p" using f(8) by (rule is_strE)
  have new: "\<not> list_ex (json_eq (le_event_id e)) ids"
    using Cons.prems(3) [of e] i by (auto simp: list_ex_iff)
  have verified: "(if verify then verify_envelope fl dg n previous e else None) = None"
    using f(1,7,9) p envelope_json_ok(1) [OF ok]
    by (simp add: verify_envelope_def canonical_sha256_def)
  have fresh: "le_event_id x \<notin> set (le_event_id e # ids)" if "x \<in> set es" for x
  proof -
    have "le_event_id x \<in> set (map le_event_id es)" using that by simp
    then have "le_event_id x \<noteq> le_event_id e" using Cons.prems(2) by auto
    with Cons.prems(3) [of x] that show ?thesis by simp
  qed
  have rest: "decode_lines fl dg verify (n + 1) (le_event_hash e) (le_event_id e # ids)
      (map (envelope_line fl) es) = Inr es"
    by (rule Cons.IH) (use Cons.prems(1,2) fresh in simp_all)
  show ?case
    using envelope_back [OF ok, folded envelope_line_def] new verified rest
      envelope_line_not_Nil [of fl e] i by simp
qed simp

lemma ledger_ok_lines:
  assumes "ledger_ok fl dg es"
  shows "list_all line_text (file_text fl es)" and "py_splitlines (file_text fl es) = map (envelope_line fl) es"
proof -
  have lines: "list_all printable (envelope_line fl e)" if "e \<in> set es" for e
    using assms chain_ok_member [OF _ that] envelope_line_printable unfolding ledger_ok_def by blast
  then show "list_all line_text (file_text fl es)"
    by (auto simp: file_text_def list_all_iff line_text_def)
  have "file_text fl es = concat (map (\<lambda>l. l @ [CHR 0x0A]) (map (envelope_line fl) es))"
    by (simp add: file_text_def comp_def)
  then show "py_splitlines (file_text fl es) = map (envelope_line fl) es"
    using lines by (simp only:) (rule py_splitlines_lines, auto)
qed

lemma decode_ledger_ok: "ledger_ok fl dg es \<Longrightarrow> decode_ledger fl dg verify (file_text fl es) = Inr es"
proof -
  assume ok: "ledger_ok fl dg es"
  then have "decode_lines fl dg verify 1 genesis_hash [] (map (envelope_line fl) es) = Inr es"
    by (intro decode_chain) (simp_all add: ledger_ok_def)
  then show ?thesis
    by (simp add: decode_ledger_def utf8_decode_lines [OF ledger_ok_lines(1) [OF ok]]
        ledger_ok_lines(2) [OF ok])
qed

lemma ledger_ok_Nil [simp]: "ledger_ok fl dg []"
  by (simp add: ledger_ok_def)

lemma ledger_ok_prefix: "ledger_ok fl dg (es @ fs) \<Longrightarrow> ledger_ok fl dg es"
  by (simp add: ledger_ok_def chain_ok_append)

section \<open>Recovery\<close>

lemma journal_back:
  "read_journal fl (journal_text fl dg n s) =
     Inr (int n, s, JsStr (dg (json_text fl (JsStr (to_hex s)))))"
proof -
  let ?ps = "[(''start_offset'', JsInt (int n)), (''encoded_hex'', JsStr (to_hex s)),
    (''encoded_sha256'', JsStr (dg (json_text fl (JsStr (to_hex s)))))]"
  have ok: "json_ok fl (JsObject ?ps)" by simp
  have "list_all line_text (json_text fl (JsObject ?ps) @ [CHR 0x0A])"
    using json_text_printable [OF ok] by (auto simp: list_all_iff line_text_def)
  then have utf: "utf8_decode (journal_text fl dg n s) = Inr (journal_text fl dg n s)"
    unfolding journal_text_def by (rule utf8_decode_lines)
  have loads: "json_loads fl (journal_text fl dg n s) = Inr (canonical_value (JsObject ?ps))"
    unfolding journal_text_def by (rule json_loads_newline [OF ok])
  have look: "map_of (sort_key fst (map_values canonical_value ?ps)) k = map_option canonical_value (map_of ?ps k)"
    for k by (rule map_of_canonical) simp
  have key: "get_key (canonical_value (JsObject ?ps)) k =
      (case map_of ?ps k of Some v \<Rightarrow> Inr (canonical_value v) | None \<Rightarrow> Inl (KeyError k))" for k
    unfolding get_key_def canonical_value.simps json.case look by (cases "map_of ?ps k") simp_all
  have "journal_fields fl (journal_text fl dg n s) =
      Inr (int n, s, JsStr (dg (json_text fl (JsStr (to_hex s)))))"
    unfolding journal_fields_def utf bind_result_simps loads key by simp
  then show ?thesis by (simp add: read_journal_def)
qed

text \<open>\<open>settled\<close> is a file without a journal; \<open>holds d es\<close> says that the next reader gets \<open>es\<close>: the file
  is settled, or an append of \<open>new\<close> to \<open>old\<close> stopped after \<open>k\<close> bytes of its suffix.\<close>

definition settled ::
  "float_codec \<Rightarrow> (string \<Rightarrow> string) \<Rightarrow> ledger_disk \<Rightarrow> ledger_envelope list \<Rightarrow> bool" where
  "settled fl dg d es \<longleftrightarrow>
     ledger_ok fl dg es \<and> ld_journal d = None \<and> ld_file d = Some (file_text fl es)"

definition interrupted ::
  "float_codec \<Rightarrow> (string \<Rightarrow> string) \<Rightarrow> ledger_disk \<Rightarrow> ledger_envelope list \<Rightarrow> ledger_envelope list \<Rightarrow>
     nat \<Rightarrow> bool" where
  "interrupted fl dg d old new k \<longleftrightarrow>
     ledger_ok fl dg (old @ new) \<and> new \<noteq> [] \<and> k \<le> length (file_text fl new) \<and>
     ld_journal d = Some (journal_text fl dg (length (file_text fl old)) (file_text fl new)) \<and>
     ld_file d = Some (file_text fl old @ take k (file_text fl new))"

definition holds ::
  "float_codec \<Rightarrow> (string \<Rightarrow> string) \<Rightarrow> ledger_disk \<Rightarrow> ledger_envelope list \<Rightarrow> bool" where
  "holds fl dg d es \<longleftrightarrow>
     (d = empty_disk \<and> es = []) \<or> settled fl dg d es \<or>
     (\<exists>old new k. interrupted fl dg d old new k \<and>
        es = (if k = length (file_text fl new) then old @ new else old))"

lemma holds_settled: "settled fl dg d es \<Longrightarrow> holds fl dg d es"
  by (simp add: holds_def)

lemma holds_interrupted:
  "interrupted fl dg d old new k \<Longrightarrow>
     holds fl dg d (if k = length (file_text fl new) then old @ new else old)"
  unfolding holds_def by blast

lemma holds_ok: "holds fl dg d es \<Longrightarrow> ledger_ok fl dg es"
  unfolding holds_def settled_def interrupted_def by (auto dest: ledger_ok_prefix)

lemma recover_settled:
  "ld_journal d = None \<Longrightarrow> recover_pending fl dg d content = ([d], Inr d)"
  by (simp add: recover_pending_def)

lemma recover_interrupted:
  assumes int: "interrupted fl dg d old new k"
  defines "es \<equiv> (if k = length (file_text fl new) then old @ new else old)"
  shows "\<exists>ds d'. recover_pending fl dg d (file_content d) = (ds, Inr d') \<and>
    settled fl dg d' es \<and> ds \<noteq> [] \<and> last ds = d' \<and> (\<forall>s \<in> set ds. holds fl dg s es)"
proof -
  let ?old = "file_text fl old" and ?new = "file_text fl new"
  from int have i: "ledger_ok fl dg (old @ new)" "new \<noteq> []" "k \<le> length ?new"
      "ld_journal d = Some (journal_text fl dg (length ?old) ?new)" "ld_file d = Some (?old @ take k ?new)"
    unfolding interrupted_def by blast+
  have here: "holds fl dg d es" unfolding es_def by (rule holds_interrupted [OF int])
  show ?thesis
  proof (cases "k = length ?new")
    case True
    let ?d = "d\<lparr>ld_journal := None\<rparr>"
    have "recover_pending fl dg d (file_content d) = ([d, d, ?d], Inr ?d)"
      using i True by (simp add: recover_pending_def journal_back file_content_def Let_def)
    moreover have "settled fl dg ?d es" using i True by (simp add: settled_def es_def)
    ultimately show ?thesis using here holds_settled by (intro exI) auto
  next
    case False
    then have short: "take k ?new \<noteq> ?new" using i(3) by (metis length_take min.absorb2)
    let ?kept = "d\<lparr>ld_file := Some ?old\<rparr>"
    let ?d = "?kept\<lparr>ld_journal := None\<rparr>"
    have run: "recover_pending fl dg d (file_content d) = ([d, ?kept, ?d], Inr ?d)"
      using i(4,5) short by (simp add: recover_pending_def journal_back file_content_def Let_def take_is_prefix)
    have zero: "interrupted fl dg ?kept old new 0" using i by (simp add: interrupted_def)
    have "holds fl dg ?kept es"
      using holds_interrupted [OF zero] i(2) False unfolding es_def by simp
    moreover have "settled fl dg ?d es"
      using ledger_ok_prefix [OF i(1)] False by (simp add: settled_def es_def)
    ultimately show ?thesis using run here holds_settled by (intro exI) auto
  qed
qed

lemma read_holds:
  assumes "holds fl dg d es"
  shows "\<exists>ds. read_ledger fl dg verify d = (ds, Inr es) \<and> ds \<noteq> [] \<and> (\<forall>s \<in> set ds. holds fl dg s es) \<and>
    (last ds = empty_disk \<or> settled fl dg (last ds) es)"
  using assms [unfolded holds_def]
proof (elim disjE exE conjE)
  assume "d = empty_disk" "es = []"
  then show ?thesis by (simp add: read_ledger_def empty_disk_def holds_def)
next
  assume s: "settled fl dg d es"
  then have "ledger_ok fl dg es" "ld_journal d = None" "ld_file d = Some (file_text fl es)"
    by (simp_all add: settled_def)
  with s show ?thesis
    by (simp add: read_ledger_def recover_settled file_content_def decode_ledger_ok holds_settled)
next
  fix old new k
  assume int: "interrupted fl dg d old new k"
    and es: "es = (if k = length (file_text fl new) then old @ new else old)"
  from recover_interrupted [OF int, folded es] obtain ds d' where
    r: "recover_pending fl dg d (file_content d) = (ds, Inr d')" "settled fl dg d' es" "ds \<noteq> []"
      "last ds = d'" "\<forall>s \<in> set ds. holds fl dg s es"
    by blast
  have "decode_ledger fl dg verify (file_content d') = Inr es"
    using r(2) by (simp add: settled_def file_content_def decode_ledger_ok)
  moreover have "ld_file d = Some (file_content d)"
    using int by (simp add: interrupted_def file_content_def)
  ultimately have "read_ledger fl dg verify d = (ds, Inr es)" using r(1) by (simp add: read_ledger_def)
  with r show ?thesis by blast
qed

end
