(* ===== verification/Ledger_Append.thy ===== *)
theory Ledger_Append
  imports Ledger
begin

text \<open>
  What an append to the evidence ledger does, crashes included: the invariant of the loop over a
  batch, its simulation of the abstract ledger of entries, the writes under the journal, the
  interpretation of \<open>append_log\<close> on runs of interrupted appends, and the properties.
\<close>

section \<open>The abstract ledger\<close>

text \<open>What an append promises is stated on entries (event ID, event type, canonical event text):
  recording an entry that is there already changes nothing, another event under a recorded ID is
  refused, and everything else goes to the end.\<close>

type_synonym ledger_entry = "json \<times> json \<times> string"

definition entry_of :: "float_codec \<Rightarrow> ledger_envelope \<Rightarrow> ledger_entry" where
  "entry_of fl e = (le_event_id e, le_event_type e, json_text fl (le_event e))"

definition request_entry :: "float_codec \<Rightarrow> prepared_event \<Rightarrow> ledger_entry" where
  "request_entry fl p = (JsStr (pe_id p), JsStr (pe_type p), json_text fl (JsObject (pe_payload p)))"

definition record_entry :: "ledger_entry list \<Rightarrow> ledger_entry \<Rightarrow> ledger_entry list result" where
  "record_entry es x =
     (if x \<in> set es then Inr es
      else if fst x \<in> fst ` set es
      then Inl (ValueError ''event ID conflicts with existing ledger evidence'')
      else Inr (es @ [x]))"

definition stored :: "ledger_envelope \<Rightarrow> ledger_envelope" where
  "stored e = e\<lparr>le_event := canonical_value (le_event e)\<rparr>"

lemma stored_fields [simp]:
  "le_sequence (stored e) = le_sequence e" "le_recorded_at (stored e) = le_recorded_at e"
  "le_event_id (stored e) = le_event_id e" "le_event_type (stored e) = le_event_type e"
  "le_event (stored e) = canonical_value (le_event e)"
  "le_previous_hash (stored e) = le_previous_hash e" "le_event_hash (stored e) = le_event_hash e"
  by (simp_all add: stored_def)

lemma stored_text [simp]:
  "json_text fl (JsObject (envelope_core (stored e))) = json_text fl (JsObject (envelope_core e))"
  "envelope_line fl (stored e) = envelope_line fl e" "entry_of fl (stored e) = entry_of fl e"
  by (simp_all add: envelope_core_def core_fields_def envelope_line_def envelope_json_def entry_of_def)

lemma last_hash_stored: "last_hash h (es @ map stored fs) = last_hash h (es @ fs)"
  by (cases fs rule: rev_cases) (simp_all add: last_hash_def)

section \<open>One batch\<close>

definition batch_inv ::
  "float_codec \<Rightarrow> (string \<Rightarrow> string) \<Rightarrow> ledger_envelope list \<Rightarrow> batch_state \<Rightarrow> bool" where
  "batch_inv fl dg es b \<longleftrightarrow>
     ledger_ok fl dg (es @ map stored (bs_additions b)) \<and>
     (\<forall>i e. map_of (bs_by_id b) (JsStr i) = Some e \<longleftrightarrow>
        e \<in> set (es @ bs_additions b) \<and> le_event_id e = JsStr i) \<and>
     bs_previous b = last_hash genesis_hash (es @ bs_additions b) \<and>
     bs_sequence b = int (length (es @ bs_additions b)) + 1 \<and>
     (\<forall>e \<in> set (es @ bs_additions b). json_ok fl (le_event e)) \<and>
     (\<forall>e \<in> set (bs_additions b). json_finite (envelope_json e)) \<and>
     set (bs_returned b) \<subseteq> set (es @ bs_additions b)"

lemma batch_invD:
  assumes "batch_inv fl dg es b"
  shows "ledger_ok fl dg (es @ map stored (bs_additions b))"
    "map_of (bs_by_id b) (JsStr i) = Some e \<longleftrightarrow> e \<in> set (es @ bs_additions b) \<and> le_event_id e = JsStr i"
    "bs_previous b = last_hash genesis_hash (es @ bs_additions b)"
    "bs_sequence b = int (length (es @ bs_additions b)) + 1"
    "e \<in> set (es @ bs_additions b) \<Longrightarrow> json_ok fl (le_event e)"
    "e \<in> set (bs_additions b) \<Longrightarrow> json_finite (envelope_json e)"
    "set (bs_returned b) \<subseteq> set (es @ bs_additions b)"
  using assms unfolding batch_inv_def by blast+

lemma ledger_ok_member:
  assumes "ledger_ok fl dg es" and "e \<in> set es"
  shows "is_str (le_event_id e)" and "json_ok fl (le_event e)" and "stored e = e"
proof -
  obtain n p where "envelope_ok fl dg n p e"
    using assms chain_ok_member unfolding ledger_ok_def by blast
  note f = envelope_ok_facts [OF this]
  show "is_str (le_event_id e)" "json_ok fl (le_event e)" by (rule f)+
  show "stored e = e" using f(6) by (simp add: stored_def)
qed

lemma map_of_by_key:
  assumes "distinct (map f es)"
  shows "map_of (map (\<lambda>e. (f e, e)) es) k = Some e \<longleftrightarrow> e \<in> set es \<and> f e = k"
proof -
  have "distinct (map fst (map (\<lambda>e. (f e, e)) es))" using assms by (simp add: comp_def)
  then show ?thesis by (auto simp: map_of_eq_Some_iff)
qed

lemma start_batch_inv:
  assumes "ledger_ok fl dg es"
  shows "batch_inv fl dg es (start_batch es)"
proof -
  have "distinct (map le_event_id es)" using assms by (simp add: ledger_ok_def)
  from map_of_by_key [OF this] ledger_ok_member(2) [OF assms] assms show ?thesis
    by (simp add: batch_inv_def start_batch_def last_hash_def)
qed

lemma json_eq_is_str: "is_str v \<Longrightarrow> json_eq v w \<longleftrightarrow> v = w"
  by (erule is_strE) auto

lemma ids_distinct:
  assumes "batch_inv fl dg es b" and "e \<in> set (es @ bs_additions b)" and "f \<in> set (es @ bs_additions b)"
    and "le_event_id e = le_event_id f"
  shows "e = f"
proof -
  have "distinct (map le_event_id (es @ bs_additions b))"
    using batch_invD(1) [OF assms(1)] by (simp add: ledger_ok_def comp_def)
  then have "inj_on le_event_id (set (es @ bs_additions b))" unfolding distinct_map by blast
  then show ?thesis using assms(4,2,3) by (rule inj_onD)
qed

lemma last_hash_str:
  assumes "ledger_ok fl dg es"
  shows "is_str (last_hash genesis_hash es)"
proof (cases es rule: rev_cases)
  case (snoc fs e)
  then obtain n p where "envelope_ok fl dg n p e"
    using assms chain_ok_member [of fl dg 1 genesis_hash es e] unfolding ledger_ok_def by auto
  from envelope_ok_facts(9) [OF this] snoc show ?thesis by (simp add: last_hash_def)
qed (simp add: last_hash_def genesis_hash_def)

lemma add_known:
  assumes inv: "batch_inv fl dg es b" and ok: "json_ok fl (JsObject (pe_payload p))"
    and known: "map_of (bs_by_id b) (JsStr (pe_id p)) = Some e"
  shows "add_to_batch fl dg clock b p =
    (if entry_of fl e = request_entry fl p then Inr (b\<lparr>bs_returned := bs_returned b @ [e]\<rparr>)
     else Inl (ValueError ''event ID conflicts with existing ledger evidence''))"
proof -
  have e: "e \<in> set (es @ bs_additions b)" "le_event_id e = JsStr (pe_id p)"
    using known batch_invD(2) [OF inv] by simp_all
  have plain: "canonical_json fl (le_event e) = Inr (json_text fl (le_event e))"
    using batch_invD(5) [OF inv e(1)] by simp
  show ?thesis
    using ok e(2) by (auto simp: add_to_batch_def known plain entry_of_def request_entry_def
        simp del: json_ok.simps json_text.simps)
qed

definition new_envelope ::
  "float_codec \<Rightarrow> (string \<Rightarrow> string) \<Rightarrow> (nat \<Rightarrow> string) \<Rightarrow> batch_state \<Rightarrow> prepared_event \<Rightarrow>
     ledger_envelope" where
  "new_envelope fl dg clock b p =
     (let recorded = JsStr (clock (length (bs_additions b)));
          core = core_fields (JsInt (bs_sequence b)) recorded (JsStr (pe_id p)) (JsStr (pe_type p))
            (JsObject (pe_payload p)) (bs_previous b)
      in \<lparr>le_sequence = JsInt (bs_sequence b), le_recorded_at = recorded,
           le_event_id = JsStr (pe_id p), le_event_type = JsStr (pe_type p),
           le_event = JsObject (pe_payload p), le_previous_hash = bs_previous b,
           le_event_hash = JsStr (dg (json_text fl (JsObject core)))\<rparr>)"

lemma new_envelope_fields [simp]:
  "le_sequence (new_envelope fl dg clock b p) = JsInt (bs_sequence b)"
  "le_event_id (new_envelope fl dg clock b p) = JsStr (pe_id p)"
  "le_event_type (new_envelope fl dg clock b p) = JsStr (pe_type p)"
  "le_event (new_envelope fl dg clock b p) = JsObject (pe_payload p)"
  "le_previous_hash (new_envelope fl dg clock b p) = bs_previous b"
  "is_str (le_recorded_at (new_envelope fl dg clock b p))"
  "le_event_hash (new_envelope fl dg clock b p) =
     JsStr (dg (json_text fl (JsObject (envelope_core (new_envelope fl dg clock b p)))))"
  by (simp_all only: new_envelope_def Let_def ledger_envelope.select_convs is_str_simps
      envelope_core_def)

lemma entry_of_new [simp]: "entry_of fl (new_envelope fl dg clock b p) = request_entry fl p"
  by (simp add: entry_of_def request_entry_def del: json_text.simps)

lemma new_envelope_ok:
  assumes "json_ok fl (JsObject (pe_payload p))" and "is_str (bs_previous b)"
  shows "envelope_ok fl dg (bs_sequence b) (bs_previous b) (stored (new_envelope fl dg clock b p))"
    and "json_finite (envelope_json (new_envelope fl dg clock b p))"
    and "json_finite (JsObject (envelope_core (new_envelope fl dg clock b p)))"
proof -
  let ?e = "new_envelope fl dg clock b p"
  note str = is_str_facts [OF assms(2), of fl] is_str_facts [OF new_envelope_fields(6), of fl fl dg clock b p]
  have canon: "json_ok fl (canonical_value (JsObject (pe_payload p)))"
    using assms(1) by (rule json_ok_canonical)
  then show "envelope_ok fl dg (bs_sequence b) (bs_previous b) (stored ?e)"
    unfolding envelope_ok_def stored_fields stored_text
    using assms by (simp only: new_envelope_fields is_str_simps canonical_idem simp_thms)
  have "json_finite (le_event ?e)"
    using json_ok_finite [OF assms(1)] by (simp only: new_envelope_fields)
  moreover have "json_finite (le_recorded_at ?e)" "json_finite (bs_previous b)"
    using str json_ok_finite by blast+
  ultimately have "list_all (\<lambda>(k, v). json_finite v) (envelope_core ?e)"
    by (simp add: envelope_core_def core_fields_def del: json_finite.simps(3))
  then show "json_finite (JsObject (envelope_core ?e))" "json_finite (envelope_json ?e)"
    by (simp_all add: envelope_json_def)
qed

lemma add_new:
  fixes clock :: "nat \<Rightarrow> string"
  assumes inv: "batch_inv fl dg es b" and ok: "json_ok fl (JsObject (pe_payload p))"
    and new: "map_of (bs_by_id b) (JsStr (pe_id p)) = None"
  defines "e \<equiv> new_envelope fl dg clock b p"
  defines "b' \<equiv> b\<lparr>bs_by_id := AList.update (JsStr (pe_id p)) e (bs_by_id b),
      bs_returned := bs_returned b @ [e], bs_additions := bs_additions b @ [e],
      bs_previous := le_event_hash e, bs_sequence := bs_sequence b + 1\<rparr>"
  shows "add_to_batch fl dg clock b p = Inr b'" and "batch_inv fl dg es b'"
proof -
  let ?all = "es @ bs_additions b"
  have prev: "is_str (bs_previous b)"
    using last_hash_str [OF batch_invD(1) [OF inv]] batch_invD(3) [OF inv]
    by (simp add: last_hash_stored)
  note ok_e = new_envelope_ok [OF ok prev, of dg clock, folded e_def]
  have sha: "canonical_sha256 fl dg (JsObject (envelope_core e)) =
      Inr (dg (json_text fl (JsObject (envelope_core e))))"
    unfolding canonical_sha256_def canonical_json_def using ok_e(3) by (simp only: if_True bind_result_simps)
  have core: "envelope_core e = core_fields (JsInt (bs_sequence b)) (JsStr (clock (length (bs_additions b))))
      (JsStr (pe_id p)) (JsStr (pe_type p)) (JsObject (pe_payload p)) (bs_previous b)"
    by (simp add: e_def new_envelope_def envelope_core_def Let_def)
  show "add_to_batch fl dg clock b p = Inr b'"
    unfolding add_to_batch_def new option.case Let_def sha [unfolded core] bind_result_simps
    by (simp add: b'_def e_def new_envelope_def Let_def)
  have fresh: "le_event_id f \<noteq> JsStr (pe_id p)" if "f \<in> set ?all" for f
    using new batch_invD(2) [OF inv, of "pe_id p" f] that by auto
  have chain: "ledger_ok fl dg (es @ map stored (bs_additions b @ [e]))"
  proof -
    have "chain_ok fl dg 1 genesis_hash ((es @ map stored (bs_additions b)) @ [stored e])"
    proof (subst chain_ok_append, intro conjI)
      show "chain_ok fl dg 1 genesis_hash (es @ map stored (bs_additions b))"
        using batch_invD(1) [OF inv] by (simp only: ledger_ok_def)
      show "chain_ok fl dg (1 + int (length (es @ map stored (bs_additions b))))
          (last_hash genesis_hash (es @ map stored (bs_additions b))) [stored e]"
        unfolding last_hash_stored using ok_e(1) batch_invD(3,4) [OF inv] by (simp add: add_ac)
    qed
    moreover have "distinct (map le_event_id ((es @ map stored (bs_additions b)) @ [stored e]))"
      using batch_invD(1) [OF inv] fresh unfolding ledger_ok_def by (force simp: e_def comp_def)
    ultimately show ?thesis by (simp add: ledger_ok_def)
  qed
  have fields: "bs_additions b' = bs_additions b @ [e]" "bs_previous b' = le_event_hash e"
      "bs_sequence b' = bs_sequence b + 1" "bs_returned b' = bs_returned b @ [e]"
      "bs_by_id b' = AList.update (JsStr (pe_id p)) e (bs_by_id b)"
    by (simp_all add: b'_def)
  have look: "map_of (bs_by_id b') (JsStr i) = Some f \<longleftrightarrow>
      f \<in> set (es @ bs_additions b') \<and> le_event_id f = JsStr i" for i f
    unfolding fields dict_simps using batch_invD(2) [OF inv, of i f] fresh by (auto simp: e_def)
  show "batch_inv fl dg es b'"
    unfolding batch_inv_def
  proof (intro conjI allI ballI)
    show "ledger_ok fl dg (es @ map stored (bs_additions b'))" using chain fields(1) by simp
  next
    fix f assume "f \<in> set (es @ bs_additions b')"
    with batch_invD(5) [OF inv] ok show "json_ok fl (le_event f)"
      by (auto simp: fields e_def simp del: json_ok.simps)
  next
    fix f assume "f \<in> set (bs_additions b')"
    with batch_invD(6) [OF inv] ok_e(2) show "json_finite (envelope_json f)" by (auto simp: fields)
  qed (use look batch_invD(4,7) [OF inv] in \<open>auto simp: fields last_hash_def\<close>)
qed

lemma entry_ids: "fst ` set (map (entry_of fl) es) = le_event_id ` set es"
  by (induction es) (simp_all add: entry_of_def)

text \<open>One event of a batch does to the entries what the abstract ledger does.\<close>

lemma add_to_batch_spec:
  assumes inv: "batch_inv fl dg es b" and ok: "json_ok fl (JsObject (pe_payload p))"
  shows "case record_entry (map (entry_of fl) (es @ bs_additions b)) (request_entry fl p) of
      Inl x \<Rightarrow> add_to_batch fl dg clock b p = Inl x
    | Inr entries \<Rightarrow> \<exists>b' r. add_to_batch fl dg clock b p = Inr b' \<and> batch_inv fl dg es b' \<and>
        map (entry_of fl) (es @ bs_additions b') = entries \<and>
        bs_returned b' = bs_returned b @ [r] \<and> entry_of fl r = request_entry fl p"
proof (cases "map_of (bs_by_id b) (JsStr (pe_id p))")
  case None
  have fresh: "le_event_id f \<noteq> JsStr (pe_id p)" if "f \<in> set (es @ bs_additions b)" for f
  proof -
    have "map_of (bs_by_id b) (JsStr (pe_id p)) \<noteq> Some f" using None by simp
    then show ?thesis using batch_invD(2) [OF inv, of "pe_id p" f] that by blast
  qed
  have "JsStr (pe_id p) \<notin> le_event_id ` set (es @ bs_additions b)"
  proof
    assume "JsStr (pe_id p) \<in> le_event_id ` set (es @ bs_additions b)"
    then obtain f where "JsStr (pe_id p) = le_event_id f" "f \<in> set (es @ bs_additions b)"
      by (rule imageE)
    with fresh [of f] show False by simp
  qed
  then have "fst (request_entry fl p) \<notin> fst ` set (map (entry_of fl) (es @ bs_additions b))"
    by (simp only: entry_ids request_entry_def fst_conv not_False_eq_True)
  then have "record_entry (map (entry_of fl) (es @ bs_additions b)) (request_entry fl p) =
      Inr (map (entry_of fl) (es @ bs_additions b) @ [request_entry fl p])"
    unfolding record_entry_def by (metis image_eqI)
  with add_new [OF inv ok None, of clock] show ?thesis by simp
next
  case (Some e)
  have e: "e \<in> set (es @ bs_additions b)" "le_event_id e = JsStr (pe_id p)"
    using Some batch_invD(2) [OF inv] by simp_all
  have "f = e" if "f \<in> set (es @ bs_additions b)" "entry_of fl f = request_entry fl p" for f
    using ids_distinct [OF inv that(1) e(1)] that(2) e(2) by (simp add: entry_of_def request_entry_def)
  then have there: "request_entry fl p \<in> set (map (entry_of fl) (es @ bs_additions b)) \<longleftrightarrow>
      entry_of fl e = request_entry fl p"
    using e(1) by (metis (mono_tags, lifting) image_eqI image_iff list.set_map)
  have known: "fst (request_entry fl p) \<in> fst ` set (map (entry_of fl) (es @ bs_additions b))"
    using e by (force simp: entry_of_def request_entry_def)
  note run = add_known [OF inv ok Some, of clock]
  show ?thesis
  proof (cases "entry_of fl e = request_entry fl p")
    case True
    let ?b = "b\<lparr>bs_returned := bs_returned b @ [e]\<rparr>"
    have "batch_inv fl dg es ?b"
      using inv e(1) by (simp add: batch_inv_def)
    moreover have "record_entry (map (entry_of fl) (es @ bs_additions b)) (request_entry fl p) =
        Inr (map (entry_of fl) (es @ bs_additions b))"
      using there True by (simp add: record_entry_def del: set_map)
    ultimately show ?thesis using run True by simp
  next
    case False
    then have "record_entry (map (entry_of fl) (es @ bs_additions b)) (request_entry fl p) =
        Inl (ValueError ''event ID conflicts with existing ledger evidence'')"
      using there known by (simp add: record_entry_def del: set_map)
    then show ?thesis using run False by simp
  qed
qed

lemma add_events_spec:
  assumes "batch_inv fl dg es b" and "\<And>p. p \<in> set ps \<Longrightarrow> json_ok fl (JsObject (pe_payload p))"
  shows "case fold_result record_entry (map (entry_of fl) (es @ bs_additions b)) (map (request_entry fl) ps) of
      Inl x \<Rightarrow> fold_result (add_to_batch fl dg clock) b ps = Inl x
    | Inr entries \<Rightarrow> \<exists>b' rs. fold_result (add_to_batch fl dg clock) b ps = Inr b' \<and> batch_inv fl dg es b' \<and>
        map (entry_of fl) (es @ bs_additions b') = entries \<and>
        bs_returned b' = bs_returned b @ rs \<and> map (entry_of fl) rs = map (request_entry fl) ps"
  using assms
proof (induction ps arbitrary: b)
  case (Cons p ps)
  have ok: "json_ok fl (JsObject (pe_payload p))" by (rule Cons.prems(2)) simp
  note step = add_to_batch_spec [OF Cons.prems(1) ok, of clock]
  show ?case
  proof (cases "record_entry (map (entry_of fl) (es @ bs_additions b)) (request_entry fl p)")
    case (Inl x)
    with step show ?thesis by simp
  next
    case (Inr entries)
    with step obtain b1 r where b1: "add_to_batch fl dg clock b p = Inr b1" "batch_inv fl dg es b1"
        "map (entry_of fl) (es @ bs_additions b1) = entries"
        "bs_returned b1 = bs_returned b @ [r]" "entry_of fl r = request_entry fl p"
      by auto
    have rest: "case fold_result record_entry entries (map (request_entry fl) ps) of
        Inl x \<Rightarrow> fold_result (add_to_batch fl dg clock) b1 ps = Inl x
      | Inr entries \<Rightarrow> \<exists>b' rs. fold_result (add_to_batch fl dg clock) b1 ps = Inr b' \<and>
          batch_inv fl dg es b' \<and> map (entry_of fl) (es @ bs_additions b') = entries \<and>
          bs_returned b' = bs_returned b1 @ rs \<and> map (entry_of fl) rs = map (request_entry fl) ps"
      unfolding b1(3) [symmetric] by (rule Cons.IH [OF b1(2)]) (use Cons.prems(2) in simp)
    show ?thesis
    proof (cases "fold_result record_entry entries (map (request_entry fl) ps)")
      case (Inl x)
      with rest \<open>record_entry _ _ = Inr entries\<close> b1(1) show ?thesis by simp
    next
      case (Inr final)
      with rest obtain b' rs where b': "fold_result (add_to_batch fl dg clock) b1 ps = Inr b'"
          "batch_inv fl dg es b'" "map (entry_of fl) (es @ bs_additions b') = final"
          "bs_returned b' = bs_returned b1 @ rs" "map (entry_of fl) rs = map (request_entry fl) ps"
        by auto
      have more: "bs_returned b' = bs_returned b @ (r # rs)"
          "map (entry_of fl) (r # rs) = map (request_entry fl) (p # ps)"
        using b'(4,5) b1(4,5) by simp_all
      have run: "fold_result (add_to_batch fl dg clock) b (p # ps) = Inr b'"
        using b1(1) b'(1) by simp
      have spec: "fold_result record_entry (map (entry_of fl) (es @ bs_additions b))
          (map (request_entry fl) (p # ps)) = Inr final"
        using Inr \<open>record_entry _ _ = Inr entries\<close> by simp
      show ?thesis unfolding spec sum.case
        by (intro exI [of _ b'] exI [of _ "r # rs"] conjI) (fact run b'(2,3) more)+
    qed
  qed
qed auto

section \<open>Writing the batch\<close>

lemma encode_additions:
  assumes "batch_inv fl dg es b"
  shows "map_result (encode_envelope fl) (bs_additions b) =
    Inr (map (\<lambda>e. envelope_line fl e @ [CHR 0x0A]) (bs_additions b))"
proof -
  have "map_result (encode_envelope fl) (map (\<lambda>e. e) (bs_additions b)) =
      Inr (map (\<lambda>e. envelope_line fl e @ [CHR 0x0A]) (bs_additions b))"
    by (rule map_result_map)
      (simp add: encode_envelope_def canonical_json_def batch_invD(6) [OF assms] envelope_line_def)
  then show ?thesis by simp
qed

lemma file_text_stored: "file_text fl (map stored es) = concat (map (\<lambda>e. envelope_line fl e @ [CHR 0x0A]) es)"
  by (simp add: file_text_def comp_def)

lemma write_additions_spec:
  assumes d: "settled fl dg d es" and ok: "ledger_ok fl dg (es @ new)" and "new \<noteq> []"
  shows "\<exists>ds. write_additions fl dg d (file_text fl new) = (ds, Inr ()) \<and> ds \<noteq> [] \<and>
    settled fl dg (last ds) (es @ new) \<and>
    (\<forall>s \<in> set ds. holds fl dg s es \<or> holds fl dg s (es @ new))"
proof -
  let ?old = "file_text fl es" and ?new = "file_text fl new"
  from d have d': "ledger_ok fl dg es" "ld_journal d = None" "file_content d = ?old" "ld_file d = Some ?old"
    by (simp_all add: settled_def file_content_def)
  let ?j = "d\<lparr>ld_journal := Some (journal_text fl dg (length ?old) ?new)\<rparr>"
  let ?w = "\<lambda>k. ?j\<lparr>ld_file := Some (?old @ take k ?new)\<rparr>"
  let ?after = "?j\<lparr>ld_file := Some (?old @ ?new), ld_journal := None\<rparr>"
  let ?ds = "d # map ?w [0..<Suc (length ?new)] @ [?after]"
  have decode: "decode_ledger fl dg True (?old @ ?new) = Inr (es @ new)"
    using decode_ledger_ok [OF ok, of True] by simp
  have run: "write_additions fl dg d ?new = (?ds, Inr ())"
    using d' decode by (simp add: write_additions_def atomic_create_once_def Let_def file_content_def
        del: upt_Suc)
  have writing: "holds fl dg (?w k) es \<or> holds fl dg (?w k) (es @ new)" if "k \<le> length ?new" for k
  proof -
    have "interrupted fl dg (?w k) es new k" using ok assms(3) that by (simp add: interrupted_def)
    from holds_interrupted [OF this] show ?thesis by (simp split: if_splits)
  qed
  have final: "settled fl dg ?after (es @ new)" using ok by (simp add: settled_def)
  have "\<forall>s \<in> set ?ds. holds fl dg s es \<or> holds fl dg s (es @ new)"
    using holds_settled [OF d] holds_settled [OF final] writing by (auto simp del: upt_Suc)
  with run final show ?thesis by (intro exI [of _ ?ds]) simp
qed

lemma append_locked_spec:
  assumes d: "settled fl dg d es" and ok: "\<And>p. p \<in> set ps \<Longrightarrow> json_ok fl (JsObject (pe_payload p))"
  shows "case fold_result record_entry (map (entry_of fl) es) (map (request_entry fl) ps) of
      Inl x \<Rightarrow> append_locked fl dg clock ps d = ([d], Inl x)
    | Inr entries \<Rightarrow> \<exists>ds new rs. append_locked fl dg clock ps d = (ds, Inr rs) \<and> ds \<noteq> [] \<and>
        map (entry_of fl) (es @ new) = entries \<and> map (entry_of fl) rs = map (request_entry fl) ps \<and>
        stored ` set rs \<subseteq> set (es @ new) \<and> settled fl dg (last ds) (es @ new) \<and>
        (\<forall>s \<in> set ds. holds fl dg s es \<or> holds fl dg s (es @ new))"
proof -
  from d have d': "ledger_ok fl dg es" "file_content d = file_text fl es"
    by (simp_all add: settled_def file_content_def)
  note start = start_batch_inv [OF d'(1)]
  have same: "map (entry_of fl) (es @ bs_additions (start_batch es)) = map (entry_of fl) es"
    by (simp add: start_batch_def)
  note batch = add_events_spec [OF start ok, of ps clock, unfolded same]
  note decode = decode_ledger_ok [OF d'(1), of True, folded d'(2)]
  show ?thesis
  proof (cases "fold_result record_entry (map (entry_of fl) es) (map (request_entry fl) ps)")
    case (Inl x)
    with batch show ?thesis by (simp add: append_locked_def decode)
  next
    case (Inr entries)
    with batch obtain b rs where b: "fold_result (add_to_batch fl dg clock) (start_batch es) ps = Inr b"
        "batch_inv fl dg es b" "map (entry_of fl) (es @ bs_additions b) = entries"
        "bs_returned b = bs_returned (start_batch es) @ rs"
        "map (entry_of fl) rs = map (request_entry fl) ps"
      by auto
    then have rs: "bs_returned b = rs" by (simp add: start_batch_def)
    let ?new = "map stored (bs_additions b)"
    have new: "map (entry_of fl) (es @ ?new) = entries"
      using b(3) by (simp add: comp_def)
    have "stored e = e" if "e \<in> set es" for e by (rule ledger_ok_member(3) [OF d'(1) that])
    then have members: "stored ` set rs \<subseteq> set (es @ ?new)"
      using batch_invD(7) [OF b(2)] rs by (force simp: image_subset_iff)
    show ?thesis
    proof (cases "bs_additions b = []")
      case True
      then have "append_locked fl dg clock ps d = ([d], Inr rs)"
        using b(1) rs by (simp add: append_locked_def decode)
      moreover have "settled fl dg d (es @ ?new)" using d True by simp
      moreover have "\<forall>s \<in> set [d]. holds fl dg s es \<or> holds fl dg s (es @ ?new)"
        using holds_settled [OF d] by simp
      ultimately show ?thesis
        unfolding Inr sum.case
        by (intro exI [of _ "[d]"] exI [of _ ?new] exI [of _ rs] conjI)
          (simp_all only: new b(5) members last.simps list.distinct if_True simp_thms)
    next
      case False
      have lines: "concat (map (\<lambda>e. envelope_line fl e @ [CHR 0x0A]) (bs_additions b)) = file_text fl ?new"
        by (rule file_text_stored [symmetric])
      have nonempty: "?new \<noteq> []" using False by simp
      obtain ds where ds: "write_additions fl dg d (file_text fl ?new) = (ds, Inr ())" "ds \<noteq> []"
          "settled fl dg (last ds) (es @ ?new)"
          "\<forall>s \<in> set ds. holds fl dg s es \<or> holds fl dg s (es @ ?new)"
        using write_additions_spec [OF d batch_invD(1) [OF b(2)] nonempty] by blast
      have "append_locked fl dg clock ps d = (ds, Inr rs)"
        using b(1) False encode_additions [OF b(2)] ds(1) rs
        by (simp add: append_locked_def decode lines)
      note run = this
      show ?thesis unfolding Inr sum.case
        by (intro exI [of _ ds] exI [of _ ?new] exI [of _ rs] conjI) (fact run new b(5) members ds(2-4))+
    qed
  qed
qed

section \<open>Appends with crashes\<close>

definition storable :: "float_codec \<Rightarrow> (string \<times> json) list \<Rightarrow> bool" where
  "storable fl events = list_all (\<lambda>(event_type, ev). json_finite ev \<longrightarrow> json_ok fl ev) events"

lemma prepare_event_ok:
  assumes "prepare_event fl dg (event_type, ev) = Inr p" and "json_finite ev \<longrightarrow> json_ok fl ev"
  shows "json_ok fl (JsObject (pe_payload p))"
proof -
  obtain payload where ev: "ev = JsObject payload"
    using assms(1) by (cases ev) (simp_all add: prepare_event_def ledger_payload_def split: if_splits)
  from assms(1) obtain t where "canonical_json fl ev = Inr t" and payload: "pe_payload p = payload"
    unfolding prepare_event_def ev ledger_payload_def
    by (auto simp: bind_result_Inr split: if_splits)
  then have "json_finite ev" by (simp add: canonical_json_def split: if_splits)
  with assms(2) ev payload show ?thesis by (simp del: json_ok.simps)
qed

lemma prepare_batch_ok:
  assumes "prepare_batch fl dg events = Inr ps" and "storable fl events" and "p \<in> set ps"
  shows "json_ok fl (JsObject (pe_payload p))"
proof -
  have all2: "list_all2 (\<lambda>x y. prepare_event fl dg x = Inr y) events ps"
    using assms(1) by (auto simp: prepare_batch_def bind_result_Inr map_result_Inr)
  from assms(3) obtain i where i: "i < length ps" "ps ! i = p" by (auto simp: in_set_conv_nth)
  obtain event_type ev where e: "events ! i = (event_type, ev)" by fastforce
  have len: "i < length events" using all2 i(1) by (simp add: list_all2_lengthD)
  have "prepare_event fl dg (event_type, ev) = Inr p" using list_all2_nthD [OF all2 len] i(2) e by simp
  moreover have "json_finite ev \<longrightarrow> json_ok fl ev"
    using assms(2) len e nth_mem [OF len] by (auto simp: storable_def list_all_iff)
  ultimately show ?thesis by (rule prepare_event_ok)
qed

text \<open>The abstract append: the entries the batch asks for, and the ledger they make.\<close>

definition abstract_append ::
  "float_codec \<Rightarrow> (string \<Rightarrow> string) \<Rightarrow> ledger_entry list \<Rightarrow> (string \<times> json) list \<Rightarrow>
     (ledger_entry list \<times> ledger_entry list) result" where
  "abstract_append fl dg entries events =
     bind_result (prepare_batch fl dg events) (\<lambda>ps.
     bind_result (fold_result record_entry entries (map (request_entry fl) ps)) (\<lambda>final.
       Inr (map (request_entry fl) ps, final)))"

lemma recover_opened:
  assumes "holds fl dg d es"
  defines "opened \<equiv> (case ld_file d of None \<Rightarrow> d\<lparr>ld_file := Some []\<rparr> | Some _ \<Rightarrow> d)"
  shows "\<exists>ds d'. recover_pending fl dg opened (file_content opened) = (ds, Inr d') \<and>
    settled fl dg d' es \<and> (\<forall>s \<in> set ds. holds fl dg s es)"
  using assms(1) [unfolded holds_def]
proof (elim disjE exE conjE)
  assume "d = empty_disk" "es = []"
  then have opened: "settled fl dg opened es" "ld_journal opened = None"
    by (simp_all add: opened_def empty_disk_def settled_def)
  with holds_settled [OF opened(1)] show ?thesis by (simp add: recover_settled)
next
  assume s: "settled fl dg d es"
  then have "opened = d" "ld_journal d = None" by (simp_all add: opened_def settled_def)
  with s holds_settled [OF s] show ?thesis by (simp add: recover_settled)
next
  fix old new k
  assume int: "interrupted fl dg d old new k"
    and es: "es = (if k = length (file_text fl new) then old @ new else old)"
  then have "opened = d" by (simp add: opened_def interrupted_def)
  with recover_interrupted [OF int, folded es] show ?thesis by blast
qed

lemma append_many_spec:
  assumes d: "holds fl dg d es" and events: "storable fl events"
  shows "case abstract_append fl dg (map (entry_of fl) es) events of
      Inl x \<Rightarrow> \<exists>ds. append_many fl dg clock events d = (ds, Inl x) \<and> ds \<noteq> [] \<and>
        (\<forall>s \<in> set ds. holds fl dg s es)
    | Inr (asked, entries) \<Rightarrow> \<exists>ds new rs. append_many fl dg clock events d = (ds, Inr rs) \<and> ds \<noteq> [] \<and>
        map (entry_of fl) (es @ new) = entries \<and> map (entry_of fl) rs = asked \<and>
        stored ` set rs \<subseteq> set (es @ new) \<and> holds fl dg (last ds) (es @ new) \<and>
        (\<forall>s \<in> set ds. holds fl dg s es \<or> holds fl dg s (es @ new))"
proof (cases "prepare_batch fl dg events")
  case (Inl x)
  with d show ?thesis by (simp add: abstract_append_def append_many_def)
next
  case (Inr ps)
  note prepared = Inr
  show ?thesis
  proof (cases ps)
    case Nil
    with Inr d show ?thesis by (simp add: abstract_append_def append_many_def)
  next
    case (Cons p qs)
    let ?opened = "case ld_file d of None \<Rightarrow> d\<lparr>ld_file := Some []\<rparr> | Some _ \<Rightarrow> d"
    obtain ds d' where rec: "recover_pending fl dg ?opened (file_content ?opened) = (ds, Inr d')"
        "settled fl dg d' es" "\<forall>s \<in> set ds. holds fl dg s es"
      using recover_opened [OF d] by blast
    have run: "append_many fl dg clock events d =
        (case append_locked fl dg clock ps d' of (ds', r) \<Rightarrow> (d # ds @ ds', r))"
      by (simp add: append_many_def prepared Cons Let_def rec(1))
    note locked = append_locked_spec [OF rec(2) prepare_batch_ok [OF prepared events], of ps clock]
    show ?thesis
    proof (cases "fold_result record_entry (map (entry_of fl) es) (map (request_entry fl) ps)")
      case (Inl x)
      then have "append_locked fl dg clock ps d' = ([d'], Inl x)" using locked by simp
      with run Inl prepared rec d holds_settled [OF rec(2)] show ?thesis
        by (simp add: abstract_append_def)
    next
      case (Inr entries)
      with locked obtain ds' new rs where l: "append_locked fl dg clock ps d' = (ds', Inr rs)" "ds' \<noteq> []"
          "map (entry_of fl) (es @ new) = entries" "map (entry_of fl) rs = map (request_entry fl) ps"
          "stored ` set rs \<subseteq> set (es @ new)" "settled fl dg (last ds') (es @ new)"
          "\<forall>s \<in> set ds'. holds fl dg s es \<or> holds fl dg s (es @ new)"
        unfolding Inr sum.case by blast
      have spec: "abstract_append fl dg (map (entry_of fl) es) events = Inr (map (request_entry fl) ps, entries)"
        using Inr prepared by (simp add: abstract_append_def)
      have full: "append_many fl dg clock events d = (d # ds @ ds', Inr rs)" using run l(1) by simp
      have "last (d # ds @ ds') = last ds'" using l(2) by simp
      then have final: "holds fl dg (last (d # ds @ ds')) (es @ new)" using holds_settled [OF l(6)] by simp
      have all: "\<forall>s \<in> set (d # ds @ ds'). holds fl dg s es \<or> holds fl dg s (es @ new)"
        using d rec(3) l(7) by auto
      show ?thesis unfolding spec sum.case prod.case
        by (intro exI [of _ "d # ds @ ds'"] exI [of _ new] exI [of _ rs] conjI)
          (fact full l(3,4,5) final all | simp)+
    qed
  qed
qed

lemma append_many_states:
  assumes "holds fl dg d es" and "storable fl events" and "s \<in> set (fst (append_many fl dg clock events d))"
  shows "\<exists>new. holds fl dg s (es @ new)"
proof (cases "abstract_append fl dg (map (entry_of fl) es) events")
  case (Inl x)
  with append_many_spec [OF assms(1,2), of clock] assms(3) show ?thesis by (auto intro: exI [of _ "[]"])
next
  case (Inr r)
  obtain asked entries where r: "r = (asked, entries)" by fastforce
  from append_many_spec [OF assms(1,2), of clock] assms(3) show ?thesis
    unfolding Inr r sum.case prod.case by (metis append_Nil2 fst_conv)
qed

lemma append_many_nonempty:
  assumes "holds fl dg d es" and "storable fl events"
  shows "fst (append_many fl dg clock events d) \<noteq> []"
  using append_many_spec [OF assms, of clock]
  by (auto split: sum.splits)

lemma holds_unique:
  assumes "holds fl dg d es" and "holds fl dg d fs"
  shows "es = fs"
  using read_holds [OF assms(1), of True] read_holds [OF assms(2), of True] by auto

lemma read_result: "holds fl dg d es \<Longrightarrow> snd (read_ledger fl dg verify d) = Inr es"
  using read_holds [of fl dg d es verify] by auto

lemma empty_disk_holds [simp]: "holds fl dg empty_disk []"
  by (simp add: holds_def)

text \<open>A turn is one append that stops after its \<open>stop\<close>-th durable state, by a crash or, when \<open>stop\<close>
  is past the end, because it returned or raised.\<close>

type_synonym ledger_turn = "(nat \<Rightarrow> string) \<times> (string \<times> json) list \<times> nat"

definition ledger_turn ::
  "float_codec \<Rightarrow> (string \<Rightarrow> string) \<Rightarrow> ledger_disk \<Rightarrow> ledger_turn \<Rightarrow> ledger_disk result" where
  "ledger_turn fl dg d = (\<lambda>(clock, events, stop).
     let ds = fst (append_many fl dg clock events d) in Inr (ds ! min stop (length ds - 1)))"

definition turn_ok :: "float_codec \<Rightarrow> ledger_turn \<Rightarrow> bool" where
  "turn_ok fl = (\<lambda>(clock, events, stop). storable fl events)"

definition ledger_entries :: "float_codec \<Rightarrow> (string \<Rightarrow> string) \<Rightarrow> ledger_disk \<Rightarrow> ledger_envelope list" where
  "ledger_entries fl dg d = (case snd (read_ledger fl dg True d) of Inr es \<Rightarrow> es | Inl _ \<Rightarrow> [])"

lemma ledger_turn_holds:
  assumes "holds fl dg d es" and "turn_ok fl t" and "ledger_turn fl dg d t = Inr d'"
  shows "\<exists>new. holds fl dg d' (es @ new)"
proof -
  obtain clock events stop where t: "t = (clock, events, stop)" by (cases t)
  let ?ds = "fst (append_many fl dg clock events d)"
  have ok: "storable fl events" using assms(2) t by (simp add: turn_ok_def)
  have "?ds \<noteq> []" by (rule append_many_nonempty [OF assms(1) ok])
  then have "?ds ! min stop (length ?ds - 1) \<in> set ?ds" by (intro nth_mem) (cases ?ds, auto)
  moreover have "d' = ?ds ! min stop (length ?ds - 1)"
    using assms(3) t by (simp add: ledger_turn_def Let_def)
  ultimately show ?thesis using append_many_states [OF assms(1) ok] by blast
qed

interpretation ledger_log: append_log "ledger_entries fl dg" "ledger_turn fl dg" "turn_ok fl"
    "\<lambda>d. \<exists>es. holds fl dg d es"
  for fl dg
proof
  fix d t d'
  assume "\<exists>es. holds fl dg d es" "turn_ok fl t" "ledger_turn fl dg d t = Inr d'"
  then obtain es new where h: "holds fl dg d es" "holds fl dg d' (es @ new)"
    using ledger_turn_holds by blast
  then show "\<exists>es. holds fl dg d' es" by blast
  show "prefix (ledger_entries fl dg d) (ledger_entries fl dg d')"
    using read_result [OF h(1)] read_result [OF h(2)] by (simp add: ledger_entries_def)
qed

lemma ledger_run_holds:
  assumes "fold_result (ledger_turn fl dg) empty_disk ts = Inr d" and "list_all (turn_ok fl) ts"
  obtains es where "holds fl dg d es"
  using ledger_log.run_inv [of fl dg empty_disk ts d] assms that empty_disk_holds by blast

lemma ledger_run_total: "\<exists>d'. fold_result (ledger_turn fl dg) d ts = Inr d'"
  by (induction ts arbitrary: d) (auto simp: ledger_turn_def Let_def)

lemma record_entry_keeps:
  "fold_result record_entry es xs = Inr fs \<Longrightarrow> set es \<subseteq> set fs \<and> set xs \<subseteq> set fs"
proof (induction xs arbitrary: es)
  case (Cons x xs)
  then obtain es1 where es1: "record_entry es x = Inr es1" "fold_result record_entry es1 xs = Inr fs"
    by (auto simp: bind_result_Inr)
  have "set es \<subseteq> set es1" "x \<in> set es1"
    using es1(1) by (auto simp: record_entry_def split: if_splits)
  with Cons.IH [OF es1(2)] show ?case by auto
qed simp

lemma record_entry_again: "set xs \<subseteq> set es \<Longrightarrow> fold_result record_entry es xs = Inr es"
  by (induction xs) (simp_all add: record_entry_def)

lemma abstract_append_again:
  "abstract_append fl dg entries events = Inr (asked, final) \<Longrightarrow>
     abstract_append fl dg final events = Inr (asked, final)"
  by (auto simp: abstract_append_def bind_result_Inr record_entry_again
      dest: record_entry_keeps)


section \<open>Tampering\<close>

fun verified_chain ::
  "float_codec \<Rightarrow> (string \<Rightarrow> string) \<Rightarrow> int \<Rightarrow> json \<Rightarrow> ledger_envelope list \<Rightarrow> bool" where
  "verified_chain fl dg n previous [] = True"
| "verified_chain fl dg n previous (e # es) =
     (json_eq (le_sequence e) (JsInt n) \<and> json_eq (le_previous_hash e) previous \<and>
      json_ok fl (JsObject (envelope_core e)) \<and>
      le_event_hash e = JsStr (dg (json_text fl (JsObject (envelope_core e)))) \<and>
      verified_chain fl dg (n + 1) (le_event_hash e) es)"

lemma verified_chain_append:
  "verified_chain fl dg n previous (es @ fs) \<longleftrightarrow>
     verified_chain fl dg n previous es \<and>
     verified_chain fl dg (n + int (length es)) (last_hash previous es) fs"
  by (induction es arbitrary: n previous) (auto simp: last_hash_def add_ac)

lemma envelope_of_ok:
  assumes codec: "float_codec_ok fl"
    and read: "bind_result (json_loads fl line) envelope_of = Inr e"
    and fin: "json_finite (JsObject (envelope_core e))" and hash: "le_event_hash e = JsStr h"
  shows "json_ok fl (JsObject (envelope_core e))"
proof -
  obtain v where v: "json_loads fl line = Inr v" "envelope_of v = Inr e"
    using read by (auto simp: bind_result_Inr)
  then obtain d where d: "v = JsObject d" "set (map fst d) = set envelope_fields"
    by (cases v) (simp_all split: if_splits)
  let ?f = "\<lambda>k. the (map_of d k)"
  have fields: "envelope_core e = core_fields (?f ''sequence'') (?f ''recorded_at'') (?f ''event_id'')
      (?f ''event_type'') (?f ''event'') (?f ''previous_hash'')" "le_event_hash e = ?f ''event_hash''"
    using v(2) d by (auto simp: envelope_core_def Let_def)
  have dist: "distinct (map fst d)"
    using json_loads_keys v(1) unfolding d(1) by blast
  have all: "json_finite (?f k)" if "k \<in> set envelope_fields" for k
    using that fin hash unfolding fields by (auto simp: envelope_fields_def core_fields_def)
  have "json_finite x" if "(k, x) \<in> set d" for k x
  proof -
    have "map_of d k = Some x" using dist that by simp
    moreover have "k \<in> set envelope_fields" using that d(2) by force
    ultimately show ?thesis using all [of k] by simp
  qed
  then have "json_ok fl v" using json_loads_ok [OF codec v(1)] d(1) by (auto simp: list_all_iff)
  then have ok: "json_ok fl x" if "(k, x) \<in> set d" for k x using that d(1) by (auto simp: list_all_iff)
  have "json_ok fl (?f k)" if "k \<in> set envelope_fields" for k
  proof -
    obtain x where "(k, x) \<in> set d" using \<open>k \<in> _\<close> d(2) by force
    moreover from this have "map_of d k = Some x" using dist by simp
    ultimately show ?thesis using ok by simp
  qed
  then show ?thesis unfolding fields by (auto simp: core_fields_def envelope_fields_def)
qed

lemma decode_verified:
  assumes "float_codec_ok fl"
  shows "decode_lines fl dg True n previous ids ls = Inr es \<Longrightarrow> verified_chain fl dg n previous es"
proof (induction ls arbitrary: n previous ids es)
  case (Cons l ls)
  obtain e where e: "bind_result (json_loads fl l) envelope_of = Inr e"
    using Cons.prems by (auto split: if_splits sum.splits)
  have none: "verify_envelope fl dg n previous e = None"
    using Cons.prems e by (auto split: if_splits option.splits)
  then obtain es' where es: "es = e # es'"
      and rest: "decode_lines fl dg True (n + 1) (le_event_hash e) (le_event_id e # ids) ls = Inr es'"
    using Cons.prems e by (auto simp: bind_result_Inr split: if_splits)
  from none obtain h where chain: "json_eq (le_sequence e) (JsInt n)" "json_eq (le_previous_hash e) previous"
      and sha: "canonical_sha256 fl dg (JsObject (envelope_core e)) = Inr h" "le_event_hash e = JsStr h"
    by (auto simp: verify_envelope_def split: if_splits sum.splits)
  from sha(1) have fin: "json_finite (JsObject (envelope_core e))"
      "h = dg (json_text fl (JsObject (envelope_core e)))"
    by (auto simp: canonical_sha256_def canonical_json_def bind_result_Inr split: if_splits)
  show ?case
    using envelope_of_ok [OF assms e fin(1) sha(2)] chain sha(2) fin(2) Cons.IH [OF rest] es by simp
qed simp

lemma core_canonical:
  assumes "canonical_value (JsObject (envelope_core e)) = canonical_value (JsObject (envelope_core f))"
  shows "map_values canonical_value (envelope_core e) = map_values canonical_value (envelope_core f)"
proof -
  have "sort_key fst (map_values canonical_value (envelope_core e)) =
      sort_key fst (map_values canonical_value (envelope_core f))" using assms by simp
  then have "map_option canonical_value (map_of (envelope_core e) k) =
      map_option canonical_value (map_of (envelope_core f) k)" for k
    using map_of_canonical [OF envelope_fields_distinct(2), of e k]
      map_of_canonical [OF envelope_fields_distinct(2), of f k] by simp
  from this [of "''sequence''"] this [of "''recorded_at''"] this [of "''event_id''"]
    this [of "''event_type''"] this [of "''event''"] this [of "''previous_hash''"]
  show ?thesis by (simp add: envelope_core_def core_fields_def)
qed

lemma json_eq_int_canonical: "json_eq v (JsInt n) \<Longrightarrow> canonical_value v = v"
  by (cases v) (simp_all add: json_eq_def)

lemma verified_last:
  assumes "verified_chain fl dg 1 genesis_hash es"
  shows "is_str (last_hash genesis_hash es)"
  using assms by (cases es rule: rev_cases) (auto simp: verified_chain_append last_hash_def genesis_hash_def)

lemma same_hash_same_chain:
  assumes "verified_chain fl dg 1 genesis_hash es" and "verified_chain fl dg 1 genesis_hash fs"
    and "es \<noteq> []" and "fs \<noteq> []" and "le_event_hash (last es) = le_event_hash (last fs)"
    and "inj_on dg ((\<lambda>e. json_text fl (JsObject (envelope_core e))) ` (set es \<union> set fs))"
  shows "map (\<lambda>e. canonical_value (envelope_json e)) es = map (\<lambda>e. canonical_value (envelope_json e)) fs"
  using assms
proof (induction es arbitrary: fs rule: rev_induct)
  case (snoc e es')
  obtain fs' f where fs: "fs = fs' @ [f]" using snoc.prems(4) by (cases fs rule: rev_cases) simp_all
  have ce: "verified_chain fl dg 1 genesis_hash es'" "json_eq (le_sequence e) (JsInt (1 + int (length es')))"
      "json_eq (le_previous_hash e) (last_hash genesis_hash es')" "json_ok fl (JsObject (envelope_core e))"
      "le_event_hash e = JsStr (dg (json_text fl (JsObject (envelope_core e))))"
    using snoc.prems(1) by (simp_all add: verified_chain_append)
  have cf: "verified_chain fl dg 1 genesis_hash fs'" "json_eq (le_sequence f) (JsInt (1 + int (length fs')))"
      "json_eq (le_previous_hash f) (last_hash genesis_hash fs')" "json_ok fl (JsObject (envelope_core f))"
      "le_event_hash f = JsStr (dg (json_text fl (JsObject (envelope_core f))))"
    using snoc.prems(2) unfolding fs by (simp_all add: verified_chain_append)
  have hash: "le_event_hash e = le_event_hash f" using snoc.prems(5) fs by simp
  then have "dg (json_text fl (JsObject (envelope_core e))) = dg (json_text fl (JsObject (envelope_core f)))"
    using ce(5) cf(5) by simp
  then have "json_text fl (JsObject (envelope_core e)) = json_text fl (JsObject (envelope_core f))"
    by (rule inj_onD [OF snoc.prems(6)]) (auto simp: fs)
  then have core: "map_values canonical_value (envelope_core e) = map_values canonical_value (envelope_core f)"
    using json_loads_text [OF ce(4)] json_loads_text [OF cf(4)] by (intro core_canonical) simp
  then have same: "canonical_value (envelope_json e) = canonical_value (envelope_json f)"
    using hash by (simp add: envelope_json_def map_values_def)
  from core have fields: "canonical_value (le_sequence e) = canonical_value (le_sequence f)"
      "canonical_value (le_previous_hash e) = canonical_value (le_previous_hash f)"
    by (simp_all add: envelope_core_def core_fields_def)
  have "le_sequence e = le_sequence f"
    using fields(1) json_eq_int_canonical [OF ce(2)] json_eq_int_canonical [OF cf(2)] by simp
  then have len: "length es' = length fs'"
    using ce(2) cf(2) by (auto simp: json_eq_def split: option.splits)
  show ?case
  proof (cases "es' = []")
    case True
    then show ?thesis using len same fs by simp
  next
    case False
    then have ne: "fs' \<noteq> []" using len by auto
    have str: "is_str (last_hash genesis_hash es')" "is_str (last_hash genesis_hash fs')"
      using verified_last [OF ce(1)] verified_last [OF cf(1)] by simp_all
    then have "le_previous_hash e = last_hash genesis_hash es'" "le_previous_hash f = last_hash genesis_hash fs'"
      using ce(3) cf(3) by (auto elim!: is_strE)
    then have "last_hash genesis_hash es' = last_hash genesis_hash fs'"
      using fields(2) is_str_facts [OF str(1)] is_str_facts [OF str(2)] by simp
    then have "le_event_hash (last es') = le_event_hash (last fs')"
      using False ne by (simp add: last_hash_def)
    from snoc.IH [OF ce(1) cf(1) False ne this] inj_on_subset [OF snoc.prems(6)] same fs
    show ?thesis by (auto simp: image_Un)
  qed
qed simp

section \<open>Properties\<close>

text \<open>C2: appending to the evidence ledger is atomic and exact, crashes included. Take any run of
  appends from an absent ledger, each stopped after any of its durable states, and one more append.
  The ledger reads back some envelopes \<open>es\<close>. When the abstract append on their entries (event ID,
  type, canonical event) fails, the append raises that error and every state it passes through reads
  as \<open>es\<close>. Otherwise it returns one envelope per requested event, all of them in the ledger, which
  then reads as \<open>es\<close> and new envelopes with exactly the entries of the abstract append; a crash in
  between, after any byte, leaves a disk that reads as \<open>es\<close> or as the complete result.
\<close>

theorem ledger_append_exact:
  assumes "list_all (turn_ok fl) ts" and "fold_result (ledger_turn fl dg) empty_disk ts = Inr d"
    and "storable fl events"
  shows "\<exists>es. snd (read_ledger fl dg True d) = Inr es \<and>
    (case abstract_append fl dg (map (entry_of fl) es) events of
       Inl x \<Rightarrow> snd (append_many fl dg clock events d) = Inl x \<and>
         (\<forall>s \<in> set (fst (append_many fl dg clock events d)). snd (read_ledger fl dg True s) = Inr es)
     | Inr (asked, entries) \<Rightarrow> \<exists>new rs. snd (append_many fl dg clock events d) = Inr rs \<and>
         map (entry_of fl) rs = asked \<and> stored ` set rs \<subseteq> set (es @ new) \<and>
         map (entry_of fl) (es @ new) = entries \<and>
         snd (read_ledger fl dg True (last (fst (append_many fl dg clock events d)))) = Inr (es @ new) \<and>
         (\<forall>s \<in> set (fst (append_many fl dg clock events d)).
            snd (read_ledger fl dg True s) \<in> {Inr es, Inr (es @ new)}))"
proof (rule ledger_run_holds [OF assms(2,1)])
  fix es
  assume d: "holds fl dg d es"
  note spec = append_many_spec [OF d assms(3), of clock]
  show ?thesis
  proof (cases "abstract_append fl dg (map (entry_of fl) es) events")
    case (Inl x)
    with spec obtain ds where "append_many fl dg clock events d = (ds, Inl x)" "\<forall>s \<in> set ds. holds fl dg s es"
      by auto
    with read_result [OF d] read_result Inl show ?thesis by (intro exI [of _ es]) simp
  next
    case (Inr r)
    obtain asked entries where r: "r = (asked, entries)" by fastforce
    from spec obtain ds new rs where run: "append_many fl dg clock events d = (ds, Inr rs)"
        "map (entry_of fl) (es @ new) = entries" "map (entry_of fl) rs = asked"
        "stored ` set rs \<subseteq> set (es @ new)" "holds fl dg (last ds) (es @ new)"
        "\<forall>s \<in> set ds. holds fl dg s es \<or> holds fl dg s (es @ new)"
      unfolding Inr r sum.case prod.case by blast
    have states: "\<forall>s \<in> set ds. snd (read_ledger fl dg True s) \<in> {Inr es, Inr (es @ new)}"
      using run(6) read_result by blast
    show ?thesis
    proof (rule exI [of _ es], rule conjI [OF read_result [OF d]])
      show "case abstract_append fl dg (map (entry_of fl) es) events of
          Inl x \<Rightarrow> snd (append_many fl dg clock events d) = Inl x \<and>
            (\<forall>s \<in> set (fst (append_many fl dg clock events d)). snd (read_ledger fl dg True s) = Inr es)
        | Inr (asked, entries) \<Rightarrow> \<exists>new rs. snd (append_many fl dg clock events d) = Inr rs \<and>
            map (entry_of fl) rs = asked \<and> stored ` set rs \<subseteq> set (es @ new) \<and>
            map (entry_of fl) (es @ new) = entries \<and>
            snd (read_ledger fl dg True (last (fst (append_many fl dg clock events d)))) = Inr (es @ new) \<and>
            (\<forall>s \<in> set (fst (append_many fl dg clock events d)).
               snd (read_ledger fl dg True s) \<in> {Inr es, Inr (es @ new)})"
        unfolding Inr r sum.case prod.case run(1) fst_conv snd_conv
        by (intro exI [of _ new] exI [of _ rs] conjI)
          (fact refl run(2,3,4) states read_result [OF run(5)])+
    qed
  qed
qed

text \<open>C7: retrying an append that crashed records every event exactly once. Let an append that would
  succeed stop in any durable state it passes through; repeating the same batch there, at any later
  time, succeeds, returns envelopes of the same events, and leaves the ledger with the entries the
  uninterrupted append would have left, no event ID occurring twice.
\<close>

theorem ledger_retry_exactly_once:
  assumes "list_all (turn_ok fl) ts" and "fold_result (ledger_turn fl dg) empty_disk ts = Inr d"
    and "storable fl events"
    and "append_many fl dg clock events d = (ds, Inr rs)" and "s \<in> set ds"
  shows "\<exists>ds' rs'. append_many fl dg clock' events s = (ds', Inr rs') \<and>
    map (entry_of fl) rs' = map (entry_of fl) rs \<and>
    map (entry_of fl) (ledger_entries fl dg (last ds')) = map (entry_of fl) (ledger_entries fl dg (last ds)) \<and>
    distinct (map le_event_id (ledger_entries fl dg (last ds')))"
proof (rule ledger_run_holds [OF assms(2,1)])
  fix es
  assume d: "holds fl dg d es"
  note spec = append_many_spec [OF d assms(3), of clock, unfolded assms(4)]
  obtain asked entries where r: "abstract_append fl dg (map (entry_of fl) es) events = Inr (asked, entries)"
    using spec by (cases "abstract_append fl dg (map (entry_of fl) es) events") auto
  from spec obtain new where new: "map (entry_of fl) (es @ new) = entries" "map (entry_of fl) rs = asked"
      "holds fl dg (last ds) (es @ new)" "\<forall>s \<in> set ds. holds fl dg s es \<or> holds fl dg s (es @ new)"
    unfolding r sum.case prod.case by auto
  obtain gs where gs: "holds fl dg s gs" "abstract_append fl dg (map (entry_of fl) gs) events = Inr (asked, entries)"
    using new(4) assms(5) r abstract_append_again [OF r] new(1) by blast
  from append_many_spec [OF gs(1) assms(3), of clock'] obtain ds' more rs' where
    again: "append_many fl dg clock' events s = (ds', Inr rs')" "map (entry_of fl) (gs @ more) = entries"
      "map (entry_of fl) rs' = asked" "holds fl dg (last ds') (gs @ more)"
    unfolding gs(2) sum.case prod.case by blast
  have "ledger_entries fl dg (last ds) = es @ new" "ledger_entries fl dg (last ds') = gs @ more"
    using read_result [OF new(3)] read_result [OF again(4)] by (simp_all add: ledger_entries_def)
  moreover have "distinct (map le_event_id (gs @ more))"
    using holds_ok [OF again(4)] by (simp add: ledger_ok_def)
  ultimately show ?thesis using again(1-3) new(1,2) by (intro exI [of _ ds'] exI [of _ rs']) simp
qed

text \<open>C8: evidence is never lost or rewritten. After any run of appends from an absent ledger with
  crashes anywhere, reading succeeds with verification on and returns a chain with distinct event
  IDs, and after any further run the envelopes read before are still there, unchanged, in front.
\<close>

theorem ledger_history_kept:
  assumes "list_all (turn_ok fl) ts" and "list_all (turn_ok fl) us"
    and "fold_result (ledger_turn fl dg) empty_disk ts = Inr d"
    and "fold_result (ledger_turn fl dg) d us = Inr d'"
  shows "\<exists>es new. snd (read_ledger fl dg True d) = Inr es \<and>
    snd (read_ledger fl dg True d') = Inr (es @ new) \<and>
    chain_ok fl dg 1 genesis_hash (es @ new) \<and> distinct (map le_event_id (es @ new))"
proof (rule ledger_run_holds [OF assms(3,1)])
  fix es
  assume d: "holds fl dg d es"
  then have start: "\<exists>es. holds fl dg d es" by blast
  obtain fs where d': "holds fl dg d' fs"
    using ledger_log.run_inv [OF start assms(2,4)] by blast
  have "prefix (ledger_entries fl dg d) (ledger_entries fl dg d')"
    by (rule ledger_log.run_prefix [OF start assms(2,4)])
  then obtain new where new: "fs = es @ new"
    using read_result [OF d] read_result [OF d'] by (auto simp: ledger_entries_def prefix_def)
  with read_result [OF d] read_result [OF d'] holds_ok [OF d'] show ?thesis
    by (auto simp: ledger_ok_def)
qed

text \<open>C5: the ledger is tamper evident. Whatever bytes two ledger files hold, if both decode with
  verification on and their last envelopes carry the same hash, then, unless two of their records
  collide under the digest, they hold the same envelopes up to the order of object keys.
\<close>

theorem ledger_tamper_evident:
  assumes "float_codec_ok fl"
    and "decode_ledger fl dg True content = Inr es" and "decode_ledger fl dg True content' = Inr fs"
    and "es \<noteq> []" and "fs \<noteq> []" and "le_event_hash (last es) = le_event_hash (last fs)"
    and "inj_on dg ((\<lambda>e. json_text fl (JsObject (envelope_core e))) ` (set es \<union> set fs))"
  shows "map (\<lambda>e. canonical_value (envelope_json e)) es = map (\<lambda>e. canonical_value (envelope_json e)) fs"
proof -
  have "verified_chain fl dg 1 genesis_hash es" "verified_chain fl dg 1 genesis_hash fs"
    using assms(2,3) decode_verified [OF assms(1)] by (auto simp: decode_ledger_def bind_result_Inr)
  then show ?thesis using assms(4-7) by (rule same_hash_same_chain)
qed

section \<open>Examples\<close>

definition example_clock :: "nat \<Rightarrow> string" where
  "example_clock i = ''2026-08-26T00:00:00+00:00''"

definition example_event :: "string \<Rightarrow> int \<Rightarrow> string \<times> json" where
  "example_event i n = (''hypothesis_evidence'',
     JsObject [(''observation_count'', JsInt n), (''event_id'', JsStr i), (''score'', JsFloat (1 / 2))])"

text \<open>A batch that repeats an event, one that crashes after three states, and one that contradicts
  the first.\<close>

definition example_batch :: "(string \<times> json) list" where
  "example_batch = [example_event ''ev-1'' 100, example_event ''ev-2'' 7, example_event ''ev-1'' 100]"

definition example_turns :: "ledger_turn list" where
  "example_turns = [(example_clock, example_batch, 3), (example_clock, [example_event ''ev-1'' 5], 9999)]"

lemma example_storable: "storable example_floats example_batch"
  by code_simp

lemma example_turns_ok: "list_all (turn_ok example_floats) example_turns"
proof -
  have "storable example_floats [example_event ''ev-1'' 5]" by code_simp
  with example_storable show ?thesis by (simp add: example_turns_def turn_ok_def)
qed

definition example_entries :: "ledger_entry list" where
  "example_entries = map (\<lambda>(i, ty, ev). (JsStr i, JsStr ty, json_text example_floats ev))
     [(''ev-1'', example_event ''ev-1'' 100), (''ev-2'', example_event ''ev-2'' 7)]"

lemma example_append:
  "abstract_append example_floats to_hex [] example_batch =
     Inr (example_entries @ [hd example_entries], example_entries)"
  by code_simp

lemma example_floats_ok: "float_codec_ok example_floats"
proof -
  have "float_ok example_floats (1 / 2)" "float_ok example_floats 10000000000000000" by code_simp+
  moreover have "x = 1 / 2 \<or> x = 10000000000000000" if "fc_value example_floats w = Some x" for w x
    using that by (auto simp: example_floats_def split: if_splits)
  ultimately show ?thesis unfolding float_codec_ok_def by blast
qed

theorem ledger_append_exact_witness:
  "\<exists>rs. snd (append_many example_floats to_hex example_clock example_batch empty_disk) = Inr rs \<and>
     map (entry_of example_floats) rs = example_entries @ [hd example_entries]"
  using ledger_append_exact [of example_floats "[]" to_hex empty_disk example_batch example_clock]
    example_storable example_append
  by (auto simp: read_ledger_def empty_disk_def)

theorem ledger_retry_exactly_once_witness:
  "\<exists>ds rs ds' rs'.
     append_many example_floats to_hex example_clock example_batch empty_disk = (ds, Inr rs) \<and>
     append_many example_floats to_hex example_clock example_batch (ds ! (length ds - 2)) = (ds', Inr rs') \<and>
     map (entry_of example_floats) rs' = map (entry_of example_floats) rs"
proof -
  obtain ds rs where run: "append_many example_floats to_hex example_clock example_batch empty_disk = (ds, Inr rs)"
      and "ds \<noteq> []"
    using append_many_spec [OF empty_disk_holds example_storable, of to_hex example_clock] example_append
    by auto
  then have "ds ! (length ds - 2) \<in> set ds" by simp
  from ledger_retry_exactly_once [OF _ _ example_storable run this, of "[]" example_clock] run
  show ?thesis by auto
qed

theorem ledger_history_kept_witness:
  "\<exists>d d' es new. fold_result (ledger_turn example_floats to_hex) empty_disk example_turns = Inr d \<and>
     fold_result (ledger_turn example_floats to_hex) d example_turns = Inr d' \<and>
     snd (read_ledger example_floats to_hex True d) = Inr es \<and>
     snd (read_ledger example_floats to_hex True d') = Inr (es @ new)"
proof -
  obtain d where d: "fold_result (ledger_turn example_floats to_hex) empty_disk example_turns = Inr d"
    using ledger_run_total by blast
  obtain d' where d': "fold_result (ledger_turn example_floats to_hex) d example_turns = Inr d'"
    using ledger_run_total by blast
  from ledger_history_kept [OF example_turns_ok example_turns_ok d d'] d d' show ?thesis by blast
qed

definition example_prepared :: prepared_event where
  "example_prepared = \<lparr>pe_type = ''hypothesis_evidence'',
     pe_payload = [(''observation_count'', JsInt 100), (''event_id'', JsStr ''ev-1'')], pe_id = ''ev-1''\<rparr>"

definition example_envelope :: ledger_envelope where
  "example_envelope = stored (new_envelope example_floats to_hex example_clock (start_batch []) example_prepared)"

lemma example_envelope_ok: "ledger_ok example_floats to_hex [example_envelope]"
proof -
  have ok: "json_ok example_floats (JsObject (pe_payload example_prepared))" by code_simp
  have none: "map_of (bs_by_id (start_batch [])) (JsStr (pe_id example_prepared)) = None"
    by (simp add: start_batch_def)
  from batch_invD(1) [OF add_new(2) [OF start_batch_inv [OF ledger_ok_Nil] ok none, of to_hex example_clock]]
  show ?thesis by (simp add: example_envelope_def start_batch_def)
qed

theorem ledger_tamper_evident_witness:
  "\<exists>es. decode_ledger example_floats to_hex True (file_text example_floats [example_envelope]) = Inr es \<and>
     map (\<lambda>e. canonical_value (envelope_json e)) es = [canonical_value (envelope_json example_envelope)]"
proof -
  note decode = decode_ledger_ok [OF example_envelope_ok, of True]
  have "inj to_hex" by (rule inj_on_inverseI [where g = "the \<circ> from_hex"]) simp
  then have "inj_on to_hex X" for X by (rule inj_on_subset) simp
  from ledger_tamper_evident [OF example_floats_ok decode decode _ _ _ this] decode
  show ?thesis by auto
qed

end
