(* ===== verification/Ledger_Snapshot.thy ===== *)
theory Ledger_Snapshot
  imports Ledger_Append "HOL-Library.Word"
begin

unbundle bit_operations_syntax

text \<open>
  The published snapshots of \<open>research/src/shaurya/research/ledger.py\<close>: a content-addressed JSON or
  Parquet artifact and its manifest. The Parquet file is written byte by byte in Thrift's compact
  protocol. A directory maps file names to contents; \<open>dg\<close> is also the digest of a file's bytes
  (\<open>_sha256_path\<close>), since \<open>canonical_sha256\<close> hashes the bytes of an ASCII text.
\<close>

section \<open>Thrift compact encoding\<close>

text \<open>\<open>_varint\<close> of a non-negative integer (its callers pass nothing else).\<close>

fun varint :: "nat \<Rightarrow> string" where
  "varint n =
     (let byte = n mod 128; rest = n div 128 in
      if rest = 0 then [char_of byte] else char_of (byte + 128) # varint rest)"

declare varint.simps [simp del]

definition compact_binary :: "string \<Rightarrow> string" where
  "compact_binary s = varint (length s) @ s"

definition compact_field :: "nat \<Rightarrow> nat \<Rightarrow> nat \<Rightarrow> string \<Rightarrow> string" where
  "compact_field field_id previous compact_type payload =
     (let delta = int field_id - int previous in
      if 0 < delta \<and> delta \<le> 15
      then [char_of (push_bit 4 (nat delta) OR compact_type)] @ payload
      else [char_of compact_type] @ varint (push_bit 1 field_id XOR drop_bit 15 field_id) @ payload)"

definition compact_list :: "nat \<Rightarrow> string list \<Rightarrow> string" where
  "compact_list compact_type values =
     (let sz = length values in
      (if sz < 15 then [char_of (push_bit 4 sz OR compact_type)]
       else [char_of (0xF0 OR compact_type)] @ varint sz) @ concat values)"

definition compact_integer :: "nat \<Rightarrow> string" where
  "compact_integer n = varint (push_bit 1 n XOR drop_bit 63 n)"

text \<open>\<open>n.to_bytes(4, "little")\<close>.\<close>

definition to_bytes4 :: "nat \<Rightarrow> string result" where
  "to_bytes4 n =
     (if n < 2 ^ 32
      then Inr [char_of (n mod 256), char_of (n div 2 ^ 8 mod 256), char_of (n div 2 ^ 16 mod 256),
                char_of (n div 2 ^ 24 mod 256)]
      else Inl (OverflowError ''int too big to convert''))"

abbreviation stop_field :: string where
  "stop_field \<equiv> [char_of (0 :: nat)]"

definition page_body :: "string list \<Rightarrow> string result" where
  "page_body encoded_rows =
     bind_result (map_result (\<lambda>v. bind_result (to_bytes4 (length v)) (\<lambda>n. Inr (n @ v))) encoded_rows)
       (\<lambda>vs. Inr (concat vs))"

definition page_header :: "nat \<Rightarrow> string \<Rightarrow> string" where
  "page_header rows body =
     (let data_page =
        compact_field 1 0 5 (compact_integer rows) @
        compact_field 2 1 5 (compact_integer 0) @
        compact_field 3 2 5 (compact_integer 3) @
        compact_field 4 3 5 (compact_integer 3) @ stop_field
      in compact_field 1 0 5 (compact_integer 0) @
         compact_field 2 1 5 (compact_integer (length body)) @
         compact_field 3 2 5 (compact_integer (length body)) @
         compact_field 5 3 12 data_page @ stop_field)"

definition key_value :: "string \<Rightarrow> string \<Rightarrow> string" where
  "key_value k v =
     compact_field 1 0 8 (compact_binary k) @ compact_field 2 1 8 (compact_binary v) @ stop_field"

definition column_metadata :: "nat \<Rightarrow> string \<Rightarrow> string" where
  "column_metadata rows page =
     compact_field 1 0 5 (compact_integer 6) @
     compact_field 2 1 9 (compact_list 5 [compact_integer 0, compact_integer 3]) @
     compact_field 3 2 9 (compact_list 8 [compact_binary ''event_json'']) @
     compact_field 4 3 5 (compact_integer 0) @
     compact_field 5 4 6 (compact_integer rows) @
     compact_field 6 5 6 (compact_integer (length page)) @
     compact_field 7 6 6 (compact_integer (length page)) @
     compact_field 9 7 6 (compact_integer 4) @ stop_field"

definition row_group :: "nat \<Rightarrow> string \<Rightarrow> string" where
  "row_group rows page =
     (let column_chunk =
        compact_field 2 0 6 (compact_integer 4) @
        compact_field 3 2 12 (column_metadata rows page) @ stop_field
      in compact_field 1 0 9 (compact_list 12 [column_chunk]) @
         compact_field 2 1 6 (compact_integer (length page)) @
         compact_field 3 2 6 (compact_integer rows) @
         compact_field 6 3 6 (compact_integer (length page)) @ stop_field)"

definition file_footer :: "nat \<Rightarrow> string \<Rightarrow> string \<Rightarrow> string" where
  "file_footer rows page ledger_sha256 =
     (let root_schema =
            compact_field 4 0 8 (compact_binary ''shaurya_ledger'') @
            compact_field 5 4 5 (compact_integer 1) @ stop_field;
          event_schema =
            compact_field 1 0 5 (compact_integer 6) @
            compact_field 3 1 5 (compact_integer 0) @
            compact_field 4 3 8 (compact_binary ''event_json'') @ stop_field;
          metadata_values =
            [key_value ''shaurya.ledger.sha256'' ledger_sha256,
             key_value ''shaurya.ledger.encoding'' ''canonical-json-per-row'']
      in compact_field 1 0 5 (compact_integer 1) @
         compact_field 2 1 9 (compact_list 12 [root_schema, event_schema]) @
         compact_field 3 2 6 (compact_integer rows) @
         compact_field 4 3 9 (compact_list 12 [row_group rows page]) @
         compact_field 5 4 9 (compact_list 12 metadata_values) @
         compact_field 6 5 8 (compact_binary ''Shaurya dependency-free snapshot'') @ stop_field)"

text \<open>\<open>_canonical_event_parquet\<close>.\<close>

definition canonical_event_parquet ::
  "float_codec \<Rightarrow> (string \<Rightarrow> string) \<Rightarrow> json list \<Rightarrow> string result" where
  "canonical_event_parquet fl dg rows =
     bind_result (map_result (canonical_json fl) rows) (\<lambda>encoded_rows.
     bind_result (page_body encoded_rows) (\<lambda>body.
     bind_result (canonical_sha256 fl dg (JsArray rows)) (\<lambda>digest.
       let page = page_header (length encoded_rows) body @ body;
           footer = file_footer (length encoded_rows) page digest
       in bind_result (to_bytes4 (length footer)) (\<lambda>n.
            Inr (''PAR1'' @ page @ footer @ n @ ''PAR1'')))))"

section \<open>Publishing and verifying\<close>

definition create_file :: "directory \<Rightarrow> string \<Rightarrow> string \<Rightarrow> directory result" where
  "create_file dir name content =
     bind_result (atomic_create_once (map_of dir name) content) (\<lambda>new.
       Inr (case new of None \<Rightarrow> dir | Some c \<Rightarrow> AList.update name c dir))"

definition snapshot_name :: "string \<Rightarrow> string \<Rightarrow> string" where
  "snapshot_name digest ext = ''alpha-evidence-ledger-'' @ digest @ ''.'' @ ext"

definition manifest_json :: "string \<Rightarrow> string \<Rightarrow> string \<Rightarrow> nat \<Rightarrow> string \<Rightarrow> json" where
  "manifest_json name ext digest rows artifact_sha256 =
     JsObject [(''artifact'', JsStr name), (''format'', JsStr ext), (''ledger_sha256'', JsStr digest),
       (''rows'', JsInt (int rows)), (''artifact_sha256'', JsStr artifact_sha256)]"

text \<open>The bytes of the artifact of a list of rows with a given digest.\<close>

definition artifact_bytes ::
  "float_codec \<Rightarrow> (string \<Rightarrow> string) \<Rightarrow> bool \<Rightarrow> string \<Rightarrow> json list \<Rightarrow> string result" where
  "artifact_bytes fl dg parquet digest rows =
     (if parquet then canonical_event_parquet fl dg rows
      else bind_result
        (canonical_json fl (JsObject [(''ledger_sha256'', JsStr digest), (''rows'', JsArray rows)]))
        (\<lambda>t. Inr (t @ [CHR 0x0A])))"

definition verify_snapshot ::
  "float_codec \<Rightarrow> (string \<Rightarrow> string) \<Rightarrow> directory \<Rightarrow> string \<Rightarrow> ledger_envelope list \<Rightarrow> unit result" where
  "verify_snapshot fl dg dir name envelopes =
     (let rows = map envelope_json envelopes in
      bind_result (canonical_sha256 fl dg (JsArray rows)) (\<lambda>digest.
      let ext = (case path_suffix name of [] \<Rightarrow> [] | dot # s \<Rightarrow> s) in
      if ext \<notin> {''json'', ''parquet''}
      then Inl (ValueError ''published snapshot format is unsupported'')
      else if name \<noteq> snapshot_name digest ext
      then Inl (ValueError ''published snapshot name is not bound to its ledger content'')
      else
        bind_result (artifact_bytes fl dg (ext = ''parquet'') digest rows) (\<lambda>artifact.
        if map_of dir name \<noteq> Some artifact
        then Inl (ValueError ''published snapshot content or artifact hash is invalid'')
        else
          bind_result (canonical_json fl (manifest_json name ext digest (length rows) (dg artifact)))
            (\<lambda>manifest.
            if map_of dir (name @ ''.manifest.json'') \<noteq> Some (manifest @ [CHR 0x0A])
            then Inl (ValueError ''published snapshot manifest is invalid'')
            else Inr ()))))"

text \<open>\<open>materialize_snapshot\<close>: the directory it leaves, and the name of the artifact.\<close>

definition materialize_snapshot ::
  "float_codec \<Rightarrow> (string \<Rightarrow> string) \<Rightarrow> bool \<Rightarrow> ledger_disk \<Rightarrow> directory \<Rightarrow>
     directory \<times> string result" where
  "materialize_snapshot fl dg parquet d dir =
     (case read_ledger fl dg True d of
        (ds, Inl x) \<Rightarrow> (dir, Inl x)
      | (ds, Inr envelopes) \<Rightarrow>
          let rows = map envelope_json envelopes; ext = (if parquet then ''parquet'' else ''json'') in
          (case bind_result (canonical_sha256 fl dg (JsArray rows)) (\<lambda>digest.
                  bind_result (artifact_bytes fl dg parquet digest rows) (\<lambda>artifact.
                    Inr (digest, artifact))) of
             Inl x \<Rightarrow> (dir, Inl x)
           | Inr (digest, artifact) \<Rightarrow>
               let name = snapshot_name digest ext in
               (case create_file dir name artifact of
                  Inl x \<Rightarrow> (dir, Inl x)
                | Inr dir1 \<Rightarrow>
                    (case bind_result
                            (canonical_json fl (manifest_json name ext digest (length rows) (dg artifact)))
                            (\<lambda>m. create_file dir1 (name @ ''.manifest.json'') (m @ [CHR 0x0A])) of
                       Inl x \<Rightarrow> (dir1, Inl x)
                     | Inr dir2 \<Rightarrow>
                         (dir2,
                          bind_result (snd (read_ledger fl dg True (last ds))) (\<lambda>again.
                          bind_result (verify_snapshot fl dg dir2 name again) (\<lambda>_. Inr name)))))))"

section \<open>Reading the Parquet file back\<close>

text \<open>
  A reader of the file, independent of the writer: Thrift's compact protocol with integers that are
  not negative, the PLAIN encoding of byte arrays, and the layout of a Parquet file with one row
  group and one column. It stands for the reader of another Parquet implementation.
\<close>

datatype thrift =
    TInt nat
  | TBin string
  | TList nat "thrift list"
  | TStruct "(nat \<times> nat \<times> thrift) list"

fun read_varint :: "string \<Rightarrow> (nat \<times> string) option" where
  "read_varint [] = None"
| "read_varint (c # r) =
     (let byte = (of_char c :: nat) in
      if byte < 128 then Some (byte, r)
      else map_option (\<lambda>(n, s). (byte - 128 + 128 * n, s)) (read_varint r))"

definition read_int :: "string \<Rightarrow> (nat \<times> string) option" where
  "read_int s =
     (case read_varint s of
        Some (n, r) \<Rightarrow> if even n then Some (n div 2, r) else None
      | None \<Rightarrow> None)"

fun read_value :: "nat \<Rightarrow> nat \<Rightarrow> string \<Rightarrow> (thrift \<times> string) option"
  and read_elems :: "nat \<Rightarrow> nat \<Rightarrow> nat \<Rightarrow> string \<Rightarrow> (thrift list \<times> string) option"
  and read_fields :: "nat \<Rightarrow> nat \<Rightarrow> string \<Rightarrow> ((nat \<times> nat \<times> thrift) list \<times> string) option"
where
  "read_value 0 ty s = None"
| "read_value (Suc k) ty s =
     (if ty = 5 \<or> ty = 6 then map_option (apfst TInt) (read_int s)
      else if ty = 8 then
        (case read_varint s of
           Some (n, r) \<Rightarrow> if n \<le> length r then Some (TBin (take n r), drop n r) else None
         | None \<Rightarrow> None)
      else if ty = 9 then
        (case s of
           [] \<Rightarrow> None
         | c # r \<Rightarrow>
             (let et = of_char c mod 16; sz = of_char c div 16 in
              case (if sz = 15 then read_varint r else Some (sz, r)) of
                Some (n, r') \<Rightarrow> map_option (apfst (TList et)) (read_elems k n et r')
              | None \<Rightarrow> None))
      else if ty = 12 then map_option (apfst TStruct) (read_fields k 0 s)
      else None)"
| "read_elems 0 n ty s = None"
| "read_elems (Suc k) n ty s =
     (if n = 0 then Some ([], s)
      else (case read_value k ty s of
              Some (v, r) \<Rightarrow> map_option (apfst ((#) v)) (read_elems k (n - 1) ty r)
            | None \<Rightarrow> None))"
| "read_fields 0 previous s = None"
| "read_fields (Suc k) previous s =
     (case s of
        [] \<Rightarrow> None
      | c # r \<Rightarrow>
          (let byte = (of_char c :: nat); ty = byte mod 16 in
           if byte = 0 then Some ([], r)
           else (case (if byte div 16 = 0 then read_int r else Some (previous + byte div 16, r)) of
                   Some (field_id, r1) \<Rightarrow>
                     (case read_value k ty r1 of
                        Some (v, r2) \<Rightarrow>
                          map_option (apfst ((#) (field_id, ty, v))) (read_fields k field_id r2)
                      | None \<Rightarrow> None)
                 | None \<Rightarrow> None)))"

declare read_value.simps [simp del] read_elems.simps [simp del] read_fields.simps [simp del]

definition thrift_field :: "(nat \<times> nat \<times> thrift) list \<Rightarrow> nat \<Rightarrow> thrift option" where
  "thrift_field fs i = map_of (map (\<lambda>(i, ty, v). (i, v)) fs) i"

definition from_bytes4 :: "string \<Rightarrow> nat" where
  "from_bytes4 s = foldr (\<lambda>c n. of_char c + 256 * n) (take 4 s) 0"

fun read_plain :: "nat \<Rightarrow> string \<Rightarrow> string list option" where
  "read_plain 0 s = (if s = [] then Some [] else None)"
| "read_plain (Suc n) s =
     (let sz = from_bytes4 s; r = drop 4 s in
      if length s < 4 \<or> length r < sz then None
      else map_option ((#) (take sz r)) (read_plain n (drop sz r)))"

text \<open>The page at an offset of the file.\<close>

definition read_page :: "string \<Rightarrow> nat \<Rightarrow> string list option" where
  "read_page content offset =
     (case read_value (64 + length content) 12 (drop offset content) of
        Some (TStruct header, r) \<Rightarrow>
          (case (thrift_field header 3, thrift_field header 5) of
             (Some (TInt sz), Some (TStruct data_page)) \<Rightarrow>
               (case thrift_field data_page 1 of
                  Some (TInt values) \<Rightarrow> read_plain values (take sz r)
                | _ \<Rightarrow> None)
           | _ \<Rightarrow> None)
      | _ \<Rightarrow> None)"

text \<open>The offset of the only column's data page, the row count and the metadata a footer states.\<close>

definition footer_page :: "(nat \<times> nat \<times> thrift) list \<Rightarrow> nat option" where
  "footer_page fs =
     (case thrift_field fs 4 of
        Some (TList _ [TStruct grp]) \<Rightarrow>
          (case thrift_field grp 1 of
             Some (TList _ [TStruct chunk]) \<Rightarrow>
               (case thrift_field chunk 3 of
                  Some (TStruct column) \<Rightarrow>
                    (case thrift_field column 9 of Some (TInt offset) \<Rightarrow> Some offset | _ \<Rightarrow> None)
                | _ \<Rightarrow> None)
           | _ \<Rightarrow> None)
      | _ \<Rightarrow> None)"

definition footer_pairs :: "(nat \<times> nat \<times> thrift) list \<Rightarrow> (string \<times> string) list" where
  "footer_pairs fs =
     (case thrift_field fs 5 of
        Some (TList _ pairs) \<Rightarrow>
          concat (map (\<lambda>t. case t of
            TStruct kv \<Rightarrow> (case (thrift_field kv 1, thrift_field kv 2) of
              (Some (TBin k), Some (TBin v)) \<Rightarrow> [(k, v)] | _ \<Rightarrow> [])
          | _ \<Rightarrow> []) pairs)
      | _ \<Rightarrow> [])"

record parquet_content =
  pq_row_count :: nat
  pq_metadata :: "(string \<times> string) list"
  pq_rows :: "string list"

definition read_parquet :: "string \<Rightarrow> parquet_content option" where
  "read_parquet content =
     (let sz = length content; footer_sz = from_bytes4 (drop (sz - 8) content);
          footer = take footer_sz (drop (sz - 8 - footer_sz) content) in
      if sz < 12 \<or> take 4 content \<noteq> ''PAR1'' \<or> drop (sz - 4) content \<noteq> ''PAR1'' \<or> sz < footer_sz + 8
      then None
      else (case read_value (64 + length footer) 12 footer of
              Some (TStruct fs, []) \<Rightarrow>
                (case (thrift_field fs 3, footer_page fs) of
                   (Some (TInt rows), Some offset) \<Rightarrow>
                     map_option (\<lambda>vs. \<lparr>pq_row_count = rows, pq_metadata = footer_pairs fs, pq_rows = vs\<rparr>)
                       (read_page content offset)
                 | _ \<Rightarrow> None)
            | _ \<Rightarrow> None))"

section \<open>The reader reads what the writer wrote\<close>

lemma read_varint [simp]: "read_varint (varint n @ r) = Some (n, r)"
proof (induction n rule: varint.induct)
  case (1 n)
  show ?case
  proof (cases "n div 128 = 0")
    case True
    then have "n < 128" by (simp add: div_eq_0_iff)
    with True show ?thesis by (simp add: varint.simps [of n])
  next
    case False
    have byte: "(of_char (char_of (n mod 128 + 128) :: char) :: nat) = n mod 128 + 128"
      by (simp add: mod_less_divisor [of 128 n] mod_less)
    have "varint n = char_of (n mod 128 + 128) # varint (n div 128)"
      using False by (simp add: varint.simps [of n] Let_def)
    with False 1 byte show ?thesis by (simp add: Let_def)
  qed
qed

lemma read_int_integer [simp]: "n < 2 ^ 63 \<Longrightarrow> read_int (compact_integer n @ r) = Some (n, r)"
proof -
  assume "n < 2 ^ 63"
  then have "drop_bit 63 n = 0" by (simp add: drop_bit_eq_div)
  then show ?thesis by (simp add: read_int_def compact_integer_def push_bit_eq_mult)
qed

definition encodes :: "nat \<Rightarrow> nat \<Rightarrow> thrift \<Rightarrow> string \<Rightarrow> bool" where
  "encodes k ty v p \<longleftrightarrow> (\<forall>r. read_value k ty (p @ r) = Some (v, r))"

definition encodes_elems :: "nat \<Rightarrow> nat \<Rightarrow> thrift list \<Rightarrow> string list \<Rightarrow> bool" where
  "encodes_elems k ty vs ps \<longleftrightarrow> (\<forall>r. read_elems k (length ps) ty (concat ps @ r) = Some (vs, r))"

definition encodes_fields :: "nat \<Rightarrow> nat \<Rightarrow> (nat \<times> nat \<times> thrift) list \<Rightarrow> string \<Rightarrow> bool" where
  "encodes_fields k previous fs p \<longleftrightarrow> (\<forall>r. read_fields k previous (p @ r) = Some (fs, r))"

lemma encodes_int: "0 < k \<Longrightarrow> ty = 5 \<or> ty = 6 \<Longrightarrow> n < 2 ^ 63 \<Longrightarrow> encodes k ty (TInt n) (compact_integer n)"
  by (cases k) (auto simp: encodes_def read_value.simps)

lemma encodes_binary: "0 < k \<Longrightarrow> encodes k 8 (TBin s) (compact_binary s)"
  by (cases k) (simp_all add: encodes_def read_value.simps compact_binary_def)

lemma header_byte:
  fixes a b :: nat
  assumes "a < 16" and "b < 16"
  shows "push_bit 4 a OR b = 16 * a + b" and "of_char (char_of (push_bit 4 a OR b) :: char) = (16 * a + b)"
proof -
  have "push_bit 4 a OR b = push_bit 4 a + b"
  proof (rule disjunctive_add [symmetric])
    fix n
    show "\<not> bit (push_bit 4 a) n \<or> \<not> bit b n"
    proof (cases "n < 4")
      case False
      then have "b < 2 ^ n" using assms(2) power_increasing [of 4 n "2 :: nat"] by simp
      then show ?thesis by (simp add: bit_iff_odd)
    qed (simp add: bit_push_bit_iff)
  qed
  then show eq: "push_bit 4 a OR b = 16 * a + b" by (simp add: push_bit_eq_mult)
  show "of_char (char_of (push_bit 4 a OR b) :: char) = (16 * a + b)"
    unfolding eq using assms by (simp add: mod_less)
qed

lemma encodes_list:
  assumes "0 < k" and "ty < 16" and "length ps < 15" and "encodes_elems (k - 1) ty vs ps"
  shows "encodes k 9 (TList ty vs) (compact_list ty ps)"
  using assms header_byte [of "length ps" ty]
  by (cases k) (auto simp: encodes_def encodes_elems_def read_value.simps compact_list_def Let_def
      simp del: push_bit_of_Suc_0)

lemma encodes_struct: "0 < k \<Longrightarrow> encodes_fields (k - 1) 0 fs p \<Longrightarrow> encodes k 12 (TStruct fs) p"
  by (cases k) (simp_all add: encodes_def encodes_fields_def read_value.simps)

lemma encodes_elems_Nil: "0 < k \<Longrightarrow> encodes_elems k ty [] []"
  by (cases k) (simp_all add: encodes_elems_def read_elems.simps)

lemma encodes_elems_Cons:
  "0 < k \<Longrightarrow> encodes (k - 1) ty v p \<Longrightarrow> encodes_elems (k - 1) ty vs ps \<Longrightarrow>
     encodes_elems k ty (v # vs) (p # ps)"
  by (cases k) (simp_all add: encodes_elems_def encodes_def read_elems.simps)

lemma encodes_stop: "0 < k \<Longrightarrow> encodes_fields k previous [] stop_field"
  by (cases k) (simp_all add: encodes_fields_def read_fields.simps)

lemma encodes_field:
  assumes "0 < k" and "previous < i" and "i \<le> previous + 15" and "0 < ty" and "ty < 16"
    and "encodes (k - 1) ty v p" and "encodes_fields (k - 1) i fs q"
  shows "encodes_fields k previous ((i, ty, v) # fs) (compact_field i previous ty p @ q)"
proof -
  have delta: "0 < int i - int previous \<and> int i - int previous \<le> 15" using assms(2,3) by simp
  have nat: "nat (int i - int previous) = i - previous" by simp
  have head: "compact_field i previous ty p = char_of (push_bit 4 (i - previous) OR ty) # p"
    using delta by (simp add: compact_field_def Let_def nat del: push_bit_of_nat)
  note byte = header_byte(2) [of "i - previous" ty]
  show ?thesis
    using assms byte unfolding head
    by (cases k) (auto simp: encodes_fields_def encodes_def read_fields.simps Let_def)
qed

lemmas encodes_rules = encodes_int encodes_binary encodes_list encodes_struct encodes_elems_Nil
  encodes_elems_Cons encodes_stop encodes_field

text \<open>The structures the writer encodes.\<close>

definition page_fields :: "nat \<Rightarrow> nat \<Rightarrow> (nat \<times> nat \<times> thrift) list" where
  "page_fields rows body =
     [(1, 5, TInt 0), (2, 5, TInt body), (3, 5, TInt body),
      (5, 12, TStruct [(1, 5, TInt rows), (2, 5, TInt 0), (3, 5, TInt 3), (4, 5, TInt 3)])]"

definition column_fields :: "nat \<Rightarrow> nat \<Rightarrow> (nat \<times> nat \<times> thrift) list" where
  "column_fields rows page =
     [(1, 5, TInt 6), (2, 9, TList 5 [TInt 0, TInt 3]), (3, 9, TList 8 [TBin ''event_json'']),
      (4, 5, TInt 0), (5, 6, TInt rows), (6, 6, TInt page), (7, 6, TInt page), (9, 6, TInt 4)]"

definition group_fields :: "nat \<Rightarrow> nat \<Rightarrow> (nat \<times> nat \<times> thrift) list" where
  "group_fields rows page =
     [(1, 9, TList 12 [TStruct [(2, 6, TInt 4), (3, 12, TStruct (column_fields rows page))]]),
      (2, 6, TInt page), (3, 6, TInt rows), (6, 6, TInt page)]"

definition footer_fields :: "nat \<Rightarrow> nat \<Rightarrow> string \<Rightarrow> (nat \<times> nat \<times> thrift) list" where
  "footer_fields rows page ledger_sha256 =
     [(1, 5, TInt 1),
      (2, 9, TList 12 [TStruct [(4, 8, TBin ''shaurya_ledger''), (5, 5, TInt 1)],
        TStruct [(1, 5, TInt 6), (3, 5, TInt 0), (4, 8, TBin ''event_json'')]]),
      (3, 6, TInt rows),
      (4, 9, TList 12 [TStruct (group_fields rows page)]),
      (5, 9, TList 12 [
        TStruct [(1, 8, TBin ''shaurya.ledger.sha256''), (2, 8, TBin ledger_sha256)],
        TStruct [(1, 8, TBin ''shaurya.ledger.encoding''), (2, 8, TBin ''canonical-json-per-row'')]]),
      (6, 8, TBin ''Shaurya dependency-free snapshot'')]"

lemma page_header_encodes:
  assumes "10 \<le> k" and "rows < 2 ^ 63" and "length body < 2 ^ 63"
  shows "encodes_fields k 0 (page_fields rows (length body)) (page_header rows body)"
  unfolding page_fields_def page_header_def Let_def
  by (intro encodes_rules) (use assms in simp_all)

lemma column_encodes:
  assumes "12 \<le> k" and "rows < 2 ^ 63" and "length page < 2 ^ 63"
  shows "encodes_fields k 0 (column_fields rows (length page)) (column_metadata rows page)"
  unfolding column_fields_def column_metadata_def
  by (intro encodes_rules) (use assms in simp_all)

lemma group_encodes:
  assumes "20 \<le> k" and "rows < 2 ^ 63" and "length page < 2 ^ 63"
  shows "encodes_fields k 0 (group_fields rows (length page)) (row_group rows page)"
  unfolding group_fields_def row_group_def Let_def
  by (intro encodes_rules column_encodes) (use assms in simp_all)

lemma key_value_encodes:
  "6 \<le> k \<Longrightarrow> encodes_fields k 0 [(1, 8, TBin a), (2, 8, TBin b)] (key_value a b)"
  unfolding key_value_def by (intro encodes_rules) simp_all

lemma footer_encodes:
  assumes "40 \<le> k" and "rows < 2 ^ 63" and "length page < 2 ^ 63"
  shows "encodes_fields k 0 (footer_fields rows (length page) sha) (file_footer rows page sha)"
  unfolding footer_fields_def file_footer_def Let_def
  by (intro encodes_rules group_encodes key_value_encodes) (use assms in simp_all)

lemma from_to_bytes4 [simp]: "to_bytes4 n = Inr s \<Longrightarrow> from_bytes4 (s @ r) = n \<and> length s = 4"
proof -
  assume s: "to_bytes4 n = Inr s"
  then have n: "n < 4294967296" by (simp add: to_bytes4_def split: if_splits)
  define a b c where "a = n div 256" and "b = a div 256" and "c = b div 256"
  have parts: "n div 256 = a" "n div 65536 = b" "n div 16777216 = c"
    using div_mult2_eq [of n 256 256] div_mult2_eq [of n 65536 256]
    by (simp_all add: a_def b_def c_def)
  have "c < 256" using n by (simp flip: parts(3))
  then have "b mod 256 + 256 * (c mod 256) = b" by (simp add: c_def)
  then have "a mod 256 + 256 * (b mod 256 + 256 * (c mod 256)) = a" by (simp add: b_def)
  then have "n mod 256 + 256 * (a mod 256 + 256 * (b mod 256 + 256 * (c mod 256))) = n"
    by (simp add: a_def)
  then have "n mod 256 + 256 * (n div 256 mod 256 + 256 * (n div 65536 mod 256 + 256 * (n div 16777216 mod 256))) = n"
    unfolding parts .
  with s show ?thesis by (auto simp: to_bytes4_def from_bytes4_def split: if_splits)
qed

lemma page_body_reads:
  "page_body vs = Inr body \<Longrightarrow> read_plain (length vs) body = Some vs \<and> length vs \<le> length body"
proof (induction vs arbitrary: body)
  case (Cons v vs)
  then obtain n rest where n: "to_bytes4 (length v) = Inr n" and rest: "page_body vs = Inr rest"
      and body: "body = n @ v @ rest"
    by (auto simp: page_body_def bind_result_Inr)
  note four = from_to_bytes4 [OF n, of "v @ rest"]
  show ?case using Cons.IH [OF rest] four body by (simp add: Let_def)
qed (simp add: page_body_def)

lemma page_reads:
  assumes header: "file = before @ page_header (length vs) body @ body @ tail" and body: "page_body vs = Inr body"
    and "length file < 2 ^ 63"
  shows "read_page file (length before) = Some vs"
proof -
  have small: "length vs < 2 ^ 63" "length body < 2 ^ 63"
    using assms(3) page_body_reads [OF body] header by simp_all
  have "encodes (64 + length file) 12 (TStruct (page_fields (length vs) (length body)))
      (page_header (length vs) body)"
    by (rule encodes_struct) (use page_header_encodes small in auto)
  then have "read_value (64 + length file) 12 (drop (length before) file) =
      Some (TStruct (page_fields (length vs) (length body)), body @ tail)"
    unfolding header encodes_def by simp
  with page_body_reads [OF body] show ?thesis
    by (simp add: read_page_def page_fields_def thrift_field_def)
qed

section \<open>Properties\<close>

text \<open>C9: the Parquet snapshot is a faithful, readable copy of the ledger. Whatever rows it is given, a
  file the writer produces is read back by an independent reader, which follows the footer to the
  data page, as exactly the canonical JSON of every row, in order, with their number and the digest
  of the rows in the file's metadata.
\<close>

theorem parquet_snapshot_roundtrip:
  assumes "canonical_event_parquet fl dg rows = Inr file" and "length file < 2 ^ 63"
  shows "\<exists>content. read_parquet file = Some content \<and> pq_row_count content = length rows \<and>
    map_result (canonical_json fl) rows = Inr (pq_rows content) \<and>
    canonical_sha256 fl dg (JsArray rows) = Inr (the (map_of (pq_metadata content) ''shaurya.ledger.sha256''))"
proof -
  from assms(1) obtain vs body sha n where
      vs: "map_result (canonical_json fl) rows = Inr vs" and body: "page_body vs = Inr body"
      and sha: "canonical_sha256 fl dg (JsArray rows) = Inr sha"
      and n: "to_bytes4 (length (file_footer (length vs) (page_header (length vs) body @ body) sha)) = Inr n"
      and whole: "file = ''PAR1'' @ (page_header (length vs) body @ body) @
        file_footer (length vs) (page_header (length vs) body @ body) sha @ n @ ''PAR1''"
    by (auto simp: canonical_event_parquet_def Let_def bind_result_Inr)
  define page where "page = page_header (length vs) body @ body"
  define footer where "footer = file_footer (length vs) page sha"
  have file': "file = ''PAR1'' @ page @ footer @ n @ ''PAR1''"
    unfolding whole page_def footer_def by simp
  have four: "from_bytes4 (n @ r) = length footer" "length n = 4" for r
    using from_to_bytes4 [OF n] by (simp_all add: footer_def page_def)
  have total: "length file = 12 + length page + length footer" unfolding file' using four(2) by simp
  have count: "length vs \<le> length page"
    using page_body_reads [OF body] by (simp add: page_def)
  have small: "length vs < 2 ^ 63" "length page < 2 ^ 63" using assms(2) total count by simp_all
  have cut: "drop (length file - 4) file = ''PAR1''"
      "drop (length file - 8) file = n @ ''PAR1''"
      "take (length footer) (drop (length file - 8 - length footer) file) = footer"
  proof -
    obtain m where m: "m = ''PAR1''" "length m = 4" by simp
    have whole: "file = m @ page @ footer @ n @ m" using file' m(1) by simp
    show "drop (length file - 4) file = ''PAR1''" "drop (length file - 8) file = n @ ''PAR1''"
        "take (length footer) (drop (length file - 8 - length footer) file) = footer"
      unfolding total unfolding whole m(1) [symmetric] using four(2) m(2) by simp_all
  qed
  have "encodes (64 + length footer) 12 (TStruct (footer_fields (length vs) (length page) sha)) footer"
    unfolding footer_def by (rule encodes_struct) (use footer_encodes small in auto)
  then have reads: "read_value (64 + length footer) 12 footer =
      Some (TStruct (footer_fields (length vs) (length page) sha), [])"
    unfolding encodes_def by (metis append_Nil2)
  have "read_page file (length ''PAR1'') = Some vs"
    by (rule page_reads [of _ _ _ body "footer @ n @ ''PAR1''"]) (use whole assms(2) body in \<open>simp_all add: footer_def page_def\<close>)
  moreover have "length ''PAR1'' = 4" by simp
  ultimately have page4: "read_page file 4 = Some vs" by metis
  have states: "footer_page (footer_fields (length vs) (length page) sha) = Some 4"
      "thrift_field (footer_fields (length vs) (length page) sha) 3 = Some (TInt (length vs))"
      "footer_pairs (footer_fields (length vs) (length page) sha) =
        [(''shaurya.ledger.sha256'', sha), (''shaurya.ledger.encoding'', ''canonical-json-per-row'')]"
    by (simp_all add: footer_page_def footer_pairs_def footer_fields_def group_fields_def
        column_fields_def thrift_field_def)
  have magic: "take 4 file = ''PAR1''" by (simp add: file')
  have "read_parquet file = Some \<lparr>pq_row_count = length vs, pq_metadata =
      [(''shaurya.ledger.sha256'', sha), (''shaurya.ledger.encoding'', ''canonical-json-per-row'')], pq_rows = vs\<rparr>"
    unfolding read_parquet_def Let_def cut(1,2) four(1) cut(3) reads
    using total magic page4 states by simp
  moreover have "length rows = length vs" using vs by (auto simp: map_result_Inr dest: list_all2_lengthD)
  ultimately show ?thesis using vs sha by simp
qed

section \<open>Publication\<close>

lemma create_file_Inr:
  "create_file dir name content = Inr dir' \<longleftrightarrow>
     dir' = AList.update name content dir \<and> (map_of dir name = None \<or> map_of dir name = Some content)"
  by (cases "map_of dir name") (auto simp: create_file_def atomic_create_once_def)

lemma create_file_Inl:
  "map_of dir name = Some old \<Longrightarrow> old \<noteq> content \<Longrightarrow>
     create_file dir name content = Inl (ValueError ''content-addressed artifact conflicts with existing content'')"
  by (simp add: create_file_def atomic_create_once_def)

lemma path_suffix_name:
  assumes "ext \<noteq> []" and "CHR ''.'' \<notin> set ext"
  shows "path_suffix (snapshot_name digest ext) = CHR ''.'' # ext"
proof -
  obtain stem where stem: "snapshot_name digest ext = stem @ CHR ''.'' # ext" "stem \<noteq> []"
    by (simp add: snapshot_name_def)
  have "takeWhile (\<lambda>c. c \<noteq> CHR ''.'') (rev ext @ CHR ''.'' # rev stem) = rev ext"
    using assms(2) by (subst takeWhile_append2) auto
  then show ?thesis using assms(1) stem(2) unfolding stem(1) by (simp add: path_suffix_def)
qed

text \<open>The four values a publication of \<open>es\<close> is made of.\<close>

definition publication ::
  "float_codec \<Rightarrow> (string \<Rightarrow> string) \<Rightarrow> bool \<Rightarrow> ledger_envelope list \<Rightarrow> string \<Rightarrow> string \<Rightarrow> string \<Rightarrow> bool" where
  "publication fl dg parquet es name artifact manifest \<longleftrightarrow>
     (\<exists>digest. let rows = map envelope_json es; ext = (if parquet then ''parquet'' else ''json'') in
        canonical_sha256 fl dg (JsArray rows) = Inr digest \<and>
        artifact_bytes fl dg parquet digest rows = Inr artifact \<and>
        name = snapshot_name digest ext \<and>
        manifest = json_text fl (manifest_json name ext digest (length rows) (dg artifact)) @ [CHR 0x0A])"

lemma manifest_finite [simp]:
  "canonical_json fl (manifest_json name ext digest n sha) = Inr (json_text fl (manifest_json name ext digest n sha))"
  by (simp add: canonical_json_def manifest_json_def)

lemma verify_published:
  assumes "publication fl dg parquet es name artifact manifest"
    and "map_of dir name = Some artifact" and "map_of dir (name @ ''.manifest.json'') = Some manifest"
  shows "verify_snapshot fl dg dir name es = Inr ()"
proof -
  let ?rows = "map envelope_json es" and ?ext = "if parquet then ''parquet'' else ''json''"
  obtain digest where p: "canonical_sha256 fl dg (JsArray ?rows) = Inr digest"
      "artifact_bytes fl dg parquet digest ?rows = Inr artifact" "name = snapshot_name digest ?ext"
      "manifest = json_text fl (manifest_json name ?ext digest (length ?rows) (dg artifact)) @ [CHR 0x0A]"
    using assms(1) unfolding publication_def Let_def by blast
  have ext: "path_suffix name = CHR ''.'' # ?ext" unfolding p(3) by (rule path_suffix_name) auto
  have kind: "?ext \<in> {''json'', ''parquet''}" "(?ext = ''parquet'') = parquet" by simp_all
  have bound: "name = snapshot_name digest ?ext" by (rule p(3))
  show ?thesis
    unfolding verify_snapshot_def Let_def p(1) bind_result_simps ext list.case kind(2) p(2)
      manifest_finite assms(2,3) p(4) [symmetric]
    using kind(1) bound by simp
qed

lemma materialize_published:
  assumes d: "holds fl dg d es" and p: "publication fl dg parquet es name artifact manifest"
  shows "materialize_snapshot fl dg parquet d dir =
    (if map_of dir name \<noteq> None \<and> map_of dir name \<noteq> Some artifact
     then (dir, Inl (ValueError ''content-addressed artifact conflicts with existing content''))
     else if map_of dir (name @ ''.manifest.json'') \<noteq> None \<and> map_of dir (name @ ''.manifest.json'') \<noteq> Some manifest
     then (AList.update name artifact dir,
           Inl (ValueError ''content-addressed artifact conflicts with existing content''))
     else (AList.update (name @ ''.manifest.json'') manifest (AList.update name artifact dir), Inr name))"
proof -
  let ?rows = "map envelope_json es" and ?ext = "if parquet then ''parquet'' else ''json''"
  obtain digest where p': "canonical_sha256 fl dg (JsArray ?rows) = Inr digest"
      "artifact_bytes fl dg parquet digest ?rows = Inr artifact" "name = snapshot_name digest ?ext"
      "manifest = json_text fl (manifest_json name ?ext digest (length ?rows) (dg artifact)) @ [CHR 0x0A]"
    using p unfolding publication_def Let_def by blast
  obtain ds where read: "read_ledger fl dg True d = (ds, Inr es)" "ds \<noteq> []" "\<forall>s \<in> set ds. holds fl dg s es"
    using read_holds [OF d] by blast
  have again: "snd (read_ledger fl dg True (last ds)) = Inr es"
    using read(2,3) by (intro read_result) simp
  let ?m = "name @ ''.manifest.json''"
  let ?dir1 = "AList.update name artifact dir"
  let ?dir2 = "AList.update ?m manifest ?dir1"
  have looks: "map_of ?dir1 ?m = map_of dir ?m" "map_of ?dir2 name = Some artifact" "map_of ?dir2 ?m = Some manifest"
    by (simp_all add: dict_simps)
  have run: "materialize_snapshot fl dg parquet d dir =
      (case create_file dir name artifact of
         Inl x \<Rightarrow> (dir, Inl x)
       | Inr dir1 \<Rightarrow>
           (case create_file dir1 ?m manifest of
              Inl x \<Rightarrow> (dir1, Inl x)
            | Inr dir2 \<Rightarrow> (dir2, bind_result (verify_snapshot fl dg dir2 name es) (\<lambda>_. Inr name))))"
    unfolding materialize_snapshot_def read(1) prod.case sum.case Let_def p'(1,2) bind_result_simps
      p'(3) [symmetric] manifest_finite p'(4) [symmetric] again
    by (simp only:)
  show ?thesis
  proof (cases "map_of dir name = None \<or> map_of dir name = Some artifact")
    case False
    then obtain old where "map_of dir name = Some old" "old \<noteq> artifact" by (cases "map_of dir name") auto
    then show ?thesis unfolding run by (simp add: create_file_Inl)
  next
    case True
    then have one: "create_file dir name artifact = Inr ?dir1" by (simp add: create_file_Inr)
    show ?thesis
    proof (cases "map_of dir ?m = None \<or> map_of dir ?m = Some manifest")
      case False
      then obtain old where old: "map_of dir ?m = Some old" "old \<noteq> manifest" by (cases "map_of dir ?m") auto
      then have "create_file ?dir1 ?m manifest =
          Inl (ValueError ''content-addressed artifact conflicts with existing content'')"
        by (intro create_file_Inl) (simp_all add: looks(1))
      with True old show ?thesis unfolding run one by auto
    next
      case ok: True
      then have "create_file ?dir1 ?m manifest = Inr ?dir2" by (simp add: create_file_Inr looks(1))
      with True ok verify_published [OF p looks(2,3)] show ?thesis unfolding run one by auto
    qed
  qed
qed

text \<open>C34: publishing a snapshot is create-once, repeatable and self-verifying. Over the ledger of any run
  of appends with crashes, a publication never changes a file that is there, whether it succeeds or
  not; when it succeeds, the artifact and the manifest pass \<open>verify_snapshot\<close> against the envelopes
  the ledger reads as, and publishing once more returns the same name and changes no file.
\<close>

theorem snapshot_create_once:
  assumes "list_all (turn_ok fl) ts" and "fold_result (ledger_turn fl dg) empty_disk ts = Inr d"
    and "materialize_snapshot fl dg parquet d dir = (dir', r)"
  shows "\<exists>es. snd (read_ledger fl dg True d) = Inr es \<and>
    (\<forall>n c. map_of dir n = Some c \<longrightarrow> map_of dir' n = Some c) \<and>
    (\<forall>name. r = Inr name \<longrightarrow> verify_snapshot fl dg dir' name es = Inr () \<and>
       snd (materialize_snapshot fl dg parquet d dir') = Inr name \<and>
       map_of (fst (materialize_snapshot fl dg parquet d dir')) = map_of dir')"
proof (rule ledger_run_holds [OF assms(2,1)])
  fix es
  assume d: "holds fl dg d es"
  let ?rows = "map envelope_json es" and ?ext = "if parquet then ''parquet'' else ''json''"
  let ?conflict = "ValueError ''content-addressed artifact conflicts with existing content''"
  obtain ds where read: "read_ledger fl dg True d = (ds, Inr es)" using read_holds [OF d] by blast
  show ?thesis
  proof (cases "\<exists>name artifact manifest. publication fl dg parquet es name artifact manifest")
    case False
    have "\<exists>x. materialize_snapshot fl dg parquet d dir = (dir, Inl x)"
    proof (cases "canonical_sha256 fl dg (JsArray ?rows)")
      case (Inl x)
      then show ?thesis by (simp add: materialize_snapshot_def read Let_def)
    next
      case (Inr digest)
      then obtain x where "artifact_bytes fl dg parquet digest ?rows = Inl x"
        using False by (cases "artifact_bytes fl dg parquet digest ?rows") (auto simp: publication_def Let_def)
      with Inr show ?thesis by (simp add: materialize_snapshot_def read Let_def)
    qed
    with assms(3) read show ?thesis by auto
  next
    case True
    then obtain name artifact manifest where p: "publication fl dg parquet es name artifact manifest" by blast
    let ?m = "name @ ''.manifest.json''"
    note run = materialize_published [OF d p]
    note here = run [of dir, unfolded assms(3)]
    have kept: "map_of dir n = Some c \<Longrightarrow> map_of dir' n = Some c" for n c
      using here by (auto simp: dict_simps split: if_splits)
    have done_once: "verify_snapshot fl dg dir' got es = Inr () \<and>
        snd (materialize_snapshot fl dg parquet d dir') = Inr got \<and>
        map_of (fst (materialize_snapshot fl dg parquet d dir')) = map_of dir'" if "r = Inr got" for got
    proof -
      have got: "got = name" "map_of dir' name = Some artifact" "map_of dir' ?m = Some manifest"
        using here that by (auto simp: dict_simps split: if_splits)
      then have "materialize_snapshot fl dg parquet d dir' =
          (AList.update ?m manifest (AList.update name artifact dir'), Inr name)"
        using run [of dir'] by simp
      moreover have "map_of (AList.update ?m manifest (AList.update name artifact dir')) = map_of dir'"
        using got(2,3) by (auto simp: dict_simps fun_eq_iff)
      ultimately show ?thesis using verify_published [OF p got(2,3)] got(1) by simp
    qed
    show ?thesis using read kept done_once by (intro exI [of _ es]) auto
  qed
qed

lemma verifyE:
  assumes "verify_snapshot fl dg dir name es = Inr ()" and "json_ok fl (JsArray (map envelope_json es))"
  obtains artifact where
    "name = snapshot_name (dg (json_text fl (JsArray (map envelope_json es)))) (tl (path_suffix name))"
    "artifact_bytes fl dg (tl (path_suffix name) = ''parquet'')
       (dg (json_text fl (JsArray (map envelope_json es)))) (map envelope_json es) = Inr artifact"
    "map_of dir name = Some artifact"
proof -
  have ext: "(case path_suffix name of [] \<Rightarrow> [] | dot # s \<Rightarrow> s) = tl (path_suffix name)"
    by (cases "path_suffix name") simp_all
  have sha: "canonical_sha256 fl dg (JsArray (map envelope_json es)) =
      Inr (dg (json_text fl (JsArray (map envelope_json es))))"
    unfolding canonical_sha256_def canonical_json_ok [OF assms(2)] by (simp only: bind_result_simps)
  show ?thesis
    using assms(1) that unfolding verify_snapshot_def Let_def sha bind_result_simps ext
    by (auto simp: bind_result_Inr simp del: json_text.simps split: if_splits)
qed

lemma artifact_bytes_cong:
  assumes "map canonical_value rows = map canonical_value rows'"
    and "json_ok fl (JsArray rows)" and "json_ok fl (JsArray rows')"
  shows "artifact_bytes fl dg parquet digest rows = artifact_bytes fl dg parquet digest rows'"
proof -
  have "map (json_text fl) (map canonical_value rows) = map (json_text fl) (map canonical_value rows')"
    using assms(1) by simp
  then have texts: "map (json_text fl) rows = map (json_text fl) rows'" by (simp add: comp_def)
  have encoded: "map_result (canonical_json fl) vs = Inr (map (json_text fl) vs)" if "json_ok fl (JsArray vs)" for vs
    using that map_result_map [of vs "canonical_json fl" "\<lambda>v. v" "json_text fl"] by (simp add: list_all_iff)
  have array: "canonical_json fl (JsArray vs) = Inr (''['' @ join_with '','' (map (json_text fl) vs) @ '']'')"
    if "json_ok fl (JsArray vs)" for vs
    using canonical_json_ok [OF that] by simp
  have whole: "canonical_json fl (JsObject [(''ledger_sha256'', JsStr digest), (''rows'', JsArray vs)]) =
      Inr (json_text fl (JsObject [(''ledger_sha256'', JsStr digest), (''rows'', JsArray vs)]))"
    if "json_ok fl (JsArray vs)" for vs
    by (rule canonical_json_ok) (use that in simp)
  have "json_text fl (JsObject [(''ledger_sha256'', JsStr digest), (''rows'', JsArray rows)]) =
      json_text fl (JsObject [(''ledger_sha256'', JsStr digest), (''rows'', JsArray rows')])"
    by (simp add: texts)
  then show ?thesis
    unfolding artifact_bytes_def canonical_event_parquet_def canonical_sha256_def
      encoded [OF assms(2)] encoded [OF assms(3)] array [OF assms(2)] array [OF assms(3)]
      whole [OF assms(2)] whole [OF assms(3)] texts
    by (simp only:)
qed

text \<open>A snapshot is bound to its evidence. If files under one name verify against two lists of
  envelopes, possibly in two directories, then, unless the digest collides on the two, the lists hold
  the same envelopes up to the order of object keys and the two artifacts are the same bytes.
\<close>

theorem snapshot_binds_ledger:
  assumes "verify_snapshot fl dg dir name es = Inr ()" and "verify_snapshot fl dg dir' name fs = Inr ()"
    and "list_all (\<lambda>e. json_ok fl (envelope_json e)) (es @ fs)"
    and "inj_on dg {json_text fl (JsArray (map envelope_json es)), json_text fl (JsArray (map envelope_json fs))}"
  shows "map (\<lambda>e. canonical_value (envelope_json e)) es = map (\<lambda>e. canonical_value (envelope_json e)) fs \<and>
    map_of dir name = map_of dir' name"
proof -
  have ok: "json_ok fl (JsArray (map envelope_json es))" "json_ok fl (JsArray (map envelope_json fs))"
    using assms(3) by (simp_all add: list_all_iff)
  let ?es = "map envelope_json es" and ?fs = "map envelope_json fs"
  obtain artifact where es: "name = snapshot_name (dg (json_text fl (JsArray ?es))) (tl (path_suffix name))"
      "artifact_bytes fl dg (tl (path_suffix name) = ''parquet'') (dg (json_text fl (JsArray ?es))) ?es = Inr artifact"
      "map_of dir name = Some artifact"
    by (rule verifyE [OF assms(1) ok(1)])
  obtain artifact' where fs: "name = snapshot_name (dg (json_text fl (JsArray ?fs))) (tl (path_suffix name))"
      "artifact_bytes fl dg (tl (path_suffix name) = ''parquet'') (dg (json_text fl (JsArray ?fs))) ?fs = Inr artifact'"
      "map_of dir' name = Some artifact'"
    by (rule verifyE [OF assms(2) ok(2)])
  have "snapshot_name (dg (json_text fl (JsArray ?es))) (tl (path_suffix name)) =
      snapshot_name (dg (json_text fl (JsArray ?fs))) (tl (path_suffix name))"
    using es(1) fs(1) by (rule subst)
  then have sha: "dg (json_text fl (JsArray ?es)) = dg (json_text fl (JsArray ?fs))"
    by (simp add: snapshot_name_def del: json_text.simps)
  then have "json_text fl (JsArray ?es) = json_text fl (JsArray ?fs)"
    by (rule inj_onD [OF assms(4)]) simp_all
  then have "canonical_value (JsArray ?es) = canonical_value (JsArray ?fs)"
    using json_loads_text [OF ok(1)] json_loads_text [OF ok(2)] by (simp del: json_text.simps canonical_value.simps)
  then have rows: "map canonical_value ?es = map canonical_value ?fs" by simp
  have "artifact = artifact'"
    using es(2) fs(2) artifact_bytes_cong [OF rows ok, of dg] sha by (simp del: json_text.simps)
  with es(3) fs(3) rows show ?thesis by (simp add: comp_def)
qed

section \<open>Examples\<close>

lemma varint_small: "n < 128 \<Longrightarrow> varint n = [char_of n]"
  by (simp add: varint.simps [of n])

lemma varint_large: "128 \<le> n \<Longrightarrow> varint n = char_of (n mod 128 + 128) # varint (n div 128)"
  by (simp add: varint.simps [of n] Let_def div_eq_0_iff)

lemma compact_integer_small: "n < 2 ^ 63 \<Longrightarrow> compact_integer n = varint (2 * n)"
  by (simp add: compact_integer_def push_bit_eq_mult drop_bit_eq_div mult.commute)

lemma compact_field_near:
  "previous < i \<Longrightarrow> i \<le> previous + 15 \<Longrightarrow>
     compact_field i previous ty p = char_of (push_bit 4 (i - previous) OR ty) # p"
  by (simp add: compact_field_def Let_def nat_diff_distrib flip: of_nat_diff)

definition example_short_sha :: "string \<Rightarrow> string" where
  "example_short_sha s = ''5ba9''"

definition example_snapshot_rows :: "json list" where
  "example_snapshot_rows = [JsObject [(''b'', JsInt 12)], JsObject [(''a'', JsBool True)]]"

definition example_parquet :: string where
  "example_parquet = (case canonical_event_parquet example_floats example_short_sha example_snapshot_rows of
     Inr bytes \<Rightarrow> bytes | Inl x \<Rightarrow> [])"

lemmas example_simps = varint_small varint_large compact_integer_small compact_field_near
  compact_binary_def compact_list_def

lemma example_parquet_written:
  "canonical_event_parquet example_floats example_short_sha example_snapshot_rows = Inr example_parquet \<and>
   length example_parquet < 2 ^ 63"
proof -
  have texts: "map_result (canonical_json example_floats) example_snapshot_rows =
      Inr [''{'' @ json_quote ''b'' @ '':12}'', ''{'' @ json_quote ''a'' @ '':true}'']"
    by code_simp
  have lens: "length (json_quote ''b'') = 3" "length (json_quote ''a'') = 3" by code_simp+
  have sha: "canonical_sha256 example_floats example_short_sha (JsArray example_snapshot_rows) = Inr ''5ba9''"
    by code_simp
  let ?vs = "[''{'' @ json_quote ''b'' @ '':12}'', ''{'' @ json_quote ''a'' @ '':true}'']"
  have "\<exists>body. page_body ?vs = Inr body \<and> length body = 26"
    by (simp add: page_body_def to_bytes4_def lens)
  then obtain body where body: "page_body ?vs = Inr body" "length body = 26" by blast
  have header: "length (page_header 2 body) = 17"
    unfolding page_header_def Let_def body(2) by (simp add: example_simps)
  let ?page = "page_header 2 body @ body"
  have page: "length ?page = 43" using header body(2) by simp
  have column: "length (column_metadata 2 ?page) = 30"
    unfolding column_metadata_def page by (simp add: example_simps)
  have grp: "length (row_group 2 ?page) = 43"
    unfolding row_group_def Let_def page by (simp add: example_simps column)
  have pairs: "length (key_value ''shaurya.ledger.sha256'' ''5ba9'') = 30"
      "length (key_value ''shaurya.ledger.encoding'' ''canonical-json-per-row'') = 50"
    by (simp_all add: key_value_def example_simps)
  have footer: "length (file_footer 2 ?page ''5ba9'') < 1000"
    unfolding file_footer_def Let_def by (simp add: example_simps grp pairs)
  then obtain n where n: "to_bytes4 (length (file_footer 2 ?page ''5ba9'')) = Inr n" "length n = 4"
    by (simp add: to_bytes4_def)
  have two: "length ?vs = 2" by simp
  have "canonical_event_parquet example_floats example_short_sha example_snapshot_rows =
      Inr (''PAR1'' @ ?page @ file_footer 2 ?page ''5ba9'' @ n @ ''PAR1'')"
    unfolding canonical_event_parquet_def texts sha bind_result_simps body(1) Let_def two n(1) ..
  with footer page n(2) show ?thesis by (simp add: example_parquet_def del: length_append) simp
qed

theorem parquet_snapshot_roundtrip_witness:
  "\<exists>content. read_parquet example_parquet = Some content \<and> pq_row_count content = 2 \<and>
     pq_rows content = [''{'' @ json_quote ''b'' @ '':12}'', ''{'' @ json_quote ''a'' @ '':true}'']"
proof -
  have texts: "map_result (canonical_json example_floats) example_snapshot_rows =
      Inr [''{'' @ json_quote ''b'' @ '':12}'', ''{'' @ json_quote ''a'' @ '':true}'']"
    by code_simp
  have "length example_snapshot_rows = 2" by (simp add: example_snapshot_rows_def)
  with parquet_snapshot_roundtrip [of example_floats example_short_sha example_snapshot_rows example_parquet]
    example_parquet_written texts show ?thesis by auto
qed

theorem snapshot_create_once_witness:
  "\<exists>d es. fold_result (ledger_turn example_floats to_hex) empty_disk example_turns = Inr d \<and>
     snd (read_ledger example_floats to_hex True d) = Inr es \<and>
     (\<forall>name. snd (materialize_snapshot example_floats to_hex False d [(''notes'', ''kept'')]) = Inr name \<longrightarrow>
        verify_snapshot example_floats to_hex
          (fst (materialize_snapshot example_floats to_hex False d [(''notes'', ''kept'')])) name es = Inr ())"
proof -
  obtain d where d: "fold_result (ledger_turn example_floats to_hex) empty_disk example_turns = Inr d"
    using ledger_run_total by blast
  let ?run = "materialize_snapshot example_floats to_hex False d [(''notes'', ''kept'')]"
  from snapshot_create_once [OF example_turns_ok d, of False "[(''notes'', ''kept'')]" "fst ?run" "snd ?run"]
  obtain es where "snd (read_ledger example_floats to_hex True d) = Inr es"
      "\<forall>name. snd ?run = Inr name \<longrightarrow> verify_snapshot example_floats to_hex (fst ?run) name es = Inr ()"
    by auto
  with d show ?thesis by blast
qed

theorem snapshot_binds_ledger_witness:
  "\<exists>dir name. verify_snapshot example_floats to_hex dir name [example_envelope] = Inr () \<and>
     map_of dir name = map_of (dir @ [(''notes'', ''kept'')]) name"
proof -
  have ok: "json_ok example_floats (envelope_json example_envelope)"
    using example_envelope_ok envelope_json_ok(2) by (auto simp: ledger_ok_def)
  then have array: "json_ok example_floats (JsArray (map envelope_json [example_envelope]))" by simp
  let ?digest = "to_hex (json_text example_floats (JsArray (map envelope_json [example_envelope])))"
  have sha: "canonical_sha256 example_floats to_hex (JsArray (map envelope_json [example_envelope])) = Inr ?digest"
    unfolding canonical_sha256_def canonical_json_ok [OF array] by (simp only: bind_result_simps)
  have "json_ok example_floats (JsObject [(''ledger_sha256'', JsStr ?digest),
      (''rows'', JsArray (map envelope_json [example_envelope]))])"
    using ok by simp
  then have "\<exists>artifact. artifact_bytes example_floats to_hex False ?digest (map envelope_json [example_envelope]) = Inr artifact"
    unfolding artifact_bytes_def by (simp only: if_False canonical_json_ok bind_result_simps) blast
  then obtain name artifact manifest where p: "publication example_floats to_hex False [example_envelope] name artifact manifest"
    using sha unfolding publication_def Let_def if_False by blast
  let ?dir = "[(name, artifact), (name @ ''.manifest.json'', manifest)]"
  have v: "verify_snapshot example_floats to_hex ?dir name [example_envelope] = Inr ()"
      "verify_snapshot example_floats to_hex (?dir @ [(''notes'', ''kept'')]) name [example_envelope] = Inr ()"
    by (rule verify_published [OF p]; simp)+
  have all: "list_all (\<lambda>e. json_ok example_floats (envelope_json e)) ([example_envelope] @ [example_envelope])"
    using ok by simp
  have "inj to_hex" by (rule inj_on_inverseI [where g = "the \<circ> from_hex"]) simp
  then have inj: "inj_on to_hex X" for X by (rule inj_on_subset) simp
  from snapshot_binds_ledger [OF v all inj] v(1) show ?thesis by blast
qed

end
