(* ===== verification/Multiplicity.thy ===== *)
theory Multiplicity
  imports Prelude "HOL-Library.Multiset"
begin

text \<open>
  Multiplicity correction, \<open>research/src/shaurya/research/multiplicity.py\<close>, with
  \<open>benjamini_yekutieli\<close> of \<open>research/src/shaurya/signals/evaluation_metrics.py\<close>. A float operation
  rounds its exact result: \<open>ops\<close> holds the rounding and \<open>sum\<close> over a list of floats, which adds
  naively before Python 3.12 and with compensation since; what the proofs ask of both is
  \<open>float_ops_ok\<close>. The bootstrap of the same file is numpy work and is left out.
\<close>

section \<open>The two procedures\<close>

record float_ops =
  fo_round :: "rat \<Rightarrow> rat"
  fo_sum :: "rat list \<Rightarrow> rat"

definition float_ops_ok :: "float_ops \<Rightarrow> bool" where
  "float_ops_ok ops \<longleftrightarrow> mono (fo_round ops) \<and> fo_round ops 0 = 0 \<and>
     (\<forall>xs. list_all (\<lambda>x. 0 \<le> x) xs \<longrightarrow> 0 \<le> fo_sum ops xs)"

text \<open>The eligible p-values with their positions.\<close>

definition bh_eligible :: "fval option list \<Rightarrow> (nat \<times> rat) list" where
  "bh_eligible ps =
     concat (map (\<lambda>(i, p). case p of Some (Finite v) \<Rightarrow> if 0 \<le> v \<and> v \<le> 1 then [(i, v)] else [] | _ \<Rightarrow> [])
       (enumerate 0 ps))"

definition by_eligible :: "fval option list \<Rightarrow> (nat \<times> rat) list" where
  "by_eligible ps =
     concat (map (\<lambda>(i, p). case p of Some (Finite v) \<Rightarrow> [(i, v)] | _ \<Rightarrow> []) (enumerate 0 ps))"

text \<open>\<open>value * total / rank\<close> and \<open>value * total * penalty / rank\<close>.\<close>

definition bh_weight :: "float_ops \<Rightarrow> nat \<Rightarrow> nat \<Rightarrow> rat \<Rightarrow> rat" where
  "bh_weight ops m rank v = fo_round ops (fo_round ops (v * of_nat m) / of_nat rank)"

definition by_penalty :: "float_ops \<Rightarrow> nat \<Rightarrow> rat" where
  "by_penalty ops m = fo_sum ops (map (\<lambda>rank. fo_round ops (1 / of_nat rank)) [1..<m + 1])"

definition by_weight :: "float_ops \<Rightarrow> nat \<Rightarrow> nat \<Rightarrow> rat \<Rightarrow> rat" where
  "by_weight ops m rank v =
     fo_round ops
       (fo_round ops (fo_round ops (v * of_nat m) * by_penalty ops m) / of_nat rank)"

type_synonym adjust_state = "rat \<times> rat option list"

fun bh_step :: "(nat \<Rightarrow> rat \<Rightarrow> rat) \<Rightarrow> adjust_state \<Rightarrow> nat \<times> nat \<times> rat \<Rightarrow> adjust_state" where
  "bh_step weight (running, result) (rank, index, v) =
     (let running = min running (weight rank v) in (running, result[index := Some running]))"

fun by_step :: "(nat \<Rightarrow> rat \<Rightarrow> rat) \<Rightarrow> adjust_state \<Rightarrow> nat \<times> nat \<times> rat \<Rightarrow> adjust_state" where
  "by_step weight (running, result) (rank, index, v) =
     (let running = min running (weight rank v) in (running, result[index := Some (min running 1)]))"

definition benjamini_hochberg :: "float_ops \<Rightarrow> fval option list \<Rightarrow> rat option list" where
  "benjamini_hochberg ops ps =
     (let eligible = bh_eligible ps in
      snd (foldl (bh_step (bh_weight ops (length eligible))) (1, replicate (length ps) None)
        (rev (enumerate 1 (sort_key snd eligible)))))"

definition benjamini_yekutieli :: "float_ops \<Rightarrow> fval option list \<Rightarrow> rat option list" where
  "benjamini_yekutieli ops ps =
     (let eligible = by_eligible ps; adjusted = replicate (length ps) None in
      if length eligible = 0 then adjusted
      else snd (foldl (by_step (by_weight ops (length eligible))) (1, adjusted)
        (rev (enumerate 1 (sort_key snd eligible)))))"

section \<open>Adjusting a hierarchy\<close>

record adjusted_evidence =
  ae_hypothesis_id :: string
  ae_family :: string
  ae_raw_p_value :: fval
  ae_family_adjusted_p_value :: rat
  ae_experiment_adjusted_p_value :: rat
  ae_method :: string
  ae_declared_family_size :: nat
  ae_declared_experiment_size :: nat

definition in_unit :: "fval \<Rightarrow> bool" where
  "in_unit p = (case p of Finite v \<Rightarrow> 0 \<le> v \<and> v \<le> 1 | _ \<Rightarrow> False)"

definition dict_get :: "(string \<times> 'v) list \<Rightarrow> string \<Rightarrow> 'v" where
  "dict_get d k = the (map_of d k)"

definition hierarchy_checks ::
  "(string \<times> fval) list \<Rightarrow> (string \<times> string) list \<Rightarrow> string \<Rightarrow> string list option \<Rightarrow> exn option" where
  "hierarchy_checks p_values families procedure declared =
     first_error
       [(set (map fst p_values) \<noteq> set (map fst families),
         ValueError ''p-values and hierarchy must contain identical hypotheses''),
        (case declared of None \<Rightarrow> False | Some ids \<Rightarrow> set (map fst p_values) \<noteq> set ids,
         ValueError ''multiplicity input must account for every declared candidate''),
        (p_values = [] \<or> list_ex (\<lambda>(k, p). \<not> in_unit p) p_values,
         ValueError ''finite p-values in [0,1] are required''),
        (procedure \<notin> {''benjamini_yekutieli'', ''benjamini_hochberg''},
         ValueError ''unsupported multiplicity method'')]"

definition finite_adjustments :: "rat option list \<Rightarrow> rat list result" where
  "finite_adjustments vs =
     map_result (\<lambda>v. case v of
         None \<Rightarrow> Inl (AssertionError ''finite p-values must produce finite adjustments'')
       | Some x \<Rightarrow> Inr x) vs"

text \<open>One pass of the loop over the families: the entries of \<open>family_adjusted\<close> it writes.\<close>

definition adjust_family ::
  "(fval option list \<Rightarrow> rat option list) \<Rightarrow> (string \<times> fval) list \<Rightarrow> (string \<times> string) list \<Rightarrow>
     string list \<Rightarrow> (string \<times> rat) list \<Rightarrow> string \<Rightarrow> (string \<times> rat) list result" where
  "adjust_family adjust p_values families ids family_adjusted family =
     (let family_ids = filter (\<lambda>item. dict_get families item = family) ids in
      bind_result
        (finite_adjustments (adjust (map (\<lambda>item. Some (dict_get p_values item)) family_ids)))
        (\<lambda>vs. Inr (foldl (\<lambda>d (item, v). AList.update item v d) family_adjusted (zip family_ids vs))))"

definition adjust_hierarchical ::
  "float_ops \<Rightarrow> (string \<times> fval) list \<Rightarrow> (string \<times> string) list \<Rightarrow> string \<Rightarrow> string list option \<Rightarrow>
     adjusted_evidence list result" where
  "adjust_hierarchical ops p_values families procedure declared =
     (case hierarchy_checks p_values families procedure declared of
        Some x \<Rightarrow> Inl x
      | None \<Rightarrow>
          let ids = sort (map fst p_values);
              adjust = (if procedure = ''benjamini_yekutieli'' then benjamini_yekutieli ops
                        else benjamini_hochberg ops);
              experiment = adjust (map (\<lambda>item. Some (dict_get p_values item)) ids)
          in bind_result
               (fold_result (adjust_family adjust p_values families ids) []
                 (sorted_set (map snd families)))
               (\<lambda>family_adjusted.
             bind_result (finite_adjustments experiment) (\<lambda>experiment_adjusted.
               Inr (map (\<lambda>(index, item).
                   \<lparr>ae_hypothesis_id = item, ae_family = dict_get families item,
                    ae_raw_p_value = dict_get p_values item,
                    ae_family_adjusted_p_value = dict_get family_adjusted item,
                    ae_experiment_adjusted_p_value = experiment_adjusted ! index,
                    ae_method = procedure,
                    ae_declared_family_size =
                      length (filter (\<lambda>other. dict_get families other = dict_get families item) ids),
                    ae_declared_experiment_size = length ids\<rparr>) (enumerate 0 ids)))))"

section \<open>Step-up adjustment, order free\<close>

text \<open>The adjusted value of \<open>v\<close> among the p-values \<open>vs\<close>: each p-value \<open>w\<close> from \<open>v\<close> on weighs in with
  the number of p-values up to it.\<close>

definition count_le :: "rat list \<Rightarrow> rat \<Rightarrow> nat" where
  "count_le vs w = length (filter (\<lambda>x. x \<le> w) vs)"

definition step_up :: "(nat \<Rightarrow> rat \<Rightarrow> rat) \<Rightarrow> rat list \<Rightarrow> rat \<Rightarrow> rat" where
  "step_up weight vs v =
     Min (insert 1 ((\<lambda>w. weight (count_le vs w) w) ` {w \<in> set vs. v \<le> w}))"

text \<open>The loop from the greatest p-value down, as a recursion over the sorted list.\<close>

fun suffix_min :: "(nat \<Rightarrow> rat \<Rightarrow> rat) \<Rightarrow> nat \<Rightarrow> rat list \<Rightarrow> rat" where
  "suffix_min weight k [] = 1"
| "suffix_min weight k (v # vs) = min (suffix_min weight (Suc k) vs) (weight k v)"

lemma suffix_min_Min:
  "suffix_min weight k vs = Min (insert 1 ((\<lambda>l. weight (k + l) (vs ! l)) ` {..<length vs}))"
proof (induction vs arbitrary: k)
  case (Cons v vs)
  have "{..<length (v # vs)} = insert 0 (Suc ` {..<length vs})"
    by (simp add: lessThan_Suc_eq_insert_0)
  then have "(\<lambda>l. weight (k + l) ((v # vs) ! l)) ` {..<length (v # vs)} =
      insert (weight k v) ((\<lambda>l. weight (Suc k + l) (vs ! l)) ` {..<length vs})"
    by (simp add: image_image)
  moreover have "Min (insert 1 (insert (weight k v) A)) = min (Min (insert 1 A)) (weight k v)"
    if "finite A" for A
    using that by (cases "A = {}") (simp_all add: min.commute min.left_commute)
  ultimately show ?case using Cons.IH by simp
qed simp

lemma suffix_min_le_1: "suffix_min weight k vs \<le> 1"
  by (induction vs arbitrary: k) (simp_all add: min.coboundedI1)

lemma adjust_loop:
  assumes step: "\<And>r out rank i v. r \<le> 1 \<Longrightarrow>
      step (r, out) (rank, i, v) = (min r (weight rank v), out[i := Some (min r (weight rank v))])"
    and "distinct (map fst s)" and "\<forall>i \<in> fst ` set s. i < length out0"
  shows "let (r, out) = foldl step (1, out0) (rev (enumerate k s)) in
    r = suffix_min weight k (map snd s) \<and> length out = length out0 \<and>
    (\<forall>j < length s. out ! fst (s ! j) = Some (suffix_min weight (k + j) (map snd (drop j s)))) \<and>
    (\<forall>i. i \<notin> fst ` set s \<longrightarrow> out ! i = out0 ! i)"
  using assms(2,3)
proof (induction s arbitrary: k)
  case (Cons a s)
  obtain i v where a: "a = (i, v)" by (cases a)
  obtain r out where run: "foldl step (1, out0) (rev (enumerate (Suc k) s)) = (r, out)"
    by (cases "foldl step (1, out0) (rev (enumerate (Suc k) s))")
  from Cons.IH [of "Suc k"] Cons.prems have IH: "r = suffix_min weight (Suc k) (map snd s)"
      "length out = length out0"
      "\<And>j. j < length s \<Longrightarrow> out ! fst (s ! j) = Some (suffix_min weight (Suc k + j) (map snd (drop j s)))"
      "\<And>i. i \<notin> fst ` set s \<Longrightarrow> out ! i = out0 ! i"
    unfolding run by auto
  have "r \<le> 1" unfolding IH(1) by (rule suffix_min_le_1)
  from step [OF this] have run': "foldl step (1, out0) (rev (enumerate k (a # s))) =
      (min r (weight k v), out[i := Some (min r (weight k v))])"
    by (simp add: a run)
  have i: "i < length out" "i \<notin> fst ` set s" using Cons.prems IH(2) by (auto simp: a)
  have "out[i := Some (min r (weight k v))] ! fst ((a # s) ! j) =
      Some (suffix_min weight (k + j) (map snd (drop j (a # s))))" if "j < length (a # s)" for j
  proof (cases j)
    case 0
    then show ?thesis using i by (simp add: a IH(1))
  next
    case (Suc j')
    then have "fst (s ! j') \<noteq> i" using i(2) that by (metis Suc_less_SucD image_eqI length_Cons nth_mem)
    then show ?thesis using Suc that IH(3) [of j'] by simp
  qed
  then show ?case unfolding run' using IH i by (simp add: a)
qed simp

lemma sorted_count:
  assumes "sorted xs"
  shows "j < length xs \<Longrightarrow> Suc j \<le> count_le xs (xs ! j)"
    and "w \<in> set xs \<Longrightarrow> count_le xs w \<le> length xs \<and> 0 < count_le xs w \<and> xs ! (count_le xs w - 1) = w"
proof -
  show "Suc j \<le> count_le xs (xs ! j)" if "j < length xs"
  proof -
    have "list_all (\<lambda>x. x \<le> xs ! j) (take (Suc j) xs)"
      using assms that by (auto simp: list_all_length sorted_iff_nth_mono)
    then have "filter (\<lambda>x. x \<le> xs ! j) (take (Suc j) xs) = take (Suc j) xs"
      by (simp add: filter_id_conv list_all_iff)
    then have "filter (\<lambda>x. x \<le> xs ! j) xs =
        take (Suc j) xs @ filter (\<lambda>x. x \<le> xs ! j) (drop (Suc j) xs)"
      by (metis append_take_drop_id filter_append)
    then show ?thesis using that by (simp add: count_le_def)
  qed
  show "count_le xs w \<le> length xs \<and> 0 < count_le xs w \<and> xs ! (count_le xs w - 1) = w" if "w \<in> set xs"
    using assms that
  proof (induction xs)
    case (Cons x xs)
    show ?case
    proof (cases "w \<in> set xs")
      case True
      with Cons have IH: "count_le xs w \<le> length xs" "0 < count_le xs w" "xs ! (count_le xs w - 1) = w" by auto
      have "x \<le> w" using Cons.prems(1) True by auto
      with IH show ?thesis by (simp add: count_le_def nth_Cons')
    next
      case False
      with Cons.prems have w: "w = x" "\<forall>y \<in> set xs. x < y" by (auto simp: less_le)
      then have "filter (\<lambda>y. y \<le> w) xs = []" by (auto simp: filter_empty_conv not_le)
      with w(1) show ?thesis by (simp add: count_le_def)
    qed
  qed simp
qed

lemma count_le_mono: "v \<le> w \<Longrightarrow> count_le vs v \<le> count_le vs w"
  by (induction vs) (auto simp: count_le_def)

lemma suffix_step_up:
  assumes sorted: "sorted vs" and j: "j < length vs"
    and antitone: "\<And>k l v. v \<in> set vs \<Longrightarrow> 0 < k \<Longrightarrow> k \<le> l \<Longrightarrow> weight l v \<le> weight k v"
  shows "suffix_min weight (Suc j) (drop j vs) = step_up weight vs (vs ! j)"
proof (rule antisym)
  let ?A = "insert 1 ((\<lambda>l. weight (Suc j + l) (drop j vs ! l)) ` {..<length (drop j vs)})"
  let ?B = "insert 1 ((\<lambda>w. weight (count_le vs w) w) ` {w \<in> set vs. vs ! j \<le> w})"
  have "?B \<subseteq> ?A"
  proof
    fix x assume "x \<in> ?B"
    then consider "x = 1" | w where "w \<in> set vs" "vs ! j \<le> w" "x = weight (count_le vs w) w" by auto
    then show "x \<in> ?A"
    proof cases
      case 2
      note at_w = sorted_count(2) [OF sorted 2(1)]
      note count_le_mono [OF 2(2), of vs]
      with sorted_count(1) [OF sorted j] have "Suc j \<le> count_le vs w" by simp
      then show ?thesis using at_w 2(3) by (auto intro!: image_eqI [where x = "count_le vs w - Suc j"])
    qed simp
  qed
  then show "suffix_min weight (Suc j) (drop j vs) \<le> step_up weight vs (vs ! j)"
    unfolding suffix_min_Min step_up_def by (intro Min_antimono) auto
  have "step_up weight vs (vs ! j) \<le> x" if "x \<in> ?A" for x
  proof -
    from that consider "x = 1" | l where "l < length vs - j" "x = weight (Suc j + l) (vs ! (j + l))" by auto
    then show ?thesis
    proof cases
      case 2
      let ?w = "vs ! (j + l)"
      have w: "?w \<in> set vs" "vs ! j \<le> ?w" using 2(1) sorted by (auto simp: sorted_iff_nth_mono)
      have "Suc j + l \<le> count_le vs ?w" using sorted_count(1) [OF sorted, of "j + l"] 2(1) by simp
      from antitone [OF w(1) _ this] have "weight (count_le vs ?w) ?w \<le> x" unfolding 2(2) by simp
      moreover have "step_up weight vs (vs ! j) \<le> weight (count_le vs ?w) ?w"
        unfolding step_up_def using w by (intro Min_le) auto
      ultimately show ?thesis by simp
    qed (auto simp: step_up_def intro!: Min_le)
  qed
  then show "step_up weight vs (vs ! j) \<le> suffix_min weight (Suc j) (drop j vs)"
    unfolding suffix_min_Min by (intro Min.boundedI) auto
qed

lemma count_le_mset: "mset vs = mset ws \<Longrightarrow> count_le vs = count_le ws"
  unfolding count_le_def by (metis mset_filter size_mset)

lemma step_up_mset: "mset vs = mset ws \<Longrightarrow> step_up weight vs = step_up weight ws"
  using count_le_mset [of vs ws] mset_eq_setD [of vs ws] by (simp add: step_up_def fun_eq_iff)

text \<open>Both procedures adjust every eligible p-value to its order-free value.\<close>

lemma adjust_loop_step_up:
  assumes step: "\<And>r out rank i v. r \<le> 1 \<Longrightarrow>
      step (r, out) (rank, i, v) = (min r (weight rank v), out[i := Some (min r (weight rank v))])"
    and distinct: "distinct (map fst e)" and bound: "\<forall>i \<in> fst ` set e. i < n"
    and antitone: "\<And>k l v. v \<in> snd ` set e \<Longrightarrow> 0 < k \<Longrightarrow> k \<le> l \<Longrightarrow> weight l v \<le> weight k v"
    and i: "i < n"
  shows "snd (foldl step (1, replicate n None) (rev (enumerate 1 (sort_key snd e)))) ! i =
    map_option (step_up weight (map snd e)) (map_of e i)"
proof -
  let ?s = "sort_key snd e"
  let ?out = "snd (foldl step (1, replicate n None) (rev (enumerate 1 ?s)))"
  have perm: "mset ?s = mset e" "set ?s = set e" by simp_all
  have fst_s: "distinct (map fst ?s)" using distinct perm(1) by (metis mset_map mset_eq_imp_distinct_iff mset_sort)
  have "length ?out = n" 
    and at: "\<And>j. j < length ?s \<Longrightarrow> ?out ! fst (?s ! j) = Some (suffix_min weight (Suc j) (map snd (drop j ?s)))"
    and other: "i \<notin> fst ` set ?s \<Longrightarrow> ?out ! i = None"
    using adjust_loop [OF step fst_s, of "replicate n None" 1] bound i perm(2)
    by (auto simp: Let_def split_beta)
  show ?thesis
  proof (cases "map_of e i")
    case None
    then show ?thesis using other perm(2) by (auto simp: map_of_eq_None_iff)
  next
    case (Some v)
    then have "(i, v) \<in> set ?s" by (simp add: map_of_SomeD)
    then obtain j where j: "j < length ?s" "?s ! j = (i, v)" by (metis in_set_conv_nth)
    have "suffix_min weight (Suc j) (drop j (map snd ?s)) = step_up weight (map snd ?s) (map snd ?s ! j)"
      by (rule suffix_step_up) (use j antitone perm(2) in auto)
    moreover have "step_up weight (map snd ?s) = step_up weight (map snd e)"
      by (rule step_up_mset) (simp only: mset_map mset_sort)
    ultimately show ?thesis using at [OF j(1)] j Some by (simp add: drop_map)
  qed
qed

section \<open>The eligible p-values\<close>

definition bh_value :: "fval option \<Rightarrow> rat option" where
  "bh_value p = (case p of Some (Finite v) \<Rightarrow> if 0 \<le> v \<and> v \<le> 1 then Some v else None | _ \<Rightarrow> None)"

definition by_value :: "fval option \<Rightarrow> rat option" where
  "by_value p = (case p of Some (Finite v) \<Rightarrow> Some v | _ \<Rightarrow> None)"

lemma value_Some:
  "bh_value p = Some v \<longleftrightarrow> p = Some (Finite v) \<and> 0 \<le> v \<and> v \<le> 1"
  "by_value p = Some v \<longleftrightarrow> p = Some (Finite v)"
  by (cases p; cases "the p"; auto simp: bh_value_def by_value_def)+

definition eligible :: "nat \<Rightarrow> ('p \<Rightarrow> rat option) \<Rightarrow> 'p list \<Rightarrow> (nat \<times> rat) list" where
  "eligible k f ps =
     concat (map (\<lambda>(i, p). case f p of Some v \<Rightarrow> [(i, v)] | None \<Rightarrow> []) (enumerate k ps))"

lemma eligible_simps [simp]:
  "eligible k f [] = []"
  "eligible k f (p # ps) =
     (case f p of Some v \<Rightarrow> (k, v) # eligible (Suc k) f ps | None \<Rightarrow> eligible (Suc k) f ps)"
  by (simp_all add: eligible_def split: option.splits)

lemma bh_by_eligible:
  "bh_eligible ps = eligible 0 bh_value ps" "by_eligible ps = eligible 0 by_value ps"
  by (auto simp: bh_eligible_def by_eligible_def eligible_def bh_value_def by_value_def
      intro!: arg_cong [where f = concat] map_cong split: option.splits fval.splits)

lemma eligible_bound: "(i, v) \<in> set (eligible k f ps) \<Longrightarrow> k \<le> i \<and> i < k + length ps"
  by (induction ps arbitrary: k) (force split: option.splits)+

lemma eligible_from: "j < k \<Longrightarrow> map_of (eligible k f ps) j = None"
  by (auto simp: map_of_eq_None_iff dest: eligible_bound)

lemma eligible_values: "map snd (eligible k f ps) = List.map_filter f ps"
  by (induction ps arbitrary: k) (simp_all add: map_filter_simps split: option.splits)

lemma eligible_distinct: "distinct (map fst (eligible k f ps))"
proof (induction ps arbitrary: k)
  case (Cons p ps)
  have "k \<notin> fst ` set (eligible (Suc k) f ps)" by (auto dest: eligible_bound)
  with Cons show ?case by (simp split: option.splits)
qed simp

lemma eligible_lookup: "i < length ps \<Longrightarrow> map_of (eligible k f ps) (k + i) = f (ps ! i)"
proof (induction ps arbitrary: i k)
  case (Cons p ps)
  then show ?case
    using Cons.IH [of "i - 1" "Suc k"]
    by (cases i) (simp_all add: eligible_from split: option.splits)
qed simp

section \<open>Both procedures are step-up procedures\<close>

lemma round_nonneg: "float_ops_ok ops \<Longrightarrow> 0 \<le> x \<Longrightarrow> 0 \<le> fo_round ops x"
  unfolding float_ops_ok_def by (metis monoD)

lemma round_mono: "float_ops_ok ops \<Longrightarrow> x \<le> y \<Longrightarrow> fo_round ops x \<le> fo_round ops y"
  unfolding float_ops_ok_def by (blast dest: monoD)

lemma penalty_nonneg: "float_ops_ok ops \<Longrightarrow> 0 \<le> by_penalty ops m"
proof -
  assume ok: "float_ops_ok ops"
  then have "list_all (\<lambda>x. 0 \<le> x) (map (\<lambda>rank. fo_round ops (1 / of_nat rank)) [1..<m + 1])"
    by (simp add: list_all_iff round_nonneg del: upt_Suc)
  with ok show ?thesis unfolding by_penalty_def float_ops_ok_def by blast
qed

text \<open>What the procedures ask of a weight: it grows with the p-value, falls with the rank, and is
  not negative.\<close>

definition weight_ok :: "(nat \<Rightarrow> rat \<Rightarrow> rat) \<Rightarrow> bool" where
  "weight_ok weight \<longleftrightarrow> (\<forall>k v. 0 \<le> v \<longrightarrow> 0 \<le> weight k v) \<and>
     (\<forall>k l v. 0 \<le> v \<longrightarrow> 0 < k \<longrightarrow> k \<le> l \<longrightarrow> weight l v \<le> weight k v)"

lemma weight_okD:
  assumes "weight_ok weight" and "0 \<le> v"
  shows "0 \<le> weight k v" and "0 < k \<Longrightarrow> k \<le> l \<Longrightarrow> weight l v \<le> weight k v"
  using assms unfolding weight_ok_def by blast+

lemma rounded_quotient_ok:
  assumes "float_ops_ok ops" and "\<And>v. 0 \<le> v \<Longrightarrow> 0 \<le> g v"
  shows "weight_ok (\<lambda>k v. fo_round ops (g v / of_nat k))"
  unfolding weight_ok_def using assms(2)
  by (intro conjI allI impI round_nonneg [OF assms(1)] round_mono [OF assms(1)]) (simp_all add: frac_le)

lemma bh_weight_ok: "float_ops_ok ops \<Longrightarrow> weight_ok (bh_weight ops m)"
  unfolding bh_weight_def by (rule rounded_quotient_ok) (simp_all add: round_nonneg)

lemma by_weight_ok: "float_ops_ok ops \<Longrightarrow> weight_ok (by_weight ops m)"
  unfolding by_weight_def by (rule rounded_quotient_ok) (simp_all add: round_nonneg penalty_nonneg)

lemma map_filter_set: "set (List.map_filter f xs) = {y. \<exists>x \<in> set xs. f x = Some y}"
  by (induction xs) (auto simp: map_filter_simps split: option.splits)

lemma eligible_adjusted:
  assumes step: "\<And>r out rank i v. r \<le> 1 \<Longrightarrow>
      step (r, out) (rank, i, v) = (min r (weight rank v), out[i := Some (min r (weight rank v))])"
    and weight: "weight_ok weight" and nonneg: "\<forall>v \<in> set (List.map_filter f ps). 0 \<le> v"
    and i: "i < length ps"
  shows "snd (foldl step (1, replicate (length ps) None) (rev (enumerate 1 (sort_key snd (eligible 0 f ps))))) ! i =
    map_option (step_up weight (List.map_filter f ps)) (f (ps ! i))"
proof -
  have "snd (foldl step (1, replicate (length ps) None) (rev (enumerate 1 (sort_key snd (eligible 0 f ps))))) ! i =
    map_option (step_up weight (map snd (eligible 0 f ps))) (map_of (eligible 0 f ps) i)"
  proof (rule adjust_loop_step_up [OF step eligible_distinct _ _ i])
    show "\<forall>j \<in> fst ` set (eligible 0 f ps). j < length ps" by (auto dest: eligible_bound)
    show "weight l v \<le> weight k v" if "v \<in> snd ` set (eligible 0 f ps)" "0 < k" "k \<le> l" for k l v
    proof -
      have "snd ` set (eligible 0 f ps) = set (List.map_filter f ps)"
        by (simp flip: eligible_values [of 0])
      then show ?thesis using weight_okD(2) [OF weight _ that(2,3)] nonneg that(1) by simp
    qed
  qed
  then show ?thesis using eligible_lookup [OF i, of 0 f] by (simp add: eligible_values)
qed

lemma bh_adjusted:
  assumes "float_ops_ok ops" and "i < length ps"
  shows "benjamini_hochberg ops ps ! i =
    (let vs = List.map_filter bh_value ps
     in map_option (step_up (bh_weight ops (length vs)) vs) (bh_value (ps ! i)))"
proof -
  let ?vs = "List.map_filter bh_value ps"
  have m: "length (eligible 0 bh_value ps) = length ?vs" by (simp flip: eligible_values [of 0])
  have nonneg: "\<forall>v \<in> set ?vs. 0 \<le> v"
    by (auto simp: map_filter_set value_Some)
  show ?thesis
    unfolding benjamini_hochberg_def bh_by_eligible Let_def m
    by (rule eligible_adjusted [OF _ bh_weight_ok [OF assms(1)] nonneg assms(2)]) (simp add: Let_def)
qed

lemma by_adjusted:
  assumes "float_ops_ok ops" and "i < length ps" and nonneg: "\<forall>v \<in> set (List.map_filter by_value ps). 0 \<le> v"
  shows "benjamini_yekutieli ops ps ! i =
    (let vs = List.map_filter by_value ps
     in map_option (step_up (by_weight ops (length vs)) vs) (by_value (ps ! i)))"
proof -
  let ?vs = "List.map_filter by_value ps" and ?out = "replicate (length ps) None"
  have m: "length (eligible 0 by_value ps) = length ?vs" by (simp flip: eligible_values [of 0])
  have "benjamini_yekutieli ops ps =
      snd (foldl (by_step (by_weight ops (length ?vs))) (1, ?out)
        (rev (enumerate 1 (sort_key snd (eligible 0 by_value ps)))))"
    by (simp add: benjamini_yekutieli_def bh_by_eligible Let_def m)
  then show ?thesis unfolding Let_def
    by (simp only:) (rule eligible_adjusted [OF _ by_weight_ok [OF assms(1)] nonneg assms(2)], simp add: Let_def min.coboundedI1 min_absorb1)
qed

text \<open>The textbook procedure at level \<open>\<alpha>\<close>: find the p-values, in ascending order, whose weight at their
  rank is at most \<open>\<alpha>\<close>, and reject every p-value up to one of them.\<close>

definition step_up_rejects :: "(nat \<Rightarrow> rat \<Rightarrow> rat) \<Rightarrow> rat \<Rightarrow> rat list \<Rightarrow> rat \<Rightarrow> bool" where
  "step_up_rejects weight \<alpha> vs v \<longleftrightarrow>
     list_ex (\<lambda>(rank, w). v \<le> w \<and> weight rank w \<le> \<alpha>) (enumerate 1 (sort vs))"

lemma step_up_decision:
  assumes weight: "weight_ok weight" and nonneg: "\<forall>w \<in> set vs. 0 \<le> w" and \<alpha>: "\<alpha> < 1"
  shows "step_up weight vs v \<le> \<alpha> \<longleftrightarrow> step_up_rejects weight \<alpha> vs v"
proof -
  let ?xs = "sort vs"
  have count: "count_le vs = count_le ?xs" by (rule count_le_mset) simp
  have "step_up weight vs v \<le> \<alpha> \<longleftrightarrow> (\<exists>w \<in> set ?xs. v \<le> w \<and> weight (count_le ?xs w) w \<le> \<alpha>)"
    unfolding step_up_def count using \<alpha> by (subst Min_le_iff) auto
  also have "\<dots> \<longleftrightarrow> (\<exists>j < length ?xs. v \<le> ?xs ! j \<and> weight (Suc j) (?xs ! j) \<le> \<alpha>)" (is "?L \<longleftrightarrow> ?R")
  proof
    assume ?L
    then obtain w where w: "w \<in> set ?xs" "v \<le> w" "weight (count_le ?xs w) w \<le> \<alpha>" by blast
    from sorted_count(2) [OF sorted_sort w(1)] have "count_le ?xs w - 1 < length ?xs"
      "?xs ! (count_le ?xs w - 1) = w" "Suc (count_le ?xs w - 1) = count_le ?xs w" by auto
    with w(2,3) show ?R by metis
  next
    assume ?R
    then obtain j where j: "j < length ?xs" "v \<le> ?xs ! j" "weight (Suc j) (?xs ! j) \<le> \<alpha>" by blast
    have w: "?xs ! j \<in> set ?xs" using j(1) by (rule nth_mem)
    then have "0 \<le> ?xs ! j" using nonneg by (metis set_sort)
    from weight_okD(2) [OF weight this _ sorted_count(1) [OF sorted_sort j(1)]] j(3)
    have "weight (count_le ?xs (?xs ! j)) (?xs ! j) \<le> \<alpha>" by simp
    with j(2) w show ?L by blast
  qed
  also have "\<dots> \<longleftrightarrow> step_up_rejects weight \<alpha> vs v"
    by (auto simp: step_up_rejects_def list_ex_length nth_enumerate_eq)
  finally show ?thesis .
qed

lemma step_up_range:
  assumes "weight_ok weight" and "\<forall>w \<in> set vs. 0 \<le> w"
  shows "0 \<le> step_up weight vs v" "step_up weight vs v \<le> 1"
  unfolding step_up_def using assms by (auto simp: weight_okD(1) intro!: Min.boundedI)

lemma step_up_mono: "v \<le> w \<Longrightarrow> step_up weight vs v \<le> step_up weight vs w"
  unfolding step_up_def by (rule Min_antimono) auto

section \<open>The hierarchy\<close>

definition hierarchy_weight :: "float_ops \<Rightarrow> string \<Rightarrow> nat \<Rightarrow> nat \<Rightarrow> rat \<Rightarrow> rat" where
  "hierarchy_weight ops procedure =
     (if procedure = ''benjamini_yekutieli'' then by_weight ops else bh_weight ops)"

lemma hierarchy_weight_ok: "float_ops_ok ops \<Longrightarrow> weight_ok (hierarchy_weight ops procedure m)"
  by (simp add: hierarchy_weight_def bh_weight_ok by_weight_ok)

definition finite_value :: "fval \<Rightarrow> rat" where
  "finite_value p = (case p of Finite v \<Rightarrow> v | _ \<Rightarrow> 0)"

lemma map_filter_total:
  "(\<And>x. x \<in> set xs \<Longrightarrow> f (Some x) = Some (g x)) \<Longrightarrow> List.map_filter f (map Some xs) = map g xs"
  by (induction xs) (simp_all add: map_filter_simps)

lemma adjust_length:
  "length (benjamini_hochberg ops ps) = length ps" "length (benjamini_yekutieli ops ps) = length ps"
proof -
  have "length (snd (foldl step s es)) = length (snd s)"
    if "\<And>s e. length (snd (step s e)) = length (snd s)" for step and s :: adjust_state and es :: "(nat \<times> nat \<times> rat) list"
    using that by (induction es arbitrary: s) simp_all
  moreover have "length (snd (bh_step w s e)) = length (snd s)" "length (snd (by_step w s e)) = length (snd s)" for w s e
    by (cases s; cases e; simp add: Let_def)+
  ultimately show "length (benjamini_hochberg ops ps) = length ps" "length (benjamini_yekutieli ops ps) = length ps"
    by (simp_all add: benjamini_hochberg_def benjamini_yekutieli_def Let_def)
qed

lemma adjust_unit:
  assumes ok: "float_ops_ok ops" and unit: "\<forall>p \<in> set qs. in_unit p"
  shows "(if procedure = ''benjamini_yekutieli'' then benjamini_yekutieli ops else benjamini_hochberg ops) (map Some qs)
    = map (\<lambda>p. Some (step_up (hierarchy_weight ops procedure (length qs)) (map finite_value qs) (finite_value p))) qs"
proof -
  let ?adjust = "if procedure = ''benjamini_yekutieli'' then benjamini_yekutieli ops else benjamini_hochberg ops"
  have vals: "bh_value (Some p) = Some (finite_value p)" "by_value (Some p) = Some (finite_value p)"
    if "p \<in> set qs" for p
    using unit that by (auto simp: bh_value_def by_value_def finite_value_def in_unit_def split: fval.splits)
  have filters: "List.map_filter bh_value (map Some qs) = map finite_value qs"
      "List.map_filter by_value (map Some qs) = map finite_value qs"
    using vals by (auto intro: map_filter_total)
  have nonneg: "\<forall>v \<in> set (map finite_value qs). 0 \<le> v"
    using unit by (auto simp: finite_value_def in_unit_def split: fval.splits)
  have len: "length (?adjust (map Some qs)) = length qs" by (simp add: adjust_length)
  show ?thesis
  proof (rule nth_equalityI)
    fix i assume "i < length (?adjust (map Some qs))"
    then have i: "i < length qs" using len by simp
    then show "?adjust (map Some qs) ! i = map (\<lambda>p. Some (step_up (hierarchy_weight ops procedure (length qs)) (map finite_value qs) (finite_value p))) qs ! i"
      using bh_adjusted [OF ok, of i "map Some qs"] by_adjusted [OF ok, of i "map Some qs"] nonneg
        vals [OF nth_mem [OF i]]
      by (simp add: filters Let_def hierarchy_weight_def)
  qed (simp add: len)
qed

lemma finite_adjustments_Some [simp]: "finite_adjustments (map Some vs) = Inr vs"
  unfolding finite_adjustments_def by (subst map_result_map [where h = id]) simp_all

text \<open>What an accepted hierarchy answers for one hypothesis.\<close>

definition family_values :: "(string \<times> fval) list \<Rightarrow> (string \<times> string) list \<Rightarrow> string list \<Rightarrow> string \<Rightarrow> rat list" where
  "family_values p_values families ids family =
     map (\<lambda>item. finite_value (dict_get p_values item)) (filter (\<lambda>item. dict_get families item = family) ids)"

definition evidence_of ::
  "float_ops \<Rightarrow> (string \<times> fval) list \<Rightarrow> (string \<times> string) list \<Rightarrow> string \<Rightarrow> string list \<Rightarrow> string \<Rightarrow> adjusted_evidence" where
  "evidence_of ops p_values families procedure ids item =
     (let v = finite_value (dict_get p_values item);
          vs = map (\<lambda>item. finite_value (dict_get p_values item)) ids;
          fs = family_values p_values families ids (dict_get families item)
      in \<lparr>ae_hypothesis_id = item, ae_family = dict_get families item,
          ae_raw_p_value = dict_get p_values item,
          ae_family_adjusted_p_value = step_up (hierarchy_weight ops procedure (length fs)) fs v,
          ae_experiment_adjusted_p_value = step_up (hierarchy_weight ops procedure (length vs)) vs v,
          ae_method = procedure, ae_declared_family_size = length fs, ae_declared_experiment_size = length ids\<rparr>)"

lemma update_all:
  "map_of (foldl (\<lambda>d (k, v). AList.update k v d) d (map (\<lambda>k. (k, g k)) ks)) k =
    (if k \<in> set ks then Some (g k) else map_of d k)"
  by (induction ks arbitrary: d) (auto simp: dict_simps)

lemma adjust_families:
  assumes ok: "float_ops_ok ops" and unit: "\<forall>item \<in> set ids. in_unit (dict_get p_values item)"
  shows "\<exists>d'. fold_result (adjust_family
       (if procedure = ''benjamini_yekutieli'' then benjamini_yekutieli ops else benjamini_hochberg ops)
       p_values families ids) d fs = Inr d' \<and>
     (\<forall>item. map_of d' item = (if item \<in> set ids \<and> dict_get families item \<in> set fs
        then Some (ae_family_adjusted_p_value (evidence_of ops p_values families procedure ids item))
        else map_of d item))"
proof (induction fs arbitrary: d)
  case (Cons f fs)
  let ?adjust = "if procedure = ''benjamini_yekutieli'' then benjamini_yekutieli ops else benjamini_hochberg ops"
  let ?ids = "filter (\<lambda>item. dict_get families item = f) ids"
  let ?g = "\<lambda>item. step_up (hierarchy_weight ops procedure (length ?ids))
    (family_values p_values families ids f) (finite_value (dict_get p_values item))"
  let ?d = "foldl (\<lambda>d (item, v). AList.update item v d) d (map (\<lambda>item. (item, ?g item)) ?ids)"
  have "?adjust (map (\<lambda>item. Some (dict_get p_values item)) ?ids) = map Some (map ?g ?ids)"
    using adjust_unit [OF ok, of "map (dict_get p_values) ?ids" procedure] unit
    by (simp add: family_values_def comp_def)
  then have run: "adjust_family ?adjust p_values families ids d f = Inr ?d"
    unfolding adjust_family_def Let_def by (simp only: finite_adjustments_Some bind_result_simps zip_map2 zip_same_conv_map) (simp add: comp_def)
  from Cons.IH [of ?d] obtain d' where d': "fold_result (adjust_family ?adjust p_values families ids) ?d fs = Inr d'"
    "\<And>item. map_of d' item = (if item \<in> set ids \<and> dict_get families item \<in> set fs
        then Some (ae_family_adjusted_p_value (evidence_of ops p_values families procedure ids item))
        else map_of ?d item)" by blast
  have at_item: "ae_family_adjusted_p_value (evidence_of ops p_values families procedure ids item) = ?g item"
    if "dict_get families item = f" for item
    using that by (simp add: evidence_of_def Let_def family_values_def)
  show ?case
  proof (intro exI conjI allI)
    show "fold_result (adjust_family ?adjust p_values families ids) d (f # fs) = Inr d'"
      by (simp only: fold_result.simps run bind_result_simps d'(1))
    show "map_of d' item = (if item \<in> set ids \<and> dict_get families item \<in> set (f # fs)
        then Some (ae_family_adjusted_p_value (evidence_of ops p_values families procedure ids item))
        else map_of d item)" for item
      unfolding d'(2) update_all using at_item [of item] by auto
  qed
qed simp

lemma hierarchy_checks_unit:
  assumes "hierarchy_checks p_values families procedure declared = None" and "distinct (map fst p_values)"
  shows "\<forall>item \<in> set (sort (map fst p_values)). in_unit (dict_get p_values item)"
proof -
  have "\<forall>(k, p) \<in> set p_values. in_unit p"
    using assms(1) unfolding hierarchy_checks_def first_error_None by (simp add: list_ex_iff) blast
  then show ?thesis using assms(2) by (auto simp: dict_get_def map_of_eq_Some_iff)
qed

lemma adjust_hierarchical_value:
  assumes ok: "float_ops_ok ops" and keys: "distinct (map fst p_values)"
    and checks: "hierarchy_checks p_values families procedure declared = None"
  shows "adjust_hierarchical ops p_values families procedure declared =
    Inr (map (evidence_of ops p_values families procedure (sort (map fst p_values))) (sort (map fst p_values)))"
proof -
  let ?ids = "sort (map fst p_values)"
  let ?adjust = "if procedure = ''benjamini_yekutieli'' then benjamini_yekutieli ops else benjamini_hochberg ops"
  let ?vs = "map (\<lambda>item. finite_value (dict_get p_values item)) ?ids"
  let ?e = "\<lambda>item. step_up (hierarchy_weight ops procedure (length ?ids)) ?vs (finite_value (dict_get p_values item))"
  have same: "set (map fst p_values) = set (map fst families)"
    using checks unfolding hierarchy_checks_def first_error_None by simp
  note in_unit = hierarchy_checks_unit [OF checks keys]
  obtain d' where d': "fold_result (adjust_family ?adjust p_values families ?ids) [] (sorted_set (map snd families)) = Inr d'"
    "\<And>item. map_of d' item = (if item \<in> set ?ids \<and> dict_get families item \<in> set (sorted_set (map snd families))
        then Some (ae_family_adjusted_p_value (evidence_of ops p_values families procedure ?ids item)) else None)"
    using adjust_families [OF ok in_unit, where procedure = procedure and families = families and d = "[]"
        and fs = "sorted_set (map snd families)"] by auto
  have family: "dict_get families item \<in> set (map snd families)" if "item \<in> set ?ids" for item
  proof -
    have "item \<in> fst ` set families" using that same by auto
    then obtain f where "map_of families item = Some f" by (meson weak_map_of_SomeI imageE prod.collapse not_None_eq map_of_eq_None_iff)
    then show ?thesis by (force simp: dict_get_def dest: map_of_SomeD)
  qed
  have whole: "?adjust (map (\<lambda>item. Some (dict_get p_values item)) ?ids) = map Some (map ?e ?ids)"
    using adjust_unit [OF ok, of "map (dict_get p_values) ?ids" procedure] in_unit by (simp add: comp_def)
  have entry: "ae_family_adjusted_p_value (evidence_of ops p_values families procedure ?ids (?ids ! i)) = dict_get d' (?ids ! i)"
    if "i < length p_values" for i
    using d'(2) [of "?ids ! i"] family [of "?ids ! i"] nth_mem [of i ?ids] that by (simp add: dict_get_def)
  show ?thesis
    unfolding adjust_hierarchical_def checks option.case Let_def whole d'(1) bind_result_simps finite_adjustments_Some
    by (simp add: entry [symmetric] evidence_of_def Let_def family_values_def nth_enumerate_eq list_eq_iff_nth_eq)
qed


text \<open>C32: the hierarchical adjustment accounts for the whole declared hierarchy. A successful call answers
  one record per hypothesis in the order of the identities, with its family, its p-value and the
  sizes of its family and of the experiment; both adjusted values lie in the unit interval, never
  reverse the order of two p-values, and are within a level below one exactly when the textbook
  procedure rejects the hypothesis among its family, or among all hypotheses.\<close>

theorem adjust_hierarchical_exact:
  assumes "float_ops_ok ops" and "distinct (map fst p_values)"
    and "adjust_hierarchical ops p_values families procedure declared = Inr rs"
  shows "map ae_hypothesis_id rs = sort (map fst p_values) \<and>
    (\<forall>r \<in> set rs. ae_raw_p_value r = dict_get p_values (ae_hypothesis_id r) \<and>
       ae_family r = dict_get families (ae_hypothesis_id r) \<and>
       ae_declared_experiment_size r = length rs \<and>
       ae_declared_family_size r = length (filter (\<lambda>s. ae_family s = ae_family r) rs) \<and>
       {ae_family_adjusted_p_value r, ae_experiment_adjusted_p_value r} \<subseteq> {0..1} \<and>
       (\<forall>\<alpha> < 1.
          (ae_experiment_adjusted_p_value r \<le> \<alpha> \<longleftrightarrow>
             step_up_rejects (hierarchy_weight ops procedure (length rs)) \<alpha>
               (map (finite_value \<circ> ae_raw_p_value) rs) (finite_value (ae_raw_p_value r))) \<and>
          (ae_family_adjusted_p_value r \<le> \<alpha> \<longleftrightarrow>
             step_up_rejects (hierarchy_weight ops procedure (ae_declared_family_size r)) \<alpha>
               (map (finite_value \<circ> ae_raw_p_value) (filter (\<lambda>s. ae_family s = ae_family r) rs))
               (finite_value (ae_raw_p_value r)))) \<and>
       (\<forall>s \<in> set rs. finite_value (ae_raw_p_value r) \<le> finite_value (ae_raw_p_value s) \<longrightarrow>
          ae_experiment_adjusted_p_value r \<le> ae_experiment_adjusted_p_value s \<and>
          (ae_family r = ae_family s \<longrightarrow> ae_family_adjusted_p_value r \<le> ae_family_adjusted_p_value s)))"
proof -
  let ?ids = "sort (map fst p_values)"
  let ?E = "evidence_of ops p_values families procedure ?ids"
  let ?W = "hierarchy_weight ops procedure"
  have checks: "hierarchy_checks p_values families procedure declared = None"
    using assms(3) by (auto simp: adjust_hierarchical_def split: option.splits)
  have rs: "rs = map ?E ?ids"
    using adjust_hierarchical_value [OF assms(1,2) checks] assms(3) by simp
  have E: "ae_hypothesis_id (?E item) = item" "ae_raw_p_value (?E item) = dict_get p_values item"
    "ae_family (?E item) = dict_get families item" for item
    by (simp_all add: evidence_of_def Let_def)
  have all: "map (finite_value \<circ> ae_raw_p_value) rs = map (\<lambda>item. finite_value (dict_get p_values item)) ?ids"
    by (simp add: rs E)
  have family: "filter (\<lambda>s. ae_family s = f) rs = map ?E (filter (\<lambda>item. dict_get families item = f) ?ids)" for f
    by (simp add: rs E filter_map comp_def)
  have raws: "map (finite_value \<circ> ae_raw_p_value) (filter (\<lambda>s. ae_family s = f) rs) = family_values p_values families ?ids f" for f
    by (simp add: family family_values_def E)
  have unit: "\<forall>item \<in> set ?ids. 0 \<le> finite_value (dict_get p_values item)"
    using hierarchy_checks_unit [OF checks assms(2)]
    by (fastforce simp: in_unit_def finite_value_def split: fval.splits)
  then have nonneg: "\<forall>v \<in> set (map (finite_value \<circ> ae_raw_p_value) rs). 0 \<le> v"
      "\<And>f. \<forall>v \<in> set (family_values p_values families ?ids f). 0 \<le> v"
    by (auto simp: all family_values_def)
  have adjusted: "ae_experiment_adjusted_p_value r = step_up (?W (length rs)) (map (finite_value \<circ> ae_raw_p_value) rs) (finite_value (ae_raw_p_value r))"
      "ae_family_adjusted_p_value r = step_up (?W (ae_declared_family_size r))
        (family_values p_values families ?ids (ae_family r)) (finite_value (ae_raw_p_value r))"
      "ae_declared_family_size r = length (filter (\<lambda>s. ae_family s = ae_family r) rs)"
      "ae_declared_experiment_size r = length rs" if "r \<in> set rs" for r
    using that unfolding all family by (auto simp: rs evidence_of_def Let_def family_values_def)
  note weight = hierarchy_weight_ok [OF assms(1), of procedure]
  show ?thesis
  proof (intro conjI ballI allI impI)
    fix r assume r: "r \<in> set rs"
    then show "ae_raw_p_value r = dict_get p_values (ae_hypothesis_id r)"
      "ae_family r = dict_get families (ae_hypothesis_id r)" by (auto simp: rs E)
    show "ae_declared_experiment_size r = length rs"
      "ae_declared_family_size r = length (filter (\<lambda>s. ae_family s = ae_family r) rs)" using r by (rule adjusted)+
    show "{ae_family_adjusted_p_value r, ae_experiment_adjusted_p_value r} \<subseteq> {0..1}"
      unfolding adjusted(1,2) [OF r] using step_up_range [OF weight] nonneg by simp
    show "ae_experiment_adjusted_p_value r \<le> ae_experiment_adjusted_p_value s"
      if "s \<in> set rs" "finite_value (ae_raw_p_value r) \<le> finite_value (ae_raw_p_value s)" for s
      unfolding adjusted(1) [OF r] adjusted(1) [OF that(1)] by (rule step_up_mono [OF that(2)])
    show "ae_family_adjusted_p_value r \<le> ae_family_adjusted_p_value s"
      if "s \<in> set rs" "finite_value (ae_raw_p_value r) \<le> finite_value (ae_raw_p_value s)" "ae_family r = ae_family s" for s
      unfolding adjusted(2,3) [OF r] adjusted(2,3) [OF that(1)] that(3) by (rule step_up_mono [OF that(2)])
    fix \<alpha> :: rat assume "\<alpha> < 1"
    then show "ae_experiment_adjusted_p_value r \<le> \<alpha> \<longleftrightarrow>
        step_up_rejects (?W (length rs)) \<alpha> (map (finite_value \<circ> ae_raw_p_value) rs) (finite_value (ae_raw_p_value r))"
      unfolding adjusted(1) [OF r] by (rule step_up_decision [OF weight nonneg(1)])
    show "ae_family_adjusted_p_value r \<le> \<alpha> \<longleftrightarrow>
        step_up_rejects (?W (ae_declared_family_size r)) \<alpha>
          (map (finite_value \<circ> ae_raw_p_value) (filter (\<lambda>s. ae_family s = ae_family r) rs)) (finite_value (ae_raw_p_value r))"
      unfolding adjusted(2) [OF r] raws by (rule step_up_decision [OF weight nonneg(2) \<open>\<alpha> < 1\<close>])
  qed (simp add: rs E map_idI)
qed

section \<open>Witnesses\<close>

definition exact_ops :: float_ops where
  "exact_ops = \<lparr>fo_round = (\<lambda>x. x), fo_sum = sum_list\<rparr>"

lemma exact_ops_ok: "float_ops_ok exact_ops"
  by (simp add: float_ops_ok_def exact_ops_def mono_def list_all_iff sum_list_nonneg)

definition example_p_values :: "fval option list" where
  "example_p_values = [Some (Finite (1 / 25)), None, Some (Finite (1 / 1000)), Some NaN, Some (Finite (1 / 50))]"


definition example_hierarchy :: "(string \<times> fval) list" where
  "example_hierarchy = [(''b'', Finite (1 / 50)), (''a'', Finite (1 / 1000)), (''c'', Finite (1 / 25))]"

definition example_families :: "(string \<times> string) list" where
  "example_families = [(''a'', ''ofi''), (''b'', ''ofi''), (''c'', ''book'')]"

definition example_evidence :: "string \<Rightarrow> string \<Rightarrow> rat \<Rightarrow> rat \<Rightarrow> rat \<Rightarrow> nat \<Rightarrow> adjusted_evidence" where
  "example_evidence item family v f e n =
     \<lparr>ae_hypothesis_id = item, ae_family = family, ae_raw_p_value = Finite v, ae_family_adjusted_p_value = f,
      ae_experiment_adjusted_p_value = e, ae_method = ''benjamini_hochberg'', ae_declared_family_size = n,
      ae_declared_experiment_size = 3\<rparr>"

lemma example_hierarchy_run:
  "adjust_hierarchical exact_ops example_hierarchy example_families ''benjamini_hochberg'' None =
    Inr [example_evidence ''a'' ''ofi'' (1 / 1000) (1 / 500) (3 / 1000) 2,
         example_evidence ''b'' ''ofi'' (1 / 50) (1 / 50) (3 / 100) 2,
         example_evidence ''c'' ''book'' (1 / 25) (1 / 25) (1 / 25) 1]"
  by code_simp

lemma adjust_hierarchical_exact_witness:
  "\<exists>rs. adjust_hierarchical exact_ops example_hierarchy example_families ''benjamini_hochberg'' None = Inr rs \<and>
     map ae_hypothesis_id rs = [''a'', ''b'', ''c''] \<and>
     map ae_family_adjusted_p_value rs = [1 / 500, 1 / 50, 1 / 25] \<and>
     (\<forall>r \<in> set rs. ae_declared_experiment_size r = length rs \<and>
        (ae_experiment_adjusted_p_value r \<le> 1 / 100 \<longleftrightarrow> ae_hypothesis_id r = ''a''))"
proof -
  have "distinct (map fst example_hierarchy)" by (simp add: example_hierarchy_def)
  from adjust_hierarchical_exact [OF exact_ops_ok this example_hierarchy_run]
  show ?thesis unfolding example_hierarchy_run by (simp add: example_evidence_def)
qed

end
