(* ===== verification/Lifecycle.thy ===== *)
theory Lifecycle
  imports Ledger "HOL-Library.Multiset"
begin

text \<open>
  The lifecycle of a hypothesis, \<open>assess_lifecycle\<close> of
  \<open>research/src/shaurya/research/evidence.py\<close>: which status and evidence grade the records of its
  experiments earn it under a research policy. Metrics are JSON scalars; a record's own
  validation refuses a float that is not finite. The policy is the JSON object of the policy
  registry; its numbers are floats that may be infinite or not a number, and \<open>ft\<close> is the float a
  text denotes (\<open>float(text)\<close>). Arithmetic on finite floats is exact.
\<close>

section \<open>Records\<close>

datatype research_mode = MODE_EXPLORATORY | CONFIRMATORY | LIVE_SHADOW

datatype experiment_status = EXPERIMENT_COMPLETED | EXPERIMENT_FAILED | EXPERIMENT_SKIPPED

datatype hypothesis_status =
    UNTESTED | EXPLORATORY | PROVISIONAL | REPLICATED | STABLE | WEAKENING | DECAYING | DORMANT | REJECTED

datatype evidence_grade = E0 | E1 | E2 | E3 | E4 | E5

instantiation evidence_grade :: linorder
begin

fun grade_rank :: "evidence_grade \<Rightarrow> nat" where
  "grade_rank E0 = 0" | "grade_rank E1 = 1" | "grade_rank E2 = 2"
| "grade_rank E3 = 3" | "grade_rank E4 = 4" | "grade_rank E5 = 5"

definition less_eq_evidence_grade :: "evidence_grade \<Rightarrow> evidence_grade \<Rightarrow> bool" where
  "less_eq_evidence_grade a b \<longleftrightarrow> grade_rank a \<le> grade_rank b"

definition less_evidence_grade :: "evidence_grade \<Rightarrow> evidence_grade \<Rightarrow> bool" where
  "less_evidence_grade a b \<longleftrightarrow> grade_rank a < grade_rank b"

instance
proof
  fix a b :: evidence_grade
  assume "a \<le> b" and "b \<le> a"
  then show "a = b" by (cases a; cases b; simp add: less_eq_evidence_grade_def)
qed (auto simp: less_eq_evidence_grade_def less_evidence_grade_def)

end

text \<open>The fields of \<open>EvidenceRecord\<close> the assessment reads.\<close>

record evidence_record =
  er_hypothesis_id :: string
  er_evaluation_date :: date
  er_mode :: research_mode
  er_observation_count :: int
  er_effective_sample_size :: rat
  er_metrics :: "(string \<times> json) list"
  er_uncertainty :: "(string \<times> json) list"
  er_terminal_status :: experiment_status
  er_fold_hashes :: "string list"
  er_selected_for_outer :: bool
  er_event_id :: string

definition metric_of :: "(string \<times> json) list \<Rightarrow> string \<Rightarrow> json option" where
  "metric_of items name = map_of (dict_of items) name"

text \<open>\<open>_metric\<close>: a boolean is an \<open>int\<close> for \<open>isinstance\<close>.\<close>

definition metric :: "evidence_record \<Rightarrow> string \<Rightarrow> rat option" where
  "metric r name = Option.bind (metric_of (er_metrics r) name) json_number"

section \<open>The policy\<close>

text \<open>\<open>float(value)\<close> of a policy entry, and the comparisons of a finite float with it.\<close>

fun json_float :: "(string \<Rightarrow> fval option) \<Rightarrow> json \<Rightarrow> fval result" where
  "json_float ft (JsInt n) = Inr (Finite (of_int n))"
| "json_float ft (JsBool b) = Inr (Finite (if b then 1 else 0))"
| "json_float ft (JsFloat x) = Inr (Finite x)"
| "json_float ft (JsNonFinite s) =
     Inr (if s = ''NaN'' then NaN else Infinite (s = ''-Infinity''))"
| "json_float ft (JsStr s) =
     (case ft s of Some x \<Rightarrow> Inr x | None \<Rightarrow> Inl (ValueError ''could not convert string to float''))"
| "json_float ft _ = Inl (TypeError ''float() argument must be a string or a real number'')"

fun at_least :: "rat \<Rightarrow> fval \<Rightarrow> bool" where
  "at_least x (Finite t) = (t \<le> x)"
| "at_least x (Infinite negative) = negative"
| "at_least x NaN = False"

fun below :: "rat \<Rightarrow> fval \<Rightarrow> bool" where
  "below x (Finite t) = (x < t)"
| "below x (Infinite negative) = (\<not> negative)"
| "below x NaN = False"

text \<open>\<open>x <= ratio * y\<close>.\<close>

fun at_most_times :: "rat \<Rightarrow> fval \<Rightarrow> rat \<Rightarrow> bool" where
  "at_most_times x (Finite q) y = (x \<le> q * y)"
| "at_most_times x (Infinite negative) y = (y \<noteq> 0 \<and> (negative \<longleftrightarrow> y < 0))"
| "at_most_times x NaN y = False"

record lifecycle_options =
  lo_sessions_for_provisional :: int
  lo_sessions_for_stable :: int
  lo_dormant_consecutive_sessions :: int
  lo_minimum_sign_consistency :: rat
  lo_previous_status :: hypothesis_status
  lo_policy :: "(string \<times> json) list"
  lo_interrupted_dates :: "date list"

definition default_options :: lifecycle_options where
  "default_options =
     \<lparr>lo_sessions_for_provisional = 5, lo_sessions_for_stable = 20, lo_dormant_consecutive_sessions = 5,
      lo_minimum_sign_consistency = 7 / 10, lo_previous_status = UNTESTED, lo_policy = [],
      lo_interrupted_dates = []\<rparr>"

record lifecycle_policy =
  lp_sessions_for_provisional :: int
  lp_sessions_for_stable :: int
  lp_minimum_observations :: int
  lp_minimum_neff :: fval
  lp_minimum_folds :: int
  lp_minimum_sign_consistency :: fval
  lp_minimum_neighbor :: fval
  lp_minimum_adjusted :: fval
  lp_dormant_consecutive_sessions :: int
  lp_decaying_consecutive :: int
  lp_weakening_ratio :: fval
  lp_reactivation_sessions :: int

definition policy_section :: "(string \<times> json) list \<Rightarrow> string \<Rightarrow> (string \<times> json) list" where
  "policy_section policy name = (case map_of policy name of Some (JsObject d) \<Rightarrow> d | _ \<Rightarrow> [])"

definition policy_int :: "(string \<times> json) list \<Rightarrow> string \<Rightarrow> int \<Rightarrow> int result" where
  "policy_int d k fallback = (case map_of d k of Some v \<Rightarrow> json_int v | None \<Rightarrow> Inr fallback)"

definition policy_float ::
  "(string \<Rightarrow> fval option) \<Rightarrow> (string \<times> json) list \<Rightarrow> string \<Rightarrow> rat \<Rightarrow> fval result" where
  "policy_float ft d k fallback = (case map_of d k of Some v \<Rightarrow> json_float ft v | None \<Rightarrow> Inr (Finite fallback))"

definition policy_of :: "(string \<Rightarrow> fval option) \<Rightarrow> lifecycle_options \<Rightarrow> lifecycle_policy result" where
  "policy_of ft opts =
     (let minimum = policy_section (lo_policy opts) ''minimum_evidence'';
          promotion = policy_section (lo_policy opts) ''promotion'';
          decay = policy_section (lo_policy opts) ''decay'';
          reactivation = policy_section (lo_policy opts) ''reactivation''
      in
      bind_result (policy_int minimum ''sessions_for_provisional'' (lo_sessions_for_provisional opts)) (\<lambda>provisional.
      bind_result (policy_int minimum ''sessions_for_stable'' (lo_sessions_for_stable opts)) (\<lambda>stable.
      bind_result (policy_int minimum ''observations'' 1) (\<lambda>observations.
      bind_result (policy_float ft minimum ''effective_sample_size'' 1) (\<lambda>neff.
      bind_result (policy_int minimum ''outer_folds_for_stable'' 1) (\<lambda>folds.
      bind_result (policy_float ft promotion ''minimum_sign_consistency''
        (lo_minimum_sign_consistency opts)) (\<lambda>sign.
      bind_result (policy_float ft promotion ''minimum_neighbor_robustness'' 0) (\<lambda>neighbor.
      bind_result (policy_float ft promotion ''minimum_adjusted_evidence'' 0) (\<lambda>adjusted.
      bind_result (policy_int decay ''dormant_consecutive_sessions''
        (lo_dormant_consecutive_sessions opts)) (\<lambda>dormant.
      bind_result (policy_int decay ''decaying_consecutive_sessions'' 3) (\<lambda>decaying.
      bind_result (policy_float ft decay ''weakening_ratio'' (1 / 2)) (\<lambda>weakening.
      bind_result (policy_int reactivation ''minimum_new_confirmatory_sessions'' 3) (\<lambda>reactivated.
        Inr \<lparr>lp_sessions_for_provisional = provisional, lp_sessions_for_stable = stable,
             lp_minimum_observations = observations, lp_minimum_neff = neff, lp_minimum_folds = folds,
             lp_minimum_sign_consistency = sign, lp_minimum_neighbor = neighbor,
             lp_minimum_adjusted = adjusted, lp_dormant_consecutive_sessions = dormant,
             lp_decaying_consecutive = decaying, lp_weakening_ratio = weakening,
             lp_reactivation_sessions = reactivated\<rparr>)))))))))))))"

section \<open>What the records show\<close>

definition relevant_records :: "string \<Rightarrow> evidence_record list \<Rightarrow> date \<Rightarrow> evidence_record list" where
  "relevant_records hypothesis history as_of =
     sort_key (\<lambda>r. (er_evaluation_date r, er_event_id r))
       (filter (\<lambda>r. er_hypothesis_id r = hypothesis \<and> er_evaluation_date r \<le> as_of) history)"

definition is_oos :: "evidence_record \<Rightarrow> bool" where
  "is_oos r \<longleftrightarrow> er_mode r \<in> {CONFIRMATORY, LIVE_SHADOW}"

definition is_completed :: "evidence_record \<Rightarrow> bool" where
  "is_completed r \<longleftrightarrow> er_terminal_status r = EXPERIMENT_COMPLETED"

definition completed_oos :: "evidence_record list \<Rightarrow> evidence_record list" where
  "completed_oos records = filter is_completed (filter is_oos records)"

text \<open>The size of a set comprehension over records.\<close>

definition count_distinct :: "'a list \<Rightarrow> int" where
  "count_distinct xs = int (length (remdups xs))"

definition session_dates :: "evidence_record list \<Rightarrow> date list" where
  "session_dates records = map er_evaluation_date records"

definition duplicate_sessions :: "evidence_record list \<Rightarrow> bool" where
  "duplicate_sessions oos =
     list_ex (\<lambda>r. 1 < length (filter (\<lambda>s. er_evaluation_date s = er_evaluation_date r) oos)) oos"

definition scored_oos :: "evidence_record list \<Rightarrow> (date \<times> rat option) list" where
  "scored_oos records =
     map (\<lambda>r. (er_evaluation_date r, if is_completed r then metric r ''score'' else None))
       (filter is_oos records)"

definition oos_scores :: "evidence_record list \<Rightarrow> rat list" where
  "oos_scores records = List.map_filter snd (scored_oos records)"

definition sign_consistency :: "rat list \<Rightarrow> rat option" where
  "sign_consistency scores =
     (let positive = length (filter (\<lambda>v. 0 < v) scores); negative = length (filter (\<lambda>v. v < 0) scores)
      in if positive + negative = 0 then None
         else Some (of_nat (max positive negative) / of_nat (positive + negative)))"

definition score_timeline :: "evidence_record list \<Rightarrow> date list \<Rightarrow> date \<Rightarrow> (date \<times> rat option) list" where
  "score_timeline records interruptions as_of =
     sort_key fst (scored_oos records @ map (\<lambda>d. (d, None)) (filter (\<lambda>d. d \<le> as_of) interruptions))"

definition consecutive_scores :: "(date \<times> rat option) list \<Rightarrow> rat list" where
  "consecutive_scores timeline =
     rev (map (\<lambda>(d, v). the v) (takeWhile (\<lambda>(d, v). v \<noteq> None) (rev timeline)))"

text \<open>The slice \<open>xs[-n:]\<close>.\<close>

definition last_slice :: "int \<Rightarrow> 'a list \<Rightarrow> 'a list" where
  "last_slice n xs = (if 0 < n then drop (length xs - nat n) xs else drop (nat (- n)) xs)"

definition rolling_score :: "rat list \<Rightarrow> rat option" where
  "rolling_score scores =
     (if scores = [] then None
      else Some (sum_list (last_slice 5 scores) / of_nat (min 5 (length scores))))"

definition recent_nonpositive :: "int \<Rightarrow> rat list \<Rightarrow> bool" where
  "recent_nonpositive n scores \<longleftrightarrow>
     n \<le> int (length scores) \<and> list_all (\<lambda>v. v \<le> 0) (last_slice n scores)"

definition artifact_gates :: "lifecycle_policy \<Rightarrow> evidence_record \<Rightarrow> (string \<times> bool) list" where
  "artifact_gates p r =
     (let metrics = metric_of (er_metrics r); uncertainty = metric_of (er_uncertainty r);
          either = (\<lambda>k. case uncertainty k of Some v \<Rightarrow> Some v | None \<Rightarrow> metrics k);
          strong = (\<lambda>v. case Option.bind v json_number of
                      Some x \<Rightarrow> at_least (1 - x) (lp_minimum_adjusted p) | None \<Rightarrow> False);
          passed = (\<lambda>v. v = Some (JsBool True))
      in [(''observations'', lp_minimum_observations p \<le> er_observation_count r),
          (''effective_sample_size'', at_least (er_effective_sample_size r) (lp_minimum_neff p)),
          (''multiplicity'', strong (either ''adjusted_p_value'')),
          (''empirical_null'', strong (either ''empirical_null_p_value'')),
          (''neighborhood'', case Option.bind (metrics ''neighbor_robustness'') json_number of
             Some x \<Rightarrow> at_least x (lp_minimum_neighbor p) | None \<Rightarrow> False),
          (''score'', passed (metrics ''score_gate_pass'')),
          (''economic'', passed (metrics ''economic_gate_pass'')),
          (''regime_comparison'', passed (case metrics ''regime_comparison_pass'' of
             Some v \<Rightarrow> Some v | None \<Rightarrow> Some (JsBool True))),
          (''block_bootstrap'', passed (metrics ''block_bootstrap_gate_pass''))])"

definition gates_pass :: "lifecycle_policy \<Rightarrow> evidence_record \<Rightarrow> bool" where
  "gates_pass p r = list_all snd (artifact_gates p r)"

definition qualified_oos :: "lifecycle_policy \<Rightarrow> evidence_record list \<Rightarrow> evidence_record list" where
  "qualified_oos p records =
     filter (\<lambda>r. er_selected_for_outer r \<and> metric r ''score'' \<noteq> None \<and> gates_pass p r)
       (completed_oos records)"

definition outer_folds :: "evidence_record list \<Rightarrow> string list" where
  "outer_folds qualified = concat (map er_fold_hashes qualified)"

definition gate_results ::
  "lifecycle_policy \<Rightarrow> evidence_record list \<Rightarrow> rat option \<Rightarrow> (string \<times> bool) list" where
  "gate_results p qualified consistency =
     (let some = (qualified \<noteq> []) in
      [(''observations'', some \<and> list_all (\<lambda>r. lp_minimum_observations p \<le> er_observation_count r) qualified),
       (''effective_sample_size'',
          some \<and> list_all (\<lambda>r. at_least (er_effective_sample_size r) (lp_minimum_neff p)) qualified),
       (''folds'', lp_minimum_folds p \<le> count_distinct (outer_folds qualified)),
       (''multiplicity'', some), (''empirical_null'', some), (''neighborhood'', some), (''score'', some),
       (''economic'', some), (''regime_comparison'', some), (''block_bootstrap'', some),
       (''sign_consistency'',
          case consistency of Some c \<Rightarrow> at_least c (lp_minimum_sign_consistency p) | None \<Rightarrow> False)])"

section \<open>Status and grade\<close>

text \<open>\<open>(_metric(record, "score") or 0)\<close>.\<close>

definition score_or_zero :: "evidence_record \<Rightarrow> rat" where
  "score_or_zero r = (case metric r ''score'' of Some v \<Rightarrow> v | None \<Rightarrow> 0)"

definition breaks_recovery :: "lifecycle_policy \<Rightarrow> evidence_record \<Rightarrow> bool" where
  "breaks_recovery p r \<longleftrightarrow>
     \<not> is_oos r \<or> \<not> is_completed r \<or> \<not> er_selected_for_outer r \<or> score_or_zero r \<le> 0 \<or> \<not> gates_pass p r"

text \<open>The records after the last one that breaks the recovery; none when no record does.\<close>

definition post_dormancy :: "lifecycle_policy \<Rightarrow> evidence_record list \<Rightarrow> evidence_record list" where
  "post_dormancy p records =
     (if list_ex (breaks_recovery p) records
      then rev (takeWhile (\<lambda>r. \<not> breaks_recovery p r) (rev records)) else [])"

definition recent_confirmatory :: "lifecycle_policy \<Rightarrow> evidence_record list \<Rightarrow> date list" where
  "recent_confirmatory p records =
     session_dates (filter (\<lambda>r. is_oos r \<and> is_completed r \<and> er_selected_for_outer r \<and>
       0 < score_or_zero r \<and> gates_pass p r) (post_dormancy p records))"

text \<open>The assessment's view of the history, computed once.\<close>

record lifecycle_view =
  lv_records :: "evidence_record list"
  lv_scores :: "rat list"
  lv_consistency :: "rat option"
  lv_consecutive :: "rat list"
  lv_rolling :: "rat option"
  lv_oos_sessions :: int
  lv_gates :: "(string \<times> bool) list"

definition rolling_positive :: "lifecycle_view \<Rightarrow> bool" where
  "rolling_positive v = (case lv_rolling v of Some x \<Rightarrow> 0 < x | None \<Rightarrow> False)"

definition all_gates :: "lifecycle_view \<Rightarrow> bool" where
  "all_gates v = list_all snd (lv_gates v)"

definition next_status ::
  "lifecycle_policy \<Rightarrow> hypothesis_status \<Rightarrow> lifecycle_view \<Rightarrow> hypothesis_status \<times> string list" where
  "next_status p previous v =
     (if previous = REJECTED then (REJECTED, [''rejected_is_terminal_for_this_policy_version''])
      else if recent_nonpositive (lp_dormant_consecutive_sessions p) (lv_consecutive v)
      then (DORMANT, [''consecutive_nonpositive_oos_evidence''])
      else if previous = DORMANT
      then if count_distinct (recent_confirmatory p (lv_records v)) < lp_reactivation_sessions p
           then (DORMANT, [''reactivation_requires_three_new_preselected_sessions''])
           else (REPLICATED, [''predeclared_reactivation_gate_passed''])
      else if previous \<in> {STABLE, WEAKENING} \<and>
        recent_nonpositive (lp_decaying_consecutive p) (lv_consecutive v)
      then (DECAYING, [''consecutive_oos_decay''])
      else if previous = STABLE \<and> rolling_positive v \<and> lv_scores v \<noteq> [] \<and>
        at_most_times (the (lv_rolling v)) (lp_weakening_ratio p) (Max (set (lv_scores v)))
      then (WEAKENING, [''rolling_evidence_weakened''])
      else if lp_sessions_for_stable p \<le> lv_oos_sessions v \<and> all_gates v \<and> rolling_positive v
      then (STABLE, [])
      else if lp_sessions_for_stable p \<le> count_distinct (session_dates (completed_oos (lv_records v)))
      then (REJECTED, [''stable_policy_gates_not_met''])
      else if lp_sessions_for_provisional p + 1 \<le> lv_oos_sessions v \<and> rolling_positive v
      then (REPLICATED, [])
      else if lp_sessions_for_provisional p \<le> lv_oos_sessions v \<and> rolling_positive v
      then (PROVISIONAL, [])
      else (EXPLORATORY, []))"

fun json_truthy :: "json \<Rightarrow> bool" where
  "json_truthy JsNull = False"
| "json_truthy (JsBool b) = b"
| "json_truthy (JsInt n) = (n \<noteq> 0)"
| "json_truthy (JsFloat x) = (x \<noteq> 0)"
| "json_truthy (JsNonFinite s) = True"
| "json_truthy (JsStr s) = (s \<noteq> [])"
| "json_truthy (JsArray vs) = (vs \<noteq> [])"
| "json_truthy (JsObject ps) = (ps \<noteq> [])"

definition sessions_in :: "research_mode \<Rightarrow> evidence_record list \<Rightarrow> date list" where
  "sessions_in mode records =
     session_dates (filter (\<lambda>r. er_mode r = mode) (completed_oos records))"

definition grade_of :: "lifecycle_policy \<Rightarrow> lifecycle_view \<Rightarrow> evidence_grade" where
  "grade_of p v =
     (let records = lv_records v in
      if lp_sessions_for_stable p \<le> count_distinct (sessions_in LIVE_SHADOW records) \<and> all_gates v then E5
      else if lp_sessions_for_stable p \<le> lv_oos_sessions v \<and> all_gates v then E4
      else if sessions_in CONFIRMATORY records \<noteq> [] \<or> sessions_in LIVE_SHADOW records \<noteq> [] then E3
      else if list_ex (\<lambda>r. case metric_of (er_metrics r) ''internal_resampling_pass'' of
        Some x \<Rightarrow> json_truthy x | None \<Rightarrow> False) records then E2
      else E1)"

section \<open>The assessment\<close>

record lifecycle_assessment =
  la_hypothesis_id :: string
  la_as_of :: date
  la_status :: hypothesis_status
  la_grade :: evidence_grade
  la_distinct_sessions :: int
  la_confirmatory_sessions :: int
  la_live_shadow_sessions :: int
  la_sign_consistency :: "rat option"
  la_rolling_score :: "rat option"
  la_reasons :: "string list"
  la_unique_oos_sessions :: int
  la_unique_outer_folds :: int
  la_gate_results :: "(string \<times> bool) list"

definition view_of ::
  "lifecycle_policy \<Rightarrow> evidence_record list \<Rightarrow> date list \<Rightarrow> date \<Rightarrow> lifecycle_view" where
  "view_of p records interruptions as_of =
     (let scores = oos_scores records; qualified = qualified_oos p records;
          consistency = sign_consistency scores;
          consecutive = consecutive_scores (score_timeline records interruptions as_of)
      in \<lparr>lv_records = records, lv_scores = scores, lv_consistency = consistency,
          lv_consecutive = consecutive, lv_rolling = rolling_score consecutive,
          lv_oos_sessions = count_distinct (session_dates qualified),
          lv_gates = gate_results p qualified consistency\<rparr>)"

text \<open>The reasons before the status: a single session, an unstable sign and the gates that failed;
  \<open>dict.fromkeys\<close> keeps the first of equal reasons.\<close>

definition evidence_reasons :: "lifecycle_policy \<Rightarrow> lifecycle_view \<Rightarrow> string list" where
  "evidence_reasons p v =
     (if count_distinct (session_dates (lv_records v)) = 1 then [''single_session_cannot_promote''] else []) @
     (case lv_consistency v of
        Some c \<Rightarrow> if below c (lp_minimum_sign_consistency p) then [''unstable_sign''] else []
      | None \<Rightarrow> []) @
     map (\<lambda>(name, passed). name @ ''_gate_failed'') (filter (\<lambda>(name, passed). \<not> passed) (lv_gates v))"

definition first_of_equal :: "'a list \<Rightarrow> 'a list" where
  "first_of_equal xs = rev (remdups (rev xs))"

definition untested_assessment :: "string \<Rightarrow> date \<Rightarrow> lifecycle_assessment" where
  "untested_assessment hypothesis as_of =
     \<lparr>la_hypothesis_id = hypothesis, la_as_of = as_of, la_status = UNTESTED, la_grade = E0,
      la_distinct_sessions = 0, la_confirmatory_sessions = 0, la_live_shadow_sessions = 0,
      la_sign_consistency = None, la_rolling_score = None, la_reasons = [''no_completed_evidence''],
      la_unique_oos_sessions = 0, la_unique_outer_folds = 0, la_gate_results = []\<rparr>"

definition assessment_of ::
  "string \<Rightarrow> date \<Rightarrow> lifecycle_policy \<Rightarrow> hypothesis_status \<Rightarrow> lifecycle_view \<Rightarrow> lifecycle_assessment" where
  "assessment_of hypothesis as_of p previous v =
     (case next_status p previous v of (status, reasons) \<Rightarrow>
        \<lparr>la_hypothesis_id = hypothesis, la_as_of = as_of, la_status = status, la_grade = grade_of p v,
         la_distinct_sessions = count_distinct (session_dates (lv_records v)),
         la_confirmatory_sessions = count_distinct (sessions_in CONFIRMATORY (lv_records v)),
         la_live_shadow_sessions = count_distinct (sessions_in LIVE_SHADOW (lv_records v)),
         la_sign_consistency = lv_consistency v, la_rolling_score = lv_rolling v,
         la_reasons = first_of_equal (evidence_reasons p v @ reasons),
         la_unique_oos_sessions = lv_oos_sessions v,
         la_unique_outer_folds = count_distinct (outer_folds (qualified_oos p (lv_records v))),
         la_gate_results = sort_key fst (lv_gates v)\<rparr>)"

definition assess_lifecycle ::
  "(string \<Rightarrow> fval option) \<Rightarrow> string \<Rightarrow> evidence_record list \<Rightarrow> date \<Rightarrow> lifecycle_options \<Rightarrow>
     lifecycle_assessment result" where
  "assess_lifecycle ft hypothesis history as_of opts =
     (let records = relevant_records hypothesis history as_of in
      if records = [] then Inr (untested_assessment hypothesis as_of)
      else bind_result (policy_of ft opts) (\<lambda>p.
        if duplicate_sessions (filter is_oos records)
        then Inl (ValueError ''lifecycle requires at most one OOS evidence record per session'')
        else Inr (assessment_of hypothesis as_of p (lo_previous_status opts)
          (view_of p records (lo_interrupted_dates opts) as_of))))"

section \<open>Causality\<close>

lemma sort_key_mset:
  assumes "mset xs = mset ys" and "inj_on f (set xs)"
  shows "sort_key f xs = sort_key f ys"
proof -
  have "mset (map f (sort_key f xs)) = mset (map f (sort_key f ys))" using assms(1) by (simp add: mset_map)
  then have "map f (sort_key f xs) = map f (sort_key f ys)"
    by (metis properties_for_sort sorted_sort_key)
  then show ?thesis using assms mset_eq_setD [OF assms(1)] by (simp add: inj_on_map_eq_map)
qed

lemma filter_eq_count: "filter (\<lambda>d. d = k) ds = replicate (count (mset ds) k) k"
  by (induction ds) auto

lemma sort_key_append_mset:
  assumes "mset ds = mset es"
  shows "sort_key fst (xs @ map (\<lambda>d. (d, v)) ds) = sort_key fst (xs @ map (\<lambda>d. (d, v)) es)"
proof (rule properties_for_sort_key)
  have "filter (\<lambda>x. fst x = k) (xs @ map (\<lambda>d. (d, v)) ds) =
      filter (\<lambda>x. fst x = k) (xs @ map (\<lambda>d. (d, v)) es)" for k
    using assms by (simp add: filter_map comp_def filter_eq_count)
  then show "filter (\<lambda>x. fst k = fst x) (sort_key fst (xs @ map (\<lambda>d. (d, v)) es)) =
      filter (\<lambda>x. fst k = fst x) (xs @ map (\<lambda>d. (d, v)) ds)" for k
    by (simp add: sort_key_stable eq_commute [of "fst k"])
qed (use assms in \<open>simp_all add: mset_map\<close>)

section \<open>What an assessment guarantees\<close>

lemma assessed:
  assumes "assess_lifecycle ft hypothesis history as_of opts = Inr a"
    and "relevant_records hypothesis history as_of \<noteq> []"
  obtains p v where "policy_of ft opts = Inr p"
    and "v = view_of p (relevant_records hypothesis history as_of) (lo_interrupted_dates opts) as_of"
    and "a = assessment_of hypothesis as_of p (lo_previous_status opts) v"
    and "\<not> duplicate_sessions (filter is_oos (relevant_records hypothesis history as_of))"
  using assms by (auto simp: assess_lifecycle_def Let_def bind_result_Inr split: if_splits)

lemma assessment_fields [simp]:
  "la_status (assessment_of h d p s v) = fst (next_status p s v)"
  "la_grade (assessment_of h d p s v) = grade_of p v"
  "la_distinct_sessions (assessment_of h d p s v) = count_distinct (session_dates (lv_records v))"
  "la_confirmatory_sessions (assessment_of h d p s v) = count_distinct (sessions_in CONFIRMATORY (lv_records v))"
  "la_live_shadow_sessions (assessment_of h d p s v) = count_distinct (sessions_in LIVE_SHADOW (lv_records v))"
  "la_sign_consistency (assessment_of h d p s v) = lv_consistency v"
  "la_rolling_score (assessment_of h d p s v) = lv_rolling v"
  "la_unique_oos_sessions (assessment_of h d p s v) = lv_oos_sessions v"
  "la_unique_outer_folds (assessment_of h d p s v) = count_distinct (outer_folds (qualified_oos p (lv_records v)))"
  "la_gate_results (assessment_of h d p s v) = sort_key fst (lv_gates v)"
  by (simp_all add: assessment_of_def split_beta)

lemma view_fields [simp]:
  "lv_records (view_of p rs ds d) = rs" "lv_scores (view_of p rs ds d) = oos_scores rs"
  "lv_consistency (view_of p rs ds d) = sign_consistency (oos_scores rs)"
  "lv_consecutive (view_of p rs ds d) = consecutive_scores (score_timeline rs ds d)"
  "lv_rolling (view_of p rs ds d) = rolling_score (consecutive_scores (score_timeline rs ds d))"
  "lv_oos_sessions (view_of p rs ds d) = count_distinct (session_dates (qualified_oos p rs))"
  "lv_gates (view_of p rs ds d) = gate_results p (qualified_oos p rs) (sign_consistency (oos_scores rs))"
  by (simp_all add: view_of_def Let_def)

lemma count_distinct_card: "count_distinct xs = int (card (set xs))"
  by (simp add: count_distinct_def length_remdups_card_conv)

lemma distinct_by_count:
  "\<forall>r \<in> set xs. length (filter (\<lambda>s. f s = f r) xs) \<le> 1 \<Longrightarrow> distinct (map f xs)"
proof (induction xs)
  case (Cons x xs)
  have "length (filter (\<lambda>s. f s = f r) xs) \<le> length (filter (\<lambda>s. f s = f r) (x # xs))" for r by simp
  with Cons.prems have "\<forall>r \<in> set xs. length (filter (\<lambda>s. f s = f r) xs) \<le> 1"
    by (meson list.set_intros(2) order_trans)
  moreover have "filter (\<lambda>s. f s = f x) xs = []" using bspec [OF Cons.prems, of x] by simp
  ultimately show ?case using Cons.IH by (force simp: filter_empty_conv)
qed simp

lemma oos_dates_distinct:
  "\<not> duplicate_sessions (filter is_oos rs) \<Longrightarrow> distinct (map er_evaluation_date (filter is_oos rs))"
  by (rule distinct_by_count) (simp add: duplicate_sessions_def list_ex_iff not_less)

lemma session_sets:
  "set (sessions_in mode rs) = er_evaluation_date ` {r \<in> set rs. is_oos r \<and> is_completed r \<and> er_mode r = mode}"
  "set (session_dates (completed_oos rs)) = er_evaluation_date ` {r \<in> set rs. is_oos r \<and> is_completed r}"
  "set (qualified_oos p rs) \<subseteq> {r \<in> set rs. is_oos r \<and> is_completed r \<and> gates_pass p r}"
  by (auto simp: sessions_in_def session_dates_def completed_oos_def qualified_oos_def)

lemma session_counts:
  assumes "\<not> duplicate_sessions (filter is_oos rs)"
  shows "count_distinct (sessions_in CONFIRMATORY rs) + count_distinct (sessions_in LIVE_SHADOW rs) =
      count_distinct (session_dates (completed_oos rs))"
    and "count_distinct (session_dates (completed_oos rs)) \<le> count_distinct (session_dates rs)"
    and "count_distinct (session_dates (qualified_oos p rs)) \<le> count_distinct (session_dates (completed_oos rs))"
proof -
  have inj: "inj_on er_evaluation_date (set (filter is_oos rs))"
    using oos_dates_distinct [OF assms] by (simp add: distinct_map)
  have "set (sessions_in CONFIRMATORY rs) \<inter> set (sessions_in LIVE_SHADOW rs) = {}"
    unfolding session_sets using inj by (auto dest!: inj_onD)
  moreover have "set (sessions_in CONFIRMATORY rs) \<union> set (sessions_in LIVE_SHADOW rs) = set (session_dates (completed_oos rs))"
    unfolding session_sets by (auto simp: is_oos_def)
  ultimately show "count_distinct (sessions_in CONFIRMATORY rs) + count_distinct (sessions_in LIVE_SHADOW rs) =
      count_distinct (session_dates (completed_oos rs))"
    unfolding count_distinct_card by (metis List.finite_set card_Un_disjoint of_nat_add)
  show "count_distinct (session_dates (completed_oos rs)) \<le> count_distinct (session_dates rs)"
    unfolding count_distinct_card session_sets by (auto simp: session_dates_def intro!: card_mono)
  show "count_distinct (session_dates (qualified_oos p rs)) \<le> count_distinct (session_dates (completed_oos rs))"
    unfolding count_distinct_card session_sets using session_sets(3) [of p rs]
    by (auto simp: session_dates_def intro!: card_mono)
qed

lemma qualified_sessions:
  "count_distinct (session_dates (qualified_oos p (relevant_records hypothesis history as_of))) =
    int (card (er_evaluation_date ` {r \<in> set history. er_hypothesis_id r = hypothesis \<and>
      er_evaluation_date r \<le> as_of \<and> is_oos r \<and> is_completed r \<and> er_selected_for_outer r \<and>
      metric r ''score'' \<noteq> None \<and> gates_pass p r}))"
proof -
  have "set (session_dates (qualified_oos p (relevant_records hypothesis history as_of))) =
    er_evaluation_date ` {r \<in> set history. er_hypothesis_id r = hypothesis \<and>
      er_evaluation_date r \<le> as_of \<and> is_oos r \<and> is_completed r \<and> er_selected_for_outer r \<and>
      metric r ''score'' \<noteq> None \<and> gates_pass p r}"
    by (auto simp: session_dates_def qualified_oos_def completed_oos_def relevant_records_def)
  then show ?thesis unfolding count_distinct_card by (rule arg_cong)
qed

lemma count_distinct_mono: "set xs \<subseteq> set ys \<Longrightarrow> count_distinct xs \<le> count_distinct ys"
  unfolding count_distinct_card by (simp add: card_mono)

lemma recent_confirmatory_sessions: "set (recent_confirmatory p rs) \<subseteq> set (session_dates rs)"
  by (auto simp: recent_confirmatory_def post_dormancy_def session_dates_def dest!: set_takeWhileD split: if_splits)

lemma all_gatesD:
  assumes "list_all snd (gate_results p q c)"
  shows "q \<noteq> []" "lp_minimum_folds p \<le> count_distinct (outer_folds q)"
    "\<exists>x. c = Some x \<and> at_least x (lp_minimum_sign_consistency p)"
  using assms by (auto simp: gate_results_def Let_def split: option.splits)

lemma next_status_cases:
  assumes "fst (next_status p s v) = q"
  shows "q = STABLE \<Longrightarrow> lp_sessions_for_stable p \<le> lv_oos_sessions v \<and> all_gates v \<and> rolling_positive v"
    and "q = PROVISIONAL \<Longrightarrow> lp_sessions_for_provisional p \<le> lv_oos_sessions v \<and> rolling_positive v"
    and "q = REPLICATED \<Longrightarrow>
      s = DORMANT \<and> lp_reactivation_sessions p \<le> count_distinct (recent_confirmatory p (lv_records v)) \<or>
      lp_sessions_for_provisional p + 1 \<le> lv_oos_sessions v \<and> rolling_positive v"
  using assms unfolding next_status_def by (auto split: if_splits)

lemma grade_cases:
  "E4 \<le> grade_of p v \<Longrightarrow> all_gates v \<and> (lp_sessions_for_stable p \<le> lv_oos_sessions v \<or>
     lp_sessions_for_stable p \<le> count_distinct (sessions_in LIVE_SHADOW (lv_records v)))"
  unfolding grade_of_def Let_def by (auto simp: less_eq_evidence_grade_def split: if_splits)


text \<open>C31: an assessment is causal and depends on the evidence only as a collection. Two histories whose
  records of the hypothesis up to the date are the same, whatever their order and whatever records of
  other hypotheses or of later dates surround them, and whose interruptions up to the date are the
  same, are assessed alike, errors included, provided an event identity names one record.\<close>

theorem lifecycle_causal:
  assumes "mset (filter (\<lambda>r. er_hypothesis_id r = hypothesis \<and> er_evaluation_date r \<le> as_of) history) =
      mset (filter (\<lambda>r. er_hypothesis_id r = hypothesis \<and> er_evaluation_date r \<le> as_of) history')"
    and "inj_on er_event_id (set history)"
    and "mset (filter (\<lambda>d. d \<le> as_of) ds) = mset (filter (\<lambda>d. d \<le> as_of) ds')"
  shows "assess_lifecycle ft hypothesis history as_of (opts\<lparr>lo_interrupted_dates := ds\<rparr>) =
    assess_lifecycle ft hypothesis history' as_of (opts\<lparr>lo_interrupted_dates := ds'\<rparr>)"
proof -
  have "inj_on (\<lambda>r. (er_evaluation_date r, er_event_id r)) (set history)"
    using assms(2) by (auto simp: inj_on_def)
  then have same: "relevant_records hypothesis history as_of = relevant_records hypothesis history' as_of"
    unfolding relevant_records_def by (intro sort_key_mset [OF assms(1)]) (auto intro: inj_on_subset)
  have "view_of p rs ds as_of = view_of p rs ds' as_of" for p rs
    unfolding view_of_def score_timeline_def sort_key_append_mset [OF assms(3)] ..
  moreover have "policy_of ft (opts\<lparr>lo_interrupted_dates := es\<rparr>) = policy_of ft opts" for es
    by (simp add: policy_of_def)
  ultimately show ?thesis by (simp add: assess_lifecycle_def same Let_def cong: if_cong)
qed

lemma last_slice_length: "0 < n \<Longrightarrow> length (last_slice n xs) = min (nat n) (length xs)"
  by (simp add: last_slice_def)

lemma last_slice_set: "set (last_slice n xs) \<subseteq> set xs"
  by (simp add: last_slice_def set_drop_subset)

lemma mean_between:
  assumes "xs \<noteq> []"
  shows "Min (set xs) \<le> sum_list xs / of_nat (length xs)" "sum_list xs / of_nat (length xs) \<le> (Max (set xs) :: rat)"
proof -
  have "sum_list (map (\<lambda>_. Min (set xs)) xs) \<le> sum_list (map id xs)"
    "sum_list (map id xs) \<le> sum_list (map (\<lambda>_. Max (set xs)) xs)"
    by (rule sum_list_mono; simp)+
  then show "Min (set xs) \<le> sum_list xs / of_nat (length xs)" "sum_list xs / of_nat (length xs) \<le> Max (set xs)"
    using assms by (simp_all add: sum_list_triv pos_le_divide_eq pos_divide_le_eq mult.commute)
qed

lemma consecutive_scores_set: "set (consecutive_scores timeline) \<subseteq> {x. Some x \<in> snd ` set timeline}"
  by (force simp: consecutive_scores_def dest: set_takeWhileD)

lemma timeline_scores: "Some x \<in> snd ` set (score_timeline rs ds d) \<Longrightarrow> x \<in> set (oos_scores rs)"
  by (force simp: score_timeline_def oos_scores_def List.map_filter_def)

lemma rolling_between:
  assumes "rolling_score (consecutive_scores (score_timeline rs ds d)) = Some x"
  shows "\<exists>lo \<in> set (oos_scores rs). \<exists>hi \<in> set (oos_scores rs). lo \<le> x \<and> x \<le> hi"
proof -
  let ?c = "consecutive_scores (score_timeline rs ds d)"
  let ?l = "last_slice 5 ?c"
  have c: "?c \<noteq> []" and x: "x = sum_list ?l / of_nat (min 5 (length ?c))"
    using assms by (auto simp: rolling_score_def split: if_splits)
  have len: "length ?l = min 5 (length ?c)" using last_slice_length [of 5 ?c] by simp
  then have "0 < length ?l" using c by (simp add: min_def)
  then have l: "?l \<noteq> []" by simp
  have sub: "set ?l \<subseteq> set (oos_scores rs)"
    using last_slice_set [of 5 ?c] consecutive_scores_set [of "score_timeline rs ds d"] timeline_scores by blast
  have "Min (set ?l) \<in> set ?l" "Max (set ?l) \<in> set ?l" using l by simp_all
  then show ?thesis using mean_between [OF l] sub unfolding x len [symmetric] by blast
qed

lemma sign_consistency_range: "sign_consistency xs = Some c \<Longrightarrow> 1 / 2 \<le> c \<and> c \<le> 1"
proof -
  assume c: "sign_consistency xs = Some c"
  define m n where mn: "m = length (filter (\<lambda>v. 0 < v) xs)" "n = length (filter (\<lambda>v. v < 0) xs)"
  from c have pos: "0 < m + n" and c: "c = of_nat (max m n) / of_nat (m + n)"
    by (auto simp: sign_consistency_def Let_def mn split: if_splits)
  have "(of_nat (m + n) :: rat) \<le> of_nat (2 * max m n)" "(of_nat (max m n) :: rat) \<le> of_nat (m + n)"
    unfolding of_nat_le_iff by simp_all
  moreover have "(0::rat) < of_nat (m + n)" using pos by (simp only: of_nat_0_less_iff)
  ultimately show ?thesis unfolding c by (simp add: pos_le_divide_eq pos_divide_le_eq)
qed


section \<open>Runs of assessments\<close>

text \<open>The daily run: each assessment starts from the status the one before it left in the state.\<close>

record lifecycle_session =
  ls_as_of :: date
  ls_history :: "evidence_record list"
  ls_interrupted_dates :: "date list"

fun lifecycle_run ::
  "(string \<Rightarrow> fval option) \<Rightarrow> string \<Rightarrow> (string \<times> json) list \<Rightarrow> hypothesis_status \<Rightarrow>
     lifecycle_session list \<Rightarrow> hypothesis_status list result" where
  "lifecycle_run ft hypothesis policy status [] = Inr []"
| "lifecycle_run ft hypothesis policy status (x # xs) =
     bind_result
       (assess_lifecycle ft hypothesis (ls_history x) (ls_as_of x)
         (default_options\<lparr>lo_previous_status := status, lo_policy := policy,
            lo_interrupted_dates := ls_interrupted_dates x\<rparr>))
       (\<lambda>a. bind_result (lifecycle_run ft hypothesis policy (la_status a) xs)
         (\<lambda>rest. Inr (la_status a # rest)))"

text \<open>The life cycle as a state machine.\<close>

inductive lifecycle_edge :: "hypothesis_status \<Rightarrow> hypothesis_status \<Rightarrow> bool" where
  rejected: "lifecycle_edge REJECTED REJECTED"
| reactivate: "lifecycle_edge DORMANT REPLICATED"
| fade: "s \<noteq> REJECTED \<Longrightarrow> lifecycle_edge s DORMANT"
| decay: "s \<in> {STABLE, WEAKENING} \<Longrightarrow> lifecycle_edge s DECAYING"
| weaken: "lifecycle_edge STABLE WEAKENING"
| judge: "s \<notin> {REJECTED, DORMANT} \<Longrightarrow> q \<in> {STABLE, REJECTED, REPLICATED, PROVISIONAL, EXPLORATORY} \<Longrightarrow>
    lifecycle_edge s q"

code_pred lifecycle_edge .

inductive_simps rejected_edge: "lifecycle_edge REJECTED q"
inductive_simps dormant_edge: "lifecycle_edge DORMANT q"
inductive_simps to_decaying: "lifecycle_edge s DECAYING"
inductive_simps to_weakening: "lifecycle_edge s WEAKENING"
inductive_simps to_untested: "lifecycle_edge s UNTESTED"

lemma next_status_edge: "lifecycle_edge s (fst (next_status p s v))"
  unfolding next_status_def by (cases s) (auto simp: lifecycle_edge.simps)

lemma assess_edge:
  assumes "assess_lifecycle ft hypothesis history as_of opts = Inr a"
    and "relevant_records hypothesis history as_of \<noteq> []"
  shows "lifecycle_edge (lo_previous_status opts) (la_status a)"
  by (rule assessed [OF assms]) (simp add: next_status_edge)

fun edges :: "hypothesis_status \<Rightarrow> hypothesis_status list \<Rightarrow> bool" where
  "edges s [] = True"
| "edges s (q # qs) \<longleftrightarrow> lifecycle_edge s q \<and> edges q qs"

lemma run_edges:
  "lifecycle_run ft hypothesis policy s xs = Inr qs \<Longrightarrow>
    list_all (\<lambda>x. relevant_records hypothesis (ls_history x) (ls_as_of x) \<noteq> []) xs \<Longrightarrow> edges s qs"
proof (induction xs arbitrary: s qs)
  case (Cons x xs)
  then obtain a rest where
    a: "assess_lifecycle ft hypothesis (ls_history x) (ls_as_of x)
      (default_options\<lparr>lo_previous_status := s, lo_policy := policy,
        lo_interrupted_dates := ls_interrupted_dates x\<rparr>) = Inr a"
    and "lifecycle_run ft hypothesis policy (la_status a) xs = Inr rest" "qs = la_status a # rest"
    by (auto simp: bind_result_Inr)
  with Cons assess_edge [OF a] show ?case by simp
qed simp

lemma rejected_stays: "edges REJECTED qs \<Longrightarrow> q \<in> set qs \<Longrightarrow> q = REJECTED"
  by (induction qs) (auto simp: rejected_edge)

lemma edges_rejected: "edges s qs \<Longrightarrow> i < j \<Longrightarrow> j < length qs \<Longrightarrow> qs ! i = REJECTED \<Longrightarrow> qs ! j = REJECTED"
proof (induction qs arbitrary: s i j)
  case (Cons q qs)
  then show ?case
    by (cases i; cases j) (auto dest: rejected_stays [OF _ nth_mem])
qed simp

lemma edges_next: "edges s qs \<Longrightarrow> Suc i < length qs \<Longrightarrow> lifecycle_edge (qs ! i) (qs ! Suc i)"
proof (induction qs arbitrary: s i)
  case (Cons q qs)
  then show ?case by (cases i; cases qs) auto
qed simp

lemma edges_decline:
  "edges s qs \<Longrightarrow> s \<notin> {STABLE, WEAKENING} \<Longrightarrow> j < length qs \<Longrightarrow> qs ! j \<in> {WEAKENING, DECAYING} \<Longrightarrow>
    \<exists>i < j. qs ! i = STABLE"
proof (induction qs arbitrary: s j)
  case (Cons q qs)
  have q: "q \<notin> {WEAKENING, DECAYING}" using Cons.prems(1,2) by (auto simp: to_weakening to_decaying)
  then obtain j' where j': "j = Suc j'" using Cons.prems(4) by (cases j) auto
  show ?case
  proof (cases "q = STABLE")
    case False
    with Cons.IH [of q j'] Cons.prems q j' obtain i where "i < j'" "qs ! i = STABLE" by auto
    then show ?thesis using j' by (intro exI [of _ "Suc i"]) simp
  qed (use j' in auto)
qed simp

text \<open>C13: the life cycle moves along its edges only. In any daily run from an untested hypothesis, over
  histories that hold evidence of it, rejection is final; a dormant hypothesis stays dormant until its
  reactivation makes it replicated; a hypothesis weakens or decays only after it has been stable; and
  it is never untested again.\<close>

theorem lifecycle_run_forward:
  assumes "lifecycle_run ft hypothesis policy UNTESTED sessions = Inr qs"
    and "list_all (\<lambda>x. relevant_records hypothesis (ls_history x) (ls_as_of x) \<noteq> []) sessions"
  shows "length qs = length sessions \<and> UNTESTED \<notin> set qs \<and>
    (\<forall>i j. i < j \<and> j < length qs \<and> qs ! i = REJECTED \<longrightarrow> qs ! j = REJECTED) \<and>
    (\<forall>i. Suc i < length qs \<and> qs ! i = DORMANT \<longrightarrow> qs ! Suc i \<in> {DORMANT, REPLICATED}) \<and>
    (\<forall>j < length qs. qs ! j \<in> {WEAKENING, DECAYING} \<longrightarrow> (\<exists>i < j. qs ! i = STABLE))"
proof -
  note run = run_edges [OF assms]
  have "length qs = length sessions" if "lifecycle_run ft hypothesis policy s sessions = Inr qs" for s
    using that by (induction sessions arbitrary: s qs) (auto simp: bind_result_Inr)
  moreover have "UNTESTED \<notin> set qs" if "edges s qs" for s
    using that by (induction qs arbitrary: s) (auto simp: to_untested)
  moreover have "qs ! Suc i \<in> {DORMANT, REPLICATED}" if "Suc i < length qs" "qs ! i = DORMANT" for i
    using edges_next [OF run that(1)] that(2) by (auto simp: dormant_edge)
  ultimately show ?thesis using assms(1) run edges_rejected [OF run] edges_decline [OF run] by blast
qed

section \<open>Witnesses\<close>

definition example_evidence_record :: "int \<Rightarrow> rat \<Rightarrow> research_mode \<Rightarrow> bool \<Rightarrow> evidence_record" where
  "example_evidence_record day score mode gate =
     \<lparr>er_hypothesis_id = ''h'', er_evaluation_date = day, er_mode = mode, er_observation_count = 200,
      er_effective_sample_size = 90,
      er_metrics = [(''score'', JsFloat score), (''neighbor_robustness'', JsFloat 1),
        (''score_gate_pass'', JsBool gate), (''economic_gate_pass'', JsBool True),
        (''block_bootstrap_gate_pass'', JsBool True)],
      er_uncertainty = [(''adjusted_p_value'', JsFloat (1 / 100)), (''empirical_null_p_value'', JsFloat (1 / 100))],
      er_terminal_status = EXPERIMENT_COMPLETED, er_fold_hashes = [dec_int day], er_selected_for_outer = True,
      er_event_id = dec_int day\<rparr>"

definition example_policy :: "(string \<times> json) list" where
  "example_policy =
     [(''minimum_evidence'', JsObject [(''sessions_for_provisional'', JsInt 2), (''sessions_for_stable'', JsInt 3)]),
      (''decay'', JsObject [(''dormant_consecutive_sessions'', JsInt 2)]),
      (''reactivation'', JsObject [(''minimum_new_confirmatory_sessions'', JsInt 2)])]"

definition example_history :: "evidence_record list" where
  "example_history = map (\<lambda>(d, s). example_evidence_record d s CONFIRMATORY True) [(1, 1), (2, 1), (3, 1), (4, -1), (5, -1)]"

definition example_sessions :: "lifecycle_session list" where
  "example_sessions = map (\<lambda>d. \<lparr>ls_as_of = d, ls_history = example_history, ls_interrupted_dates = []\<rparr>) [1, 2, 3, 4, 5]"


definition example_settings :: lifecycle_policy where
  "example_settings =
     \<lparr>lp_sessions_for_provisional = 2, lp_sessions_for_stable = 3, lp_minimum_observations = 1,
      lp_minimum_neff = Finite 1, lp_minimum_folds = 1, lp_minimum_sign_consistency = Finite (7 / 10),
      lp_minimum_neighbor = Finite 0, lp_minimum_adjusted = Finite 0, lp_dormant_consecutive_sessions = 2,
      lp_decaying_consecutive = 3, lp_weakening_ratio = Finite (1 / 2), lp_reactivation_sessions = 2\<rparr>"

lemma example_settings_of:
  "policy_of ft (default_options\<lparr>lo_previous_status := s, lo_policy := example_policy, lo_interrupted_dates := ds\<rparr>) =
    Inr example_settings"
  by (simp add: policy_of_def example_settings_def default_options_def example_policy_def policy_section_def
      policy_int_def policy_float_def)

lemma example_relevant:
  "relevant_records ''h'' example_history 1 = take (Suc 0) example_history"
  "relevant_records ''h'' example_history 2 = take 2 example_history"
  "relevant_records ''h'' example_history 3 = take 3 example_history"
  "relevant_records ''h'' example_history 4 = take 4 example_history"
  "relevant_records ''h'' example_history 5 = example_history"
  by code_simp+

lemma example_unique:
  "\<not> duplicate_sessions (filter is_oos example_history)"
  "\<not> duplicate_sessions (filter is_oos (take (Suc 0) example_history))"
  "\<not> duplicate_sessions (filter is_oos (take 2 example_history))"
  "\<not> duplicate_sessions (filter is_oos (take 3 example_history))"
  "\<not> duplicate_sessions (filter is_oos (take 4 example_history))"
  by code_simp+

lemma example_statuses:
  "fst (next_status example_settings UNTESTED (view_of example_settings (take (Suc 0) example_history) [] 1)) = EXPLORATORY"
  "fst (next_status example_settings EXPLORATORY (view_of example_settings (take 2 example_history) [] 2)) = PROVISIONAL"
  "fst (next_status example_settings PROVISIONAL (view_of example_settings (take 3 example_history) [] 3)) = STABLE"
  "fst (next_status example_settings STABLE (view_of example_settings (take 4 example_history) [] 4)) = WEAKENING"
  "fst (next_status example_settings WEAKENING (view_of example_settings example_history [] 5)) = DORMANT"
  by code_simp+

lemma example_history_nonempty: "example_history \<noteq> []"
  by (simp add: example_history_def)

lemmas example_assess = assess_lifecycle_def Let_def example_relevant example_unique example_settings_of
  example_history_nonempty

lemma example_lifecycle_run:
  "lifecycle_run (\<lambda>s. None) ''h'' example_policy UNTESTED example_sessions =
    Inr [EXPLORATORY, PROVISIONAL, STABLE, WEAKENING, DORMANT]"
  by (simp add: example_sessions_def example_assess example_statuses)

lemma lifecycle_run_forward_witness:
  "\<exists>qs. lifecycle_run (\<lambda>s. None) ''h'' example_policy UNTESTED example_sessions = Inr qs \<and>
    qs ! 3 = WEAKENING \<and> (\<exists>i < 3. qs ! i = STABLE)"
proof -
  have "list_all (\<lambda>x. relevant_records ''h'' (ls_history x) (ls_as_of x) \<noteq> []) example_sessions"
    by (simp add: example_sessions_def example_relevant example_history_nonempty)
  from lifecycle_run_forward [OF example_lifecycle_run this] show ?thesis
    by (auto simp: example_lifecycle_run)
qed

definition example_options :: "hypothesis_status \<Rightarrow> lifecycle_options" where
  "example_options s =
     default_options\<lparr>lo_previous_status := s, lo_policy := example_policy, lo_interrupted_dates := []\<rparr>"

lemma example_stable:
  "assess_lifecycle (\<lambda>s. None) ''h'' example_history 3 (example_options PROVISIONAL) =
    Inr (assessment_of ''h'' 3 example_settings PROVISIONAL (view_of example_settings (take 3 example_history) [] 3))"
  by (simp add: example_options_def example_assess)



lemma lifecycle_causal_witness:
  "assess_lifecycle (\<lambda>s. None) ''h'' (rev example_history) 3 ((example_options PROVISIONAL)\<lparr>lo_interrupted_dates := [4]\<rparr>) =
   assess_lifecycle (\<lambda>s. None) ''h'' (take 3 example_history) 3 ((example_options PROVISIONAL)\<lparr>lo_interrupted_dates := []\<rparr>)"
proof (rule lifecycle_causal)
  have "distinct (map er_event_id example_history)" by code_simp
  then show "inj_on er_event_id (set (rev example_history))" by (simp add: distinct_map)
qed (simp_all add: example_history_def example_evidence_record_def)

text \<open>The highest grade asks for the policy's number of shadow sessions, qualified or not, while the grade
  below it asks for qualified ones: two shadow sessions, one of which failed its score gate, are
  rejected and graded \<open>E5\<close> at once under a policy that wants two.\<close>

definition example_shadow :: "evidence_record list" where
  "example_shadow = [example_evidence_record 1 1 LIVE_SHADOW True, example_evidence_record 2 1 LIVE_SHADOW False]"

definition shadow_settings :: lifecycle_policy where
  "shadow_settings = example_settings\<lparr>lp_sessions_for_provisional := 5, lp_sessions_for_stable := 2,
     lp_dormant_consecutive_sessions := 5, lp_reactivation_sessions := 3\<rparr>"

lemma rejected_with_top_grade:
  "\<exists>a. assess_lifecycle (\<lambda>s. None) ''h'' example_shadow 2 (default_options\<lparr>lo_sessions_for_stable := 2\<rparr>) = Inr a \<and>
    la_status a = REJECTED \<and> la_grade a = E5"
proof -
  have "relevant_records ''h'' example_shadow 2 = example_shadow" by code_simp
  moreover have "\<not> duplicate_sessions (filter is_oos example_shadow)" by code_simp
  moreover have "policy_of (\<lambda>s. None) (default_options\<lparr>lo_sessions_for_stable := 2\<rparr>) = Inr shadow_settings" by code_simp
  moreover have "fst (next_status shadow_settings UNTESTED (view_of shadow_settings example_shadow [] 2)) = REJECTED"
    by code_simp
  moreover have "grade_of shadow_settings (view_of shadow_settings example_shadow [] 2) = E5" by code_simp
  ultimately show ?thesis
    by (simp add: assess_lifecycle_def Let_def default_options_def) (simp add: example_shadow_def)
qed

end
