(* ===== verification/Calendar.thy ===== *)
theory Calendar
  imports Prelude
begin

text \<open>
  Dates: \<open>date.isoformat\<close> of a proleptic Gregorian ordinal and \<open>date.fromisoformat\<close>, with the
  computation of the \<open>datetime\<close> module. Of the formats that \<open>fromisoformat\<close> reads, only
  \<open>YYYY-MM-DD\<close> is modelled: the program writes no other, and a text of another format is refused.
\<close>

section \<open>Years and months\<close>

definition is_leap :: "nat \<Rightarrow> bool" where
  "is_leap y \<longleftrightarrow> y mod 4 = 0 \<and> (y mod 100 \<noteq> 0 \<or> y mod 400 = 0)"

definition days_before_year :: "nat \<Rightarrow> nat" where
  "days_before_year year = (let y = year - 1 in y * 365 + y div 4 - y div 100 + y div 400)"

definition days_in_month :: "nat list" where
  "days_in_month = [0, 31, 28, 31, 30, 31, 30, 31, 31, 30, 31, 30, 31]"

definition days_before_month :: "nat \<Rightarrow> nat" where
  "days_before_month m = sum_list (take m days_in_month)"

definition month_days :: "nat \<Rightarrow> nat \<Rightarrow> nat" where
  "month_days y m = (if m = 2 \<and> is_leap y then 29 else days_in_month ! m)"

definition ymd2ord :: "nat \<Rightarrow> nat \<Rightarrow> nat \<Rightarrow> nat" where
  "ymd2ord y m d =
     days_before_year y + (days_before_month m + (if 2 < m \<and> is_leap y then 1 else 0)) + d"

text \<open>The month and day of the day \<open>n\<close> of a year, from the estimate \<open>k\<close> of the month.\<close>

definition month_from :: "bool \<Rightarrow> nat \<Rightarrow> nat \<Rightarrow> nat \<times> nat" where
  "month_from leap n k =
     (let preceding = days_before_month k + (if 2 < k \<and> leap then 1 else 0)
      in if n < preceding
         then (k - 1, n - (preceding - (days_in_month ! (k - 1) + (if k - 1 = 2 \<and> leap then 1 else 0))) + 1)
         else (k, n - preceding + 1))"

definition ord2ymd :: "nat \<Rightarrow> nat \<times> nat \<times> nat" where
  "ord2ymd ordinal =
     (let n = ordinal - 1;
          n400 = n div 146097; n = n mod 146097;
          n100 = n div 36524; n = n mod 36524;
          n4 = n div 1461; n = n mod 1461;
          n1 = n div 365; n = n mod 365;
          year = n400 * 400 + 1 + n100 * 100 + n4 * 4 + n1
      in if n1 = 4 \<or> n100 = 4 then (year - 1, 12, 31)
         else case month_from (n1 = 3 \<and> (n4 \<noteq> 24 \<or> n100 = 3)) n ((n + 50) div 32) of
           (month, day) \<Rightarrow> (year, month, day))"

definition max_ordinal :: nat where
  "max_ordinal = 3652059"

definition date_isoformat :: "date \<Rightarrow> string" where
  "date_isoformat d =
     (case ord2ymd (nat d) of (y, m, day) \<Rightarrow> join_with ''-'' [zero_pad 4 y, zero_pad 2 m, zero_pad 2 day])"

definition date_fromisoformat :: "string \<Rightarrow> date result" where
  "date_fromisoformat s =
     (let y = take 4 s; m = take 2 (drop 5 s); d = drop 8 s in
      if length s = 10 \<and> s ! 4 = CHR ''-'' \<and> s ! 7 = CHR ''-'' \<and> list_all is_digit (y @ m @ d) \<and>
         1 \<le> digits_value y \<and> 1 \<le> digits_value m \<and> digits_value m \<le> 12 \<and> 1 \<le> digits_value d \<and>
         digits_value d \<le> month_days (digits_value y) (digits_value m)
      then Inr (int (ymd2ord (digits_value y) (digits_value m) (digits_value d)))
      else Inl (ValueError ''Invalid isoformat string''))"

lemma ord2ymd_examples:
  "ord2ymd 739854 = (2026, 8, 26)" "ord2ymd 738945 = (2024, 2, 29)"
  "ord2ymd 730485 = (2000, 12, 31)" "ord2ymd 693655 = (1900, 3, 1)" "ord2ymd 3652059 = (9999, 12, 31)"
  by (simp_all add: ord2ymd_def month_from_def days_before_month_def days_in_month_def)

section \<open>The calendar round trip\<close>

lemma days_before_month_simps:
  "days_before_month 0 = 0" "days_before_month (Suc 0) = 0" "days_before_month 2 = 31" "days_before_month 3 = 59"
  "days_before_month 4 = 90" "days_before_month 5 = 120" "days_before_month 6 = 151"
  "days_before_month 7 = 181" "days_before_month 8 = 212" "days_before_month 9 = 243"
  "days_before_month 10 = 273" "days_before_month 11 = 304" "days_before_month 12 = 334"
  by (simp_all add: days_before_month_def days_in_month_def)

lemma month_from_correct:
  assumes "n < 365" "32 * k \<le> n + 50" "n + 50 < 32 * k + 32" and "month_from leap n k = (m, d)"
  shows "1 \<le> m \<and> m \<le> 12 \<and> 1 \<le> d \<and>
    d \<le> (if m = 2 \<and> leap then 29 else days_in_month ! m) \<and>
    days_before_month m + (if 2 < m \<and> leap then 1 else 0) + d = n + 1"
proof -
  have "1 \<le> k" "k \<le> 12" using assms(1-3) by linarith+
  then have "k = 1 \<or> k = 2 \<or> k = 3 \<or> k = 4 \<or> k = 5 \<or> k = 6 \<or> k = 7 \<or> k = 8 \<or> k = 9 \<or>
      k = 10 \<or> k = 11 \<or> k = 12" by presburger
  then show ?thesis
    using assms
    by (elim disjE; cases leap; cases "n < days_before_month k + (if 2 < k \<and> leap then 1 else 0)";
      simp add: month_from_def days_before_month_simps days_in_month_def; elim conjE; (hypsubst_thin)?;
      (simp add: days_before_month_simps)?; linarith?)
qed

text \<open>The place of a day: cycles of 400, 100, 4 and 1 years, and the day of the year.\<close>

lemma ordinal_parts:
  fixes k :: nat
  obtains a b c e r where "k = 146097 * a + 36524 * b + 1461 * c + 365 * e + r"
    "k div 146097 = a" "k mod 146097 div 36524 = b" "k mod 146097 mod 36524 div 1461 = c"
    "k mod 146097 mod 36524 mod 1461 div 365 = e" "k mod 146097 mod 36524 mod 1461 mod 365 = r"
    "b < 4 \<or> b = 4 \<and> c = 0 \<and> e = 0 \<and> r = 0" "c < 25"
    "e < 4 \<or> e = 4 \<and> r = 0 \<and> c < 24" "r < 365"
proof -
  let ?k1 = "k mod 146097"
  let ?k2 = "?k1 mod 36524"
  let ?k3 = "?k2 mod 1461"
  have k: "k = 146097 * (k div 146097) + ?k1" "?k1 = 36524 * (?k1 div 36524) + ?k2"
    "?k2 = 1461 * (?k2 div 1461) + ?k3" "?k3 = 365 * (?k3 div 365) + ?k3 mod 365"
    by (simp_all only: mult_div_mod_eq)
  have b: "?k1 < 146097" "?k2 < 36524" "?k3 < 1461" "?k3 mod 365 < 365" by simp_all
  show thesis
  proof (rule that [of "k div 146097" "?k1 div 36524" "?k2 div 1461" "?k3 div 365" "?k3 mod 365"])
    show "k = 146097 * (k div 146097) + 36524 * (?k1 div 36524) + 1461 * (?k2 div 1461) +
        365 * (?k3 div 365) + ?k3 mod 365"
      using k by linarith
    have four: "x \<le> 4 \<Longrightarrow> (x = 4 \<Longrightarrow> P) \<Longrightarrow> x < 4 \<or> x = 4 \<and> P" for x :: nat and P
      by (cases "x = 4") auto
    have "?k1 div 36524 \<le> 4" using k(2) b(1) by linarith
    moreover have "?k2 = 0" if "?k1 div 36524 = 4" using k(2) b(1) that by linarith
    ultimately show "?k1 div 36524 < 4 \<or>
        ?k1 div 36524 = 4 \<and> ?k2 div 1461 = 0 \<and> ?k3 div 365 = 0 \<and> ?k3 mod 365 = 0" by (intro four) simp_all
    show "?k2 div 1461 < 25" using k(3) b(2) by linarith
    have "?k3 div 365 \<le> 4" using k(4) b(3) by linarith
    moreover have "?k3 mod 365 = 0" if "?k3 div 365 = 4" using k(4) b(3) that by linarith
    moreover have "?k2 div 1461 < 24" if "?k3 div 365 = 4" using k(3,4) b(2,3) that by linarith
    ultimately show "?k3 div 365 < 4 \<or> ?k3 div 365 = 4 \<and> ?k3 mod 365 = 0 \<and> ?k2 div 1461 < 24"
      by (intro four) simp_all
  qed (rule refl b(4))+
qed

lemma days_before_cycles:
  fixes a b c e :: nat
  assumes "b < 4" "c < 25" "e < 4"
  shows "days_before_year (400 * a + 100 * b + 4 * c + e + 1) = 146097 * a + 36524 * b + 1461 * c + 365 * e"
    and "is_leap (400 * a + 100 * b + 4 * c + e + 1) \<longleftrightarrow> e = 3 \<and> (c \<noteq> 24 \<or> b = 3)"
proof -
  let ?y = "400 * a + 100 * b + 4 * c + e"
  have "?y div 4 = 100 * a + 25 * b + c" "?y div 100 = 4 * a + b" "?y div 400 = a"
    using assms by linarith+
  then show "days_before_year (?y + 1) = 146097 * a + 36524 * b + 1461 * c + 365 * e"
    by (simp add: days_before_year_def)
  have "?y mod 4 = e" "?y mod 100 = 4 * c + e" "?y mod 400 = 100 * b + 4 * c + e"
    using \<open>?y div 4 = 100 * a + 25 * b + c\<close> \<open>?y div 100 = 4 * a + b\<close> \<open>?y div 400 = a\<close>
    unfolding modulo_nat_def by linarith+
  then have "Suc ?y mod 4 = 0 \<longleftrightarrow> e = 3" "Suc ?y mod 100 = 0 \<longleftrightarrow> c = 24 \<and> e = 3"
      "Suc ?y mod 400 = 0 \<longleftrightarrow> b = 3 \<and> c = 24 \<and> e = 3"
    unfolding mod_Suc using assms by auto
  then show "is_leap (?y + 1) \<longleftrightarrow> e = 3 \<and> (c \<noteq> 24 \<or> b = 3)" unfolding is_leap_def Suc_eq_plus1 by satx
qed

lemma ord2ymd_parts:
  assumes "k = 146097 * a + 36524 * b + 1461 * c + 365 * e + r"
    and "k div 146097 = a" "k mod 146097 div 36524 = b" "k mod 146097 mod 36524 div 1461 = c"
    and "k mod 146097 mod 36524 mod 1461 div 365 = e" "k mod 146097 mod 36524 mod 1461 mod 365 = r"
  shows "ord2ymd (Suc k) =
    (let year = a * 400 + 1 + b * 100 + c * 4 + e in
     if e = 4 \<or> b = 4 then (year - 1, 12, 31)
     else case month_from (e = 3 \<and> (c \<noteq> 24 \<or> b = 3)) r ((r + 50) div 32) of (m, d) \<Rightarrow> (year, m, d))"
  unfolding ord2ymd_def Let_def diff_Suc_1 assms(2-6) by (rule refl)

theorem ymd2ord_ord2ymd:
  assumes "ord2ymd (Suc k) = (y, m, d)"
  shows "ymd2ord y m d = Suc k" and "1 \<le> y" "1 \<le> m" "m \<le> 12" "1 \<le> d" "d \<le> month_days y m"
    and "k < max_ordinal \<Longrightarrow> y \<le> 9999"
proof -
  obtain a b c e r where p: "k = 146097 * a + 36524 * b + 1461 * c + 365 * e + r"
    "k div 146097 = a" "k mod 146097 div 36524 = b" "k mod 146097 mod 36524 div 1461 = c"
    "k mod 146097 mod 36524 mod 1461 div 365 = e" "k mod 146097 mod 36524 mod 1461 mod 365 = r"
    "b < 4 \<or> b = 4 \<and> c = 0 \<and> e = 0 \<and> r = 0" "c < 25" "e < 4 \<or> e = 4 \<and> r = 0 \<and> c < 24" "r < 365"
    by (rule ordinal_parts)
  note run = assms [unfolded ord2ymd_parts [OF p(1-6)] Let_def]
  have "ymd2ord y m d = Suc k \<and> 1 \<le> y \<and> 1 \<le> m \<and> m \<le> 12 \<and> 1 \<le> d \<and> d \<le> month_days y m \<and>
      (k < max_ordinal \<longrightarrow> y \<le> 9999)"
  proof (cases "e = 4 \<or> b = 4")
    case True
    have last: "y = 400 * a + 100 * b + 4 * c + e" "m = 12" "d = 31" using run True by auto
    show ?thesis
    proof (cases "b = 4")
      case b: True
      then have "y = 400 * a + 100 * 3 + 4 * 24 + 3 + 1" "c = 0" "e = 0" "r = 0" using p(7) last by auto
      with b p(1) last(2,3) days_before_cycles [of 3 24 3 a]
      show ?thesis by (auto simp: ymd2ord_def days_before_month_simps month_days_def days_in_month_def max_ordinal_def)
    next
      case False
      then have "y = 400 * a + 100 * b + 4 * c + 3 + 1" "e = 4" "r = 0" "c < 24" "b < 4"
        using p(7,9) last True by auto
      with p(1) last(2,3) days_before_cycles [of b c 3 a]
      show ?thesis by (auto simp: ymd2ord_def days_before_month_simps month_days_def days_in_month_def max_ordinal_def)
    qed
  next
    case False
    then have small: "b < 4" "c < 25" "e < 4" using p(7-9) by auto
    let ?y = "400 * a + 100 * b + 4 * c + e + 1"
    have y: "y = ?y" and md: "month_from (e = 3 \<and> (c \<noteq> 24 \<or> b = 3)) r ((r + 50) div 32) = (m, d)"
      using run False by (auto split: prod.splits)
    have "32 * ((r + 50) div 32) \<le> r + 50" "r + 50 < 32 * ((r + 50) div 32) + 32" by auto
    note month = month_from_correct [OF p(10) this md]
    note year = days_before_cycles [OF small, of a, folded y]
    show ?thesis
      using month year p(1) small y
      by (auto simp: ymd2ord_def month_days_def max_ordinal_def)
  qed
  then show "ymd2ord y m d = Suc k" "1 \<le> y" "1 \<le> m" "m \<le> 12" "1 \<le> d" "d \<le> month_days y m"
    "k < max_ordinal \<Longrightarrow> y \<le> 9999" by auto
qed

section \<open>The text of a date\<close>

lemma dec_digits_length: "n < 10 ^ Suc k \<Longrightarrow> length (dec_digits n) \<le> Suc k"
proof (induction k arbitrary: n)
  case (Suc k)
  show ?case
  proof (cases "n < 10")
    case False
    have "n div 10 < 10 ^ Suc k" using Suc.prems by (simp add: less_mult_imp_div_less)
    then have "length (dec_digits (n div 10)) \<le> Suc k" by (rule Suc.IH)
    with False show ?thesis by (subst dec_digits.simps) simp
  qed (simp add: dec_digits.simps)
qed (simp add: dec_digits.simps)

lemma zero_pad_length: "n < 10 ^ Suc k \<Longrightarrow> length (zero_pad (Suc k) n) = Suc k"
  using dec_digits_length [of n k] by (simp add: zero_pad_def)

theorem date_roundtrip:
  assumes "1 \<le> d" and "d \<le> int max_ordinal"
  shows "date_fromisoformat (date_isoformat d) = Inr d" and "length (date_isoformat d) = 10"
    and "date_isoformat d ! 4 = CHR ''-''" and "date_isoformat d ! 7 = CHR ''-''"
proof -
  obtain k where k: "nat d = Suc k" "k < max_ordinal" using assms by (cases "nat d") auto
  obtain y m day where run: "ord2ymd (Suc k) = (y, m, day)" by (cases "ord2ymd (Suc k)") auto
  note facts = ymd2ord_ord2ymd [OF run]
  have "month_days y m \<le> 31"
    using facts(3,4) by (auto simp: month_days_def days_in_month_def nth_Cons' split: if_splits)
  then have small: "y < 10 ^ Suc 3" "m < 10 ^ Suc 1" "day < 10 ^ Suc 1"
    using facts(4,6) facts(7) [OF k(2)] by auto
  have len: "length (zero_pad 4 y) = 4" "length (zero_pad 2 m) = 2" "length (zero_pad 2 day) = 2"
    using zero_pad_length [OF small(1)] zero_pad_length [OF small(2)] zero_pad_length [OF small(3)]
    by (simp_all add: numeral_eq_Suc)
  have iso: "date_isoformat d = zero_pad 4 y @ ''-'' @ zero_pad 2 m @ ''-'' @ zero_pad 2 day"
    using k(1) run by (simp add: date_isoformat_def)
  show dash: "length (date_isoformat d) = 10" "date_isoformat d ! 4 = CHR ''-''" "date_isoformat d ! 7 = CHR ''-''"
    unfolding iso using len by (simp_all add: nth_append)
  have parts: "take 4 (date_isoformat d) = zero_pad 4 y" "take 2 (drop 5 (date_isoformat d)) = zero_pad 2 m"
      "drop 8 (date_isoformat d) = zero_pad 2 day"
    unfolding iso using len by simp_all
  have "int (ymd2ord y m day) = d" using facts(1) k(1) assms(1) by simp
  then show "date_fromisoformat (date_isoformat d) = Inr d"
    unfolding date_fromisoformat_def Let_def parts
    using dash facts(2-6) zero_pad_digits by simp
qed

end
