(* ===== verification/Research_Contracts.thy ===== *)
theory Research_Contracts
  imports Ledger Calendar
begin

text \<open>
  The contracts of \<open>research/src/shaurya/research/contracts.py\<close>: features known at an anchor, the target
  measured after it, the evaluation row that joins them, and the identity of a hypothesis. A class is
  a record, its \<open>__post_init__\<close> a list of guarded raises followed by the hash it stores. \<open>fl\<close> and
  \<open>dg\<close> are the float text and the digest of theory \<open>Ledger\<close>; a float is an \<open>fval\<close>.
\<close>

section \<open>Scalars\<close>

text \<open>\<open>a <= b\<close> and \<open>a < b\<close> on floats: false when either is not a number.\<close>

fun fval_le :: "fval \<Rightarrow> fval \<Rightarrow> bool" where
  "fval_le (Finite a) (Finite b) = (a \<le> b)"
| "fval_le (Finite a) (Infinite negative) = (\<not> negative)"
| "fval_le (Infinite negative) (Finite b) = negative"
| "fval_le (Infinite negative) (Infinite negative') = (negative \<or> \<not> negative')"
| "fval_le _ _ = False"

fun fval_less :: "fval \<Rightarrow> fval \<Rightarrow> bool" where
  "fval_less (Finite a) (Finite b) = (a < b)"
| "fval_less (Finite a) (Infinite negative) = (\<not> negative)"
| "fval_less (Infinite negative) (Finite b) = negative"
| "fval_less (Infinite negative) (Infinite negative') = (negative \<and> \<not> negative')"
| "fval_less _ _ = False"

fun is_finite :: "fval \<Rightarrow> bool" where
  "is_finite (Finite x) = True"
| "is_finite _ = False"

text \<open>A float, an optional value and a list of strings as JSON values.\<close>

fun json_fval :: "fval \<Rightarrow> json" where
  "json_fval (Finite x) = JsFloat x"
| "json_fval (Infinite negative) = JsNonFinite (if negative then ''-Infinity'' else ''Infinity'')"
| "json_fval NaN = JsNonFinite ''NaN''"

definition json_opt :: "('a \<Rightarrow> json) \<Rightarrow> 'a option \<Rightarrow> json" where
  "json_opt f x = (case x of None \<Rightarrow> JsNull | Some v \<Rightarrow> f v)"

definition json_strings :: "string list \<Rightarrow> json" where
  "json_strings ss = JsArray (map JsStr ss)"

section \<open>Features\<close>

record feature_value =
  fv_feature_id :: string
  fv_value :: "fval option"
  fv_available_ts_ns :: "int option"

definition finite_optional :: "fval option \<Rightarrow> string \<Rightarrow> exn option" where
  "finite_optional v label =
     (if v \<noteq> None \<and> \<not> is_finite (the v)
      then Some (ValueError (label @ '' must be finite when present'')) else None)"

definition feature_value_checks :: "feature_value \<Rightarrow> exn option" where
  "feature_value_checks v =
     (if fv_feature_id v = [] then Some (ValueError ''feature_id is required'')
      else case finite_optional (fv_value v) (fv_feature_id v) of
        Some x \<Rightarrow> Some x
      | None \<Rightarrow>
          if fv_value v \<noteq> None \<and> fv_available_ts_ns v = None
          then Some (ValueError ''a non-missing feature requires an availability timestamp'') else None)"

record feature_observation =
  fo_observation_id :: string
  fo_session_date :: date
  fo_anchor_ts_ns :: int
  fo_connection_epoch :: int
  fo_registry_version :: string
  fo_source_dataset_id :: string
  fo_source_sha256 :: string
  fo_values :: "feature_value list"
  fo_instrument_id :: string
  fo_channel :: string
  fo_connection_id :: string
  fo_break_segment :: int
  fo_reference_midpoint :: "fval option"
  fo_tick_size :: "fval option"
  fo_spread_price :: "fval option"
  fo_feature_run_hash :: string

definition some_but_not_all :: "string list \<Rightarrow> bool" where
  "some_but_not_all ss \<longleftrightarrow> list_ex (\<lambda>s. s \<noteq> []) ss \<and> list_ex (\<lambda>s. s = []) ss"

definition available_late :: "int \<Rightarrow> feature_value \<Rightarrow> bool" where
  "available_late anchor v = (case fv_available_ts_ns v of None \<Rightarrow> False | Some t \<Rightarrow> anchor < t)"

text \<open>\<open>value is not None and (not isfinite(value) or value <= 0)\<close>.\<close>

definition not_positive :: "fval option \<Rightarrow> bool" where
  "not_positive v = (case v of None \<Rightarrow> False | Some x \<Rightarrow> \<not> is_finite x \<or> fval_le x (Finite 0))"

definition feature_checks :: "feature_observation \<Rightarrow> (bool \<times> exn) list" where
  "feature_checks f =
     (let names = map fv_feature_id (fo_values f);
          late = filter (available_late (fo_anchor_ts_ns f)) (fo_values f) in
      [(fo_observation_id f = [] \<or> fo_registry_version f = [] \<or> fo_source_dataset_id f = [],
        ValueError ''observation, registry and source identities are required''),
       (length (fo_source_sha256 f) \<noteq> 64, ValueError ''source_sha256 must be a SHA-256 digest''),
       (some_but_not_all [fo_instrument_id f, fo_channel f, fo_connection_id f],
        ValueError ''feature instrument, channel, and connection identities must be supplied together''),
       (fo_break_segment f < 0, ValueError ''feature break segment cannot be negative''),
       (not_positive (fo_reference_midpoint f),
        ValueError ''feature reference midpoint must be finite and positive''),
       (not_positive (fo_tick_size f), ValueError ''feature tick size must be finite and positive''),
       (not_positive (fo_spread_price f), ValueError ''feature spread price must be finite and positive''),
       ((fo_tick_size f = None) \<noteq> (fo_spread_price f = None),
        ValueError ''feature tick size and spread price must be retained together''),
       (\<not> distinct names, ValueError ''feature observation contains duplicate features''),
       (names \<noteq> sort names, ValueError ''feature values must be sorted by stable feature_id''),
       (late \<noteq> [], ValueError (''feature '' @ fv_feature_id (hd late) @ '' is available after the anchor''))])"

definition feature_value_json :: "feature_value \<Rightarrow> json" where
  "feature_value_json v =
     JsObject [(''feature_id'', JsStr (fv_feature_id v)), (''value'', json_opt json_fval (fv_value v)),
       (''available_ts_ns'', json_opt JsInt (fv_available_ts_ns v))]"

definition identity_payload :: "feature_observation \<Rightarrow> json" where
  "identity_payload f =
     JsObject
       [(''observation_id'', JsStr (fo_observation_id f)),
        (''session_date'', JsStr (date_isoformat (fo_session_date f))),
        (''anchor_ts_ns'', JsInt (fo_anchor_ts_ns f)), (''connection_epoch'', JsInt (fo_connection_epoch f)),
        (''registry_version'', JsStr (fo_registry_version f)),
        (''source_dataset_id'', JsStr (fo_source_dataset_id f)), (''source_sha256'', JsStr (fo_source_sha256 f)),
        (''instrument_id'', JsStr (fo_instrument_id f)), (''channel'', JsStr (fo_channel f)),
        (''connection_id'', JsStr (fo_connection_id f)), (''break_segment'', JsInt (fo_break_segment f)),
        (''reference_midpoint'', json_opt json_fval (fo_reference_midpoint f)),
        (''tick_size'', json_opt json_fval (fo_tick_size f)),
        (''spread_price'', json_opt json_fval (fo_spread_price f)),
        (''values'', JsArray (map feature_value_json (fo_values f)))]"

definition feature_post_init ::
  "float_codec \<Rightarrow> (string \<Rightarrow> string) \<Rightarrow> feature_observation \<Rightarrow> feature_observation result" where
  "feature_post_init fl dg f =
     (case first_error (feature_checks f) of
        Some x \<Rightarrow> Inl x
      | None \<Rightarrow> bind_result (canonical_sha256 fl dg (identity_payload f)) (\<lambda>h. Inr (f\<lparr>fo_feature_run_hash := h\<rparr>)))"

text \<open>\<open>immutable_feature_values\<close>: the dicts have distinct keys; the values are constructed, hence checked,
  in ascending order of their names.\<close>

definition immutable_feature_values ::
  "(string \<times> fval option) list \<Rightarrow> (string \<times> int option) list \<Rightarrow> feature_value list result" where
  "immutable_feature_values vals availability =
     (if set (map fst vals) \<noteq> set (map fst availability)
      then Inl (ValueError ''feature values and availability must have identical names'')
      else map_result (\<lambda>name.
          let v = \<lparr>fv_feature_id = name, fv_value = the (map_of vals name),
                   fv_available_ts_ns = the (map_of availability name)\<rparr>
          in case feature_value_checks v of Some x \<Rightarrow> Inl x | None \<Rightarrow> Inr v)
        (sort (map fst vals)))"

definition value_map :: "feature_observation \<Rightarrow> string \<rightharpoonup> fval option" where
  "value_map f = map_of (map (\<lambda>v. (fv_feature_id v, fv_value v)) (fo_values f))"

definition require_unique_strings :: "string list \<Rightarrow> string \<Rightarrow> string list result" where
  "require_unique_strings vals label =
     (if vals = [] \<or> list_ex (\<lambda>s. s = []) vals \<or> \<not> distinct vals
      then Inl (ValueError (label @ '' must be non-empty and unique'')) else Inr vals)"

section \<open>Targets and evaluation rows\<close>

record target_observation =
  to_observation_id :: string
  to_target_id :: string
  to_session_date :: date
  to_interval_start_ts_ns :: int
  to_interval_end_ts_ns :: int
  to_available_ts_ns :: int
  to_value :: "fval option"
  to_registry_version :: string
  to_source_dataset_id :: string
  to_source_sha256 :: string
  to_instrument_id :: string
  to_channel :: string
  to_connection_id :: string
  to_connection_epoch :: int
  to_break_segment :: int
  to_target_run_hash :: string

definition target_checks :: "target_observation \<Rightarrow> (bool \<times> exn) list" where
  "target_checks t =
     [(to_interval_end_ts_ns t \<le> to_interval_start_ts_ns t, ValueError ''target interval must be non-empty''),
      (to_available_ts_ns t < to_interval_end_ts_ns t,
       ValueError ''target cannot be available before its interval ends''),
      (finite_optional (to_value t) (to_target_id t) \<noteq> None,
       ValueError (to_target_id t @ '' must be finite when present'')),
      ((to_source_dataset_id t \<noteq> []) \<noteq> (to_source_sha256 t \<noteq> []),
       ValueError ''target source dataset and SHA-256 must be supplied together''),
      (to_source_sha256 t \<noteq> [] \<and> length (to_source_sha256 t) \<noteq> 64,
       ValueError ''target source_sha256 must be a SHA-256 digest''),
      (some_but_not_all [to_instrument_id t, to_channel t, to_connection_id t],
       ValueError ''target instrument, channel, and connection identities must be supplied together''),
      (to_connection_epoch t < 0 \<or> to_break_segment t < 0,
       ValueError ''target connection epoch and break segment cannot be negative'')]"

definition target_payload :: "target_observation \<Rightarrow> json" where
  "target_payload t =
     JsObject
       [(''observation_id'', JsStr (to_observation_id t)), (''target_id'', JsStr (to_target_id t)),
        (''session_date'', JsStr (date_isoformat (to_session_date t))),
        (''interval_start_ts_ns'', JsInt (to_interval_start_ts_ns t)),
        (''interval_end_ts_ns'', JsInt (to_interval_end_ts_ns t)),
        (''available_ts_ns'', JsInt (to_available_ts_ns t)), (''value'', json_opt json_fval (to_value t)),
        (''registry_version'', JsStr (to_registry_version t)),
        (''source_dataset_id'', JsStr (to_source_dataset_id t)), (''source_sha256'', JsStr (to_source_sha256 t)),
        (''instrument_id'', JsStr (to_instrument_id t)), (''channel'', JsStr (to_channel t)),
        (''connection_id'', JsStr (to_connection_id t)), (''connection_epoch'', JsInt (to_connection_epoch t)),
        (''break_segment'', JsInt (to_break_segment t))]"

definition target_post_init ::
  "float_codec \<Rightarrow> (string \<Rightarrow> string) \<Rightarrow> target_observation \<Rightarrow> target_observation result" where
  "target_post_init fl dg t =
     (case first_error (target_checks t) of
        Some x \<Rightarrow> Inl x
      | None \<Rightarrow> bind_result (canonical_sha256 fl dg (target_payload t)) (\<lambda>h. Inr (t\<lparr>to_target_run_hash := h\<rparr>)))"

record evaluation_row =
  ev_feature :: feature_observation
  ev_target :: target_observation

definition evaluation_checks :: "evaluation_row \<Rightarrow> (bool \<times> exn) list" where
  "evaluation_checks r =
     (let f = ev_feature r; t = ev_target r in
      [(fo_observation_id f \<noteq> to_observation_id t, ValueError ''feature and target observation IDs differ''),
       (fo_session_date f \<noteq> to_session_date t, ValueError ''feature and target sessions differ''),
       (to_interval_start_ts_ns t < fo_anchor_ts_ns f,
        ValueError ''target cannot start before the feature anchor''),
       (fo_source_dataset_id f = [] \<or> to_source_dataset_id t = [],
        ValueError ''feature/target join requires non-empty canonical source identities''),
       (fo_source_dataset_id f \<noteq> to_source_dataset_id t, ValueError ''feature and target source datasets differ''),
       (fo_source_sha256 f \<noteq> to_source_sha256 t, ValueError ''feature and target source hashes differ''),
       (fo_instrument_id f \<noteq> [] \<and>
          (fo_instrument_id f, fo_channel f, fo_connection_id f, fo_connection_epoch f, fo_break_segment f) \<noteq>
          (to_instrument_id t, to_channel t, to_connection_id t, to_connection_epoch t, to_break_segment t),
        ValueError ''feature and target discontinuity identities differ'')])"

definition evaluation_post_init :: "evaluation_row \<Rightarrow> evaluation_row result" where
  "evaluation_post_init r = (case first_error (evaluation_checks r) of Some x \<Rightarrow> Inl x | None \<Rightarrow> Inr r)"

section \<open>Hypotheses\<close>

text \<open>The names of \<open>hd_regularization\<close> are distinct, so sorting its pairs never compares their values.\<close>

record hypothesis_definition =
  hd_display_name :: string
  hd_family :: string
  hd_predictor_feature_ids :: "string list"
  hd_target_id :: string
  hd_target_horizon_seconds :: fval
  hd_conditioning_variables :: "string list"
  hd_admissible_regime :: string
  hd_model_class :: string
  hd_fitting_window_sessions :: int
  hd_training_cadence_seconds :: fval
  hd_regularization :: "(string \<times> json) list"
  hd_evaluation_metric :: string
  hd_transaction_cost_relevance :: string
  hd_first_registration_date :: date
  hd_registry_version :: string
  hd_sampling_clock :: string
  hd_pooling_coordinate :: string
  hd_selection_method :: string
  hd_selection_threshold :: fval
  hd_minimum_observations :: int
  hd_minimum_effective_sample_size :: fval
  hd_hypothesis_id :: string

definition hypothesis_checks :: "hypothesis_definition \<Rightarrow> (bool \<times> exn) list" where
  "hypothesis_checks h =
     [(hd_predictor_feature_ids h = [], ValueError ''a hypothesis requires at least one predictor''),
      (\<not> distinct (hd_predictor_feature_ids h), ValueError ''hypothesis predictors must be unique''),
      (\<not> distinct (hd_conditioning_variables h),
       ValueError ''hypothesis conditioning variables must be unique''),
      (set (hd_predictor_feature_ids h) \<inter> set (hd_conditioning_variables h) \<noteq> {},
       ValueError ''conditioning variables cannot duplicate predictors''),
      (fval_le (hd_target_horizon_seconds h) (Finite 0) \<or> hd_fitting_window_sessions h < 1,
       ValueError ''target horizon and fitting window must be positive''),
      (fval_le (hd_training_cadence_seconds h) (Finite 0), ValueError ''training cadence must be positive''),
      (hd_sampling_clock h = [] \<or> hd_pooling_coordinate h = [] \<or> hd_selection_method h = [],
       ValueError ''clock, pooling coordinate and selection method are required''),
      (\<not> (fval_le (Finite 0) (hd_selection_threshold h) \<and> fval_le (hd_selection_threshold h) (Finite 1)),
       ValueError ''selection threshold must lie in [0,1]''),
      (hd_minimum_observations h < 1, ValueError ''minimum observations must be positive''),
      (\<not> (fval_less (Finite 0) (hd_minimum_effective_sample_size h) \<and>
          fval_le (hd_minimum_effective_sample_size h) (Finite (of_int (hd_minimum_observations h)))),
       ValueError ''minimum effective sample size must lie within observations'')]"

definition semantic_payload :: "hypothesis_definition \<Rightarrow> json" where
  "semantic_payload h =
     JsObject
       [(''family'', JsStr (hd_family h)),
        (''predictor_feature_ids'', json_strings (sort (hd_predictor_feature_ids h))),
        (''target_id'', JsStr (hd_target_id h)),
        (''target_horizon_seconds'', json_fval (hd_target_horizon_seconds h)),
        (''conditioning_variables'', json_strings (sort (hd_conditioning_variables h))),
        (''admissible_regime'', JsStr (hd_admissible_regime h)), (''model_class'', JsStr (hd_model_class h)),
        (''fitting_window_sessions'', JsInt (hd_fitting_window_sessions h)),
        (''training_cadence_seconds'', json_fval (hd_training_cadence_seconds h)),
        (''regularization'',
           JsArray (map (\<lambda>(k, v). JsArray [JsStr k, v]) (sort_key fst (hd_regularization h)))),
        (''evaluation_metric'', JsStr (hd_evaluation_metric h)),
        (''transaction_cost_relevance'', JsStr (hd_transaction_cost_relevance h)),
        (''sampling_clock'', JsStr (hd_sampling_clock h)),
        (''pooling_coordinate'', JsStr (hd_pooling_coordinate h)),
        (''selection_method'', JsStr (hd_selection_method h)),
        (''selection_threshold'', json_fval (hd_selection_threshold h)),
        (''minimum_observations'', JsInt (hd_minimum_observations h)),
        (''minimum_effective_sample_size'', json_fval (hd_minimum_effective_sample_size h))]"

definition hypothesis_post_init ::
  "float_codec \<Rightarrow> (string \<Rightarrow> string) \<Rightarrow> hypothesis_definition \<Rightarrow> hypothesis_definition result" where
  "hypothesis_post_init fl dg h =
     (case first_error (hypothesis_checks h) of
        Some x \<Rightarrow> Inl x
      | None \<Rightarrow>
          bind_result (canonical_sha256 fl dg (semantic_payload h))
            (\<lambda>s. Inr (h\<lparr>hd_hypothesis_id := ''alpha-'' @ take 24 s\<rparr>)))"

section \<open>Lookahead\<close>

lemma feature_post_initE:
  assumes "feature_post_init fl dg f = Inr g"
  obtains h where "list_all (\<lambda>(bad, e). \<not> bad) (feature_checks f)"
    "canonical_sha256 fl dg (identity_payload f) = Inr h" "g = f\<lparr>fo_feature_run_hash := h\<rparr>"
  using assms by (auto simp: feature_post_init_def bind_result_Inr first_error_None list_all_iff split: option.splits)

lemma target_post_initE:
  assumes "target_post_init fl dg t = Inr g"
  obtains h where "list_all (\<lambda>(bad, e). \<not> bad) (target_checks t)"
    "canonical_sha256 fl dg (target_payload t) = Inr h" "g = t\<lparr>to_target_run_hash := h\<rparr>"
  using assms by (auto simp: target_post_init_def bind_result_Inr first_error_None list_all_iff split: option.splits)


text \<open>The values that \<open>immutable_feature_values\<close> builds from two dicts pass the name checks of an observation,
  and the observation reads back the dict of values.\<close>

lemma immutable_values_accepted:
  assumes "immutable_feature_values vals availability = Inr vs" and "distinct (map fst vals)"
  shows "map fv_feature_id vs = sort (map fst vals)" "distinct (map fv_feature_id vs)"
    and "list_all (\<lambda>v. feature_value_checks v = None) vs"
    and "fo_values f = vs \<Longrightarrow> value_map f = map_of vals"
proof -
  let ?names = "sort (map fst vals)"
  have built: "list_all2 (\<lambda>name v. fv_feature_id v = name \<and> fv_value v = the (map_of vals name) \<and>
      feature_value_checks v = None) ?names vs"
    using assms(1) unfolding immutable_feature_values_def
    by (auto simp: map_result_Inr Let_def split: if_splits option.splits elim!: list_all2_mono)
  then have "list_all2 (=) ?names (map fv_feature_id vs)"
    unfolding list.rel_map by (rule list_all2_mono) simp
  then show names: "map fv_feature_id vs = ?names" by (simp add: list.rel_eq)
  then show "distinct (map fv_feature_id vs)" using assms(2) by simp
  show "list_all (\<lambda>v. feature_value_checks v = None) vs"
    using built by (auto simp: list_all_length list_all2_conv_all_nth)
  assume f: "fo_values f = vs"
  have "list_all2 (=) (map (\<lambda>name. (name, the (map_of vals name))) ?names) (map (\<lambda>v. (fv_feature_id v, fv_value v)) vs)"
    unfolding list.rel_map using built by (rule list_all2_mono) simp
  then have pairs: "map (\<lambda>v. (fv_feature_id v, fv_value v)) vs = map (\<lambda>name. (name, the (map_of vals name))) ?names"
    by (simp add: list.rel_eq)
  have "value_map f k = map_of vals k" for k
  proof (cases "k \<in> set (map fst vals)")
    case True
    then obtain x where "map_of vals k = Some x" by (auto simp: map_of_eq_None_iff dest: weak_map_of_SomeI)
    with True show ?thesis by (simp add: value_map_def f pairs map_of_map_restrict restrict_map_def)
  next
    case False
    then have "map_of vals k = None" unfolding map_of_eq_None_iff by simp
    with False show ?thesis by (simp add: value_map_def f pairs map_of_map_restrict restrict_map_def)
  qed
  then show "value_map f = map_of vals" by blast
qed

text \<open>A feature known ten nanoseconds before its anchor, and the return of the interval after it.\<close>

definition example_feature :: feature_observation where
  "example_feature =
     \<lparr>fo_observation_id = ''o1'', fo_session_date = 739854, fo_anchor_ts_ns = 100, fo_connection_epoch = 1,
      fo_registry_version = ''v1'', fo_source_dataset_id = ''d1'', fo_source_sha256 = replicate 64 (CHR ''a''),
      fo_values = [\<lparr>fv_feature_id = ''ofi'', fv_value = Some (Finite (1 / 2)), fv_available_ts_ns = Some 90\<rparr>],
      fo_instrument_id = ''i1'', fo_channel = ''quote'', fo_connection_id = ''c1'', fo_break_segment = 0,
      fo_reference_midpoint = None, fo_tick_size = None, fo_spread_price = None, fo_feature_run_hash = []\<rparr>"

definition example_target :: target_observation where
  "example_target =
     \<lparr>to_observation_id = ''o1'', to_target_id = ''return'', to_session_date = 739854,
      to_interval_start_ts_ns = 100, to_interval_end_ts_ns = 200, to_available_ts_ns = 210,
      to_value = Some (Finite (1 / 2)), to_registry_version = ''v1'', to_source_dataset_id = ''d1'',
      to_source_sha256 = replicate 64 (CHR ''a''), to_instrument_id = ''i1'', to_channel = ''quote'',
      to_connection_id = ''c1'', to_connection_epoch = 1, to_break_segment = 0, to_target_run_hash = []\<rparr>"

lemma example_half: "float_ok example_floats (1 / 2)"
  by code_simp

lemma example_join_json:
  "json_ok example_floats (identity_payload example_feature)"
  "json_ok example_floats (target_payload example_target)"
  using example_half
  by (simp_all add: identity_payload_def target_payload_def feature_value_json_def json_opt_def
      example_feature_def example_target_def)

lemma example_join_ok:
  "first_error (feature_checks example_feature) = None" "first_error (target_checks example_target) = None"
  "list_all (\<lambda>v. feature_value_checks v = None) (fo_values example_feature)"
  by code_simp+

lemma example_join_checks:
  "evaluation_post_init \<lparr>ev_feature = example_feature\<lparr>fo_feature_run_hash := h\<rparr>,
     ev_target = example_target\<lparr>to_target_run_hash := k\<rparr>\<rparr> =
   Inr \<lparr>ev_feature = example_feature\<lparr>fo_feature_run_hash := h\<rparr>,
     ev_target = example_target\<lparr>to_target_run_hash := k\<rparr>\<rparr>"
  by (simp add: evaluation_post_init_def evaluation_checks_def example_feature_def example_target_def)


section \<open>The identity of a hypothesis\<close>

text \<open>Two definitions of the same statistical atom: predictors and conditions as sets, the penalty
  parameters in any order; the display name, the registration date and the registry version do not
  count.\<close>

definition same_semantics :: "hypothesis_definition \<Rightarrow> hypothesis_definition \<Rightarrow> bool" where
  "same_semantics h g \<longleftrightarrow>
     hd_family h = hd_family g \<and> set (hd_predictor_feature_ids h) = set (hd_predictor_feature_ids g) \<and>
     hd_target_id h = hd_target_id g \<and> hd_target_horizon_seconds h = hd_target_horizon_seconds g \<and>
     set (hd_conditioning_variables h) = set (hd_conditioning_variables g) \<and>
     hd_admissible_regime h = hd_admissible_regime g \<and> hd_model_class h = hd_model_class g \<and>
     hd_fitting_window_sessions h = hd_fitting_window_sessions g \<and>
     hd_training_cadence_seconds h = hd_training_cadence_seconds g \<and>
     set (map_values canonical_value (hd_regularization h)) =
       set (map_values canonical_value (hd_regularization g)) \<and>
     hd_evaluation_metric h = hd_evaluation_metric g \<and>
     hd_transaction_cost_relevance h = hd_transaction_cost_relevance g \<and>
     hd_sampling_clock h = hd_sampling_clock g \<and> hd_pooling_coordinate h = hd_pooling_coordinate g \<and>
     hd_selection_method h = hd_selection_method g \<and> hd_selection_threshold h = hd_selection_threshold g \<and>
     hd_minimum_observations h = hd_minimum_observations g \<and>
     hd_minimum_effective_sample_size h = hd_minimum_effective_sample_size g"

lemma same_keys_eq:
  "map fst ps = map fst qs \<Longrightarrow> distinct (map fst ps) \<Longrightarrow> (\<And>k. map_of ps k = map_of qs k) \<Longrightarrow> ps = qs"
proof (induction ps arbitrary: qs)
  case (Cons p ps)
  then obtain q qs' where qs: "qs = q # qs'" and keys: "fst p = fst q" "map fst ps = map fst qs'" by (cases qs) auto
  have "map_of ps k = map_of qs' k" for k
  proof (cases "k = fst p")
    case True
    have "fst p \<notin> set (map fst ps)" "fst p \<notin> set (map fst qs')" using Cons.prems(2) keys by auto
    then have "map_of ps (fst p) = None" "map_of qs' (fst p) = None" unfolding map_of_eq_None_iff by simp_all
    then show ?thesis using True by simp
  next
    case False
    then show ?thesis using Cons.prems(3) [of k] keys(1) qs by (cases p; cases q) auto
  qed
  then have "ps = qs'" using Cons.IH keys(2) Cons.prems(2) by simp
  moreover have "snd p = snd q" using Cons.prems(3) [of "fst p"] keys(1) qs by (cases p; cases q) auto
  ultimately show ?case using keys(1) qs by (simp add: prod_eq_iff)
qed simp

lemma same_object:
  assumes "canonical_value (JsObject ps) = canonical_value (JsObject qs)"
    and "map fst ps = map fst qs" and "distinct (map fst ps)"
  shows "map_values canonical_value ps = map_values canonical_value qs"
proof (rule same_keys_eq)
  show "map_of (map_values canonical_value ps) k = map_of (map_values canonical_value qs) k" for k
    using assms map_of_canonical [of ps k] map_of_canonical [of qs k] by (simp add: map_of_map_values)
qed (use assms in simp_all)

lemma canonical_scalars [simp]:
  "canonical_value (json_fval x) = json_fval x" "canonical_value (json_strings ss) = json_strings ss"
  by (cases x) (simp_all add: json_strings_def comp_def)

lemma json_fval_inj [simp]: "json_fval x = json_fval y \<longleftrightarrow> x = y"
  by (cases x; cases y) auto

lemma json_strings_inj [simp]: "json_strings ss = json_strings ts \<longleftrightarrow> ss = ts"
  by (simp add: json_strings_def inj_map_eq_map inj_def)

lemma sort_distinct_eq: "distinct xs \<Longrightarrow> distinct ys \<Longrightarrow> sort xs = sort ys \<longleftrightarrow> set xs = set ys"
  by (metis distinct_sort set_sort sorted_distinct_set_unique sorted_sort)

lemma sort_pairs_eq:
  assumes "distinct (map fst ps)" "distinct (map fst qs)"
  shows "sort_key fst ps = sort_key fst qs \<longleftrightarrow> set ps = set qs"
proof
  assume "sort_key fst ps = sort_key fst qs"
  then have "set (sort_key fst ps) = set (sort_key fst qs)" by simp
  then show "set ps = set qs" by simp
next
  assume same: "set ps = set qs"
  have "distinct (map fst (sort_key fst xs))" if "distinct (map fst xs)" for xs :: "('a \<times> 'b) list"
    using that by (simp add: distinct_map)
  moreover have "inj_on fst (set ps)" using assms(1) by (simp add: distinct_map)
  ultimately show "sort_key fst ps = sort_key fst qs"
    using assms same by (intro map_sorted_distinct_set_unique [of fst]) simp_all
qed

lemma canonical_pairs:
  "canonical_value (JsArray (map (\<lambda>(k, v). JsArray [JsStr k, v]) ps)) =
    canonical_value (JsArray (map (\<lambda>(k, v). JsArray [JsStr k, v]) qs)) \<longleftrightarrow>
   map_values canonical_value ps = map_values canonical_value qs"
proof -
  have "canonical_value (JsArray (map (\<lambda>(k, v). JsArray [JsStr k, v]) ps)) =
      JsArray (map (\<lambda>(k, v). JsArray [JsStr k, v]) (map_values canonical_value ps))" for ps
    by (auto simp: map_values_def)
  moreover have "inj (\<lambda>(k, v). JsArray [JsStr k, v])" by (auto simp: inj_def)
  ultimately show ?thesis by (simp add: inj_map_eq_map)
qed

lemma canonical_sorted_eq:
  assumes "distinct (map fst ps)" "distinct (map fst qs)"
  shows "map_values canonical_value (sort_key fst ps) = map_values canonical_value (sort_key fst qs) \<longleftrightarrow>
    set (map_values canonical_value ps) = set (map_values canonical_value qs)"
  using sort_pairs_eq [of "map_values canonical_value ps" "map_values canonical_value qs"] assms by simp

lemma semantic_payload_eq:
  assumes "distinct (hd_predictor_feature_ids h)" "distinct (hd_conditioning_variables h)"
    and "distinct (hd_predictor_feature_ids g)" "distinct (hd_conditioning_variables g)"
    and "distinct (map fst (hd_regularization h))" "distinct (map fst (hd_regularization g))"
  shows "canonical_value (semantic_payload h) = canonical_value (semantic_payload g) \<longleftrightarrow> same_semantics h g"
proof
  let ?fields = "\<lambda>h. case semantic_payload h of JsObject ps \<Rightarrow> ps | _ \<Rightarrow> []"
  have payload: "semantic_payload h = JsObject (?fields h)" for h by (simp add: semantic_payload_def)
  have keys: "map fst (?fields h) = map fst (?fields g)" "distinct (map fst (?fields h))"
    by (simp_all add: semantic_payload_def)
  assume "canonical_value (semantic_payload h) = canonical_value (semantic_payload g)"
  then have "map_values canonical_value (?fields h) = map_values canonical_value (?fields g)"
    using keys by (subst (asm) (1 2) payload) (rule same_object)
  then show "same_semantics h g"
    using assms by (simp add: semantic_payload_def same_semantics_def sort_distinct_eq canonical_pairs canonical_sorted_eq
        del: canonical_value.simps(1))
next
  assume same: "same_semantics h g"
  then have "sort (hd_predictor_feature_ids h) = sort (hd_predictor_feature_ids g)"
      "sort (hd_conditioning_variables h) = sort (hd_conditioning_variables g)"
    using assms by (simp_all add: same_semantics_def sort_distinct_eq)
  moreover have "canonical_value (JsArray (map (\<lambda>(k, v). JsArray [JsStr k, v]) (sort_key fst (hd_regularization h)))) =
      canonical_value (JsArray (map (\<lambda>(k, v). JsArray [JsStr k, v]) (sort_key fst (hd_regularization g))))"
    unfolding canonical_pairs using same assms(5,6) by (simp add: same_semantics_def canonical_sorted_eq)
  ultimately show "canonical_value (semantic_payload h) = canonical_value (semantic_payload g)"
    using same by (simp add: semantic_payload_def same_semantics_def del: canonical_value.simps(1))
qed

lemma json_text_eq:
  assumes "json_ok fl v" "json_ok fl w"
  shows "json_text fl v = json_text fl w \<longleftrightarrow> canonical_value v = canonical_value w"
  by (metis assms json_loads_text json_text_canonical sum.inject(2))

lemma hypothesis_accepted:
  assumes "hypothesis_post_init fl dg h0 = Inr h" and "json_ok fl (semantic_payload h0)"
  shows "h = h0\<lparr>hd_hypothesis_id := ''alpha-'' @ take 24 (dg (json_text fl (semantic_payload h0)))\<rparr>"
    and "hd_predictor_feature_ids h \<noteq> []"
    and "distinct (hd_predictor_feature_ids h0)" "distinct (hd_conditioning_variables h0)"
    and "distinct (hd_predictor_feature_ids h @ hd_conditioning_variables h)"
    and "fval_le (Finite 0) (hd_selection_threshold h)" "fval_le (hd_selection_threshold h) (Finite 1)"
    and "fval_less (Finite 0) (hd_minimum_effective_sample_size h)"
    and "fval_le (hd_minimum_effective_sample_size h) (Finite (of_int (hd_minimum_observations h)))"
proof -
  have none: "first_error (hypothesis_checks h0) = None"
    using assms(1) by (simp add: hypothesis_post_init_def split: option.splits)
  note checks = none [unfolded first_error_None hypothesis_checks_def, simplified]
  show h: "h = h0\<lparr>hd_hypothesis_id := ''alpha-'' @ take 24 (dg (json_text fl (semantic_payload h0)))\<rparr>"
    using assms none by (simp add: hypothesis_post_init_def canonical_sha256_def)
  show "hd_predictor_feature_ids h \<noteq> []" "distinct (hd_predictor_feature_ids h0)"
      "distinct (hd_conditioning_variables h0)"
      "distinct (hd_predictor_feature_ids h @ hd_conditioning_variables h)"
      "fval_le (Finite 0) (hd_selection_threshold h)" "fval_le (hd_selection_threshold h) (Finite 1)"
      "fval_less (Finite 0) (hd_minimum_effective_sample_size h)"
      "fval_le (hd_minimum_effective_sample_size h) (Finite (of_int (hd_minimum_observations h)))"
    using checks by (simp_all add: h)
qed

text \<open>C15: the identity of a hypothesis is its statistical meaning. Two accepted hypotheses that differ only
  in display name, registration date, registry version, or the order of predictors, conditions and
  penalty parameters have the same ID; two whose 24 digest digits do not collide and that differ
  in anything else have different IDs. Acceptance changes no other field and implies a predictor, disjoint duplicate-free
  predictors and conditions, a threshold in the unit interval, and an effective sample size
  between zero and the observations.\<close>

theorem hypothesis_identity:
  assumes "hypothesis_post_init fl dg h0 = Inr h" and "hypothesis_post_init fl dg g0 = Inr g"
    and "json_ok fl (semantic_payload h0)" and "json_ok fl (semantic_payload g0)"
    and "distinct (map fst (hd_regularization h0))" and "distinct (map fst (hd_regularization g0))"
    and "inj_on (\<lambda>s. take 24 (dg s))
      {json_text fl (semantic_payload h0), json_text fl (semantic_payload g0)}"
  shows "(hd_hypothesis_id h = hd_hypothesis_id g \<longleftrightarrow> same_semantics h g) \<and>
    h = h0\<lparr>hd_hypothesis_id := hd_hypothesis_id h\<rparr> \<and>
    hd_predictor_feature_ids h \<noteq> [] \<and>
    distinct (hd_predictor_feature_ids h @ hd_conditioning_variables h) \<and>
    fval_le (Finite 0) (hd_selection_threshold h) \<and> fval_le (hd_selection_threshold h) (Finite 1) \<and>
    fval_less (Finite 0) (hd_minimum_effective_sample_size h) \<and>
    fval_le (hd_minimum_effective_sample_size h) (Finite (of_int (hd_minimum_observations h)))"
proof -
  let ?text = "\<lambda>x. json_text fl (semantic_payload x)"
  note h = hypothesis_accepted [OF assms(1,3)] and g = hypothesis_accepted [OF assms(2,4)]
  have "hd_hypothesis_id h = hd_hypothesis_id g \<longleftrightarrow> take 24 (dg (?text h0)) = take 24 (dg (?text g0))"
    using h(1) g(1) by simp
  also have "\<dots> \<longleftrightarrow> ?text h0 = ?text g0"
    using inj_onD [OF assms(7), of "?text h0" "?text g0"] by fastforce
  also have "\<dots> \<longleftrightarrow> canonical_value (semantic_payload h0) = canonical_value (semantic_payload g0)"
    by (rule json_text_eq [OF assms(3,4)])
  also have "\<dots> \<longleftrightarrow> same_semantics h0 g0"
    using h(3,4) g(3,4) assms(5,6) by (intro semantic_payload_eq) simp_all
  also have "\<dots> \<longleftrightarrow> same_semantics h g" using h(1) g(1) by (simp add: same_semantics_def)
  finally show ?thesis using h by simp
qed

text \<open>An alias of a hypothesis, and the same hypothesis for another regime.\<close>

definition example_hypothesis :: "string \<Rightarrow> string list \<Rightarrow> string \<Rightarrow> hypothesis_definition" where
  "example_hypothesis name predictors regime =
     \<lparr>hd_display_name = name, hd_family = ''flow'', hd_predictor_feature_ids = predictors,
      hd_target_id = ''return'', hd_target_horizon_seconds = Finite (1 / 2), hd_conditioning_variables = [''spread''],
      hd_admissible_regime = regime, hd_model_class = ''ridge'', hd_fitting_window_sessions = 5,
      hd_training_cadence_seconds = Finite (1 / 2), hd_regularization = [(''alpha'', JsFloat (1 / 2))],
      hd_evaluation_metric = ''oos'', hd_transaction_cost_relevance = ''none'', hd_first_registration_date = 739854,
      hd_registry_version = ''v1'', hd_sampling_clock = ''calendar_1s'', hd_pooling_coordinate = ''instrument'',
      hd_selection_method = ''nested_past_only'', hd_selection_threshold = Finite (1 / 2),
      hd_minimum_observations = 100, hd_minimum_effective_sample_size = Finite (1 / 2), hd_hypothesis_id = []\<rparr>"

lemma example_hypothesis_ok:
  "json_ok example_floats (semantic_payload (example_hypothesis ''a'' [''ofi'', ''depth''] ''open''))"
  "json_ok example_floats (semantic_payload (example_hypothesis ''b'' [''depth'', ''ofi''] ''open''))"
  "json_ok example_floats (semantic_payload (example_hypothesis ''a'' [''ofi'', ''depth''] ''close''))"
  by code_simp+

theorem hypothesis_identity_witness:
  "\<exists>a b c. hypothesis_post_init example_floats id (example_hypothesis ''a'' [''ofi'', ''depth''] ''open'') = Inr a \<and>
     hypothesis_post_init example_floats id (example_hypothesis ''b'' [''depth'', ''ofi''] ''open'') = Inr b \<and>
     hypothesis_post_init example_floats id (example_hypothesis ''a'' [''ofi'', ''depth''] ''close'') = Inr c \<and>
     hd_hypothesis_id a = hd_hypothesis_id b \<and> hd_hypothesis_id a \<noteq> hd_hypothesis_id c"
proof -
  let ?a = "example_hypothesis ''a'' [''ofi'', ''depth''] ''open''"
  let ?b = "example_hypothesis ''b'' [''depth'', ''ofi''] ''open''"
  let ?c = "example_hypothesis ''a'' [''ofi'', ''depth''] ''close''"
  have acc: "first_error (hypothesis_checks ?a) = None" "first_error (hypothesis_checks ?b) = None"
      "first_error (hypothesis_checks ?c) = None"
    by code_simp+
  obtain a b c where abc: "hypothesis_post_init example_floats id ?a = Inr a"
      "hypothesis_post_init example_floats id ?b = Inr b" "hypothesis_post_init example_floats id ?c = Inr c"
    using acc example_hypothesis_ok by (simp add: hypothesis_post_init_def canonical_sha256_def)
  have keys: "distinct (map fst (hd_regularization x))" if "x \<in> {?a, ?b, ?c}" for x
    using that by (auto simp: example_hypothesis_def)
  have digests: "take 24 (json_text example_floats (semantic_payload ?a)) = ''{\"admissible_regime\":\"op''"
    "take 24 (json_text example_floats (semantic_payload ?b)) = ''{\"admissible_regime\":\"op''"
    "take 24 (json_text example_floats (semantic_payload ?c)) = ''{\"admissible_regime\":\"cl''"
    by code_simp+
  have same: "json_text example_floats (semantic_payload ?a) = json_text example_floats (semantic_payload ?b)"
    by code_simp
  have "same_semantics a b"  "\<not> same_semantics a c"
    using hypothesis_accepted(1) [OF abc(1) example_hypothesis_ok(1)]
      hypothesis_accepted(1) [OF abc(2) example_hypothesis_ok(2)]
      hypothesis_accepted(1) [OF abc(3) example_hypothesis_ok(3)]
    by (auto simp: same_semantics_def example_hypothesis_def)
  with hypothesis_identity [OF abc(1,2) example_hypothesis_ok(1,2)]
    hypothesis_identity [OF abc(1,3) example_hypothesis_ok(1,3)] abc keys digests same
  show ?thesis by (auto simp: inj_on_def)
qed

end
