(* ===== verification/State_Store.thy ===== *)
theory State_Store
  imports Ledger Calendar
begin

text \<open>
  The daily research state, \<open>research/src/shaurya/research/state.py\<close>: an immutable, content-addressed
  JSON file per date (\<open>StateStore\<close>) and the checkpoints of a run. A directory maps file names to
  contents; \<open>files\<close> are the contents of the paths outside it, \<open>dg\<close> the digest of a text or of the bytes
  of a file. A write links a complete temporary file, so it is one step; permissions, directory
  syncs and the lock are not modelled. A JSON value of another type than the field's is refused where
  the reader would convert it to a string or a number, or keep a tuple of another length.
\<close>

section \<open>Reading JSON\<close>

text \<open>\<open>path.read_text\<close>: text mode turns every line ending into a newline.\<close>

fun universal_newlines :: "string \<Rightarrow> string" where
  "universal_newlines [] = []"
| "universal_newlines [c] = [if c = CHR 0x0D then CHR 0x0A else c]"
| "universal_newlines (c # d # s) =
     (if c = CHR 0x0D \<and> d = CHR 0x0A then CHR 0x0A # universal_newlines s
      else (if c = CHR 0x0D then CHR 0x0A else c) # universal_newlines (d # s))"

definition read_text :: "string \<Rightarrow> string result" where
  "read_text content = bind_result (utf8_decode content) (\<lambda>t. Inr (universal_newlines t))"

definition read_field :: "json \<Rightarrow> string \<Rightarrow> (json \<Rightarrow> 'a result) \<Rightarrow> 'a result" where
  "read_field raw k f = bind_result (get_key raw k) f"

text \<open>\<open>raw.get(k, default)\<close> of a dict.\<close>

definition field_or :: "json \<Rightarrow> string \<Rightarrow> json \<Rightarrow> json" where
  "field_or raw k v = (case raw of JsObject d \<Rightarrow> (case map_of d k of Some x \<Rightarrow> x | None \<Rightarrow> v) | _ \<Rightarrow> v)"

fun read_str :: "json \<Rightarrow> string result" where
  "read_str (JsStr s) = Inr s"
| "read_str _ = Inl (TypeError ''a string is required'')"

fun read_float :: "json \<Rightarrow> rat result" where
  "read_float (JsFloat x) = Inr x"
| "read_float (JsInt n) = Inr (of_int n)"
| "read_float (JsNonFinite s) = Inl (ValueError ''Out of range float values are not JSON compliant'')"
| "read_float _ = Inl (TypeError ''float() argument'')"

definition read_date :: "json \<Rightarrow> date result" where
  "read_date v = bind_result (read_str v) date_fromisoformat"

fun read_list :: "(json \<Rightarrow> 'a result) \<Rightarrow> json \<Rightarrow> 'a list result" where
  "read_list f (JsArray vs) = map_result f vs"
| "read_list f _ = Inl (TypeError ''a list is required'')"

fun read_pair_with :: "(json \<Rightarrow> 'a result) \<Rightarrow> (json \<Rightarrow> 'b result) \<Rightarrow> json \<Rightarrow> ('a \<times> 'b) result" where
  "read_pair_with f g (JsArray [a, b]) = bind_result (f a) (\<lambda>x. bind_result (g b) (\<lambda>y. Inr (x, y)))"
| "read_pair_with f g _ = Inl (TypeError ''a pair is required'')"

definition read_pair :: "json \<Rightarrow> (string \<times> string) result" where
  "read_pair = read_pair_with read_str read_str"

definition read_weight :: "json \<Rightarrow> (string \<times> rat) result" where
  "read_weight = read_pair_with read_str read_float"

definition read_effect :: "json \<Rightarrow> (string \<times> rat list) result" where
  "read_effect = read_pair_with read_str (read_list read_float)"

fun read_triple :: "json \<Rightarrow> (string \<times> string \<times> string) result" where
  "read_triple (JsArray [a, b, c]) =
     bind_result (read_str a) (\<lambda>x. bind_result (read_pair (JsArray [b, c])) (\<lambda>p. Inr (x, p)))"
| "read_triple _ = Inl (TypeError ''a triple is required'')"

fun read_estimate :: "json \<Rightarrow> (string \<times> string \<times> rat \<times> rat) result" where
  "read_estimate (JsArray [a, b, c, d]) =
     bind_result (read_str a) (\<lambda>x. bind_result (read_str b) (\<lambda>y.
       bind_result (read_float c) (\<lambda>u. bind_result (read_float d) (\<lambda>v. Inr (x, y, u, v)))))"
| "read_estimate _ = Inl (TypeError ''a 4-tuple is required'')"

definition read_coefficients :: "json \<Rightarrow> (string \<times> (string \<times> string \<times> rat \<times> rat) list) result" where
  "read_coefficients = read_pair_with read_str (read_list read_estimate)"

section \<open>Writing JSON\<close>

definition js_date :: "date \<Rightarrow> json" where
  "js_date d = JsStr (date_isoformat d)"

definition js_list :: "('a \<Rightarrow> json) \<Rightarrow> 'a list \<Rightarrow> json" where
  "js_list f xs = JsArray (map f xs)"

fun js_pair :: "string \<times> string \<Rightarrow> json" where
  "js_pair (a, b) = JsArray [JsStr a, JsStr b]"

fun js_triple :: "string \<times> string \<times> string \<Rightarrow> json" where
  "js_triple (a, b, c) = JsArray [JsStr a, JsStr b, JsStr c]"

fun js_weight :: "string \<times> rat \<Rightarrow> json" where
  "js_weight (a, x) = JsArray [JsStr a, JsFloat x]"

fun js_effect :: "string \<times> rat list \<Rightarrow> json" where
  "js_effect (a, xs) = JsArray [JsStr a, js_list JsFloat xs]"

fun js_estimate :: "string \<times> string \<times> rat \<times> rat \<Rightarrow> json" where
  "js_estimate (a, b, x, y) = JsArray [JsStr a, JsStr b, JsFloat x, JsFloat y]"

fun js_coefficients :: "string \<times> (string \<times> string \<times> rat \<times> rat) list \<Rightarrow> json" where
  "js_coefficients (a, es) = JsArray [JsStr a, js_list js_estimate es]"

section \<open>The research state\<close>

record research_state =
  rs_as_of_date :: date
  rs_intended_for_session :: date
  rs_active_hypotheses :: "string list"
  rs_lifecycle :: "(string \<times> string) list"
  rs_evidence_grades :: "(string \<times> string) list"
  rs_coefficient_estimates :: "(string \<times> rat) list"
  rs_shrinkage_state :: "(string \<times> rat) list"
  rs_regime_models :: "(string \<times> string) list"
  rs_performance_history_hash :: string
  rs_dormant_hypotheses :: "string list"
  rs_parameter_surface_hashes :: "(string \<times> string) list"
  rs_model_weights :: "(string \<times> rat) list"
  rs_source_ledger_hash :: string
  rs_plan_hash :: string
  rs_planned_hypothesis_ids :: "string list"
  rs_source_prefix_manifest :: "(string \<times> string \<times> string) list"
  rs_derivation_prefixes :: "(string \<times> string) list"
  rs_policy_fingerprint :: string
  rs_historical_effects :: "(string \<times> rat list) list"
  rs_diagnostic_hashes :: "(string \<times> string) list"
  rs_block_bootstrap_hashes :: "(string \<times> string) list"
  rs_historical_coefficients :: "(string \<times> (string \<times> string \<times> rat \<times> rat) list) list"
  rs_evidence_mode :: string
  rs_published_at :: string
  rs_publication_event_hash :: string
  rs_report_path :: string
  rs_report_sha256 :: string
  rs_report_manifest_sha256 :: string
  rs_state_hash :: string

text \<open>\<open>asdict\<close>.\<close>

definition state_fields :: "research_state \<Rightarrow> (string \<times> json) list" where
  "state_fields s =
     [(''as_of_date'', js_date (rs_as_of_date s)),
      (''intended_for_session'', js_date (rs_intended_for_session s)),
      (''active_hypotheses'', js_list JsStr (rs_active_hypotheses s)),
      (''lifecycle'', js_list js_pair (rs_lifecycle s)),
      (''evidence_grades'', js_list js_pair (rs_evidence_grades s)),
      (''coefficient_estimates'', js_list js_weight (rs_coefficient_estimates s)),
      (''shrinkage_state'', js_list js_weight (rs_shrinkage_state s)),
      (''regime_models'', js_list js_pair (rs_regime_models s)),
      (''performance_history_hash'', JsStr (rs_performance_history_hash s)),
      (''dormant_hypotheses'', js_list JsStr (rs_dormant_hypotheses s)),
      (''parameter_surface_hashes'', js_list js_pair (rs_parameter_surface_hashes s)),
      (''model_weights'', js_list js_weight (rs_model_weights s)),
      (''source_ledger_hash'', JsStr (rs_source_ledger_hash s)),
      (''plan_hash'', JsStr (rs_plan_hash s)),
      (''planned_hypothesis_ids'', js_list JsStr (rs_planned_hypothesis_ids s)),
      (''source_prefix_manifest'', js_list js_triple (rs_source_prefix_manifest s)),
      (''derivation_prefixes'', js_list js_pair (rs_derivation_prefixes s)),
      (''policy_fingerprint'', JsStr (rs_policy_fingerprint s)),
      (''historical_effects'', js_list js_effect (rs_historical_effects s)),
      (''diagnostic_hashes'', js_list js_pair (rs_diagnostic_hashes s)),
      (''block_bootstrap_hashes'', js_list js_pair (rs_block_bootstrap_hashes s)),
      (''historical_coefficients'', js_list js_coefficients (rs_historical_coefficients s)),
      (''evidence_mode'', JsStr (rs_evidence_mode s)),
      (''published_at'', JsStr (rs_published_at s)),
      (''publication_event_hash'', JsStr (rs_publication_event_hash s)),
      (''report_path'', JsStr (rs_report_path s)),
      (''report_sha256'', JsStr (rs_report_sha256 s)),
      (''report_manifest_sha256'', JsStr (rs_report_manifest_sha256 s)),
      (''state_hash'', JsStr (rs_state_hash s))]"

definition scientific_digests :: "research_state \<Rightarrow> string list" where
  "scientific_digests s =
     map (\<lambda>(a, b, c). c) (rs_source_prefix_manifest s) @ map snd (rs_derivation_prefixes s) @
     map snd (rs_diagnostic_hashes s) @ map snd (rs_block_bootstrap_hashes s) @
     filter (\<lambda>h. h \<noteq> []) [rs_policy_fingerprint s, rs_publication_event_hash s, rs_report_sha256 s,
       rs_report_manifest_sha256 s]"

text \<open>A tuple equals \<open>tuple(sorted(...))\<close> of itself exactly when it is in ascending order.\<close>

definition state_checks :: "research_state \<Rightarrow> (bool \<times> exn) list" where
  "state_checks s =
     [(\<not> sorted (rs_source_prefix_manifest s),
       ValueError ''state source prefix manifest must be chronological and canonical''),
      (\<not> distinct (map (\<lambda>(a, b, c). b) (rs_source_prefix_manifest s)),
       ValueError ''state source prefix contains duplicate datasets''),
      (\<not> sorted (rs_derivation_prefixes s),
       ValueError ''state derivation prefixes must be chronological and canonical''),
      (\<not> sorted (rs_historical_effects s), ValueError ''state historical effects must be canonical''),
      (\<not> sorted (rs_diagnostic_hashes s), ValueError ''state diagnostic hashes must be canonical''),
      (\<not> sorted (rs_block_bootstrap_hashes s), ValueError ''state block-bootstrap hashes must be canonical''),
      (\<not> sorted (rs_historical_coefficients s), ValueError ''state historical coefficients must be canonical''),
      (rs_evidence_mode s \<notin> {''confirmatory_walk_forward'', ''live_shadow''},
       ValueError ''state evidence mode must be prospective or confirmatory''),
      (list_ex (\<lambda>h. length h \<noteq> 64) (scientific_digests s),
       ValueError ''state scientific bindings must be SHA-256 digests'')]"

definition state_post_init :: "research_state \<Rightarrow> research_state result" where
  "state_post_init s = (case first_error (state_checks s) of Some x \<Rightarrow> Inl x | None \<Rightarrow> Inr s)"

definition with_state_hash ::
  "float_codec \<Rightarrow> (string \<Rightarrow> string) \<Rightarrow> research_state \<Rightarrow> research_state result" where
  "with_state_hash fl dg s =
     bind_result (canonical_sha256 fl dg (JsObject (state_fields (s\<lparr>rs_state_hash := []\<rparr>))))
       (\<lambda>h. state_post_init (s\<lparr>rs_state_hash := h\<rparr>))"

text \<open>The state of a parsed file.\<close>

definition state_from_fields :: "json \<Rightarrow> research_state result" where
  "state_from_fields raw =
     bind_result (read_field raw ''as_of_date'' read_date) (\<lambda>as_of_date.
     bind_result (read_field raw ''intended_for_session'' read_date) (\<lambda>intended_for_session.
     bind_result (read_field raw ''active_hypotheses'' (read_list read_str)) (\<lambda>active_hypotheses.
     bind_result (read_field raw ''lifecycle'' (read_list read_pair)) (\<lambda>lifecycle.
     bind_result (read_field raw ''evidence_grades'' (read_list read_pair)) (\<lambda>evidence_grades.
     bind_result (read_field raw ''coefficient_estimates'' (read_list read_weight)) (\<lambda>coefficient_estimates.
     bind_result (read_field raw ''shrinkage_state'' (read_list read_weight)) (\<lambda>shrinkage_state.
     bind_result (read_field raw ''regime_models'' (read_list read_pair)) (\<lambda>regime_models.
     bind_result (read_field raw ''performance_history_hash'' read_str) (\<lambda>performance_history_hash.
     bind_result (read_field raw ''dormant_hypotheses'' (read_list read_str)) (\<lambda>dormant_hypotheses.
     bind_result (read_field raw ''parameter_surface_hashes'' (read_list read_pair)) (\<lambda>parameter_surface_hashes.
     bind_result (read_field raw ''model_weights'' (read_list read_weight)) (\<lambda>model_weights.
     bind_result (read_field raw ''source_ledger_hash'' read_str) (\<lambda>source_ledger_hash.
     bind_result (read_str (field_or raw ''plan_hash'' (JsStr []))) (\<lambda>plan_hash.
     bind_result (read_list read_str (field_or raw ''planned_hypothesis_ids'' (JsArray []))) (\<lambda>planned_hypothesis_ids.
     bind_result (read_list read_triple (field_or raw ''source_prefix_manifest'' (JsArray []))) (\<lambda>source_prefix_manifest.
     bind_result (read_list read_pair (field_or raw ''derivation_prefixes'' (JsArray []))) (\<lambda>derivation_prefixes.
     bind_result (read_str (field_or raw ''policy_fingerprint'' (JsStr []))) (\<lambda>policy_fingerprint.
     bind_result (read_list read_effect (field_or raw ''historical_effects'' (JsArray []))) (\<lambda>historical_effects.
     bind_result (read_list read_pair (field_or raw ''diagnostic_hashes'' (JsArray []))) (\<lambda>diagnostic_hashes.
     bind_result (read_list read_pair (field_or raw ''block_bootstrap_hashes'' (JsArray []))) (\<lambda>block_bootstrap_hashes.
     bind_result (read_list read_coefficients (field_or raw ''historical_coefficients'' (JsArray []))) (\<lambda>historical_coefficients.
     bind_result (read_str (field_or raw ''evidence_mode'' (JsStr ''confirmatory_walk_forward''))) (\<lambda>evidence_mode.
     bind_result (read_str (field_or raw ''published_at'' (JsStr []))) (\<lambda>published_at.
     bind_result (read_str (field_or raw ''publication_event_hash'' (JsStr []))) (\<lambda>publication_event_hash.
     bind_result (read_str (field_or raw ''report_path'' (JsStr []))) (\<lambda>report_path.
     bind_result (read_str (field_or raw ''report_sha256'' (JsStr []))) (\<lambda>report_sha256.
     bind_result (read_str (field_or raw ''report_manifest_sha256'' (JsStr []))) (\<lambda>report_manifest_sha256.
     bind_result (read_field raw ''state_hash'' read_str) (\<lambda>state_hash.
       state_post_init
         \<lparr>rs_as_of_date = as_of_date,
           rs_intended_for_session = intended_for_session,
           rs_active_hypotheses = active_hypotheses,
           rs_lifecycle = lifecycle,
           rs_evidence_grades = evidence_grades,
           rs_coefficient_estimates = coefficient_estimates,
           rs_shrinkage_state = shrinkage_state,
           rs_regime_models = regime_models,
           rs_performance_history_hash = performance_history_hash,
           rs_dormant_hypotheses = dormant_hypotheses,
           rs_parameter_surface_hashes = parameter_surface_hashes,
           rs_model_weights = model_weights,
           rs_source_ledger_hash = source_ledger_hash,
           rs_plan_hash = plan_hash,
           rs_planned_hypothesis_ids = planned_hypothesis_ids,
           rs_source_prefix_manifest = source_prefix_manifest,
           rs_derivation_prefixes = derivation_prefixes,
           rs_policy_fingerprint = policy_fingerprint,
           rs_historical_effects = historical_effects,
           rs_diagnostic_hashes = diagnostic_hashes,
           rs_block_bootstrap_hashes = block_bootstrap_hashes,
           rs_historical_coefficients = historical_coefficients,
           rs_evidence_mode = evidence_mode,
           rs_published_at = published_at,
           rs_publication_event_hash = publication_event_hash,
           rs_report_path = report_path,
           rs_report_sha256 = report_sha256,
           rs_report_manifest_sha256 = report_manifest_sha256,
           rs_state_hash = state_hash\<rparr>)))))))))))))))))))))))))))))"

section \<open>The store\<close>

definition state_name :: "research_state \<Rightarrow> string" where
  "state_name s = date_isoformat (rs_as_of_date s) @ ''-'' @ rs_state_hash s @ ''.json''"

text \<open>The glob patterns \<open>{day}-*.json\<close> and \<open>????-??-??-*.json\<close>.\<close>

definition matches_day :: "string \<Rightarrow> string \<Rightarrow> bool" where
  "matches_day day name \<longleftrightarrow>
     prefix (day @ ''-'') name \<and> suffix ''.json'' (drop (length day + 1) name)"

definition matches_state :: "string \<Rightarrow> bool" where
  "matches_state name \<longleftrightarrow>
     11 \<le> length name \<and> name ! 4 = CHR ''-'' \<and> name ! 7 = CHR ''-'' \<and> name ! 10 = CHR ''-'' \<and>
     suffix ''.json'' (drop 11 name)"

text \<open>The check of a file that already carries the date: a stored hash that is not a string is a mismatch
  with the name.\<close>

definition check_existing :: "float_codec \<Rightarrow> directory \<Rightarrow> string \<Rightarrow> string \<Rightarrow> unit result" where
  "check_existing fl dir day name =
     (case map_of dir name of
        None \<Rightarrow> Inl (FileNotFoundError name)
      | Some content \<Rightarrow>
          bind_result (read_text content) (\<lambda>t.
          case bind_result (json_loads fl t) (\<lambda>stored. get_key stored ''state_hash'') of
            Inl x \<Rightarrow> Inl (ValueError ''existing state artifact is unreadable'')
          | Inr v \<Rightarrow>
              if (case v of JsStr h \<Rightarrow> name = day @ ''-'' @ h @ ''.json'' | _ \<Rightarrow> False) then Inr ()
              else Inl (ValueError ''existing state artifact has a non-content-addressed filename'')))"

definition state_write ::
  "float_codec \<Rightarrow> (string \<Rightarrow> string) \<Rightarrow> directory \<Rightarrow> research_state \<Rightarrow> directory \<times> string result" where
  "state_write fl dg dir s =
     (case (if rs_state_hash s \<noteq> [] then Inr s else with_state_hash fl dg s) of
        Inl x \<Rightarrow> (dir, Inl x)
      | Inr resolved \<Rightarrow>
          let day = date_isoformat (rs_as_of_date resolved); name = state_name resolved in
          (case bind_result (with_state_hash fl dg resolved) (\<lambda>again.
                  if rs_state_hash resolved \<noteq> rs_state_hash again
                  then Inl (ValueError ''state hash does not match content'')
                  else bind_result (canonical_json fl (JsObject (state_fields resolved)))
                    (\<lambda>text. Inr (text @ [CHR 0x0A]))) of
             Inl x \<Rightarrow> (dir, Inl x)
           | Inr encoded \<Rightarrow>
               (case sort (filter (matches_day day) (map fst dir)) of
                  [] \<Rightarrow> (AList.update name encoded dir, Inr name)
                | first # others \<Rightarrow>
                    (dir,
                     bind_result (map_result (check_existing fl dir day) (first # others)) (\<lambda>_.
                     bind_result (read_text (the (map_of dir first))) (\<lambda>stored.
                       if others = [] \<and> stored = encoded then Inr first
                       else Inl (ValueError ''an immutable state already exists for this date'')))))))"

text \<open>The report a state names, and its manifest beside it.\<close>

definition report_name :: "string \<Rightarrow> string" where
  "report_name p = rev (takeWhile (\<lambda>c. c \<noteq> CHR ''/'') (rev p))"

definition with_suffix :: "string \<Rightarrow> string \<Rightarrow> string" where
  "with_suffix p ext = take (length p - length (path_suffix (report_name p))) p @ ext"

definition report_bound :: "(string \<Rightarrow> string option) \<Rightarrow> (string \<Rightarrow> string) \<Rightarrow> research_state \<Rightarrow> bool" where
  "report_bound files dg s \<longleftrightarrow>
     rs_report_path s = [] \<or>
     (case (files (rs_report_path s), files (with_suffix (rs_report_path s) ''.manifest.json'')) of
        (Some report, Some manifest) \<Rightarrow>
          dg report = rs_report_sha256 s \<and> dg manifest = rs_report_manifest_sha256 s
      | _ \<Rightarrow> False)"

definition load_state ::
  "(string \<Rightarrow> string option) \<Rightarrow> float_codec \<Rightarrow> (string \<Rightarrow> string) \<Rightarrow> string \<Rightarrow> string \<Rightarrow> research_state result" where
  "load_state files fl dg name content =
     bind_result (read_text content) (\<lambda>t. bind_result (json_loads fl t) (\<lambda>raw.
     bind_result (state_from_fields raw) (\<lambda>state. bind_result (with_state_hash fl dg state) (\<lambda>again.
       if rs_state_hash again \<noteq> rs_state_hash state
       then Inl (ValueError ''stored research state failed content verification'')
       else if name \<noteq> state_name state
       then Inl (ValueError ''stored research state filename is not content-addressed'')
       else if \<not> report_bound files dg state
       then Inl (ValueError ''stored research state report binding is invalid'')
       else Inr state))))"

definition state_candidates :: "directory \<Rightarrow> date \<Rightarrow> (date \<times> string) list" where
  "state_candidates dir requested =
     concat (map (\<lambda>(name, content).
       if matches_state name
       then (case date_fromisoformat (take 10 name) of
               Inr d \<Rightarrow> (if d \<le> requested then [(d, name)] else [])
             | Inl _ \<Rightarrow> [])
       else []) dir)"

definition load_as_of ::
  "(string \<Rightarrow> string option) \<Rightarrow> float_codec \<Rightarrow> (string \<Rightarrow> string) \<Rightarrow> directory \<Rightarrow> date \<Rightarrow>
     research_state option result" where
  "load_as_of files fl dg dir requested =
     (let candidates = state_candidates dir requested in
      if candidates = [] then Inr None
      else
        let selected_date = Max (set (map fst candidates));
            selected = filter (\<lambda>c. fst c = selected_date) candidates
        in if length selected \<noteq> 1
           then Inl (ValueError ''state store contains conflicting immutable states for one date'')
           else
             let name = snd (hd selected) in
             (case map_of dir name of
                None \<Rightarrow> Inl (FileNotFoundError name)
              | Some content \<Rightarrow>
                  bind_result (load_state files fl dg name content) (\<lambda>state. Inr (Some state))))"

text \<open>\<open>load_exact\<close> of a path, given as the directory and the name in it.\<close>

definition load_exact ::
  "(string \<Rightarrow> string option) \<Rightarrow> float_codec \<Rightarrow> (string \<Rightarrow> string) \<Rightarrow> string \<Rightarrow> directory \<Rightarrow>
     string \<times> string \<Rightarrow> research_state result" where
  "load_exact files fl dg here dir path =
     (if fst path \<noteq> here then Inl (ValueError ''state path is outside this immutable state store'')
      else (case date_fromisoformat (take 10 (snd path)) of
        Inl _ \<Rightarrow> Inl (ValueError ''state path does not carry an as-of date'')
      | Inr state_date \<Rightarrow>
          bind_result (load_as_of files fl dg dir state_date) (\<lambda>found.
            case found of
              None \<Rightarrow> Inl (FileNotFoundError (snd path))
            | Some state \<Rightarrow>
                if state_name state \<noteq> snd path
                then Inl (ValueError ''requested state is not the verified content-addressed artifact'')
                else Inr state)))"

section \<open>Checkpoints\<close>

definition checkpoint_payload :: "json \<Rightarrow> json \<Rightarrow> json \<Rightarrow> (string \<times> json) list" where
  "checkpoint_payload kind bindings artifact =
     [(''kind'', kind), (''bindings'', bindings), (''artifact'', artifact)]"

definition write_checkpoint ::
  "float_codec \<Rightarrow> (string \<Rightarrow> string) \<Rightarrow> directory \<Rightarrow> string \<Rightarrow> (string \<times> json) list \<Rightarrow> json \<Rightarrow>
     directory \<times> string result" where
  "write_checkpoint fl dg dir kind bindings artifact =
     (let payload = checkpoint_payload (JsStr kind) (JsObject bindings) artifact in
      case bind_result (canonical_sha256 fl dg (JsObject payload)) (\<lambda>digest.
             bind_result (canonical_json fl (JsObject (payload @ [(''checkpoint_hash'', JsStr digest)])))
               (\<lambda>text. Inr (digest, text @ [CHR 0x0A]))) of
        Inl x \<Rightarrow> (dir, Inl x)
      | Inr (digest, encoded) \<Rightarrow>
          let name = kind @ ''-'' @ digest @ ''.json'' in
          (case map_of dir name of
             Some content \<Rightarrow>
               (dir, bind_result (read_text content) (\<lambda>t.
                  if t \<noteq> encoded then Inl (ValueError ''checkpoint content conflict'') else Inr name))
           | None \<Rightarrow>
               (AList.update name encoded dir,
                bind_result (read_text encoded) (\<lambda>t. bind_result (json_loads fl t) (\<lambda>v.
                bind_result (get_key v ''checkpoint_hash'') (\<lambda>h.
                  if h \<noteq> JsStr digest then Inl (ValueError ''checkpoint exact readback failed'')
                  else Inr name))))))"

text \<open>Python's equality of JSON values: numbers and truth values by value, dicts in any key order, a
  not-a-number equal to nothing.\<close>

fun numeric :: "json \<Rightarrow> json" where
  "numeric (JsBool b) = JsFloat (if b then 1 else 0)"
| "numeric (JsInt n) = JsFloat (of_int n)"
| "numeric (JsArray vs) = JsArray (map numeric vs)"
| "numeric (JsObject ps) = JsObject (map_values numeric ps)"
| "numeric v = v"

fun has_nan :: "json \<Rightarrow> bool" where
  "has_nan (JsNonFinite s) = (s = ''NaN'')"
| "has_nan (JsArray vs) = list_ex has_nan vs"
| "has_nan (JsObject ps) = list_ex (\<lambda>(k, v). has_nan v) ps"
| "has_nan _ = False"

definition py_equal :: "json \<Rightarrow> json \<Rightarrow> bool" where
  "py_equal v w \<longleftrightarrow>
     canonical_value (numeric v) = canonical_value (numeric w) \<and> \<not> has_nan v"

definition load_checkpoint ::
  "float_codec \<Rightarrow> (string \<Rightarrow> string) \<Rightarrow> string \<Rightarrow> (string \<times> json) list \<Rightarrow> json result" where
  "load_checkpoint fl dg content expected_bindings =
     bind_result (read_text content) (\<lambda>t. bind_result (json_loads fl t) (\<lambda>payload.
     bind_result (get_key payload ''bindings'') (\<lambda>bindings.
     if \<not> py_equal bindings (JsObject expected_bindings)
     then Inl (ValueError ''checkpoint bindings do not match current inputs'')
     else
       bind_result (get_key payload ''kind'') (\<lambda>kind.
       bind_result (get_key payload ''artifact'') (\<lambda>artifact.
       bind_result (canonical_sha256 fl dg (JsObject (checkpoint_payload kind bindings artifact)))
         (\<lambda>expected.
       bind_result (get_key payload ''checkpoint_hash'') (\<lambda>h.
         if h \<noteq> JsStr expected then Inl (ValueError ''checkpoint hash is invalid'')
         else Inr artifact)))))))"

section \<open>What is written reads back\<close>

lemma read_js_list [simp]:
  "(\<And>x. x \<in> set xs \<Longrightarrow> f (g x) = Inr x) \<Longrightarrow> read_list f (js_list g xs) = Inr xs"
  using map_result_map [of xs f g "\<lambda>x. x"] by (simp add: js_list_def)

lemma read_js [simp]:
  "read_pair (js_pair p) = Inr p" "read_weight (js_weight w) = Inr w" "read_triple (js_triple t) = Inr t"
  "read_effect (js_effect e) = Inr e" "read_estimate (js_estimate m) = Inr m"
proof -
  show "read_pair (js_pair p) = Inr p" by (cases p) (simp add: read_pair_def)
  show "read_weight (js_weight w) = Inr w" by (cases w) (simp add: read_weight_def)
  show "read_triple (js_triple t) = Inr t" by (cases t) (simp add: read_pair_def)
  show "read_effect (js_effect e) = Inr e" by (cases e) (simp add: read_effect_def)
  show "read_estimate (js_estimate m) = Inr m" by (cases m) simp
qed

lemma read_js_coefficients [simp]: "read_coefficients (js_coefficients c) = Inr c"
  by (cases c) (simp add: read_coefficients_def)

lemma canonical_js_list [simp]:
  "(\<And>x. canonical_value (g x) = g x) \<Longrightarrow> canonical_value (js_list g xs) = js_list g xs"
  by (simp add: js_list_def comp_def)

lemma canonical_js [simp]:
  "canonical_value (js_pair p) = js_pair p" "canonical_value (js_weight w) = js_weight w"
  "canonical_value (js_triple t) = js_triple t" "canonical_value (js_effect e) = js_effect e"
  "canonical_value (js_estimate m) = js_estimate m" "canonical_value (js_date d) = js_date d"
proof -
  show "canonical_value (js_pair p) = js_pair p" by (cases p) simp
  show "canonical_value (js_weight w) = js_weight w" by (cases w) simp
  show "canonical_value (js_triple t) = js_triple t" by (cases t) simp
  show "canonical_value (js_effect e) = js_effect e" by (cases e) simp
  show "canonical_value (js_estimate m) = js_estimate m" by (cases m) simp
  show "canonical_value (js_date d) = js_date d" by (simp add: js_date_def)
qed

lemma canonical_js_coefficients [simp]: "canonical_value (js_coefficients c) = js_coefficients c"
  by (cases c) simp

definition date_valid :: "date \<Rightarrow> bool" where
  "date_valid d \<longleftrightarrow> 1 \<le> d \<and> d \<le> int max_ordinal"

lemma date_valid_text:
  assumes "date_valid d"
  shows "date_fromisoformat (date_isoformat d) = Inr d" "length (date_isoformat d) = 10"
    "date_isoformat d ! 4 = CHR ''-''" "date_isoformat d ! 7 = CHR ''-''"
  using assms date_roundtrip [of d] by (simp_all add: date_valid_def)

lemma read_js_date [simp]: "date_valid d \<Longrightarrow> read_date (js_date d) = Inr d"
  by (simp add: read_date_def js_date_def date_valid_text)

lemma state_keys: "distinct (map fst (state_fields s))"
  by (simp add: state_fields_def)

lemma read_canonical_field:
  assumes "distinct (map fst ps)" and "map_of ps k = Some v"
  shows "read_field (canonical_value (JsObject ps)) k f = f (canonical_value v)"
    and "field_or (canonical_value (JsObject ps)) k w = canonical_value v"
proof -
  have look: "map_of (sort_key fst (map_values canonical_value ps)) k = Some (canonical_value v)"
    unfolding map_of_canonical [OF assms(1)] assms(2) by (rule option.map)
  show "read_field (canonical_value (JsObject ps)) k f = f (canonical_value v)"
    unfolding read_field_def get_key_def canonical_value.simps json.case look option.case bind_result_simps ..
  show "field_or (canonical_value (JsObject ps)) k w = canonical_value v"
    unfolding field_or_def canonical_value.simps json.case look option.case ..
qed

lemma state_lookup:
  "map_of (state_fields s) ''as_of_date'' = Some (js_date (rs_as_of_date s))"
  "map_of (state_fields s) ''intended_for_session'' = Some (js_date (rs_intended_for_session s))"
  "map_of (state_fields s) ''active_hypotheses'' = Some (js_list JsStr (rs_active_hypotheses s))"
  "map_of (state_fields s) ''lifecycle'' = Some (js_list js_pair (rs_lifecycle s))"
  "map_of (state_fields s) ''evidence_grades'' = Some (js_list js_pair (rs_evidence_grades s))"
  "map_of (state_fields s) ''coefficient_estimates'' = Some (js_list js_weight (rs_coefficient_estimates s))"
  "map_of (state_fields s) ''shrinkage_state'' = Some (js_list js_weight (rs_shrinkage_state s))"
  "map_of (state_fields s) ''regime_models'' = Some (js_list js_pair (rs_regime_models s))"
  "map_of (state_fields s) ''performance_history_hash'' = Some (JsStr (rs_performance_history_hash s))"
  "map_of (state_fields s) ''dormant_hypotheses'' = Some (js_list JsStr (rs_dormant_hypotheses s))"
  "map_of (state_fields s) ''parameter_surface_hashes'' = Some (js_list js_pair (rs_parameter_surface_hashes s))"
  "map_of (state_fields s) ''model_weights'' = Some (js_list js_weight (rs_model_weights s))"
  "map_of (state_fields s) ''source_ledger_hash'' = Some (JsStr (rs_source_ledger_hash s))"
  "map_of (state_fields s) ''plan_hash'' = Some (JsStr (rs_plan_hash s))"
  "map_of (state_fields s) ''planned_hypothesis_ids'' = Some (js_list JsStr (rs_planned_hypothesis_ids s))"
  "map_of (state_fields s) ''source_prefix_manifest'' = Some (js_list js_triple (rs_source_prefix_manifest s))"
  "map_of (state_fields s) ''derivation_prefixes'' = Some (js_list js_pair (rs_derivation_prefixes s))"
  "map_of (state_fields s) ''policy_fingerprint'' = Some (JsStr (rs_policy_fingerprint s))"
  "map_of (state_fields s) ''historical_effects'' = Some (js_list js_effect (rs_historical_effects s))"
  "map_of (state_fields s) ''diagnostic_hashes'' = Some (js_list js_pair (rs_diagnostic_hashes s))"
  "map_of (state_fields s) ''block_bootstrap_hashes'' = Some (js_list js_pair (rs_block_bootstrap_hashes s))"
  "map_of (state_fields s) ''historical_coefficients'' = Some (js_list js_coefficients (rs_historical_coefficients s))"
  "map_of (state_fields s) ''evidence_mode'' = Some (JsStr (rs_evidence_mode s))"
  "map_of (state_fields s) ''published_at'' = Some (JsStr (rs_published_at s))"
  "map_of (state_fields s) ''publication_event_hash'' = Some (JsStr (rs_publication_event_hash s))"
  "map_of (state_fields s) ''report_path'' = Some (JsStr (rs_report_path s))"
  "map_of (state_fields s) ''report_sha256'' = Some (JsStr (rs_report_sha256 s))"
  "map_of (state_fields s) ''report_manifest_sha256'' = Some (JsStr (rs_report_manifest_sha256 s))"
  "map_of (state_fields s) ''state_hash'' = Some (JsStr (rs_state_hash s))"
  by (simp_all add: state_fields_def)

text \<open>The floats of a state have a text, and its dates are dates.\<close>

definition state_floats :: "research_state \<Rightarrow> rat list" where
  "state_floats s =
     map snd (rs_coefficient_estimates s @ rs_shrinkage_state s @ rs_model_weights s) @
     concat (map snd (rs_historical_effects s)) @
     concat (map (\<lambda>(a, b, x, y). [x, y]) (concat (map snd (rs_historical_coefficients s))))"

definition state_ok :: "float_codec \<Rightarrow> research_state \<Rightarrow> bool" where
  "state_ok fl s \<longleftrightarrow>
     date_valid (rs_as_of_date s) \<and> date_valid (rs_intended_for_session s) \<and> list_all (float_ok fl) (state_floats s)"

lemma state_ok_hash [simp]: "state_ok fl (s\<lparr>rs_state_hash := h\<rparr>) = state_ok fl s"
  by (simp add: state_ok_def state_floats_def)

lemma state_from_canonical:
  assumes "state_ok fl s"
  shows "state_from_fields (canonical_value (JsObject (state_fields s))) = state_post_init s"
proof -
  note dates = assms [unfolded state_ok_def]
  note field = state_lookup [THEN read_canonical_field(1) [OF state_keys]]
    state_lookup [THEN read_canonical_field(2) [OF state_keys]]
  show ?thesis
    unfolding state_from_fields_def field using dates by simp (cases s, simp)
qed

lemma json_ok_list: "json_ok fl (js_list g xs) = (\<forall>x \<in> set xs. json_ok fl (g x))"
  by (simp add: js_list_def list_all_iff)

lemma json_ok_js [simp]:
  "json_ok fl (js_pair p)" "json_ok fl (js_triple t)" "json_ok fl (js_date d)"
  "json_ok fl (js_weight w) = float_ok fl (snd w)"
  "json_ok fl (js_effect e) = list_all (float_ok fl) (snd e)"
  "json_ok fl (js_estimate m) = (float_ok fl (fst (snd (snd m))) \<and> float_ok fl (snd (snd (snd m))))"
proof -
  show "json_ok fl (js_pair p)" by (cases p) simp
  show "json_ok fl (js_triple t)" by (cases t) simp
  show "json_ok fl (js_date d)" by (simp add: js_date_def)
  show "json_ok fl (js_weight w) = float_ok fl (snd w)" by (cases w) simp
  show "json_ok fl (js_effect e) = list_all (float_ok fl) (snd e)"
    by (cases e) (simp add: json_ok_list list_all_iff)
  show "json_ok fl (js_estimate m) = (float_ok fl (fst (snd (snd m))) \<and> float_ok fl (snd (snd (snd m))))"
    by (cases m) simp
qed

lemma json_ok_coefficients [simp]:
  "json_ok fl (js_coefficients c) = (\<forall>m \<in> set (snd c). json_ok fl (js_estimate m))"
  by (cases c) (simp add: json_ok_list)

lemma state_json_ok:
  assumes "state_ok fl s"
  shows "json_ok fl (JsObject (state_fields s))"
proof -
  have floats: "float_ok fl x" if "x \<in> set (state_floats s)" for x
    using assms that by (simp add: state_ok_def list_all_iff)
  have weights: "float_ok fl (snd w)"
    if "w \<in> set (rs_coefficient_estimates s) \<union> set (rs_shrinkage_state s) \<union> set (rs_model_weights s)" for w
    by (rule floats) (use that in \<open>auto simp: state_floats_def\<close>)
  have effects: "float_ok fl x" if "e \<in> set (rs_historical_effects s)" "x \<in> set (snd e)" for e x
    by (rule floats) (use that in \<open>auto simp: state_floats_def\<close>)
  have estimates: "json_ok fl (js_estimate m)"
    if "c \<in> set (rs_historical_coefficients s)" "m \<in> set (snd c)" for c m
  proof -
    obtain a b x y where m: "m = (a, b, x, y)" by (cases m)
    then have "{x, y} \<subseteq> set (state_floats s)" using that by (fastforce simp: state_floats_def)
    then show ?thesis using floats m by simp
  qed
  have "list_all (\<lambda>(k, v). json_ok fl v) (state_fields s)"
    using weights effects estimates
    by (simp add: state_fields_def json_ok_list list_all_iff del: json_ok_js(6))
  then show ?thesis using state_keys by simp
qed

section \<open>The store as a list of states\<close>

definition state_text :: "float_codec \<Rightarrow> research_state \<Rightarrow> string" where
  "state_text fl s = json_text fl (JsObject (state_fields s)) @ [CHR 0x0A]"

lemma universal_newlines_id: "CHR 0x0D \<notin> set s \<Longrightarrow> universal_newlines s = s"
  by (induction s rule: universal_newlines.induct) auto

lemma read_json_line:
  assumes "json_ok fl v"
  shows "read_text (json_text fl v @ [CHR 0x0A]) = Inr (json_text fl v @ [CHR 0x0A])"
proof -
  have lines: "list_all line_text (json_text fl v @ [CHR 0x0A])"
    using json_text_printable [OF assms] by (auto simp: list_all_iff line_text_def)
  have "\<not> line_text (CHR 0x0D)" by (simp add: line_text_def printable_def)
  with lines have "CHR 0x0D \<notin> set (json_text fl v @ [CHR 0x0A])" by (auto simp: list_all_iff)
  then show ?thesis
    unfolding read_text_def utf8_decode_lines [OF lines] by (simp del: set_append add: universal_newlines_id)
qed

lemma state_text_reads:
  assumes "state_ok fl s"
  shows "read_text (state_text fl s) = Inr (state_text fl s)"
    and "json_loads fl (state_text fl s) = Inr (canonical_value (JsObject (state_fields s)))"
  unfolding state_text_def by (rule read_json_line json_loads_newline; rule state_json_ok [OF assms])+

lemma state_text_inj:
  assumes "state_ok fl s" "state_ok fl t" and "state_post_init s = Inr s" "state_post_init t = Inr t"
  shows "state_text fl s = state_text fl t \<longleftrightarrow> s = t"
proof
  assume "state_text fl s = state_text fl t"
  then have "(Inr (canonical_value (JsObject (state_fields s))) :: json result) =
      Inr (canonical_value (JsObject (state_fields t)))"
    unfolding state_text_reads(2) [OF assms(1), symmetric] state_text_reads(2) [OF assms(2), symmetric]
    by (rule arg_cong)
  then have "canonical_value (JsObject (state_fields s)) = canonical_value (JsObject (state_fields t))"
    by (rule sum.inject(2) [THEN iffD1])
  then have "state_post_init s = state_post_init t"
    unfolding state_from_canonical [OF assms(1), symmetric] state_from_canonical [OF assms(2), symmetric]
    by (rule arg_cong)
  then show "s = t" by (simp only: assms(3,4) sum.inject)
qed simp

lemma with_state_hashE:
  assumes "with_state_hash fl dg s = Inr t"
  obtains h where "t = s\<lparr>rs_state_hash := h\<rparr>" "state_post_init t = Inr t"
  using assms by (auto simp: with_state_hash_def state_post_init_def bind_result_Inr split: option.splits)

text \<open>A stored state: hashed and checked, with text for its floats and dates, its report in place.\<close>

definition state_sealed ::
  "(string \<Rightarrow> string option) \<Rightarrow> float_codec \<Rightarrow> (string \<Rightarrow> string) \<Rightarrow> research_state \<Rightarrow> bool" where
  "state_sealed files fl dg s \<longleftrightarrow>
     state_ok fl s \<and> with_state_hash fl dg s = Inr s \<and> report_bound files dg s"

lemma load_sealed:
  assumes "state_sealed files fl dg s"
  shows "load_state files fl dg (state_name s) (state_text fl s) = Inr s"
proof -
  note s = assms [unfolded state_sealed_def]
  have ok: "state_ok fl s" using s by blast
  have "state_post_init s = Inr s" by (rule with_state_hashE [of fl dg s s]) (use s in blast)+
  then show ?thesis
    using s by (simp add: load_state_def state_text_reads [OF ok] state_from_canonical [OF ok]
        del: canonical_value.simps)
qed

lemma state_name_day:
  assumes "state_ok fl s"
  shows "take 10 (state_name s) = date_isoformat (rs_as_of_date s)" "matches_state (state_name s)"
    "date_fromisoformat (take 10 (state_name s)) = Inr (rs_as_of_date s)"
proof -
  have "date_valid (rs_as_of_date s)" using assms by (simp add: state_ok_def)
  note day = date_valid_text [OF this]
  show "take 10 (state_name s) = date_isoformat (rs_as_of_date s)"
    using day(2) by (simp add: state_name_def)
  then show "date_fromisoformat (take 10 (state_name s)) = Inr (rs_as_of_date s)" using day(1) by simp
  show "matches_state (state_name s)"
    using day by (auto simp: matches_state_def state_name_def nth_append suffix_def)
qed

lemma state_name_matches:
  assumes "state_ok fl s" "state_ok fl t"
  shows "matches_day (date_isoformat (rs_as_of_date t)) (state_name s) \<longleftrightarrow> rs_as_of_date s = rs_as_of_date t"
proof -
  let ?d = "\<lambda>s. date_isoformat (rs_as_of_date s)"
  note s = date_valid_text [of "rs_as_of_date s"] and t = date_valid_text [of "rs_as_of_date t"]
  have valid: "date_valid (rs_as_of_date s)" "date_valid (rs_as_of_date t)" using assms by (simp_all add: state_ok_def)
  have inj: "?d s = ?d t \<longleftrightarrow> rs_as_of_date s = rs_as_of_date t" using s(1) t(1) valid by (metis sum.inject(2))
  have "prefix (?d t @ ''-'') (state_name s) \<longleftrightarrow> ?d t = ?d s"
    using s(2) t(2) valid by (auto simp: state_name_def prefix_def)
  moreover have "?d t = ?d s \<Longrightarrow> suffix ''.json'' (drop (length (?d t) + 1) (state_name s))"
    by (simp add: state_name_def suffix_def)
  ultimately show ?thesis unfolding matches_day_def using inj by metis
qed

definition resolved_state ::
  "float_codec \<Rightarrow> (string \<Rightarrow> string) \<Rightarrow> research_state \<Rightarrow> research_state result" where
  "resolved_state fl dg s =
     bind_result (if rs_state_hash s \<noteq> [] then Inr s else with_state_hash fl dg s) (\<lambda>r.
     bind_result (with_state_hash fl dg r) (\<lambda>again.
       if rs_state_hash r \<noteq> rs_state_hash again
       then Inl (ValueError ''state hash does not match content'') else Inr r))"

text \<open>The abstract store: a list of states, of which the first for a date stays.\<close>

definition spec_write ::
  "float_codec \<Rightarrow> (string \<Rightarrow> string) \<Rightarrow> research_state list \<Rightarrow> research_state \<Rightarrow>
     research_state list \<times> string result" where
  "spec_write fl dg es s =
     (case resolved_state fl dg s of
        Inl x \<Rightarrow> (es, Inl x)
      | Inr r \<Rightarrow>
          (case find (\<lambda>e. rs_as_of_date e = rs_as_of_date r) es of
             None \<Rightarrow> (es @ [r], Inr (state_name r))
           | Some e \<Rightarrow>
               (es, if e = r then Inr (state_name e)
                    else Inl (ValueError ''an immutable state already exists for this date''))))"

definition spec_load :: "research_state list \<Rightarrow> date \<Rightarrow> research_state option" where
  "spec_load es requested =
     (let known = filter (\<lambda>e. rs_as_of_date e \<le> requested) es in
      if known = [] then None
      else find (\<lambda>e. rs_as_of_date e = Max (set (map rs_as_of_date known))) known)"

definition state_files :: "float_codec \<Rightarrow> research_state list \<Rightarrow> directory" where
  "state_files fl es = map (\<lambda>e. (state_name e, state_text fl e)) es"

definition store_ok ::
  "(string \<Rightarrow> string option) \<Rightarrow> float_codec \<Rightarrow> (string \<Rightarrow> string) \<Rightarrow> research_state list \<Rightarrow> bool" where
  "store_ok files fl dg es \<longleftrightarrow> list_all (state_sealed files fl dg) es \<and> distinct (map rs_as_of_date es)"

lemma resolved_sealed:
  assumes "resolved_state fl dg s = Inr r" and "state_ok fl s" "report_bound files dg s"
  shows "state_sealed files fl dg r"
proof -
  obtain h where r: "r = s\<lparr>rs_state_hash := h\<rparr>" and again: "with_state_hash fl dg r = Inr r"
  proof -
    from assms(1) obtain again where run: "(if rs_state_hash s \<noteq> [] then Inr s else with_state_hash fl dg s) = Inr r"
        "with_state_hash fl dg r = Inr again" "rs_state_hash r = rs_state_hash again"
      by (auto simp: resolved_state_def bind_result_Inr split: if_splits)
    obtain h where h: "again = r\<lparr>rs_state_hash := h\<rparr>" by (rule with_state_hashE [OF run(2)])
    have sealed: "with_state_hash fl dg r = Inr r" using run(2,3) unfolding h by simp
    show thesis
    proof (cases "rs_state_hash s = []")
      case True
      with run(1) have "with_state_hash fl dg s = Inr r" by simp
      then show thesis by (rule with_state_hashE) (rule that [OF _ sealed])
    next
      case False
      with run(1) have "r = s\<lparr>rs_state_hash := rs_state_hash s\<rparr>" by simp
      then show thesis by (rule that [OF _ sealed])
    qed
  qed
  have "report_bound files dg r" using assms(3) by (simp add: r report_bound_def split: option.splits)
  with again assms(2) show ?thesis by (simp add: state_sealed_def r)
qed

lemma find_unique:
  "distinct (map f xs) \<Longrightarrow> find (\<lambda>x. f x = d) xs = Some x \<longleftrightarrow> x \<in> set xs \<and> f x = d"
  by (induction xs) auto

lemma filter_unique: "distinct (map f xs) \<Longrightarrow> x \<in> set xs \<Longrightarrow> filter (\<lambda>y. f y = f x) xs = [x]"
  by (induction xs) (auto simp: filter_empty_conv, metis imageI)

lemma sealed_ok:
  assumes "state_sealed files fl dg s"
  shows "state_ok fl s" "state_post_init s = Inr s" "with_state_hash fl dg s = Inr s"
proof -
  show "state_ok fl s" "with_state_hash fl dg s = Inr s" using assms by (simp_all add: state_sealed_def)
  then show "state_post_init s = Inr s" by (auto elim: with_state_hashE)
qed

lemma store_member: "store_ok files fl dg es \<Longrightarrow> e \<in> set es \<Longrightarrow> state_sealed files fl dg e"
  by (simp add: store_ok_def list_all_iff)

text \<open>The date in its name tells a stored state from the others.\<close>

lemma day_names:
  assumes "store_ok files fl dg es" and "state_ok fl r"
  shows "filter (matches_day (date_isoformat (rs_as_of_date r))) (map fst (state_files fl es)) =
    map state_name (filter (\<lambda>e. rs_as_of_date e = rs_as_of_date r) es)"
proof -
  have "map fst (state_files fl es) = map state_name es" by (simp add: state_files_def)
  moreover have "filter (\<lambda>e. matches_day (date_isoformat (rs_as_of_date r)) (state_name e)) es =
      filter (\<lambda>e. rs_as_of_date e = rs_as_of_date r) es"
    using assms(1) by (intro filter_cong refl state_name_matches [OF sealed_ok(1) assms(2)]) (rule store_member)
  ultimately show ?thesis by (simp add: filter_map comp_def)
qed

lemma state_name_eq:
  assumes "state_ok fl s" "state_ok fl t" "state_name s = state_name t"
  shows "rs_as_of_date s = rs_as_of_date t"
  using state_name_day(3) [OF assms(1)] state_name_day(3) [OF assms(2)] assms(3) by simp

lemma state_file:
  assumes "store_ok files fl dg es" and "e \<in> set es"
  shows "map_of (state_files fl es) (state_name e) = Some (state_text fl e)"
proof -
  have "inj_on state_name (set es)"
  proof (rule inj_onI)
    fix s t assume st: "s \<in> set es" "t \<in> set es" "state_name s = state_name t"
    then have "rs_as_of_date s = rs_as_of_date t"
      using sealed_ok(1) [OF store_member [OF assms(1)]] by (intro state_name_eq) auto
    moreover have "inj_on rs_as_of_date (set es)" using assms(1) by (simp add: store_ok_def distinct_map)
    ultimately show "s = t" using st(1,2) by (simp add: inj_on_def)
  qed
  moreover have "distinct es" using assms(1) by (auto simp: store_ok_def distinct_map)
  ultimately have "distinct (map fst (state_files fl es))"
    by (simp add: state_files_def comp_def distinct_map)
  then show ?thesis using assms(2) by (intro map_of_is_SomeI) (auto simp: state_files_def)
qed

lemma check_stored:
  assumes "store_ok files fl dg es" and "e \<in> set es"
  shows "check_existing fl (state_files fl es) (date_isoformat (rs_as_of_date e)) (state_name e) = Inr ()"
proof -
  note ok = sealed_ok(1) [OF store_member [OF assms]]
  have "read_field (canonical_value (JsObject (state_fields e))) ''state_hash'' Inr = Inr (JsStr (rs_state_hash e))"
    using read_canonical_field(1) [OF state_keys state_lookup(29)] by simp
  then have "get_key (canonical_value (JsObject (state_fields e))) ''state_hash'' = Inr (JsStr (rs_state_hash e))"
    unfolding read_field_def by (simp only: bind_result_Inr) simp
  then have "check_existing fl (state_files fl es) day (state_name e) =
      (if state_name e = day @ ''-'' @ rs_state_hash e @ ''.json'' then Inr ()
       else Inl (ValueError ''existing state artifact has a non-content-addressed filename''))" for day
    by (simp add: check_existing_def state_file [OF assms] state_text_reads [OF ok] del: canonical_value.simps)
  then show ?thesis by (simp add: state_name_def)
qed

text \<open>A write is the abstract write.\<close>

lemma write_refines:
  assumes "store_ok files fl dg es" and "state_ok fl s" "report_bound files dg s"
  shows "state_write fl dg (state_files fl es) s =
    (state_files fl (fst (spec_write fl dg es s)), snd (spec_write fl dg es s))"
proof (cases "resolved_state fl dg s")
  case (Inl x)
  then show ?thesis
    by (auto simp: state_write_def spec_write_def resolved_state_def bind_result_def Let_def split: sum.splits if_splits)
next
  case (Inr r)
  note sealed = resolved_sealed [OF Inr assms(2,3)]
  note ok = sealed_ok [OF sealed]
  let ?day = "date_isoformat (rs_as_of_date r)"
  let ?old = "filter (\<lambda>e. rs_as_of_date e = rs_as_of_date r) es"
  have resolved: "(if rs_state_hash s \<noteq> [] then Inr s else with_state_hash fl dg s) = Inr r"
    using Inr by (auto simp: resolved_state_def bind_result_Inr split: if_splits)
  have encoded: "bind_result (canonical_json fl (JsObject (state_fields r))) (\<lambda>text. Inr (text @ [CHR 0x0A])) =
      Inr (state_text fl r)"
    unfolding canonical_json_ok [OF state_json_ok [OF ok(1)]] state_text_def by (rule bind_result_simps)
  have run: "state_write fl dg (state_files fl es) s =
      (case sort (map state_name ?old) of
         [] \<Rightarrow> (AList.update (state_name r) (state_text fl r) (state_files fl es), Inr (state_name r))
       | first # others \<Rightarrow>
           (state_files fl es,
            bind_result (map_result (check_existing fl (state_files fl es) ?day) (first # others)) (\<lambda>_.
            bind_result (read_text (the (map_of (state_files fl es) first))) (\<lambda>stored.
              if others = [] \<and> stored = state_text fl r then Inr first
              else Inl (ValueError ''an immutable state already exists for this date'')))))"
    unfolding state_write_def resolved Let_def
    by (simp add: ok(3) encoded day_names [OF assms(1) ok(1)] del: canonical_json_ok)
  show ?thesis
  proof (cases "find (\<lambda>e. rs_as_of_date e = rs_as_of_date r) es")
    case None
    then have none: "?old = []" by (auto simp: find_None_iff filter_empty_conv)
    have "state_name r \<notin> fst ` set (state_files fl es)"
    proof
      assume "state_name r \<in> fst ` set (state_files fl es)"
      then obtain e where e: "e \<in> set es" "state_name e = state_name r" by (auto simp: state_files_def)
      then have "rs_as_of_date e = rs_as_of_date r"
        using state_name_eq [OF sealed_ok(1) [OF store_member [OF assms(1)]] ok(1)] by blast
      with e(1) none show False by (auto simp: filter_empty_conv)
    qed
    then show ?thesis
      unfolding run none using Inr None by (simp add: spec_write_def update_append state_files_def)
  next
    case (Some e)
    have dates: "distinct (map rs_as_of_date es)" using assms(1) by (simp add: store_ok_def)
    have e: "e \<in> set es" "rs_as_of_date e = rs_as_of_date r" using Some find_unique [OF dates] by blast+
    then have one: "?old = [e]" using filter_unique [OF dates, of e] by simp
    note stored = store_member [OF assms(1) e(1)]
    have check: "check_existing fl (state_files fl es) ?day (state_name e) = Inr ()"
      using check_stored [OF assms(1) e(1)] e(2) by simp
    have same: "state_text fl e = state_text fl r \<longleftrightarrow> e = r"
      by (rule state_text_inj [OF sealed_ok(1) [OF stored] ok(1) sealed_ok(2) [OF stored] ok(2)])
    show ?thesis
      unfolding run one using Inr Some
      by (simp add: check state_file [OF assms(1) e(1)] state_text_reads(1) [OF sealed_ok(1) [OF stored]] same
          spec_write_def)
  qed
qed

lemma spec_write_ok:
  assumes "store_ok files fl dg es" and "state_ok fl s" "report_bound files dg s"
  shows "store_ok files fl dg (fst (spec_write fl dg es s))"
proof (cases "resolved_state fl dg s")
  case (Inr r)
  with assms resolved_sealed [OF Inr assms(2,3)] show ?thesis
    by (auto simp: spec_write_def store_ok_def find_None_iff split: option.splits)
qed (simp add: spec_write_def assms)

text \<open>A load is the abstract load.\<close>

lemma candidates_eq:
  assumes "store_ok files fl dg es"
  shows "state_candidates (state_files fl es) q =
    map (\<lambda>e. (rs_as_of_date e, state_name e)) (filter (\<lambda>e. rs_as_of_date e \<le> q) es)"
proof -
  have "concat (map (\<lambda>e. if matches_state (state_name e)
           then case date_fromisoformat (take 10 (state_name e)) of
               Inr d \<Rightarrow> (if d \<le> q then [(d, state_name e)] else []) | Inl _ \<Rightarrow> []
           else []) xs) =
      map (\<lambda>e. (rs_as_of_date e, state_name e)) (filter (\<lambda>e. rs_as_of_date e \<le> q) xs)"
    if "\<forall>e \<in> set xs. state_ok fl e" for xs
    using that by (induction xs) (simp_all add: state_name_day(2,3) [where fl = fl])
  moreover have "\<forall>e \<in> set es. state_ok fl e" using sealed_ok(1) [OF store_member [OF assms]] by blast
  ultimately show ?thesis by (simp add: state_candidates_def state_files_def comp_def)
qed

lemma load_refines:
  assumes "store_ok files fl dg es"
  shows "load_as_of files fl dg (state_files fl es) q = Inr (spec_load es q)"
proof (cases "filter (\<lambda>e. rs_as_of_date e \<le> q) es = []")
  case True
  then show ?thesis by (simp add: load_as_of_def spec_load_def candidates_eq [OF assms])
next
  case False
  let ?known = "filter (\<lambda>e. rs_as_of_date e \<le> q) es"
  let ?d = "Max (set (map rs_as_of_date ?known))"
  have "?d \<in> set (map rs_as_of_date ?known)" using False by (intro Max_in) (auto simp: filter_empty_conv)
  then obtain e where e: "e \<in> set ?known" "rs_as_of_date e = ?d" by auto
  have dates: "distinct (map rs_as_of_date ?known)"
    using assms by (simp add: store_ok_def distinct_map_filter)
  have es: "e \<in> set es" using e(1) by simp
  have "filter (\<lambda>x. rs_as_of_date x = ?d) ?known = [e]" using filter_unique [OF dates e(1)] e(2) by simp
  moreover have "filter (\<lambda>c. fst c = ?d) (map (\<lambda>x. (rs_as_of_date x, state_name x)) ?known) =
      map (\<lambda>x. (rs_as_of_date x, state_name x)) (filter (\<lambda>x. rs_as_of_date x = ?d) ?known)"
    by (simp only: filter_map comp_def fst_conv)
  ultimately have one: "filter (\<lambda>c. fst c = ?d) (map (\<lambda>x. (rs_as_of_date x, state_name x)) ?known) = [(?d, state_name e)]"
    using e(2) by simp
  have found: "find (\<lambda>x. rs_as_of_date x = ?d) ?known = Some e" using find_unique [OF dates] e by blast
  have "map fst (map (\<lambda>x. (rs_as_of_date x, state_name x)) ?known) = map rs_as_of_date ?known" by simp
  with False one found state_file [OF assms es] load_sealed [OF store_member [OF assms es]] show ?thesis
    unfolding load_as_of_def spec_load_def candidates_eq [OF assms] Let_def by simp
qed

lemma load_exact_refines:
  assumes "store_ok files fl dg es" and "e \<in> set es"
  shows "load_exact files fl dg here (state_files fl es) (here, state_name e) = Inr e"
proof -
  have dates: "distinct (map rs_as_of_date es)" using assms(1) by (simp add: store_ok_def)
  let ?known = "filter (\<lambda>x. rs_as_of_date x \<le> rs_as_of_date e) es"
  have "Max (set (map rs_as_of_date ?known)) = rs_as_of_date e"
    using assms(2) by (intro Max_eqI) auto
  moreover have "find (\<lambda>x. rs_as_of_date x = rs_as_of_date e) ?known = Some e"
    using assms(2) dates by (subst find_unique) (simp_all add: distinct_map_filter)
  moreover have "?known \<noteq> []" using assms(2) by (auto simp: filter_empty_conv)
  ultimately have "spec_load es (rs_as_of_date e) = Some e" by (simp add: spec_load_def)
  then show ?thesis
    using state_name_day(3) [OF sealed_ok(1) [OF store_member [OF assms]]]
    by (simp add: load_exact_def load_refines [OF assms(1)])
qed

section \<open>Runs of writes\<close>

fun state_writes ::
  "float_codec \<Rightarrow> (string \<Rightarrow> string) \<Rightarrow> directory \<Rightarrow> research_state list \<Rightarrow> directory \<times> string result list" where
  "state_writes fl dg dir [] = (dir, [])"
| "state_writes fl dg dir (s # ss) =
     (let (dir1, answer) = state_write fl dg dir s; (dir2, answers) = state_writes fl dg dir1 ss
      in (dir2, answer # answers))"

fun spec_writes ::
  "float_codec \<Rightarrow> (string \<Rightarrow> string) \<Rightarrow> research_state list \<Rightarrow> research_state list \<Rightarrow>
     research_state list \<times> string result list" where
  "spec_writes fl dg es [] = (es, [])"
| "spec_writes fl dg es (s # ss) =
     (let (es1, answer) = spec_write fl dg es s; (es2, answers) = spec_writes fl dg es1 ss
      in (es2, answer # answers))"

definition writable ::
  "(string \<Rightarrow> string option) \<Rightarrow> float_codec \<Rightarrow> (string \<Rightarrow> string) \<Rightarrow> research_state \<Rightarrow> bool" where
  "writable files fl dg s \<longleftrightarrow> state_ok fl s \<and> report_bound files dg s"

lemma writes_refine_all:
  "store_ok files fl dg es \<Longrightarrow> list_all (writable files fl dg) ss \<Longrightarrow>
    state_writes fl dg (state_files fl es) ss =
      (state_files fl (fst (spec_writes fl dg es ss)), snd (spec_writes fl dg es ss)) \<and>
    store_ok files fl dg (fst (spec_writes fl dg es ss))"
proof (induction ss arbitrary: es)
  case (Cons s ss)
  then have s: "state_ok fl s" "report_bound files dg s" by (simp_all add: writable_def)
  note step = write_refines [OF Cons.prems(1) s] and kept = spec_write_ok [OF Cons.prems(1) s]
  show ?case using Cons.IH [OF kept] Cons.prems(2) by (auto simp: step split: prod.splits)
qed simp

lemmas writes_refine = writes_refine_all [THEN conjunct1] and writes_store_ok = writes_refine_all [THEN conjunct2]

text \<open>The store is an append-only log of files.\<close>

interpretation state_log: append_log "\<lambda>dir. dir" "\<lambda>dir s. Inr (fst (state_write fl dg dir s))"
    "writable files fl dg" "\<lambda>dir. \<exists>es. store_ok files fl dg es \<and> dir = state_files fl es"
  for files fl dg
proof
  fix dir s dir'
  assume "\<exists>es. store_ok files fl dg es \<and> dir = state_files fl es" "writable files fl dg s"
    "Inr (fst (state_write fl dg dir s)) = Inr dir'"
  then obtain es where es: "store_ok files fl dg es" "dir = state_files fl es" and
    s: "state_ok fl s" "report_bound files dg s" and dir': "dir' = fst (state_write fl dg dir s)"
    by (auto simp: writable_def)
  have new: "dir' = state_files fl (fst (spec_write fl dg es s))"
    unfolding dir' es(2) write_refines [OF es(1) s] by simp
  with spec_write_ok [OF es(1) s] show "\<exists>es. store_ok files fl dg es \<and> dir' = state_files fl es" by blast
  show "prefix dir dir'"
    unfolding new es(2) by (auto simp: spec_write_def state_files_def split: sum.splits option.splits)
qed

lemma writes_fold:
  "fold_result (\<lambda>dir s. Inr (fst (state_write fl dg dir s))) dir ss = Inr (fst (state_writes fl dg dir ss))"
  by (induction ss arbitrary: dir) (auto split: prod.splits)

section \<open>Checkpoints read back\<close>

lemma checkpoint_key:
  assumes "distinct (map fst ps)" and "map_of ps k = Some v"
  shows "get_key (canonical_value (JsObject ps)) k = Inr (canonical_value v)"
  using read_canonical_field(1) [OF assms, of Inr] unfolding read_field_def by (simp only: bind_result_Inr) simp

lemma checkpoint_written:
  assumes "json_ok fl (JsObject bindings)" and "json_ok fl artifact"
    and "payload = checkpoint_payload (JsStr kind) (JsObject bindings) artifact"
  shows "json_ok fl (JsObject payload)" "json_ok fl (JsObject (payload @ [(''checkpoint_hash'', JsStr digest)]))"
    and "get_key (canonical_value (JsObject (payload @ [(''checkpoint_hash'', JsStr digest)]))) ''checkpoint_hash'' =
      Inr (JsStr digest)"
proof -
  let ?all = "payload @ [(''checkpoint_hash'', JsStr digest)]"
  show "json_ok fl (JsObject payload)" "json_ok fl (JsObject ?all)"
    using assms(1,2) by (simp_all add: assms(3) checkpoint_payload_def)
  have "distinct (map fst ?all)" by (simp add: assms(3) checkpoint_payload_def)
  from checkpoint_key [OF this, of "''checkpoint_hash''" "JsStr digest"]
  show "get_key (canonical_value (JsObject ?all)) ''checkpoint_hash'' = Inr (JsStr digest)"
    by (simp add: assms(3) checkpoint_payload_def del: canonical_value.simps(2))
qed

lemma write_checkpoint_eq:
  assumes "json_ok fl (JsObject bindings)" and "json_ok fl artifact"
    and "payload = checkpoint_payload (JsStr kind) (JsObject bindings) artifact"
    and "digest = dg (json_text fl (JsObject payload))"
    and "encoded = json_text fl (JsObject (payload @ [(''checkpoint_hash'', JsStr digest)])) @ [CHR 0x0A]"
  shows "write_checkpoint fl dg dir kind bindings artifact =
    (case map_of dir (kind @ ''-'' @ digest @ ''.json'') of
       Some content \<Rightarrow> (dir, bind_result (read_text content) (\<lambda>t.
          if t \<noteq> encoded then Inl (ValueError ''checkpoint content conflict'')
          else Inr (kind @ ''-'' @ digest @ ''.json'')))
     | None \<Rightarrow> (AList.update (kind @ ''-'' @ digest @ ''.json'') encoded dir, Inr (kind @ ''-'' @ digest @ ''.json'')))"
proof -
  note ok = checkpoint_written(1) [OF assms(1-3)] checkpoint_written(2,3) [OF assms(1-3), of digest]
  have hashed: "bind_result (canonical_sha256 fl dg (JsObject payload)) (\<lambda>digest.
      bind_result (canonical_json fl (JsObject (payload @ [(''checkpoint_hash'', JsStr digest)])))
        (\<lambda>text. Inr (digest, text @ [CHR 0x0A]))) = Inr (digest, encoded)"
    using ok by (simp add: canonical_sha256_def assms(4,5) del: json_ok.simps json_text.simps)
  show ?thesis
    unfolding write_checkpoint_def Let_def assms(3) [symmetric] hashed using ok(3)
    by (simp add: assms(5) read_json_line [OF ok(2)] json_loads_newline [OF ok(2)] split: option.splits
        del: json_ok.simps json_text.simps canonical_value.simps)
qed

lemma write_checkpoint_fresh:
  assumes "json_ok fl (JsObject bindings)" and "json_ok fl artifact"
  shows "\<exists>dir name. write_checkpoint fl dg [] kind bindings artifact = (dir, Inr name)"
  using write_checkpoint_eq [where dg = dg and dir = "[]", OF assms refl refl refl] by auto

lemma load_written_checkpoint:
  assumes "json_ok fl (JsObject bindings)" and "json_ok fl artifact"
    and "payload = checkpoint_payload (JsStr kind) (JsObject bindings) artifact"
    and "digest = dg (json_text fl (JsObject payload))"
    and "read_text content = Inr (json_text fl (JsObject (payload @ [(''checkpoint_hash'', JsStr digest)])) @ [CHR 0x0A])"
  shows "load_checkpoint fl dg content expected =
    (if py_equal (canonical_value (JsObject bindings)) (JsObject expected) then Inr (canonical_value artifact)
     else Inl (ValueError ''checkpoint bindings do not match current inputs''))"
proof -
  let ?all = "payload @ [(''checkpoint_hash'', JsStr digest)]"
  have keys: "distinct (map fst ?all)" by (simp add: assms(3) checkpoint_payload_def)
  note ok = checkpoint_written(2) [OF assms(1-3), of digest]
  note look = checkpoint_key [OF keys]
  have get: "get_key (canonical_value (JsObject ?all)) ''bindings'' = Inr (canonical_value (JsObject bindings))"
    "get_key (canonical_value (JsObject ?all)) ''kind'' = Inr (JsStr kind)"
    "get_key (canonical_value (JsObject ?all)) ''artifact'' = Inr (canonical_value artifact)"
    "get_key (canonical_value (JsObject ?all)) ''checkpoint_hash'' = Inr (JsStr digest)"
    using look [of "''bindings''"] look [of "''kind''" "JsStr kind"] look [of "''artifact''"]
      look [of "''checkpoint_hash''" "JsStr digest"]
    by (simp_all add: assms(3) checkpoint_payload_def del: canonical_value.simps(2))
  let ?read = "JsObject (checkpoint_payload (JsStr kind) (canonical_value (JsObject bindings)) (canonical_value artifact))"
  have "canonical_value ?read = canonical_value (JsObject payload)"
    by (simp add: assms(3) checkpoint_payload_def)
  then have same: "json_text fl ?read = json_text fl (JsObject payload)"
    using json_text_canonical by metis
  have "json_ok fl ?read"
    using json_ok_canonical [OF assms(1)] json_ok_canonical [OF assms(2)]
    by (simp add: checkpoint_payload_def del: canonical_value.simps)
  then have "canonical_sha256 fl dg ?read = Inr digest"
    by (simp add: canonical_sha256_def same assms(4) del: json_text.simps canonical_value.simps)
  then show ?thesis
    unfolding load_checkpoint_def assms(5) bind_result_simps json_loads_newline [OF ok] get by simp
qed

lemma numeric_canonical [simp]: "canonical_value (numeric (canonical_value v)) = canonical_value (numeric v)"
proof (induction v)
  case (JsObject ps)
  then have "map_values (\<lambda>v. canonical_value (numeric (canonical_value v))) (sort_key fst ps) =
      map_values (\<lambda>v. canonical_value (numeric v)) (sort_key fst ps)"
    by (intro map_values_cong refl) (auto dest: pair_member)
  then show ?case by simp
qed simp_all

lemma json_ok_no_nan: "json_ok fl v \<Longrightarrow> \<not> has_nan v"
  by (induction v) (fastforce simp: list_all_iff list_ex_iff dest: pair_member)+

lemma py_equal_self:
  "json_ok fl (JsObject bindings) \<Longrightarrow> py_equal (canonical_value (JsObject bindings)) (JsObject bindings)"
  unfolding py_equal_def using json_ok_no_nan [OF json_ok_canonical] numeric_canonical by blast

section \<open>Properties\<close>

text \<open>C16: the state store keeps one immutable state per date. Whatever states are written, with floats and
  dates that have a text and their report in place, the store answers as an abstract list in which
  the first state of a date stays: writing it again succeeds and another one is refused. A load for any
  date returns exactly the state of the greatest date up to it, a load by path exactly that file's
  state, and later writes leave every file as it is.\<close>

theorem state_store_exact:
  assumes "list_all (writable files fl dg) ss" and "state_writes fl dg [] ss = (dir, answers)"
    and "spec_writes fl dg [] ss = (es, expected)"
  shows "answers = expected \<and> dir = state_files fl es \<and> distinct (map rs_as_of_date es) \<and>
    (\<forall>date. load_as_of files fl dg dir date = Inr (spec_load es date)) \<and>
    (\<forall>e \<in> set es. load_exact files fl dg here dir (here, state_name e) = Inr e) \<and>
    (\<forall>more. list_all (writable files fl dg) more \<longrightarrow> prefix dir (fst (state_writes fl dg dir more)))"
proof -
  have empty: "store_ok files fl dg []" "[] = state_files fl []" by (simp_all add: store_ok_def state_files_def)
  have run: "answers = expected" "dir = state_files fl es"
    using writes_refine [OF empty(1) assms(1)] assms(2,3) by (simp_all add: state_files_def)
  have ok: "store_ok files fl dg es" using writes_store_ok [OF empty(1) assms(1)] assms(3) by simp
  have "prefix dir (fst (state_writes fl dg dir more))" if "list_all (writable files fl dg) more" for more
    using state_log.run_prefix [OF _ that writes_fold] ok run(2) by blast
  with run ok show ?thesis by (simp add: load_refines load_exact_refines) (simp add: store_ok_def)
qed


text \<open>Two states for one day, then a later one; and a checkpoint.\<close>

definition example_state :: "date \<Rightarrow> string list \<Rightarrow> research_state" where
  "example_state d active =
     \<lparr>rs_as_of_date = d, rs_intended_for_session = d + 1, rs_active_hypotheses = active,
      rs_lifecycle = [(''alpha-1'', ''STABLE'')], rs_evidence_grades = [(''alpha-1'', ''E3'')],
      rs_coefficient_estimates = [(''ofi'', 1 / 2)], rs_shrinkage_state = [], rs_regime_models = [],
      rs_performance_history_hash = ''p'', rs_dormant_hypotheses = [], rs_parameter_surface_hashes = [],
      rs_model_weights = [], rs_source_ledger_hash = ''l'', rs_plan_hash = [], rs_planned_hypothesis_ids = [],
      rs_source_prefix_manifest = [], rs_derivation_prefixes = [], rs_policy_fingerprint = [],
      rs_historical_effects = [(''alpha-1'', [1 / 2])], rs_diagnostic_hashes = [], rs_block_bootstrap_hashes = [],
      rs_historical_coefficients = [], rs_evidence_mode = ''live_shadow'', rs_published_at = [],
      rs_publication_event_hash = [], rs_report_path = [], rs_report_sha256 = [], rs_report_manifest_sha256 = [],
      rs_state_hash = []\<rparr>"

lemma resolved_fresh:
  assumes "rs_state_hash s = []" and "state_ok fl s" and "first_error (state_checks s) = None"
  shows "resolved_state fl dg s = Inr (s\<lparr>rs_state_hash := dg (json_text fl (JsObject (state_fields s)))\<rparr>)"
proof -
  have same: "state_checks (s\<lparr>rs_state_hash := h\<rparr>) = state_checks s" for h
    by (simp add: state_checks_def scientific_digests_def)
  have empty: "s\<lparr>rs_state_hash := []\<rparr> = s" using assms(1) by (cases s) simp
  have "with_state_hash fl dg (s\<lparr>rs_state_hash := h\<rparr>) =
      Inr (s\<lparr>rs_state_hash := dg (json_text fl (JsObject (state_fields s)))\<rparr>)" for h
    using canonical_json_ok [OF state_json_ok [OF assms(2)]]
    by (simp add: with_state_hash_def canonical_sha256_def state_post_init_def same assms(3) empty
        del: canonical_json_ok json_text.simps)
  from this [of "[]"] this show ?thesis by (simp add: resolved_state_def assms(1) empty del: json_text.simps)
qed

lemma example_state_ok:
  assumes "1 \<le> d" "d < 3652059"
  shows "state_ok example_floats (example_state d active)" "report_bound files dg (example_state d active)"
    "first_error (state_checks (example_state d active)) = None" "rs_state_hash (example_state d active) = []"
proof -
  have "float_ok example_floats (1 / 2)" by code_simp
  then show "state_ok example_floats (example_state d active)"
    using assms by (simp add: state_ok_def state_floats_def example_state_def date_valid_def max_ordinal_def)
qed (simp_all add: report_bound_def example_state_def state_checks_def scientific_digests_def)

definition example_sealed :: "date \<Rightarrow> string list \<Rightarrow> research_state" where
  "example_sealed d active =
     (example_state d active)\<lparr>rs_state_hash :=
        to_hex (json_text example_floats (JsObject (state_fields (example_state d active))))\<rparr>"

lemma example_sealed_fields:
  "rs_as_of_date (example_sealed d active) = d" "rs_active_hypotheses (example_sealed d active) = active"
  by (simp_all add: example_sealed_def example_state_def)

lemma example_writes_spec:
  "spec_writes example_floats to_hex []
     [example_state 739854 [''a''], example_state 739854 [''b''], example_state 739860 [''c'']] =
   ([example_sealed 739854 [''a''], example_sealed 739860 [''c'']],
    [Inr (state_name (example_sealed 739854 [''a''])),
     Inl (ValueError ''an immutable state already exists for this date''),
     Inr (state_name (example_sealed 739860 [''c'']))])"
proof -
  have fresh: "resolved_state example_floats to_hex (example_state d active) = Inr (example_sealed d active)"
    if "1 \<le> d" "d < 3652059" for d active
    using resolved_fresh [OF example_state_ok(4,1,3)] that by (simp add: example_sealed_def)
  have "example_sealed 739854 [''a''] \<noteq> example_sealed 739854 [''b'']"
    using example_sealed_fields(2) [of 739854 "[''a'']"] example_sealed_fields(2) [of 739854 "[''b'']"] by auto
  then show ?thesis by (simp add: spec_write_def fresh example_sealed_fields(1))
qed

theorem state_store_exact_witness:
  "\<exists>dir answers.
     state_writes example_floats to_hex []
       [example_state 739854 [''a''], example_state 739854 [''b''], example_state 739860 [''c'']] = (dir, answers) \<and>
     answers ! 1 = Inl (ValueError ''an immutable state already exists for this date'') \<and>
     load_as_of (\<lambda>p. None) example_floats to_hex dir 739850 = Inr None \<and>
     load_as_of (\<lambda>p. None) example_floats to_hex dir 739859 = Inr (Some (example_sealed 739854 [''a'']))"
proof -
  let ?ss = "[example_state 739854 [''a''], example_state 739854 [''b''], example_state 739860 [''c'']]"
  obtain dir answers where run: "state_writes example_floats to_hex [] ?ss = (dir, answers)" by fastforce
  have "list_all (writable (\<lambda>p. None) example_floats to_hex) ?ss"
    by (simp add: writable_def example_state_ok)
  note exact = state_store_exact [where here = "[]", OF this run example_writes_spec]
  have answers: "answers = [Inr (state_name (example_sealed 739854 [''a''])),
      Inl (ValueError ''an immutable state already exists for this date''),
      Inr (state_name (example_sealed 739860 [''c'']))]"
    and loads: "load_as_of (\<lambda>p. None) example_floats to_hex dir date =
      Inr (spec_load [example_sealed 739854 [''a''], example_sealed 739860 [''c'']] date)" for date
    using exact by blast+
  have spec: "spec_load [example_sealed 739854 [''a''], example_sealed 739860 [''c'']] 739850 = None"
      "spec_load [example_sealed 739854 [''a''], example_sealed 739860 [''c'']] 739859 =
        Some (example_sealed 739854 [''a''])"
    by (simp_all add: spec_load_def example_sealed_fields)
  show ?thesis
  proof (intro exI conjI)
    show "state_writes example_floats to_hex [] ?ss = (dir, answers)" by (rule run)
    show "answers ! 1 = Inl (ValueError ''an immutable state already exists for this date'')"
      by (simp add: answers)
  qed (simp_all add: loads spec)
qed


end
