(* ===== verification/Spec2Isabelle.thy ===== *)
theory Spec2Isabelle
  imports Trade_Direction Catalog Tape_Store Tape_Tail Segment_Writer Live_Stream Stream_Runs
    Ledger_Snapshot Multiplicity Lifecycle Research_Contracts State_Store
begin

text \<open>
  Shaurya records the market data of an Indian broker, keeps it in verifiable datasets and hands it to
  research code, whose findings go into an evidence ledger. This development models the data side of
  the repository, \<open>data/src/shaurya\<close>, and the evidence core of its research side,
  \<open>research/src/shaurya/research\<close>: the contracts of an evaluation, the ledger, the daily state store, the
  multiplicity correction and the life cycle of a hypothesis. It proves what makes the parts and their compositions correct.

  \<^bold>\<open>The parts and how they interact.\<close> The broker's binary messages are decoded (\<open>data/dhan_stream.py\<close>,
  theory \<open>Dhan_Packets\<close>) for the instruments of a security master (\<open>contracts/instruments.py\<close>, theory
  \<open>Instruments\<close>). The supervised stream (same file, theory \<open>Dhan_Stream\<close>) keeps the books, the quality
  flags, the reconnect state and the backoff, and builds tape rows (\<open>contracts/tape.py\<close>, theory
  \<open>Tape_Contract\<close>), which the trade classifier (\<open>data/trade_direction.py\<close>, theory \<open>Trade_Direction\<close>)
  enriches on their way to the sink. Rows are stored as JSON lines with a seek index
  (\<open>data/tape.py\<close>, theory \<open>Tape_Store\<close>), followed while they grow (\<open>CompleteLineJsonlTail\<close>, theory
  \<open>Tape_Tail\<close>), or written as Parquet segments (\<open>data/parquet.py\<close>, theories \<open>Parquet_Rows\<close> and
  \<open>Segment_Writer\<close>); a local publisher streams the latest row of every instrument to its
  subscribers (\<open>data/live_stream.py\<close>, theory \<open>Live_Stream\<close>). The dataset contracts
  (\<open>contracts/data.py\<close>, theory \<open>Data_Contract\<close>) describe requests, segments and dataset handles, and the
  catalogue (\<open>data/catalog.py\<close>, theories \<open>Catalog_Events\<close> and \<open>Catalog\<close>) keeps their life cycle as
  digest-chained event fragments. Research results are appended to the evidence ledger
  (\<open>EvidenceLedger\<close>, theories \<open>Ledger\<close> and \<open>Ledger_Append\<close>), a hash-chained file of canonical JSON
  lines (\<open>canonical_json\<close> of \<open>research/contracts.py\<close>, theory \<open>Json_Text\<close>) whose appends are journalled;
  \<open>materialize_snapshot\<close> (theory \<open>Ledger_Snapshot\<close>) publishes it as a content-addressed JSON or Parquet
  file. A hypothesis has an identity computed from its meaning, and is judged on rows that join the
  features known at an anchor to the target measured after it (\<open>research/contracts.py\<close>, theory
  \<open>Research_Contracts\<close>). What a day of research leaves for the next is one immutable file per date
  (\<open>research/state.py\<close>, theory \<open>State_Store\<close>). The p-values of an experiment are adjusted per family and over all hypotheses
  (\<open>research/multiplicity.py\<close>, theory \<open>Multiplicity\<close>), and the recorded evidence of each hypothesis earns it
  a status and a grade day by day (\<open>assess_lifecycle\<close> of \<open>research/evidence.py\<close>, theory \<open>Lifecycle\<close>).

  \<^bold>\<open>Theories.\<close> \<open>Prelude\<close> holds exceptions as values, datetimes, Python strings, dicts as association lists
  and the generic lemmas; \<open>Json_Values\<close> the JSON values and their conversions; \<open>Calendar\<close> the text of a date, with its round
  trip. \<open>Append_Log\<close> states the
  contract of every append-only store as the locales \<open>append_log\<close> and \<open>checked_log\<close>, interpreted on the
  catalogue, the segmented writer, the follower, the live stream's rows, the evidence ledger and the state store;
  \<open>row_processor\<close> in \<open>Stream_Runs\<close> is what the stream asks of its classifier, interpreted on
  \<open>Trade_Direction.process\<close>. \<open>Stream_Runs\<close> composes packets, stream and classifier into runs of events.
  In each theory a record is the state of the class of the same name (its fields carry a two-letter
  prefix), a function is the method of the same name, and a \<open>_post_init\<close>, \<open>_validate\<close> or \<open>_checks\<close>
  function is the class's own validation with its errors in the order of the code. An operation of
  the ledger yields, beside its result, the list of durable disk states it passes through, one per
  byte written, so that a crash is the choice of one of them.

  \<^bold>\<open>What the lemma groups show.\<close> Round trips: tape rows through dictionaries, JSON lines and Parquet;
  the writer's rows through the strict reader; JSON values through their canonical text; ledger rows
  through the hand-written Parquet bytes and an independent Thrift reader. Equivalence and refinement:
  the bounded classifier against one that rescans the history; indexed against full reads; the
  follower against the complete lines of the file, however it is cut into polls; the books of the
  stream against the rows of the current connection; the subscriber's view against the latest rows;
  resumed against uninterrupted datasets; ledger appends with crashes against an atomic list of
  entries; the adjusted p-values against the textbook step-up procedure; the state store against a list in which
  the first state of a date stays. Invariants and safety: life
  cycles move forward, published segments partition the receive sequences, a digest chain binds its history, ledger evidence is kept, tamper evident and
  recorded once however often an append is retried, a hypothesis is promoted only on the evidence
  its policy asks for and never by later evidence, rejection is final, an evaluation row never looks
  ahead, aliases of a hypothesis share its identity and different hypotheses do not, reconnects are marked once,
  delivered rows are valid and ordered. Termination, liveness and bounds: draining ends and catches up, a woken
  client is up to date, packets stay within their frame and depth, segments within their rotation
  limits, retry delays within their cap.

  \<^bold>\<open>Modelling choices.\<close> Finite floats and decimals are rationals, arithmetic on floats is exact except in
  \<open>Multiplicity\<close>, where the rounding is a parameter, and text conversions of them are exact;
  a float that is not finite exists only in the packet decoder, in the research theories and as a
  JSON value, a zero has no sign, and the stream's
  properties assume finite last prices. Integers are unbounded as in Python; bytes on the wire are
  8-bit words. Loops of the data side are structural or have a measure (the bytes left of a message,
  of a file, or of a list). The JSON parser of \<open>Json_Text\<close> takes a fuel of twice the length of the
  text and two more, which \<open>parse_enough_fuel\<close> shows to be as good as any larger amount; the Thrift
  reader of \<open>Ledger_Snapshot\<close> is a specification, and the snapshot round trip proves that its fuel
  suffices for what the writer writes. Strings of the ledger hold characters up to U+00FF. Clock
  readings, random jitter, authentication tokens and the choice of what happens next are arguments or
  steps. SHA-256, gzip, the text of a float (\<open>float_codec\<close>), the byte size of a row, \<open>pyarrow\<close>'s table
  writer, the JSON text of tape rows and the parsing of dates and numbers in CSV columns are
  parameters; what a property needs of them is a named hypothesis (for instance \<open>table_contract\<close>: a
  written table reads back), and every such property has a witness with a concrete instance.

  \<^bold>\<open>Not modelled.\<close> File locks, fsync, permissions and I/O failures (a ledger operation runs with its lock
  held, and what it has written is durable in the order of the writes); sockets, asyncio scheduling
  and process supervision; the REST client, the dataset access layer and the command lines, which
  are glue around services and the file system; the Kotak scrip master; the research packages
  (\<open>research/src/shaurya\<close>) other than the parts above, whose bulk is floating-point work on numpy,
  pandas and scipy; the C++ execution engine and its operations scripts.
\<close>

end
